(* ===== verification/Prelude.thy ===== *)
theory Prelude
  imports
    Main
    "HOL-Library.AList"
    "HOL-Library.Char_ord"
    "HOL-Library.List_Lexorder"
    "HOL-Library.Product_Lexorder"
    "HOL-Library.Option_ord"
begin

text \<open>
  Shared vocabulary of the development.

  \<^item> Time. The store writes every timestamp in one fixed-width UTC layout, chosen so that
    string comparison is chronological (\<open>internal/db/store.go\<close>, \<open>TimestampLayout\<close>). Instants
    are therefore modelled as \<^typ>\<open>int\<close> nanoseconds and compared directly; durations
    (\<open>time.Duration\<close>) are nanoseconds too, with the 64-bit wrap-around written out where the code
    multiplies them.
  \<^item> SQL. A table is the list of its rows in insertion order; \<open>UPDATE \<dots> WHERE\<close>, \<open>DELETE\<close>,
    \<open>SELECT \<dots> ORDER BY \<dots> LIMIT 1\<close>, \<open>RowsAffected\<close> and \<open>INSERT\<close> with its uniqueness constraints
    are functions on such lists. Every store operation runs in one transaction of SQLite's single
    writer and rolls back on error, so an operation is a function from the database to an error
    or to a result with the new database.
  \<^item> Go strings. \<open>strings.TrimSpace\<close>, \<open>ToLower\<close>, \<open>HasPrefix\<close>, \<open>Contains\<close> on ASCII bytes.
  \<^item> Transition systems, as a locale that turns a preserved invariant into a property of every
    reachable state.
\<close>

section \<open>Types and collections of rules\<close>

type_synonym time = int
type_synonym duration = int
type_synonym text_col = string

named_theorems sql_simps
named_theorems go_defs

abbreviation second :: duration where "second \<equiv> 1000000000"

section \<open>Errors as values\<close>

datatype err =
    ErrNoRows
  | ErrConstraint
  | ErrAttemptFenced
  | ErrResultConflict
  | ErrUploadCapacityFenced
  | ErrRegistrationFenced
  | ErrRegistrationCancelTooLate
  | ErrMultipartFenced
  | ErrCanceledObjectFenced
  | ErrCommitClaimLost
  | ErrActiveDatasetRun
  | ErrLeadershipHeld
  | ErrNotLeader
  | ErrStaleMaster
  | ErrMsg string

type_synonym 'a res = "err + 'a"

definition rbind :: "'a res \<Rightarrow> ('a \<Rightarrow> 'b res) \<Rightarrow> 'b res" where
  "rbind m f = (case m of Inl e \<Rightarrow> Inl e | Inr x \<Rightarrow> f x)"

lemma rbind_Inl [simp]: "rbind (Inl e) f = Inl e"
  and rbind_Inr [simp]: "rbind (Inr x) f = f x"
  by (simp_all add: rbind_def)

lemma rbind_eq_Inr_iff: "rbind m f = Inr y \<longleftrightarrow> (\<exists>x. m = Inr x \<and> f x = Inr y)"
  by (cases m) auto

lemma rbind_eq_InrE [elim!]:
  assumes "rbind m f = Inr y"
  obtains x where "m = Inr x" "f x = Inr y"
  using assms by (auto simp: rbind_eq_Inr_iff)

definition guard_or :: "bool \<Rightarrow> err \<Rightarrow> unit res" where
  "guard_or b e = (if b then Inr () else Inl e)"

lemma guard_or_Inr_iff [simp]: "guard_or b e = Inr u \<longleftrightarrow> b"
  by (simp add: guard_or_def)

definition of_row :: "err \<Rightarrow> 'a option \<Rightarrow> 'a res" where
  "of_row e r = (case r of None \<Rightarrow> Inl e | Some x \<Rightarrow> Inr x)"

lemma of_row_Inr_iff [simp]: "of_row e r = Inr x \<longleftrightarrow> r = Some x"
  by (cases r) (simp_all add: of_row_def)

lemma of_row_simps [simp]: "of_row e None = Inl e" "of_row e (Some x) = Inr x"
  by (simp_all add: of_row_def)

text \<open>A loop over a list that stops at the first error.\<close>

fun foldM :: "('a \<Rightarrow> 's \<Rightarrow> 's res) \<Rightarrow> 'a list \<Rightarrow> 's \<Rightarrow> 's res" where
  "foldM f [] s = Inr s"
| "foldM f (x # xs) s = rbind (f x s) (foldM f xs)"

lemma foldM_inv:
  assumes "foldM f xs s = Inr t" "P s" "\<And>x s t. x \<in> set xs \<Longrightarrow> P s \<Longrightarrow> f x s = Inr t \<Longrightarrow> P t"
  shows "P t"
  using assms
proof (induction xs arbitrary: s)
  case (Cons x xs)
  then obtain u where u: "f x s = Inr u" "foldM f xs u = Inr t" by auto
  show ?case by (rule Cons.IH [OF u(2)]) (use Cons.prems u(1) in auto)
qed simp

lemma foldM_append: "foldM f (xs @ ys) s = rbind (foldM f xs s) (foldM f ys)"
  by (induction xs arbitrary: s) (auto simp: rbind_def split: sum.splits)

lemma foldM_split:
  assumes "foldM f xs s = Inr t" "x \<in> set xs"
  obtains ys zs u v where "xs = ys @ x # zs" "x \<notin> set ys" "foldM f ys s = Inr u" "f x u = Inr v" "foldM f zs v = Inr t"
proof -
  obtain ys zs where x: "xs = ys @ x # zs" "x \<notin> set ys" using split_list_first [OF assms(2)] by blast
  then show ?thesis using assms(1) that by (auto simp: foldM_append)
qed

section \<open>SQL tables as lists of rows\<close>

definition update_where :: "('r \<Rightarrow> bool) \<Rightarrow> ('r \<Rightarrow> 'r) \<Rightarrow> 'r list \<Rightarrow> 'r list" where
  "update_where p f xs = map (\<lambda>r. if p r then f r else r) xs"

definition rows_affected :: "('r \<Rightarrow> bool) \<Rightarrow> 'r list \<Rightarrow> nat" where
  "rows_affected p xs = length (filter p xs)"

definition select_one :: "('r \<Rightarrow> bool) \<Rightarrow> 'r list \<Rightarrow> 'r option" where
  "select_one p xs = find p xs"

definition select_first_by :: "('r \<Rightarrow> 'k::linorder) \<Rightarrow> ('r \<Rightarrow> bool) \<Rightarrow> 'r list \<Rightarrow> 'r option" where
  "select_first_by k p xs = (case sort_key k (filter p xs) of [] \<Rightarrow> None | r # _ \<Rightarrow> Some r)"

definition insert_row :: "('r \<Rightarrow> 'r \<Rightarrow> bool) \<Rightarrow> 'r \<Rightarrow> 'r list \<Rightarrow> 'r list res" where
  "insert_row conflict r xs = (if list_ex (conflict r) xs then Inl ErrConstraint else Inr (xs @ [r]))"

definition insert_or_ignore :: "('r \<Rightarrow> 'r \<Rightarrow> bool) \<Rightarrow> 'r \<Rightarrow> 'r list \<Rightarrow> 'r list" where
  "insert_or_ignore conflict r xs = (if list_ex (conflict r) xs then xs else xs @ [r])"

definition coalesce :: "'a option \<Rightarrow> 'a \<Rightarrow> 'a" where
  "coalesce x d = (case x of None \<Rightarrow> d | Some v \<Rightarrow> v)"

lemma coalesce_simps [simp]: "coalesce None d = d" "coalesce (Some v) d = v"
  by (simp_all add: coalesce_def)

lemma update_where_Nil [simp]: "update_where p f [] = []"
  by (simp add: update_where_def)

lemma update_where_Cons [simp]:
  "update_where p f (x # xs) = (if p x then f x else x) # update_where p f xs"
  by (simp add: update_where_def)

lemma length_update_where [simp]: "length (update_where p f xs) = length xs"
  by (simp add: update_where_def)

lemma in_update_where [sql_simps]:
  "r \<in> set (update_where p f xs) \<longleftrightarrow> (\<exists>x \<in> set xs. r = (if p x then f x else x))"
  by (auto simp: update_where_def)

lemma in_update_whereE:
  assumes "r \<in> set (update_where p f xs)"
  obtains x where "x \<in> set xs" "r = (if p x then f x else x)"
  using assms by (force simp: update_where_def)

lemma in_update_whereI: "x \<in> set xs \<Longrightarrow> (if p x then f x else x) \<in> set (update_where p f xs)"
  by (force simp: update_where_def)

lemma update_where_keepI: "x \<in> set xs \<Longrightarrow> \<not> p x \<Longrightarrow> x \<in> set (update_where p f xs)"
  by (force simp: update_where_def)

lemma update_where_hitI: "x \<in> set xs \<Longrightarrow> p x \<Longrightarrow> f x \<in> set (update_where p f xs)"
  by (force simp: update_where_def)

lemma update_where_key:
  assumes "\<And>r. key (f r) = key r"
  shows "map key (update_where p f xs) = map key xs"
  using assms by (induction xs) auto

lemma update_where_none:
  assumes "\<And>r. r \<in> set xs \<Longrightarrow> \<not> p r"
  shows "update_where p f xs = xs"
  using assms by (induction xs) auto

lemma update_where_union:
  assumes "\<And>r. \<not> q (f r)"
  shows "update_where q f (update_where p f xs) = update_where (\<lambda>r. p r \<or> q r) f xs"
  using assms by (induction xs) auto

lemma update_where_cong:
  assumes "\<And>r. r \<in> set xs \<Longrightarrow> p r = q r"
  shows "update_where p f xs = update_where q f xs"
  using assms by (induction xs) auto

lemma rows_affected_zero [sql_simps]: "rows_affected p xs = 0 \<longleftrightarrow> (\<forall>r \<in> set xs. \<not> p r)"
  by (simp add: rows_affected_def filter_empty_conv)

lemma rows_affected_pos [sql_simps]: "0 < rows_affected p xs \<longleftrightarrow> (\<exists>r \<in> set xs. p r)"
  using rows_affected_zero [of p xs] by (auto simp: neq0_conv [symmetric] simp del: neq0_conv)

lemma rows_affected_oneD: "rows_affected p xs = 1 \<Longrightarrow> \<exists>r \<in> set xs. p r"
  using rows_affected_pos [of p xs] by simp

lemma select_one_SomeD [dest]: "select_one p xs = Some r \<Longrightarrow> r \<in> set xs \<and> p r"
  by (auto simp: select_one_def find_Some_iff)

lemma select_one_NoneD: "select_one p xs = None \<longleftrightarrow> (\<forall>r \<in> set xs. \<not> p r)"
  by (auto simp: select_one_def find_None_iff)

lemma select_first_by_SomeD:
  assumes "select_first_by k p xs = Some r"
  shows "r \<in> set xs" "p r" "\<And>y. y \<in> set xs \<Longrightarrow> p y \<Longrightarrow> k r \<le> k y"
proof -
  obtain ys where ys: "sort_key k (filter p xs) = r # ys"
    using assms by (auto simp: select_first_by_def split: list.splits)
  have s: "set (r # ys) = set (filter p xs)"
    by (metis ys set_sort)
  show "r \<in> set xs" "p r" using s by auto
  have "sorted (map k (r # ys))" by (metis ys sorted_sort_key)
  then show "k r \<le> k y" if "y \<in> set xs" "p y" for y
    using that s by (cases "y = r") auto
qed

lemma select_first_by_NoneD: "select_first_by k p xs = None \<longleftrightarrow> (\<forall>r \<in> set xs. \<not> p r)"
proof -
  have "sort_key k (filter p xs) = [] \<longleftrightarrow> filter p xs = []"
    by (metis set_empty set_sort)
  then show ?thesis
    by (auto simp: select_first_by_def filter_empty_conv split: list.splits)
qed

lemma select_first_by_ex:
  "(\<exists>r. select_first_by k p xs = Some r) \<longleftrightarrow> (\<exists>r \<in> set xs. p r)"
  using select_first_by_NoneD [of k p xs] by (cases "select_first_by k p xs") auto

lemma insert_row_Inr_iff [simp]:
  "insert_row c r xs = Inr ys \<longleftrightarrow> ys = xs @ [r] \<and> (\<forall>x \<in> set xs. \<not> c r x)"
  by (auto simp: insert_row_def list_ex_iff)

lemma insert_or_ignore_superset: "set xs \<subseteq> set (insert_or_ignore c r xs)"
  by (auto simp: insert_or_ignore_def)

lemma insert_or_ignore_set: "set (insert_or_ignore c r xs) \<subseteq> insert r (set xs)"
  by (auto simp: insert_or_ignore_def)

text \<open>A keyed table: its rows are determined by a primary key.\<close>

definition keyed :: "('r \<Rightarrow> 'k) \<Rightarrow> 'r list \<Rightarrow> bool" where
  "keyed key xs \<longleftrightarrow> distinct (map key xs)"

lemma keyed_unique:
  assumes "keyed key xs" "r \<in> set xs" "s \<in> set xs" "key r = key s"
  shows "r = s"
  using assms unfolding keyed_def distinct_map inj_on_def by blast

lemma keyed_update_where:
  assumes "keyed key xs" "\<And>r. key (f r) = key r"
  shows "keyed key (update_where p f xs)"
  using assms update_where_key [of key f p xs] by (simp add: keyed_def)

lemma keyed_append:
  assumes "keyed key xs" "\<And>x. x \<in> set xs \<Longrightarrow> key r \<noteq> key x"
  shows "keyed key (xs @ [r])"
  using assms by (auto simp: keyed_def)

lemma keyed_select_one:
  assumes "keyed key xs" "r \<in> set xs" "p r" "\<And>s. s \<in> set xs \<Longrightarrow> p s \<Longrightarrow> key s = key r"
  shows "select_one p xs = Some r"
proof (cases "select_one p xs")
  case None
  then show ?thesis using assms(2,3) by (auto simp: select_one_NoneD)
next
  case (Some s)
  then have "s \<in> set xs" "p s" by auto
  then have "s = r" using assms by (metis keyed_unique)
  then show ?thesis using Some by simp
qed

lemma filter_keyed_le1:
  assumes "keyed key xs" "\<And>r s. r \<in> set xs \<Longrightarrow> s \<in> set xs \<Longrightarrow> p r \<Longrightarrow> p s \<Longrightarrow> key r = key s"
  shows "length (filter p xs) \<le> 1"
  using assms
proof (induction xs)
  case (Cons x xs)
  have k: "keyed key xs" using Cons.prems(1) by (simp add: keyed_def)
  show ?case
  proof (cases "p x")
    case True
    have "\<not> p y" if "y \<in> set xs" for y
    proof
      assume "p y"
      then have "key y = key x" using Cons.prems(2) [of y x] True that by simp
      then show False using Cons.prems(1) that
        by (metis keyed_def distinct.simps(2) image_eqI list.simps(9) set_map)
    qed
    then show ?thesis using True by (simp add: filter_empty_conv)
  next
    case False
    then show ?thesis using Cons.IH k Cons.prems(2) by simp
  qed
qed simp

lemma keyed_rows_affected_one:
  assumes "keyed key xs" "r \<in> set xs" "p r"
    and "\<And>s. s \<in> set xs \<Longrightarrow> p s \<Longrightarrow> key s = key r"
  shows "rows_affected p xs = 1"
proof -
  have "length (filter p xs) \<le> 1"
    by (rule filter_keyed_le1 [OF assms(1)]) (metis assms(4))
  moreover have "length (filter p xs) \<noteq> 0"
    using assms(2,3) by (auto simp: filter_empty_conv)
  ultimately show ?thesis unfolding rows_affected_def by linarith
qed

section \<open>Go strings (ASCII)\<close>

definition is_space :: "char \<Rightarrow> bool" where
  "is_space c \<longleftrightarrow> c \<in> {CHR 0x09, CHR 0x0A, CHR 0x0B, CHR 0x0C, CHR 0x0D, CHR 0x20}"

definition trim_space :: "string \<Rightarrow> string" where
  "trim_space s = rev (dropWhile is_space (rev (dropWhile is_space s)))"

definition is_digit :: "char \<Rightarrow> bool" where
  "is_digit c \<longleftrightarrow> c \<in> set ''0123456789''"

definition digit_val :: "char \<Rightarrow> int" where
  "digit_val c = of_char c - 48"

definition digits_val :: "string \<Rightarrow> int" where
  "digits_val ds = foldl (\<lambda>n c. 10 * n + digit_val c) 0 ds"

text \<open>\<open>strconv.ParseInt(s, 10, 64)\<close>, and \<open>strconv.Atoi\<close> on a 64-bit platform.\<close>

definition ParseInt :: "string \<Rightarrow> int option" where
  "ParseInt s =
    (let neg = (s \<noteq> '''' \<and> hd s = CHR ''-''); ds = (if s \<noteq> '''' \<and> (hd s = CHR ''-'' \<or> hd s = CHR ''+'') then tl s else s)
     in if ds = '''' \<or> \<not> list_all is_digit ds then None
     else let n = (if neg then - digits_val ds else digits_val ds)
       in if - (2 ^ 63) \<le> n \<and> n < 2 ^ 63 then Some n else None)"

text \<open>\<open>strings.Split\<close> at a single character and \<open>strings.Join\<close>.\<close>

fun split_on :: "char \<Rightarrow> string \<Rightarrow> string list" where
  "split_on c [] = [[]]"
| "split_on c (d # s) = (if c = d then [] # split_on c s else (case split_on c s of [] \<Rightarrow> [[d]] | p # ps \<Rightarrow> (d # p) # ps))"

fun join :: "string \<Rightarrow> string list \<Rightarrow> string" where
  "join sep [] = ''''"
| "join sep [s] = s"
| "join sep (s # t # ss) = s @ sep @ join sep (t # ss)"

definition to_lower_char :: "char \<Rightarrow> char" where
  "to_lower_char c = (case map_of (zip ''ABCDEFGHIJKLMNOPQRSTUVWXYZ'' ''abcdefghijklmnopqrstuvwxyz'') c of
     None \<Rightarrow> c | Some l \<Rightarrow> l)"

definition to_lower :: "string \<Rightarrow> string" where
  "to_lower s = map to_lower_char s"

definition has_prefix :: "string \<Rightarrow> string \<Rightarrow> bool" where
  "has_prefix s p \<longleftrightarrow> take (length p) s = p"

fun contains :: "string \<Rightarrow> string \<Rightarrow> bool" where
  "contains [] p = has_prefix [] p"
| "contains (c # s) p = (has_prefix (c # s) p \<or> contains s p)"

lemma split_on_plain: "c \<notin> set s \<Longrightarrow> split_on c s = [s]"
  by (induction s) auto

lemma split_on_prefix: "c \<notin> set a \<Longrightarrow> split_on c (a @ c # b) = a # split_on c b"
  by (induction a) auto

lemma dropWhile_all [simp]: "(\<And>x. x \<in> set xs \<Longrightarrow> P x) \<Longrightarrow> dropWhile P xs = []"
  by (induction xs) auto

lemma contains_iff: "contains s p \<longleftrightarrow> (\<exists>u v. s = u @ p @ v)"
proof (induction s)
  case Nil
  then show ?case by (auto simp: has_prefix_def)
next
  case (Cons c s)
  have "has_prefix (c # s) p \<longleftrightarrow> (\<exists>v. c # s = p @ v)"
    by (metis append_eq_conv_conj append_take_drop_id has_prefix_def)
  moreover have "(\<exists>u v. c # s = u @ p @ v) \<longleftrightarrow> (\<exists>v. c # s = p @ v) \<or> (\<exists>u v. s = u @ p @ v)"
    by (metis append_Cons append_Nil append_eq_Cons_conv)
  ultimately show ?case using Cons.IH by auto
qed

lemma dropWhile_idem: "dropWhile P (dropWhile P xs) = dropWhile P xs"
  by (induction xs) auto

lemma dropWhile_append_last:
  assumes "\<not> P x" shows "dropWhile P (xs @ [x]) = dropWhile P xs @ [x]"
  using assms by (induction xs) auto

lemma trim_space_idem: "trim_space (trim_space s) = trim_space s"
proof -
  let ?t = "dropWhile is_space s"
  let ?u = "rev (dropWhile is_space (rev ?t))"
  have "dropWhile is_space ?u = ?u"
  proof (cases ?t)
    case (Cons x t)
    then have x: "\<not> is_space x" by (metis hd_dropWhile list.sel(1) neq_Nil_conv)
    then have "dropWhile is_space (rev ?t) = dropWhile is_space (rev t) @ [x]"
      using Cons by (simp add: dropWhile_append_last)
    then show ?thesis using x by simp
  qed simp
  then show ?thesis by (simp add: trim_space_def dropWhile_idem)
qed

text \<open>Decimal rendering (\<open>%d\<close>, \<open>fmt.Sprint\<close>) and \<open>strings.ReplaceAll\<close> of single characters.\<close>

definition digit_char :: "nat \<Rightarrow> char" where
  "digit_char n = ''0123456789'' ! n"

fun show_nat :: "nat \<Rightarrow> string" where
  "show_nat n = (if n < 10 then [digit_char n] else show_nat (n div 10) @ [digit_char (n mod 10)])"

declare show_nat.simps [simp del]

definition show_int :: "int \<Rightarrow> string" where
  "show_int i = (if i < 0 then CHR ''-'' # show_nat (nat (- i)) else show_nat (nat i))"

definition replace_char :: "char \<Rightarrow> char \<Rightarrow> string \<Rightarrow> string" where
  "replace_char a b s = map (\<lambda>c. if c = a then b else c) s"

abbreviation NUL :: char where "NUL \<equiv> CHR 0x00"

definition lower_hex_char :: "char \<Rightarrow> bool" where
  "lower_hex_char c \<longleftrightarrow> c \<in> set ''0123456789abcdef''"

definition is_sha256_hex :: "string \<Rightarrow> bool" where
  "is_sha256_hex s \<longleftrightarrow> length s = 64 \<and> list_all lower_hex_char s"

section \<open>64-bit signed arithmetic\<close>

definition wrap64 :: "int \<Rightarrow> int" where
  "wrap64 x = (x + 2 ^ 63) mod 2 ^ 64 - 2 ^ 63"

lemma wrap64_id: "- (2 ^ 63) \<le> x \<Longrightarrow> x < 2 ^ 63 \<Longrightarrow> wrap64 x = x"
  by (simp add: wrap64_def)

lemma wrap64_range: "- (2 ^ 63) \<le> wrap64 x \<and> wrap64 x < 2 ^ 63"
  by (simp add: wrap64_def)

text \<open>
  The doubling loop every retry policy of the store runs
  (\<open>for i := 1; i < attempt; i++ { d *= 2; if d >= max { return max } }\<close>).
\<close>

fun doubling :: "nat \<Rightarrow> duration \<Rightarrow> duration \<Rightarrow> duration" where
  "doubling 0 d mx = d"
| "doubling (Suc n) d mx =
     (let d' = wrap64 (d * 2) in if d' \<ge> mx then mx else doubling n d' mx)"

lemma doubling_eq:
  assumes "0 < d" "d < mx" "mx \<le> 2 ^ 62"
  shows "doubling n d mx = min mx (d * 2 ^ n)"
  using assms
proof (induction n arbitrary: d)
  case 0
  then show ?case by simp
next
  case (Suc n)
  have w: "wrap64 (d * 2) = d * 2"
    using Suc.prems by (intro wrap64_id) auto
  show ?case
  proof (cases "d * 2 \<ge> mx")
    case True
    have "d * 2 ^ Suc n \<ge> d * 2" using Suc.prems by simp
    then have "d * 2 ^ Suc n \<ge> mx" using True by linarith
    then show ?thesis using True w by simp
  next
    case False
    then have "doubling n (d * 2) mx = min mx (d * 2 * 2 ^ n)"
      using Suc.IH [of "d * 2"] Suc.prems by simp
    then show ?thesis using False w by (simp add: mult.assoc)
  qed
qed

section \<open>Transition systems\<close>

locale transition_system =
  fixes init :: "'s \<Rightarrow> bool"
    and step :: "'s \<Rightarrow> 's \<Rightarrow> bool"
    and inv :: "'s \<Rightarrow> bool"
  assumes inv_init: "init s \<Longrightarrow> inv s"
    and inv_step: "inv s \<Longrightarrow> step s t \<Longrightarrow> inv t"
begin

lemma inv_steps: "step\<^sup>*\<^sup>* s t \<Longrightarrow> inv s \<Longrightarrow> inv t"
  by (induction rule: rtranclp_induct) (auto intro: inv_step)

lemma inv_reachable: "init s \<Longrightarrow> step\<^sup>*\<^sup>* s t \<Longrightarrow> inv t"
  by (blast intro: inv_steps inv_init)

end

end
