(* ===== verification/Schema.thy ===== *)
theory Schema
  imports Prelude
begin

text \<open>
  The control-plane database of the master (\<open>internal/db/migrate.go\<close>): one record per table that
  the modelled operations touch, with the columns they read or write, and the record \<open>db\<close> of all
  tables. Nullable columns are options; columns that hold opaque documents (JSON, hashes, messages)
  are strings. The uniqueness constraints of the schema are the \<open>*_conflict\<close> relations and the
  \<open>*_unique\<close> predicates.
\<close>

section \<open>Status columns\<close>

text \<open>
  Runs, tasks and task attempts share one vocabulary of status words (a task's reported status is
  stored in its attempt too). The columns are unconstrained text, so any other word is kept.
\<close>

datatype status =
    PLANNING | PENDING | RUNNING | COMMITTING | SUCCEEDED | FAILED | CANCELED | QUARANTINED
  | ACTIVE | EXPIRED | SUPERSEDED | OtherStatus string

datatype commit_rec_status =
    CR_None | CR_PENDING | CR_RETRY_REQUIRED | CR_TERMINAL | CR_ACTION_REQUIRED | CR_COMPLETE

datatype reg_status =
    R_PENDING | R_REGISTERING | R_RETRY_REQUIRED | R_RECONCILING | R_REGISTERED | R_FAILED
  | R_QUARANTINED | R_CANCELED | R_BLOCKED

datatype reg_phase =
    PREPARED | EXTERNAL_COMMIT_STARTED | CATALOG_COMMITTED | ICE_STATE_WRITING | VERIFIED

datatype rat_status =
    RA_ACTIVE | RA_RETRY_REQUIRED | RA_RECONCILING | RA_SUCCEEDED | RA_FAILED | RA_CANCELED | RA_EXPIRED

datatype rec_status =
    REC_None | REC_PENDING | REC_INSPECTING | REC_RETRY_REQUIRED | REC_SUCCEEDED | REC_FAILED
  | REC_CANCELED

datatype mp_status =
    MP_PREPARED | MP_ACTIVE | MP_COMPLETING | MP_COMPLETION_AMBIGUOUS | MP_COMPLETED | MP_ABORT_PENDING
  | MP_ABORTING | MP_ABORTED | MP_ABORT_FAILED | MP_UNKNOWN_REVIEW

datatype obj_status =
    O_QUARANTINED | O_BLOCKED_REFERENCED | O_BLOCKED_AMBIGUOUS | O_OPERATOR_REVIEW | O_DELETE_PENDING
  | O_DELETING | O_DELETE_AMBIGUOUS | O_DELETED | O_DELETE_FAILED | O_CANCELED_CLEANUP

datatype cleanup_status = CA_ACTIVE | CA_SUCCEEDED | CA_FAILED | CA_AMBIGUOUS | CA_CANCELED | CA_EXPIRED

datatype lease_status = L_ACTIVE | L_RELEASED | L_EXPIRED

fun status_text :: "status \<Rightarrow> string" where
  "status_text PLANNING = ''PLANNING''"
| "status_text PENDING = ''PENDING''"
| "status_text RUNNING = ''RUNNING''"
| "status_text COMMITTING = ''COMMITTING''"
| "status_text SUCCEEDED = ''SUCCEEDED''"
| "status_text FAILED = ''FAILED''"
| "status_text CANCELED = ''CANCELED''"
| "status_text QUARANTINED = ''QUARANTINED''"
| "status_text ACTIVE = ''ACTIVE''"
| "status_text EXPIRED = ''EXPIRED''"
| "status_text SUPERSEDED = ''SUPERSEDED''"
| "status_text (OtherStatus w) = w"

section \<open>Rows\<close>

record job =
  job_id :: string
  job_max_in_flight :: "int option"
  job_worker_pool :: "string option"

record run =
  run_id :: string
  run_job :: string
  run_dataset :: string
  run_status :: status
  run_started :: time
  run_finished :: "time option"
  run_error :: "string option"
  run_fclass :: string
  run_fphase :: string
  run_regcfg :: string
  run_commit_id :: string
  run_commit_intent :: string
  run_commit_phase :: string
  run_rec_status :: commit_rec_status
  run_rec_attempts :: int
  run_rec_next :: "time option"
  run_operator :: bool
  run_claim_token :: string
  run_claim_expires :: "time option"

record task =
  task_id :: string
  task_run :: string
  task_index :: int
  task_spec :: string
  task_worker :: "string option"
  task_status :: status
  task_rows :: int
  task_bytes_read :: int
  task_bytes_written :: int
  task_objects :: string
  task_hwm :: string
  task_started :: "time option"
  task_finished :: "time option"
  task_error :: "string option"
  task_cur :: "string option"
  task_attempts :: int
  task_next :: "time option"

record attempt =
  att_id :: string
  att_task :: string
  att_number :: int
  att_worker :: string
  att_boot :: string
  att_token :: string
  att_status :: status
  att_assigned :: time
  att_deadline :: time
  att_renewed :: time
  att_started :: "time option"
  att_finished :: "time option"
  att_fclass :: string
  att_fmsg :: "string option"
  att_digest :: string
  att_updated :: time
  att_epoch :: "int option"

text \<open>\<open>artifact.Record\<close>, the integrity record of one uploaded Parquet file.\<close>

record artifact_rec =
  ar_key :: string
  ar_size :: int
  ar_sha256 :: string
  ar_rows :: int
  ar_schema :: string
  ar_run :: string
  ar_task :: string
  ar_attempt :: string
  ar_attempt_number :: int
  ar_file_index :: int
  ar_format :: int
  ar_method :: string
  ar_status :: string
  ar_verified_at :: "time option"
  ar_max_hwm :: string
  ar_provider :: string

record artifact_row =
  arow_id :: string
  arow_rec :: artifact_rec
  arow_verified :: time

datatype jval = JStr string | JInt int | JNull | JBool bool

record event =
  ev_id :: string
  ev_run :: string
  ev_task :: "string option"
  ev_ts :: time
  ev_level :: string
  ev_msg :: string
  ev_fields :: "(string \<times> jval) list"

record registration =
  reg_id :: string
  reg_run :: string
  reg_dataset :: string
  reg_seq :: int
  reg_target :: string
  reg_commit :: string
  reg_manifest_key :: string
  reg_digest :: string
  reg_backend :: string
  reg_namespace :: string
  reg_table :: string
  reg_status :: reg_status
  reg_tries :: int
  reg_cur :: "string option"
  reg_next :: "time option"
  reg_eclass :: string
  reg_emsg :: "string option"
  reg_receipt :: string
  reg_updated :: time
  reg_registered :: "time option"
  reg_override :: string
  reg_budget :: int
  reg_rec_status :: rec_status
  reg_rec_attempts :: int
  reg_rec_cur :: "string option"
  reg_rec_outcome :: string
  reg_rec_eclass :: string
  reg_rec_next :: "time option"
  reg_obs_snapshot :: string
  reg_obs_metadata :: string
  reg_matched :: int
  reg_expected :: int
  reg_rec_evidence :: string
  reg_ambiguity :: int

record reg_attempt =
  rat_id :: string
  rat_reg :: string
  rat_number :: int
  rat_status :: rat_status
  rat_token :: string
  rat_deadline :: time
  rat_renewed :: time
  rat_phase :: reg_phase
  rat_finished :: "time option"
  rat_fclass :: string
  rat_fmsg :: "string option"
  rat_next :: "time option"
  rat_receipt :: string
  rat_updated :: time
  rat_epoch :: "int option"

record rec_attempt =
  rec_id :: string
  rec_reg :: string
  rec_number :: int
  rec_status :: rat_status
  rec_token :: string
  rec_deadline :: time
  rec_obs_start :: string
  rec_obs_end :: string
  rec_outcome :: string
  rec_evidence :: string
  rec_eclass :: string
  rec_next :: "time option"
  rec_finished :: "time option"
  rec_updated :: time
  rec_epoch :: "int option"

record upload_lease =
  ul_id :: string
  ul_task :: string
  ul_attempt :: string
  ul_worker :: string
  ul_token :: string
  ul_status :: lease_status
  ul_deadline :: time
  ul_updated :: time
  ul_released :: "time option"

record multipart =
  mp_id :: string
  mp_run :: string
  mp_task :: string
  mp_attempt :: string
  mp_attempt_number :: int
  mp_file_index :: int
  mp_key :: string
  mp_prefix :: string
  mp_upload :: "string option"
  mp_status :: mp_status
  mp_worker :: string
  mp_sha256 :: string
  mp_size :: int
  mp_activity :: time
  mp_provider_created :: "time option"
  mp_completion_started :: "time option"
  mp_completed :: "time option"
  mp_abort_requested :: "time option"
  mp_aborted :: "time option"
  mp_next :: "time option"
  mp_cleanups :: int
  mp_token :: "string option"
  mp_deadline :: "time option"
  mp_eclass :: string
  mp_emsg :: "string option"
  mp_updated :: time
  mp_epoch :: "int option"

record candidate =
  co_id :: string
  co_run :: string
  co_task :: string
  co_attempt :: string
  co_artifact :: string
  co_dataset :: string
  co_key :: string
  co_size :: int
  co_sha256 :: string
  co_version :: string
  co_status :: obj_status
  co_reason :: string
  co_decision :: string
  co_evidence :: string
  co_discovered :: time
  co_until :: time
  co_verified :: "time option"
  co_requested :: "time option"
  co_deleted :: "time option"
  co_operator :: bool
  co_dry_run :: string
  co_deletes :: int
  co_cur :: "string option"
  co_eclass :: string
  co_updated :: time

record cleanup_attempt =
  ca_id :: string
  ca_candidate :: string
  ca_number :: int
  ca_deadline :: time
  ca_status :: cleanup_status
  ca_token :: string
  ca_evidence :: string
  ca_observation :: string
  ca_finished :: "time option"
  ca_next :: "time option"
  ca_eclass :: string
  ca_updated :: time
  ca_epoch :: "int option"

record leadership =
  ld_instance :: string
  ld_epoch :: int
  ld_active :: bool
  ld_deadline_ms :: int
  ld_acquired_ms :: int
  ld_renewed_ms :: int
  ld_released_ms :: int
  ld_metadata :: string

record lead_event =
  le_id :: string
  le_instance :: string
  le_epoch :: int
  le_type :: string
  le_at :: int
  le_deadline :: int
  le_metadata :: string

record db =
  jobs :: "job list"
  runs :: "run list"
  tasks :: "task list"
  attempts :: "attempt list"
  artifacts :: "artifact_row list"
  events :: "event list"
  registrations :: "registration list"
  reg_attempts :: "reg_attempt list"
  rec_attempts :: "rec_attempt list"
  upload_leases :: "upload_lease list"
  multiparts :: "multipart list"
  candidates :: "candidate list"
  cleanup_attempts :: "cleanup_attempt list"
  leader :: leadership
  leader_log :: "lead_event list"

section \<open>Functions of the environment\<close>

text \<open>
  What the store relies on and does not implement: SHA-256 (as lower-case hex of a byte string),
  base64 decoding, JSON encoding and decoding, and authenticated encryption under the master key
  (\<open>seal aad plaintext\<close> is the base64 text of the sealed blob, \<open>unseal aad text\<close> its opening, and
  \<open>key_zero\<close> says that no key is set). They are parameters of the operations; no law is assumed of
  them here.
\<close>

record regcfg =
  cfg_enabled :: bool
  cfg_engine :: string
  cfg_table :: string
  cfg_uri :: string

record manifest =
  mf_schema :: int
  mf_run :: string
  mf_artifacts :: "string list"

text \<open>\<open>ReferenceEvidence\<close>: what is known of the references to an object before it is deleted.\<close>

record evidence =
  evd_candidate :: string
  evd_run :: status
  evd_task :: status
  evd_attempt :: status
  evd_phase :: string
  evd_artifact_ref :: bool
  evd_active_multipart :: bool
  evd_commit_identity :: bool
  evd_registration :: bool
  evd_configured :: bool
  evd_decision :: string

record env =
  sha256 :: "string \<Rightarrow> string"
  b64_decode :: "string \<Rightarrow> string option"
  marshal_records :: "artifact_rec list \<Rightarrow> string"
  marshal_evidence :: "evidence \<Rightarrow> string"
  key_zero :: bool
  seal :: "string \<Rightarrow> string \<Rightarrow> string option"
  unseal :: "string \<Rightarrow> string \<Rightarrow> string option"
  parse_regcfg :: "string \<Rightarrow> regcfg option"
  parse_intent :: "string \<Rightarrow> (string \<times> string) option"
  parse_manifest :: "string \<Rightarrow> manifest option"

section \<open>Constraints\<close>

definition event_conflict :: "event \<Rightarrow> event \<Rightarrow> bool" where
  "event_conflict e f \<longleftrightarrow> ev_id e = ev_id f"

definition attempt_conflict :: "attempt \<Rightarrow> attempt \<Rightarrow> bool" where
  "attempt_conflict a b \<longleftrightarrow>
     att_id a = att_id b
   \<or> (att_task a = att_task b \<and> att_number a = att_number b)
   \<or> att_token a = att_token b
   \<or> (att_task a = att_task b \<and> att_status a = ACTIVE \<and> att_status b = ACTIVE)"

definition task_conflict :: "task \<Rightarrow> task \<Rightarrow> bool" where
  "task_conflict t u \<longleftrightarrow> task_id t = task_id u \<or> (task_run t = task_run u \<and> task_index t = task_index u)"

definition run_active :: "run \<Rightarrow> bool" where
  "run_active r \<longleftrightarrow> run_status r \<in> {PLANNING, RUNNING, COMMITTING} \<and> run_dataset r \<noteq> ''''"

definition run_conflict :: "run \<Rightarrow> run \<Rightarrow> bool" where
  "run_conflict r s \<longleftrightarrow>
     run_id r = run_id s \<or> (run_active r \<and> run_active s \<and> run_dataset r = run_dataset s)"

definition artifact_conflict :: "artifact_row \<Rightarrow> artifact_row \<Rightarrow> bool" where
  "artifact_conflict a b \<longleftrightarrow>
     arow_id a = arow_id b
   \<or> (ar_attempt (arow_rec a) = ar_attempt (arow_rec b) \<and> ar_file_index (arow_rec a) = ar_file_index (arow_rec b))
   \<or> ar_key (arow_rec a) = ar_key (arow_rec b)"

text \<open>\<open>idx_runs_dataset_active\<close>: one active run per dataset.\<close>

fun pairwise :: "('r \<Rightarrow> 'r \<Rightarrow> bool) \<Rightarrow> 'r list \<Rightarrow> bool" where
  "pairwise c [] = True"
| "pairwise c (x # xs) = (list_all (\<lambda>y. \<not> c x y) xs \<and> pairwise c xs)"

definition runs_unique :: "run list \<Rightarrow> bool" where
  "runs_unique rs = pairwise run_conflict rs"

text \<open>An \<open>UPDATE\<close> of a table with a uniqueness constraint: it fails when the new rows violate it.\<close>

definition update_unique ::
  "('r list \<Rightarrow> bool) \<Rightarrow> ('r \<Rightarrow> bool) \<Rightarrow> ('r \<Rightarrow> 'r) \<Rightarrow> 'r list \<Rightarrow> 'r list res" where
  "update_unique uniq p f xs =
     (let ys = update_where p f xs in if uniq ys then Inr ys else Inl ErrConstraint)"

lemma update_unique_InrD:
  assumes "update_unique u p f xs = Inr ys"
  shows "ys = update_where p f xs" "u ys"
  using assms by (auto simp: update_unique_def Let_def split: if_splits)

section \<open>Row order and helpers on statuses\<close>

definition find_run :: "string \<Rightarrow> db \<Rightarrow> run option" where
  "find_run rid d = select_one (\<lambda>r. run_id r = rid) (runs d)"

definition find_task :: "string \<Rightarrow> db \<Rightarrow> task option" where
  "find_task tid d = select_one (\<lambda>t. task_id t = tid) (tasks d)"

definition find_job :: "string \<Rightarrow> db \<Rightarrow> job option" where
  "find_job jid d = select_one (\<lambda>j. job_id j = jid) (jobs d)"

definition find_attempt :: "string \<Rightarrow> string \<Rightarrow> db \<Rightarrow> attempt option" where
  "find_attempt aid tid d = select_one (\<lambda>a. att_id a = aid \<and> att_task a = tid) (attempts d)"

text \<open>\<open>INSERT OR IGNORE INTO events\<close>.\<close>

definition add_event :: "event \<Rightarrow> db \<Rightarrow> db" where
  "add_event e d = d\<lparr>events := insert_or_ignore event_conflict e (events d)\<rparr>"

text \<open>
  The same statement with no value for \<open>run_id\<close>: the column is \<open>NOT NULL\<close>, and the conflict
  resolution \<open>IGNORE\<close> skips a row that violates it.
\<close>

definition add_event_opt :: "string option \<Rightarrow> event \<Rightarrow> db \<Rightarrow> db" where
  "add_event_opt rid e d = (case rid of None \<Rightarrow> d | Some r \<Rightarrow> add_event (e\<lparr>ev_run := r\<rparr>) d)"

lemma add_event_frame [simp]:
  "jobs (add_event e d) = jobs d" "runs (add_event e d) = runs d" "tasks (add_event e d) = tasks d"
  "attempts (add_event e d) = attempts d" "artifacts (add_event e d) = artifacts d"
  "registrations (add_event e d) = registrations d" "reg_attempts (add_event e d) = reg_attempts d"
  "rec_attempts (add_event e d) = rec_attempts d" "upload_leases (add_event e d) = upload_leases d"
  "multiparts (add_event e d) = multiparts d" "candidates (add_event e d) = candidates d"
  "cleanup_attempts (add_event e d) = cleanup_attempts d" "leader (add_event e d) = leader d"
  "leader_log (add_event e d) = leader_log d"
  by (simp_all add: add_event_def)

lemma add_event_twice: "add_event e (add_event e d) = add_event e d"
  by (simp add: add_event_def insert_or_ignore_def event_conflict_def)

end
