(* ===== verification/Attempts.thy ===== *)
theory Attempts
  imports Schema
begin

text \<open>
  Leased, fenced execution of tasks (\<open>internal/db/attempts.go\<close>): a worker is handed a pending task
  together with a fresh attempt row that carries a fencing token and a lease deadline; it renews the
  lease, reports progress and finally a result, all of which are accepted only for the task's
  current, live attempt. The master expires leases, re-queues the task with exponential backoff and
  quarantines it when the retry limit is reached.

  One definition per operation, in the order of the source. The lemmas show that every operation
  preserves the lease invariant \<open>lease_inv\<close> (an attempt is ACTIVE exactly when it is the current
  attempt of a RUNNING task), and what each operation does on each of its branches.
\<close>

section \<open>Policies, identities, events\<close>

record lease_policy =
  lp_duration :: duration
  lp_max_attempts :: int
  lp_max_active :: int
  lp_backoff_base :: duration
  lp_backoff_max :: duration

definition normalized :: "lease_policy \<Rightarrow> lease_policy" where
  "normalized p = p\<lparr>
     lp_duration := (if lp_duration p \<le> 0 then 30 * second else lp_duration p),
     lp_max_attempts := (if lp_max_attempts p \<le> 0 then 3 else lp_max_attempts p),
     lp_backoff_base := (if lp_backoff_base p \<le> 0 then second else lp_backoff_base p),
     lp_backoff_max := (if lp_backoff_max p \<le> 0 then 30 * second else lp_backoff_max p)\<rparr>"

definition attemptEventID :: "env \<Rightarrow> string \<Rightarrow> string \<Rightarrow> string \<Rightarrow> string" where
  "attemptEventID E ty aid cls = ''attempt-event-'' @ take 32 (sha256 E (ty @ [NUL] @ aid @ [NUL] @ cls))"

definition insertAttemptEventTx ::
  "env \<Rightarrow> string \<Rightarrow> string \<Rightarrow> string \<Rightarrow> int \<Rightarrow> string \<Rightarrow> string \<Rightarrow> string \<Rightarrow> time \<Rightarrow> (string \<times> jval) list \<Rightarrow> db \<Rightarrow> db" where
  "insertAttemptEventTx E rid tid aid num worker ty cls ts extra d =
     add_event \<lparr>ev_id = attemptEventID E ty aid cls, ev_run = rid, ev_task = Some tid, ev_ts = ts,
       ev_level = ''INFO'', ev_msg = ''task attempt '' @ to_lower (replace_char (CHR ''_'') (CHR '' '') ty),
       ev_fields = fold (\<lambda>(k, v). AList.update k v) extra
         [(''event_type'', JStr ty), (''attempt_id'', JStr aid), (''attempt_number'', JInt num),
          (''worker_id'', JStr worker), (''classification'', JStr cls)]\<rparr> d"

definition DefaultWorkerPool :: string where
  "DefaultWorkerPool = ''default''"

definition active_epoch :: "db \<Rightarrow> int option" where
  "active_epoch d = (if ld_active (leader d) then Some (ld_epoch (leader d)) else None)"

section \<open>Assignment\<close>

record assignment =
  asg_task :: string
  asg_run :: string
  asg_index :: int
  asg_spec :: string
  asg_worker :: string
  asg_attempt :: string
  asg_number :: int
  asg_token :: string
  asg_deadline :: time

definition running_of_run :: "db \<Rightarrow> string \<Rightarrow> nat" where
  "running_of_run d rid = rows_affected (\<lambda>t. task_status t = RUNNING \<and> task_run t = rid) (tasks d)"

definition running_total :: "db \<Rightarrow> nat" where
  "running_total d = rows_affected (\<lambda>t. task_status t = RUNNING) (tasks d)"

definition job_pool :: "job \<Rightarrow> string" where
  "job_pool j = (case job_worker_pool j of None \<Rightarrow> DefaultWorkerPool
                 | Some p \<Rightarrow> if p = '''' then DefaultWorkerPool else p)"

text \<open>The \<open>WHERE\<close> clause of the assignment query, for a task row joined with its run and job.\<close>

definition assignable :: "db \<Rightarrow> time \<Rightarrow> lease_policy \<Rightarrow> string \<Rightarrow> task \<Rightarrow> bool" where
  "assignable d now p pool t \<longleftrightarrow>
     task_status t = PENDING
   \<and> (case find_run (task_run t) d of None \<Rightarrow> False | Some r \<Rightarrow>
        run_status r = RUNNING
      \<and> (case find_job (run_job r) d of None \<Rightarrow> False | Some j \<Rightarrow>
           (let cap = coalesce (job_max_in_flight j) 0 in
              cap \<le> 0 \<or> int (running_of_run d (run_id r)) < cap)
         \<and> (pool = '''' \<or> job_pool j = pool)))
   \<and> (case task_next t of None \<Rightarrow> True | Some n \<Rightarrow> n \<le> now)
   \<and> task_attempts t < lp_max_attempts p
   \<and> (lp_max_active p \<le> 0 \<or> int (running_total d) < lp_max_active p)"

definition assign_key :: "db \<Rightarrow> task \<Rightarrow> nat \<times> time \<times> string \<times> int" where
  "assign_key d t = (running_of_run d (task_run t),
     (case find_run (task_run t) d of None \<Rightarrow> 0 | Some r \<Rightarrow> run_started r), task_run t, task_index t)"

definition last_attempt :: "db \<Rightarrow> string \<Rightarrow> attempt option" where
  "last_attempt d tid = select_first_by (\<lambda>a. - att_number a) (\<lambda>a. att_task a = tid) (attempts d)"

definition AssignNextPendingTaskInPool ::
  "env \<Rightarrow> string \<Rightarrow> string \<Rightarrow> string \<Rightarrow> time \<Rightarrow> lease_policy \<Rightarrow> string res \<Rightarrow> string res \<Rightarrow> db
    \<Rightarrow> (assignment option \<times> db) res" where
  "AssignNextPendingTaskInPool E boot worker pool now pol0 idFn tokenFn d =
    (let p = normalized pol0; deadline = now + lp_duration p in
     rbind idFn (\<lambda>aid. rbind tokenFn (\<lambda>token.
       case select_first_by (assign_key d) (assignable d now p pool) (tasks d) of
         None \<Rightarrow> Inr (None, d)
       | Some t \<Rightarrow>
         (let num = task_attempts t + 1;
              w = (\<lambda>u. task_id u = task_id t \<and> task_status u = PENDING \<and> task_cur u = None);
              prev = last_attempt d (task_id t);
              d1 = d\<lparr>tasks := update_where w
                      (\<lambda>u. u\<lparr>task_status := RUNNING, task_worker := Some worker,
                             task_started := Some (coalesce (task_started u) now),
                             task_cur := Some aid, task_attempts := num, task_next := None\<rparr>) (tasks d)\<rparr>;
              a = \<lparr>att_id = aid, att_task = task_id t, att_number = num, att_worker = worker,
                   att_boot = boot, att_token = token, att_status = ACTIVE, att_assigned = now,
                   att_deadline = deadline, att_renewed = now, att_started = Some now,
                   att_finished = None, att_fclass = '''', att_fmsg = None, att_digest = '''',
                   att_updated = now, att_epoch = active_epoch d\<rparr>
          in if rows_affected w (tasks d) \<noteq> 1 then Inr (None, d1)
             else rbind (insert_row attempt_conflict a (attempts d1)) (\<lambda>atts.
               let d2 = insertAttemptEventTx E (task_run t) (task_id t) aid num worker
                          ''ATTEMPT_ASSIGNED'' ''ASSIGNED'' now [(''lease_deadline'', JInt deadline)]
                          (d1\<lparr>attempts := atts\<rparr>);
                   d3 = (case prev of None \<Rightarrow> d2 | Some pa \<Rightarrow>
                          if att_id pa = '''' then d2
                          else insertAttemptEventTx E (task_run t) (task_id t) (att_id pa) (num - 1)
                            (att_worker pa) ''ATTEMPT_SUPERSEDED'' ''REASSIGNED'' now
                            [(''replacement_attempt_id'', JStr aid)] d2)
               in Inr (Some \<lparr>asg_task = task_id t, asg_run = task_run t, asg_index = task_index t,
                     asg_spec = task_spec t, asg_worker = worker, asg_attempt = aid, asg_number = num,
                     asg_token = token, asg_deadline = deadline\<rparr>, d3))))))"

definition AssignNextPendingTaskWithLease ::
  "env \<Rightarrow> string \<Rightarrow> string \<Rightarrow> time \<Rightarrow> lease_policy \<Rightarrow> string res \<Rightarrow> string res \<Rightarrow> db
    \<Rightarrow> (assignment option \<times> db) res" where
  "AssignNextPendingTaskWithLease E boot worker now pol idFn tokenFn d =
     AssignNextPendingTaskInPool E boot worker '''' now pol idFn tokenFn d"

section \<open>Renewal\<close>

text \<open>The guard every fenced write of a worker shares: the attempt is the task's live current one.\<close>

definition current_task :: "db \<Rightarrow> string \<Rightarrow> string \<Rightarrow> bool" where
  "current_task d tid aid \<longleftrightarrow>
     list_ex (\<lambda>t. task_id t = tid \<and> task_status t = RUNNING \<and> task_cur t = Some aid) (tasks d)"

definition RenewTaskLease ::
  "string \<Rightarrow> string \<Rightarrow> string \<Rightarrow> string \<Rightarrow> string \<Rightarrow> time \<Rightarrow> duration \<Rightarrow> db \<Rightarrow> (time \<times> db) res" where
  "RenewTaskLease boot tid aid token worker now dur0 d =
    (let dur = (if dur0 \<le> 0 then 30 * second else dur0);
         deadline = now + dur;
         w = (\<lambda>a. att_id a = aid \<and> att_task a = tid \<and> att_token a = token \<and> att_worker a = worker
                \<and> att_boot a = boot \<and> att_status a = ACTIVE \<and> att_deadline a > now
                \<and> current_task d tid aid)
     in if rows_affected w (attempts d) \<noteq> 1 then Inl ErrAttemptFenced
        else Inr (deadline, d\<lparr>attempts := update_where w
               (\<lambda>a. a\<lparr>att_deadline := deadline, att_renewed := now, att_updated := now\<rparr>) (attempts d)\<rparr>))"

section \<open>Expiry\<close>

definition retryBackoff :: "lease_policy \<Rightarrow> int \<Rightarrow> duration" where
  "retryBackoff pol attempt =
    (let p = normalized pol in doubling (nat (attempt - 1)) (lp_backoff_base p) (lp_backoff_max p))"

definition expirable :: "db \<Rightarrow> time \<Rightarrow> attempt \<Rightarrow> bool" where
  "expirable d now a \<longleftrightarrow>
     att_status a = ACTIVE \<and> att_deadline a \<le> now
   \<and> (case find_task (att_task a) d of None \<Rightarrow> False | Some t \<Rightarrow>
        task_status t = RUNNING \<and> task_cur t = Some (att_id a)
      \<and> (case find_run (task_run t) d of None \<Rightarrow> False | Some r \<Rightarrow> run_status r = RUNNING))"

definition run_of_attempt :: "db \<Rightarrow> attempt \<Rightarrow> string" where
  "run_of_attempt d a = (case find_task (att_task a) d of None \<Rightarrow> '''' | Some t \<Rightarrow> task_run t)"

text \<open>\<open>UPDATE tasks SET status='QUARANTINED' \<dots>\<close> and the failure of the run, shared with abandonment.\<close>

definition quarantine_task :: "time \<Rightarrow> string \<Rightarrow> task \<Rightarrow> task" where
  "quarantine_task now msg t = t\<lparr>task_status := QUARANTINED, task_worker := None, task_cur := None,
     task_finished := Some now, task_error := Some msg, task_next := None\<rparr>"

definition requeue_task :: "time \<Rightarrow> string \<Rightarrow> task \<Rightarrow> task" where
  "requeue_task next msg t = t\<lparr>task_status := PENDING, task_worker := None, task_cur := None,
     task_next := Some next, task_error := Some msg\<rparr>"

definition fail_run_retry_limit :: "time \<Rightarrow> string \<Rightarrow> run list \<Rightarrow> run list" where
  "fail_run_retry_limit now rid = update_where (\<lambda>r. run_id r = rid \<and> run_status r = RUNNING)
     (\<lambda>r. r\<lparr>run_status := FAILED, run_finished := Some now,
            run_error := Some ''task retry limit exhausted''\<rparr>)"

text \<open>One iteration of the loop over the expired attempts; \<open>rid\<close> is the run the query returned.\<close>

definition expire_item :: "env \<Rightarrow> time \<Rightarrow> lease_policy \<Rightarrow> attempt \<times> string \<Rightarrow> nat \<times> db \<Rightarrow> nat \<times> db" where
  "expire_item E now p item st = (case (item, st) of ((x, rid), (n, d)) \<Rightarrow>
    (let w = (\<lambda>a. att_id a = att_id x \<and> att_status a = ACTIVE);
         d1 = d\<lparr>attempts := update_where w
                (\<lambda>a. a\<lparr>att_status := EXPIRED, att_finished := Some now, att_fclass := ''LEASE_EXPIRED'',
                       att_fmsg := Some ''lease expired'', att_updated := now\<rparr>) (attempts d)\<rparr>;
         ev = (\<lambda>ty cls extra. insertAttemptEventTx E rid (att_task x) (att_id x) (att_number x)
                 (att_worker x) ty cls now extra);
         wt = (\<lambda>t. task_id t = att_task x \<and> task_cur t = Some (att_id x))
     in if rows_affected w (attempts d) \<noteq> 1 then (n, d1)
        else
         (let d2 = ev ''ATTEMPT_EXPIRED'' ''LEASE_EXPIRED'' [(''lease_deadline'', JInt (att_deadline x))] d1 in
          if att_number x \<ge> lp_max_attempts p then
            (Suc n, ev ''TASK_QUARANTINED'' ''RETRY_LIMIT_EXHAUSTED'' [(''max_attempts'', JInt (lp_max_attempts p))]
               (d2\<lparr>tasks := update_where wt (quarantine_task now ''retry limit exhausted'') (tasks d2),
                   runs := fail_run_retry_limit now rid (runs d2)\<rparr>))
          else
            (let next = now + retryBackoff p (att_number x) in
             (Suc n, ev ''TASK_RETRY_SCHEDULED'' ''LEASE_EXPIRED'' [(''next_eligible_at'', JInt next)]
               (d2\<lparr>tasks := update_where wt (requeue_task next ''lease expired'') (tasks d2)\<rparr>))))))"

definition ExpireTaskAttempts :: "env \<Rightarrow> time \<Rightarrow> lease_policy \<Rightarrow> db \<Rightarrow> (nat \<times> db) res" where
  "ExpireTaskAttempts E now pol d =
    (let p = normalized pol;
         items = map (\<lambda>a. (a, run_of_attempt d a)) (filter (expirable d now) (attempts d))
     in Inr (fold (expire_item E now p) items (0, d)))"

section \<open>Rejected traffic\<close>

definition InsertAttemptRejectionEvent ::
  "env \<Rightarrow> string \<Rightarrow> string \<Rightarrow> string \<Rightarrow> string \<Rightarrow> string \<Rightarrow> time \<Rightarrow> db \<Rightarrow> (unit \<times> db) res" where
  "InsertAttemptRejectionEvent E tid aid worker0 ty cls now d =
    rbind (of_row ErrNoRows (find_task tid d)) (\<lambda>t.
    rbind (of_row ErrNoRows (find_attempt aid tid d)) (\<lambda>a.
      let worker = (if worker0 = '''' then att_worker a else worker0)
      in Inr ((), insertAttemptEventTx E (task_run t) tid aid (att_number a) worker ty cls now [] d)))"

section \<open>Artifact records\<close>

definition hex_digit :: "nat \<Rightarrow> char" where
  "hex_digit n = (if n < 10 then char_of (48 + n) else char_of (87 + n))"

definition hex_encode :: "string \<Rightarrow> string" where
  "hex_encode s = concat (map (\<lambda>c. [hex_digit (of_char c div 16), hex_digit (of_char c mod 16)]) s)"

definition cut_dash :: "string \<Rightarrow> string \<times> string \<times> bool" where
  "cut_dash s = (let a = takeWhile (\<lambda>c. c \<noteq> CHR ''-'') s; b = dropWhile (\<lambda>c. c \<noteq> CHR ''-'') s
                 in if b = [] then (s, '''', False) else (a, tl b, True))"

definition atoi :: "string \<Rightarrow> int option" where
  "atoi s = ParseInt s"

definition ValidateProviderChecksum :: "env \<Rightarrow> string \<Rightarrow> string \<Rightarrow> unit res" where
  "ValidateProviderChecksum E checksum sha =
    (case cut_dash checksum of (digest, parts, composite) \<Rightarrow>
      (case b64_decode E digest of
         None \<Rightarrow> Inl (ErrMsg ''invalid provider checksum'')
       | Some raw \<Rightarrow>
           if length raw \<noteq> 32 then Inl (ErrMsg ''invalid provider checksum'')
           else if composite then
             (case atoi parts of
                None \<Rightarrow> Inl (ErrMsg ''invalid provider checksum part count'')
              | Some n \<Rightarrow> if n < 1 then Inl (ErrMsg ''invalid provider checksum part count'') else Inr ())
           else if hex_encode raw \<noteq> sha then Inl (ErrMsg ''provider checksum does not match artifact sha256'')
           else Inr ()))"

definition Validate :: "env \<Rightarrow> artifact_rec \<Rightarrow> unit res" where
  "Validate E r =
    (if trim_space (ar_key r) = '''' \<or> trim_space (ar_run r) = '''' \<or> trim_space (ar_task r) = ''''
        \<or> trim_space (ar_attempt r) = ''''
     then Inl (ErrMsg ''artifact identity is incomplete'')
     else if ar_size r \<le> 0 \<or> ar_rows r < 0 \<or> ar_attempt_number r \<le> 0 \<or> ar_file_index r < 0
     then Inl (ErrMsg ''artifact numeric fields are invalid'')
     else if length (ar_sha256 r) \<noteq> 64 \<or> length (ar_schema r) \<noteq> 64
     then Inl (ErrMsg ''artifact digests must be lowercase SHA-256 hex'')
     else if \<not> list_all lower_hex_char (ar_sha256 r) then Inl (ErrMsg ''invalid artifact sha256'')
     else if \<not> list_all lower_hex_char (ar_schema r) then Inl (ErrMsg ''invalid schema fingerprint'')
     else if ar_format r \<noteq> 1
        \<or> (ar_method r \<noteq> ''PORTABLE_FULL_SHA256'' \<and> ar_method r \<noteq> ''PROVIDER_SHA256_AND_PORTABLE_FULL_SHA256'')
        \<or> ar_status r \<noteq> ''VERIFIED''
     then Inl (ErrMsg ''artifact verification is insufficient'')
     else if ar_provider r \<noteq> '''' then ValidateProviderChecksum E (ar_provider r) (ar_sha256 r)
     else Inr ())"

text \<open>The failure classes an artifact error message can start with, in the order they are tried.\<close>

definition artifact_failure_classes :: "string list" where
  "artifact_failure_classes =
    [''LOCAL_PARQUET_INVALID'', ''LOCAL_SIZE_MISMATCH'', ''LOCAL_ROW_COUNT_MISMATCH'',
     ''LOCAL_SCHEMA_MISMATCH'', ''UPLOAD_FAILED'', ''MULTIPART_PART_FAILED'',
     ''MULTIPART_COMPLETE_AMBIGUOUS'', ''MULTIPART_INTENT_FAILED'', ''MULTIPART_TRACKING_FAILED'',
     ''REMOTE_SIZE_MISMATCH'', ''REMOTE_CHECKSUM_MISMATCH'', ''REMOTE_METADATA_MISMATCH'',
     ''EXISTING_OBJECT_CONFLICT'', ''VERIFICATION_UNAVAILABLE'', ''VERIFICATION_CANCELED'']"

definition ClassificationFromMessage :: "string \<Rightarrow> string" where
  "ClassificationFromMessage msg =
    (case find (\<lambda>c. msg = c \<or> has_prefix msg (c @ '':'') \<or> contains msg ('': '' @ c @ '':''))
            artifact_failure_classes of None \<Rightarrow> '''' | Some c \<Rightarrow> c)"

section \<open>Completion\<close>

record result =
  res_status :: status
  res_err :: "string option"
  res_objects :: string
  res_rows :: int
  res_bytes_read :: int
  res_bytes_written :: int
  res_hwm :: string

definition resultDigest :: "env \<Rightarrow> result \<Rightarrow> string" where
  "resultDigest E r = sha256 E (status_text (res_status r) @ [NUL] @ res_objects r @ [NUL]
     @ show_int (res_rows r) @ [NUL] @ show_int (res_bytes_read r) @ [NUL]
     @ show_int (res_bytes_written r) @ [NUL] @ coalesce (res_err r) ''''
     @ (if res_hwm r \<noteq> '''' then [NUL] @ res_hwm r else []))"

text \<open>The CHECK constraints of \<open>task_artifacts\<close>.\<close>

definition artifact_check :: "artifact_rec \<Rightarrow> bool" where
  "artifact_check r \<longleftrightarrow> ar_file_index r \<ge> 0 \<and> list_ex (\<lambda>c. c \<noteq> CHR '' '') (ar_key r) \<and> ar_size r > 0
     \<and> is_sha256_hex (ar_sha256 r) \<and> ar_rows r \<ge> 0 \<and> is_sha256_hex (ar_schema r)
     \<and> ar_attempt_number r > 0 \<and> ar_format r = 1
     \<and> (ar_method r = ''PORTABLE_FULL_SHA256'' \<or> ar_method r = ''PROVIDER_SHA256_AND_PORTABLE_FULL_SHA256'')
     \<and> ar_status r = ''VERIFIED''"

fun pad6 :: "nat \<Rightarrow> string \<Rightarrow> string" where
  "pad6 0 s = s"
| "pad6 (Suc k) s = (if length s < 6 then pad6 k (CHR ''0'' # s) else s)"

fun insert_artifacts ::
  "env \<Rightarrow> string \<Rightarrow> string \<Rightarrow> string \<Rightarrow> int \<Rightarrow> time \<Rightarrow> artifact_rec list \<Rightarrow> artifact_row list \<Rightarrow> artifact_row list res" where
  "insert_artifacts E tid aid rid num masterNow [] rows = Inr rows"
| "insert_artifacts E tid aid rid num masterNow (r # rs) rows =
    (if ar_run r \<noteq> rid \<or> ar_attempt_number r \<noteq> num
     then Inl (ErrMsg ''artifact durable identity mismatch'')
     else if \<not> artifact_check r then Inl ErrConstraint
     else rbind (insert_row artifact_conflict
            \<lparr>arow_id = attemptEventID E ''ARTIFACT'' aid (pad6 6 (show_int (ar_file_index r))),
             arow_rec = r\<lparr>ar_task := tid, ar_attempt := aid\<rparr>, arow_verified = masterNow\<rparr> rows)
          (insert_artifacts E tid aid rid num masterNow rs))"

definition failure_class_of :: "status \<Rightarrow> string option \<Rightarrow> string \<Rightarrow> string" where
  "failure_class_of st errMsg override =
    (if st = FAILED then
       (if override \<noteq> '''' then override
        else (case errMsg of None \<Rightarrow> ''PERMANENT_TASK_FAILURE'' | Some m \<Rightarrow>
                (let c = ClassificationFromMessage m in if c \<noteq> '''' then c else ''PERMANENT_TASK_FAILURE'')))
     else '''')"

datatype completion = Accepted | AlreadyAccepted

definition completeTaskAttemptAt ::
  "env \<Rightarrow> string \<Rightarrow> string \<Rightarrow> string \<Rightarrow> string \<Rightarrow> string \<Rightarrow> result \<Rightarrow> time \<Rightarrow> time
    \<Rightarrow> artifact_rec list \<Rightarrow> bool \<Rightarrow> string \<Rightarrow> db \<Rightarrow> ((completion \<times> status) \<times> db) res" where
  "completeTaskAttemptAt E boot tid aid token worker res now masterNow records strict override d =
    (let digest = resultDigest E res; st = res_status res in
     rbind (of_row ErrNoRows (find_attempt aid tid d)) (\<lambda>a.
     rbind (of_row ErrNoRows (find_task tid d)) (\<lambda>t.
     rbind (of_row ErrNoRows (find_run (task_run t) d)) (\<lambda>r.
      if att_worker a \<noteq> worker \<or> att_boot a \<noteq> boot \<or> att_token a \<noteq> token then Inl ErrAttemptFenced
      else if att_status a \<in> {CANCELED, EXPIRED, SUPERSEDED} then Inl ErrAttemptFenced
      else if att_status a \<in> {SUCCEEDED, FAILED} then
        (if att_digest a = digest then Inr ((AlreadyAccepted, task_status t), d) else Inl ErrResultConflict)
      else if coalesce (task_cur t) '''' \<noteq> aid then Inl ErrAttemptFenced
      else if \<not> att_deadline a > masterNow then Inl ErrAttemptFenced
      else if att_status a \<noteq> ACTIVE \<or> task_status t \<noteq> RUNNING \<or> run_status r \<noteq> RUNNING then Inl ErrAttemptFenced
      else if strict \<and> st = SUCCEEDED \<and> res_bytes_written res > 0 \<and> records = []
        then Inl (ErrMsg ''successful task with bytes requires verified artifacts'')
      else
       rbind (if strict \<and> st = SUCCEEDED
              then insert_artifacts E tid aid (run_id r) (att_number a) masterNow records (artifacts d)
              else Inr (artifacts d)) (\<lambda>arts.
       if st \<noteq> SUCCEEDED \<and> st \<noteq> FAILED \<and> st \<noteq> CANCELED then Inl (ErrMsg ''invalid task status'')
       else
        (let wa = (\<lambda>b. att_id b = aid \<and> att_status b = ACTIVE);
             wt = (\<lambda>u. task_id u = tid \<and> task_status u = RUNNING \<and> task_cur u = Some aid)
         in if rows_affected wa (attempts d) \<noteq> 1 then Inl ErrAttemptFenced
            else if rows_affected wt (tasks d) \<noteq> 1 then Inl ErrAttemptFenced
            else Inr ((Accepted, st),
              d\<lparr>artifacts := arts,
                attempts := update_where wa
                  (\<lambda>b. b\<lparr>att_status := st, att_finished := Some now,
                         att_fclass := failure_class_of st (res_err res) override,
                         att_fmsg := res_err res, att_digest := digest, att_updated := now\<rparr>) (attempts d),
                tasks := update_where wt
                  (\<lambda>u. u\<lparr>task_status := st, task_error := res_err res, task_objects := res_objects res,
                         task_hwm := res_hwm res, task_rows := res_rows res,
                         task_bytes_read := res_bytes_read res, task_bytes_written := res_bytes_written res,
                         task_finished := Some now, task_cur := None\<rparr>) (tasks d)\<rparr>)))))))"

definition CompleteTaskAttemptWithFailureClassAt ::
  "env \<Rightarrow> string \<Rightarrow> string \<Rightarrow> string \<Rightarrow> string \<Rightarrow> string \<Rightarrow> result \<Rightarrow> string \<Rightarrow> time \<Rightarrow> time \<Rightarrow> db
    \<Rightarrow> ((completion \<times> status) \<times> db) res" where
  "CompleteTaskAttemptWithFailureClassAt E boot tid aid token worker res fclass now masterNow d =
     completeTaskAttemptAt E boot tid aid token worker res now masterNow [] False fclass d"

text \<open>\<open>sort.Slice\<close> by file index, then object key; then every record is validated in that order.\<close>

fun check_records :: "env \<Rightarrow> string \<Rightarrow> string \<Rightarrow> int \<Rightarrow> artifact_rec list \<Rightarrow> unit res" where
  "check_records E tid aid i [] = Inr ()"
| "check_records E tid aid i (r # rs) =
     rbind (Validate E r) (\<lambda>_.
       if ar_task r \<noteq> tid \<or> ar_attempt r \<noteq> aid \<or> ar_file_index r \<noteq> i
       then Inl (ErrMsg ''artifact identity mismatch'')
       else check_records E tid aid (i + 1) rs)"

definition CompleteTaskAttemptWithArtifactsAndFailureClassAt ::
  "env \<Rightarrow> string \<Rightarrow> string \<Rightarrow> string \<Rightarrow> string \<Rightarrow> string \<Rightarrow> result \<Rightarrow> string \<Rightarrow> artifact_rec list \<Rightarrow> time \<Rightarrow> time \<Rightarrow> db
    \<Rightarrow> ((completion \<times> status) \<times> db) res" where
  "CompleteTaskAttemptWithArtifactsAndFailureClassAt E boot tid aid token worker res fclass records now masterNow d =
    (let rs = sort_key (\<lambda>r. (ar_file_index r, ar_key r)) records in
     rbind (check_records E tid aid 0 rs) (\<lambda>_.
       completeTaskAttemptAt E boot tid aid token worker (res\<lparr>res_objects := marshal_records E rs\<rparr>)
         now masterNow rs True fclass d))"

section \<open>Abandonment, progress, cancellation\<close>

definition AbandonTaskAttemptWithPolicy ::
  "env \<Rightarrow> string \<Rightarrow> string \<Rightarrow> string \<Rightarrow> string \<Rightarrow> time \<Rightarrow> lease_policy \<Rightarrow> db \<Rightarrow> (unit \<times> db) res" where
  "AbandonTaskAttemptWithPolicy E tid aid worker reason now pol d =
    (let p = normalized pol in
     rbind (of_row ErrAttemptFenced
       (select_one (\<lambda>t. task_id t = tid \<and> task_status t = RUNNING \<and> task_cur t = Some aid) (tasks d))) (\<lambda>t.
     rbind (of_row ErrAttemptFenced
       (select_one (\<lambda>a. att_id a = aid \<and> att_task a = tid \<and> att_worker a = worker \<and> att_status a = ACTIVE) (attempts d))) (\<lambda>a.
      let wa = (\<lambda>b. att_id b = aid \<and> att_task b = tid \<and> att_worker b = worker \<and> att_status b = ACTIVE);
          wt = (\<lambda>u. task_id u = tid \<and> task_status u = RUNNING \<and> task_cur u = Some aid);
          ev = (\<lambda>ty cls extra. insertAttemptEventTx E (task_run t) tid aid (att_number a) worker ty cls now extra);
          d1 = ev ''ATTEMPT_ABANDONED'' ''ASSIGNMENT_BUILD_FAILURE'' []
                 (d\<lparr>attempts := update_where wa
                    (\<lambda>b. b\<lparr>att_status := FAILED, att_finished := Some now,
                           att_fclass := ''ASSIGNMENT_BUILD_FAILURE'', att_fmsg := Some reason,
                           att_updated := now\<rparr>) (attempts d)\<rparr>)
      in if rows_affected wa (attempts d) \<noteq> 1 then Inl ErrAttemptFenced
         else if rows_affected wt (tasks d) \<noteq> 1 then Inl ErrAttemptFenced
         else if att_number a \<ge> lp_max_attempts p then
           Inr ((), ev ''TASK_QUARANTINED'' ''RETRY_LIMIT_EXHAUSTED'' [(''max_attempts'', JInt (lp_max_attempts p))]
             (d1\<lparr>tasks := update_where wt (quarantine_task now reason) (tasks d1),
                 runs := fail_run_retry_limit now (task_run t) (runs d1)\<rparr>))
         else
           (let next = now + retryBackoff p (att_number a) in
            Inr ((), ev ''TASK_RETRY_SCHEDULED'' ''ASSIGNMENT_BUILD_FAILURE'' [(''next_eligible_at'', JInt next)]
             (d1\<lparr>tasks := update_where wt (requeue_task next reason) (tasks d1)\<rparr>))))))"

definition UpdateTaskProgressFencedAt ::
  "string \<Rightarrow> string \<Rightarrow> string \<Rightarrow> string \<Rightarrow> string \<Rightarrow> int \<Rightarrow> int \<Rightarrow> int \<Rightarrow> time \<Rightarrow> db \<Rightarrow> (unit \<times> db) res" where
  "UpdateTaskProgressFencedAt boot tid aid token worker rws br bw masterNow d =
    (let live = list_ex (\<lambda>a. att_id a = aid \<and> att_task a = tid \<and> att_worker a = worker \<and> att_boot a = boot
                   \<and> att_token a = token \<and> att_status a = ACTIVE \<and> att_deadline a > masterNow) (attempts d);
         w = (\<lambda>t. task_id t = tid \<and> task_status t = RUNNING \<and> task_cur t = Some aid \<and> live)
     in if rows_affected w (tasks d) \<noteq> 1 then Inl ErrAttemptFenced
        else Inr ((), d\<lparr>tasks := update_where w
               (\<lambda>t. t\<lparr>task_rows := rws, task_bytes_read := br, task_bytes_written := bw\<rparr>) (tasks d)\<rparr>))"

definition task_of_run :: "db \<Rightarrow> string \<Rightarrow> string \<Rightarrow> bool" where
  "task_of_run d rid tid \<longleftrightarrow> list_ex (\<lambda>t. task_id t = tid \<and> task_run t = rid) (tasks d)"

definition cancel_attempts_of_run :: "time \<Rightarrow> string \<Rightarrow> string \<Rightarrow> db \<Rightarrow> attempt list" where
  "cancel_attempts_of_run now reason rid d =
     update_where (\<lambda>a. att_status a = ACTIVE \<and> task_of_run d rid (att_task a))
       (\<lambda>a. a\<lparr>att_status := CANCELED, att_finished := Some now, att_fclass := ''CANCELED'',
              att_fmsg := Some reason, att_updated := now\<rparr>) (attempts d)"

definition CancelActiveAttempts :: "string \<Rightarrow> string \<Rightarrow> time \<Rightarrow> db \<Rightarrow> (unit \<times> db) res" where
  "CancelActiveAttempts rid reason now d = Inr ((), d\<lparr>attempts := cancel_attempts_of_run now reason rid d\<rparr>)"


section \<open>Frame facts\<close>

lemma insertAttemptEventTx_frame [simp]:
  "jobs (insertAttemptEventTx E rid tid aid n w ty c ts x d) = jobs d"
  "runs (insertAttemptEventTx E rid tid aid n w ty c ts x d) = runs d"
  "tasks (insertAttemptEventTx E rid tid aid n w ty c ts x d) = tasks d"
  "attempts (insertAttemptEventTx E rid tid aid n w ty c ts x d) = attempts d"
  "artifacts (insertAttemptEventTx E rid tid aid n w ty c ts x d) = artifacts d"
  "registrations (insertAttemptEventTx E rid tid aid n w ty c ts x d) = registrations d"
  "upload_leases (insertAttemptEventTx E rid tid aid n w ty c ts x d) = upload_leases d"
  "multiparts (insertAttemptEventTx E rid tid aid n w ty c ts x d) = multiparts d"
  "candidates (insertAttemptEventTx E rid tid aid n w ty c ts x d) = candidates d"
  "cleanup_attempts (insertAttemptEventTx E rid tid aid n w ty c ts x d) = cleanup_attempts d"
  "reg_attempts (insertAttemptEventTx E rid tid aid n w ty c ts x d) = reg_attempts d"
  "rec_attempts (insertAttemptEventTx E rid tid aid n w ty c ts x d) = rec_attempts d"
  "leader (insertAttemptEventTx E rid tid aid n w ty c ts x d) = leader d"
  by (simp_all add: insertAttemptEventTx_def)

lemma normalized_pos [simp]:
  "0 < lp_duration (normalized p)" "0 < lp_max_attempts (normalized p)"
  "0 < lp_backoff_base (normalized p)" "0 < lp_backoff_max (normalized p)"
  by (simp_all add: normalized_def)

lemma normalized_idem [simp]: "normalized (normalized p) = normalized p"
  by (simp add: normalized_def)

lemma quarantine_task_fields [simp]:
  "task_id (quarantine_task n m t) = task_id t" "task_attempts (quarantine_task n m t) = task_attempts t"
  "task_cur (quarantine_task n m t) = None" "task_status (quarantine_task n m t) = QUARANTINED"
  "task_run (quarantine_task n m t) = task_run t"
  by (simp_all add: quarantine_task_def)

lemma requeue_task_fields [simp]:
  "task_id (requeue_task n m t) = task_id t" "task_attempts (requeue_task n m t) = task_attempts t"
  "task_cur (requeue_task n m t) = None" "task_status (requeue_task n m t) = PENDING"
  "task_run (requeue_task n m t) = task_run t" "task_next (requeue_task n m t) = Some n"
  by (simp_all add: requeue_task_def)

lemma fail_run_ids [simp]: "map run_id (fail_run_retry_limit now rid rs) = map run_id rs"
  unfolding fail_run_retry_limit_def by (rule update_where_key) simp

section \<open>The lease invariant\<close>

text \<open>
  An attempt is ACTIVE exactly when it is the current attempt of a RUNNING task, attempt numbers
  count up to the task's attempt count, and identities are unique.
\<close>

definition attempt_ok :: "task list \<Rightarrow> attempt \<Rightarrow> bool" where
  "attempt_ok ts a \<longleftrightarrow> (\<exists>t \<in> set ts. task_id t = att_task a \<and> 1 \<le> att_number a \<and> att_number a \<le> task_attempts t
      \<and> (att_status a = ACTIVE \<longrightarrow> task_status t = RUNNING \<and> task_cur t = Some (att_id a)))"

definition task_ok :: "attempt list \<Rightarrow> task \<Rightarrow> bool" where
  "task_ok as t \<longleftrightarrow> 0 \<le> task_attempts t \<and> (task_status t = RUNNING \<longleftrightarrow> task_cur t \<noteq> None)
      \<and> (\<forall>aid. task_cur t = Some aid \<longrightarrow> (\<exists>a \<in> set as. att_id a = aid \<and> att_task a = task_id t
             \<and> att_status a = ACTIVE \<and> att_number a = task_attempts t))"

definition lease_inv :: "db \<Rightarrow> bool" where
  "lease_inv d \<longleftrightarrow> keyed task_id (tasks d) \<and> keyed att_id (attempts d) \<and> keyed run_id (runs d)
     \<and> keyed att_token (attempts d) \<and> keyed (\<lambda>a. (att_task a, att_number a)) (attempts d)
     \<and> (\<forall>a \<in> set (attempts d). attempt_ok (tasks d) a) \<and> (\<forall>t \<in> set (tasks d). task_ok (attempts d) t)"

lemma lease_invD:
  assumes "lease_inv d"
  shows "keyed task_id (tasks d)" "keyed att_id (attempts d)" "keyed run_id (runs d)"
    "keyed att_token (attempts d)" "keyed (\<lambda>a. (att_task a, att_number a)) (attempts d)"
    "\<And>a. a \<in> set (attempts d) \<Longrightarrow> attempt_ok (tasks d) a"
    "\<And>t. t \<in> set (tasks d) \<Longrightarrow> task_ok (attempts d) t"
  using assms by (auto simp: lease_inv_def)

lemma active_attempt_task:
  assumes "lease_inv d" "a \<in> set (attempts d)" "att_status a = ACTIVE"
    and "t \<in> set (tasks d)" "task_id t = att_task a"
  shows "task_status t = RUNNING" "task_cur t = Some (att_id a)"
proof -
  obtain u where u: "u \<in> set (tasks d)" "task_id u = att_task a" "task_status u = RUNNING"
      "task_cur u = Some (att_id a)"
    using lease_invD(6) [OF assms(1,2)] assms(3) by (auto simp: attempt_ok_def)
  have "u = t" using keyed_unique [OF lease_invD(1) [OF assms(1)] u(1) assms(4)] u(2) assms(5) by simp
  then show "task_status t = RUNNING" "task_cur t = Some (att_id a)" using u by auto
qed

lemma current_attempt:
  assumes "lease_inv d" "t \<in> set (tasks d)" "task_cur t = Some aid" "a \<in> set (attempts d)" "att_id a = aid"
  shows "att_task a = task_id t" "att_status a = ACTIVE" "att_number a = task_attempts t"
proof -
  obtain b where b: "b \<in> set (attempts d)" "att_id b = aid" "att_task b = task_id t" "att_status b = ACTIVE"
      "att_number b = task_attempts t"
    using lease_invD(7) [OF assms(1,2)] assms(3) by (auto simp: task_ok_def)
  have "b = a" using keyed_unique [OF lease_invD(2) [OF assms(1)] b(1) assms(4)] b(2) assms(5) by simp
  then show "att_task a = task_id t" "att_status a = ACTIVE" "att_number a = task_attempts t"
    using b by auto
qed

text \<open>Updates that keep identity, status, currency and counters keep the invariant.\<close>

lemma lease_inv_cong:
  assumes "lease_inv d"
    and "tasks d' = map g (tasks d)" "attempts d' = map f (attempts d)"
    and "map run_id (runs d') = map run_id (runs d)"
    and "\<And>t. task_id (g t) = task_id t \<and> task_status (g t) = task_status t \<and> task_cur (g t) = task_cur t
              \<and> task_attempts (g t) = task_attempts t"
    and "\<And>a. att_id (f a) = att_id a \<and> att_task (f a) = att_task a \<and> att_number (f a) = att_number a
              \<and> att_token (f a) = att_token a \<and> att_status (f a) = att_status a"
  shows "lease_inv d'"
  using assms(1)
  unfolding lease_inv_def keyed_def attempt_ok_def task_ok_def assms(2-4)
  by (simp add: assms(5,6) comp_def) blast

lemma update_where_map: "update_where p f xs = map (\<lambda>r. if p r then f r else r) xs"
  by (simp add: update_where_def)

text \<open>
  Releasing attempts: every attempt that \<open>f\<close> finishes is let go by its task through \<open>g\<close> and the
  other way round. Completion, abandonment, expiry and cancellation are instances.
\<close>

lemma lease_inv_release:
  assumes inv: "lease_inv d"
    and ts: "tasks d' = update_where wt g (tasks d)"
    and as: "attempts d' = update_where wa f (attempts d)"
    and rs: "map run_id (runs d') = map run_id (runs d)"
    and f: "\<And>a. att_id (f a) = att_id a \<and> att_task (f a) = att_task a \<and> att_number (f a) = att_number a
              \<and> att_token (f a) = att_token a \<and> att_status (f a) \<noteq> ACTIVE"
    and g: "\<And>t. task_id (g t) = task_id t \<and> task_attempts (g t) = task_attempts t
              \<and> (wt t \<longrightarrow> task_cur (g t) = None \<and> task_status (g t) \<noteq> RUNNING)"
    and agree: "\<And>a t. a \<in> set (attempts d) \<Longrightarrow> t \<in> set (tasks d) \<Longrightarrow> att_status a = ACTIVE \<Longrightarrow>
              task_cur t = Some (att_id a) \<Longrightarrow> wa a \<longleftrightarrow> wt t"
  shows "lease_inv d'"
proof -
  note I = lease_invD [OF inv]
  have keys: "keyed task_id (tasks d')" "keyed att_id (attempts d')" "keyed run_id (runs d')"
    "keyed att_token (attempts d')" "keyed (\<lambda>a. (att_task a, att_number a)) (attempts d')"
    unfolding ts as using I(1-5) rs by (auto intro!: keyed_update_where simp: f g) (simp add: keyed_def)
  have "attempt_ok (tasks d') b" if b: "b \<in> set (attempts d')" for b
  proof -
    obtain a where a: "a \<in> set (attempts d)" "b = (if wa a then f a else a)"
      using b unfolding as by (rule in_update_whereE)
    obtain t where t: "t \<in> set (tasks d)" "task_id t = att_task a" "1 \<le> att_number a"
        "att_number a \<le> task_attempts t"
        "att_status a = ACTIVE \<longrightarrow> task_status t = RUNNING \<and> task_cur t = Some (att_id a)"
      using I(6) [OF a(1)] by (auto simp: attempt_ok_def)
    let ?t = "if wt t then g t else t"
    have "?t \<in> set (tasks d')" unfolding ts using t(1) by (rule in_update_whereI)
    moreover have "att_status b = ACTIVE \<longrightarrow> \<not> wt t"
      using a t(1,5) agree [OF a(1) t(1)] f by (auto split: if_splits)
    ultimately show ?thesis
      unfolding attempt_ok_def using a(2) t f g by (intro bexI [of _ ?t]) auto
  qed
  moreover have "task_ok (attempts d') u" if u: "u \<in> set (tasks d')" for u
  proof -
    obtain t where t: "t \<in> set (tasks d)" "u = (if wt t then g t else t)"
      using u unfolding ts by (rule in_update_whereE)
    have ok: "task_ok (attempts d) t" by (rule I(7) [OF t(1)])
    show ?thesis
    proof (cases "wt t")
      case True
      then show ?thesis using ok t(2) g by (auto simp: task_ok_def)
    next
      case False
      have "\<exists>b \<in> set (attempts d'). att_id b = aid \<and> att_task b = task_id t \<and> att_status b = ACTIVE
          \<and> att_number b = task_attempts t" if c: "task_cur t = Some aid" for aid
      proof -
        obtain a where a: "a \<in> set (attempts d)" "att_id a = aid" "att_task a = task_id t"
            "att_status a = ACTIVE" "att_number a = task_attempts t"
          using ok c by (auto simp: task_ok_def)
        have "\<not> wa a" using agree [OF a(1) t(1) a(4)] c a(2) False by simp
        then have "a \<in> set (attempts d')" unfolding as by (rule update_where_keepI [OF a(1)])
        then show ?thesis using a by auto
      qed
      then show ?thesis using ok False t(2) by (auto simp: task_ok_def)
    qed
  qed
  ultimately show ?thesis using keys by (simp add: lease_inv_def)
qed

section \<open>Operations preserve the lease invariant\<close>

subsection \<open>Assignment\<close>

definition assigned_task :: "string \<Rightarrow> string \<Rightarrow> time \<Rightarrow> int \<Rightarrow> task \<Rightarrow> task" where
  "assigned_task worker aid now num u = u\<lparr>task_status := RUNNING, task_worker := Some worker,
     task_started := Some (coalesce (task_started u) now), task_cur := Some aid,
     task_attempts := num, task_next := None\<rparr>"

lemma assigned_task_fields [simp]:
  "task_id (assigned_task w a n k u) = task_id u" "task_status (assigned_task w a n k u) = RUNNING"
  "task_cur (assigned_task w a n k u) = Some a" "task_attempts (assigned_task w a n k u) = k"
  "task_run (assigned_task w a n k u) = task_run u"
  by (simp_all add: assigned_task_def)

lemma pending_no_current:
  assumes "lease_inv d" "t \<in> set (tasks d)" "task_status t = PENDING"
  shows "task_cur t = None"
  using lease_invD(7) [OF assms(1,2)] assms(3) by (auto simp: task_ok_def)

text \<open>What an assignment does, under the invariant: nothing, or one task gets one fresh attempt.\<close>

lemma assign_cases:
  assumes inv: "lease_inv d"
    and ok: "AssignNextPendingTaskInPool E boot worker pool now pol idFn tokenFn d = Inr (r, d')"
  obtains
    (idle) "r = None" "d' = d" "\<And>t. t \<in> set (tasks d) \<Longrightarrow> \<not> assignable d now (normalized pol) pool t"
  | (assigned) t aid token a asg where
      "r = Some asg" "idFn = Inr aid" "tokenFn = Inr token"
      "select_first_by (assign_key d) (assignable d now (normalized pol) pool) (tasks d) = Some t"
      "tasks d' = update_where (\<lambda>u. task_id u = task_id t)
         (assigned_task worker aid now (task_attempts t + 1)) (tasks d)"
      "attempts d' = attempts d @ [a]" "runs d' = runs d" "jobs d' = jobs d"
      "\<And>b. b \<in> set (attempts d) \<Longrightarrow> \<not> attempt_conflict a b"
      "att_id a = aid" "att_task a = task_id t" "att_number a = task_attempts t + 1"
      "att_worker a = worker" "att_boot a = boot" "att_token a = token" "att_status a = ACTIVE"
      "att_deadline a = now + lp_duration (normalized pol)"
      "asg_task asg = task_id t" "asg_attempt asg = aid" "asg_token asg = token"
      "asg_number asg = task_attempts t + 1" "asg_deadline asg = now + lp_duration (normalized pol)"
      "asg_run asg = task_run t"
proof -
  let ?p = "normalized pol"
  obtain aid token where it: "idFn = Inr aid" "tokenFn = Inr token"
    using ok by (auto simp: AssignNextPendingTaskInPool_def Let_def)
  show thesis
  proof (cases "select_first_by (assign_key d) (assignable d now ?p pool) (tasks d)")
    case None
    then have "r = None" "d' = d" using ok it by (auto simp: AssignNextPendingTaskInPool_def Let_def)
    then show thesis using idle None by (auto simp: select_first_by_NoneD)
  next
    case (Some t)
    have t: "t \<in> set (tasks d)" "task_status t = PENDING"
      using select_first_by_SomeD(1,2) [OF Some] by (auto simp: assignable_def)
    let ?w = "\<lambda>u. task_id u = task_id t \<and> task_status u = PENDING \<and> task_cur u = None"
    have cur: "task_cur t = None" by (rule pending_no_current [OF inv t])
    have only: "?w u \<longleftrightarrow> task_id u = task_id t" if "u \<in> set (tasks d)" for u
      using keyed_unique [OF lease_invD(1) [OF inv] that t(1)] t(2) cur by auto
    have one: "rows_affected ?w (tasks d) = 1"
      by (rule keyed_rows_affected_one [OF lease_invD(1) [OF inv] t(1)]) (use t cur in auto)
    have upd: "update_where ?w f (tasks d) = update_where (\<lambda>u. task_id u = task_id t) f (tasks d)" for f
      unfolding update_where_def by (rule map_cong) (auto simp: only)
    show thesis
      using ok one
      by (auto simp: AssignNextPendingTaskInPool_def Let_def it Some upd assigned_task_def [symmetric]
          intro!: assigned [OF _ it Some] split: option.splits if_splits)
  qed
qed

lemma lease_inv_assign:
  assumes inv: "lease_inv d" and t: "t \<in> set (tasks d)" "task_status t = PENDING"
    and ts: "tasks d' = update_where (\<lambda>u. task_id u = task_id t) g (tasks d)"
    and as: "attempts d' = attempts d @ [a]" and rs: "runs d' = runs d"
    and nc: "\<And>b. b \<in> set (attempts d) \<Longrightarrow> \<not> attempt_conflict a b"
    and a: "att_task a = task_id t" "att_number a = task_attempts t + 1" "att_status a = ACTIVE"
    and g: "\<And>u. task_id (g u) = task_id u \<and> task_status (g u) = RUNNING \<and> task_cur (g u) = Some (att_id a)
              \<and> task_attempts (g u) = task_attempts t + 1"
  shows "lease_inv d'"
proof -
  note I = lease_invD [OF inv]
  have only: "u = t" if "u \<in> set (tasks d)" "task_id u = task_id t" for u
    using keyed_unique [OF I(1) that(1) t(1) that(2)] .
  have keys: "keyed task_id (tasks d')" "keyed att_id (attempts d')" "keyed run_id (runs d')"
    "keyed att_token (attempts d')" "keyed (\<lambda>a. (att_task a, att_number a)) (attempts d')"
    unfolding ts as rs using I(1-5) nc
    by (auto intro!: keyed_update_where keyed_append simp: g attempt_conflict_def)
  have "attempt_ok (tasks d') b" if b: "b \<in> set (attempts d')" for b
  proof (cases "b = a")
    case True
    have "g t \<in> set (tasks d')" unfolding ts by (rule update_where_hitI [OF t(1)]) simp
    then show ?thesis using True g a I(7) [OF t(1)]
      by (auto simp: attempt_ok_def task_ok_def intro!: bexI [of _ "g t"])
  next
    case False
    then obtain u where u: "u \<in> set (tasks d)" "task_id u = att_task b" "1 \<le> att_number b"
        "att_number b \<le> task_attempts u"
        "att_status b = ACTIVE \<longrightarrow> task_status u = RUNNING \<and> task_cur u = Some (att_id b)"
      using I(6) [of b] b as by (auto simp: attempt_ok_def)
    let ?u = "if task_id u = task_id t then g u else u"
    have "?u \<in> set (tasks d')" unfolding ts by (rule in_update_whereI [OF u(1)])
    moreover have "att_status b = ACTIVE \<longrightarrow> task_id u \<noteq> task_id t"
      using only [OF u(1)] u(5) t(2) by auto
    ultimately show ?thesis
      unfolding attempt_ok_def using u g only [OF u(1)] by (intro bexI [of _ ?u]) auto
  qed
  moreover have "task_ok (attempts d') u" if u: "u \<in> set (tasks d')" for u
  proof -
    obtain v where v: "v \<in> set (tasks d)" "u = (if task_id v = task_id t then g v else v)"
      using u unfolding ts by (rule in_update_whereE)
    show ?thesis
    proof (cases "task_id v = task_id t")
      case True
      then have "v = t" by (rule only [OF v(1)])
      then show ?thesis using v(2) g a I(7) [OF t(1)] by (auto simp: task_ok_def as)
    next
      case False
      then show ?thesis using v I(7) [OF v(1)] by (auto simp: task_ok_def as)
    qed
  qed
  ultimately show ?thesis using keys by (simp add: lease_inv_def)
qed

lemma assign_preserves:
  assumes "lease_inv d"
    and "AssignNextPendingTaskInPool E boot worker pool now pol idFn tokenFn d = Inr (r, d')"
  shows "lease_inv d'"
  using assms
proof (cases rule: assign_cases)
  case idle
  then show ?thesis using assms(1) by simp
next
  case (assigned t aid token a asg)
  have "t \<in> set (tasks d)" "task_status t = PENDING"
    using select_first_by_SomeD(1,2) [OF assigned(4)] by (auto simp: assignable_def)
  then show ?thesis
    using assigned by (intro lease_inv_assign [OF assms(1), where d' = d' and t = t and a = a]) auto
qed

subsection \<open>Renewal and progress\<close>

lemma renew_preserves:
  assumes "lease_inv d" "RenewTaskLease boot tid aid token worker now dur d = Inr (dl, d')"
  shows "lease_inv d'"
proof -
  obtain w where d': "d' = d\<lparr>attempts := update_where w
      (\<lambda>a. a\<lparr>att_deadline := dl, att_renewed := now, att_updated := now\<rparr>) (attempts d)\<rparr>"
    using assms(2) by (auto simp: RenewTaskLease_def Let_def split: if_splits)
  show ?thesis
    by (rule lease_inv_cong [OF assms(1), where g = id and
          f = "\<lambda>a. if w a then a\<lparr>att_deadline := dl, att_renewed := now, att_updated := now\<rparr> else a"])
      (simp_all add: d' update_where_map)
qed

lemma progress_preserves:
  assumes "lease_inv d" "UpdateTaskProgressFencedAt boot tid aid token worker r br bw now d = Inr (u, d')"
  shows "lease_inv d'"
proof -
  obtain w where d': "d' = d\<lparr>tasks := update_where w
      (\<lambda>t. t\<lparr>task_rows := r, task_bytes_read := br, task_bytes_written := bw\<rparr>) (tasks d)\<rparr>"
    using assms(2) by (auto simp: UpdateTaskProgressFencedAt_def Let_def split: if_splits)
  show ?thesis
    by (rule lease_inv_cong [OF assms(1), where f = id and
          g = "\<lambda>t. if w t then t\<lparr>task_rows := r, task_bytes_read := br, task_bytes_written := bw\<rparr> else t"])
      (simp_all add: d' update_where_map)
qed

subsection \<open>Completion and abandonment\<close>

abbreviation completed_attempt :: "env \<Rightarrow> result \<Rightarrow> string \<Rightarrow> time \<Rightarrow> attempt \<Rightarrow> attempt" where
  "completed_attempt E res fc now b \<equiv> b\<lparr>att_status := res_status res, att_finished := Some now,
     att_fclass := failure_class_of (res_status res) (res_err res) fc,
     att_fmsg := res_err res, att_digest := resultDigest E res, att_updated := now\<rparr>"

abbreviation completed_task :: "result \<Rightarrow> time \<Rightarrow> task \<Rightarrow> task" where
  "completed_task res now u \<equiv> u\<lparr>task_status := res_status res, task_error := res_err res,
     task_objects := res_objects res, task_hwm := res_hwm res, task_rows := res_rows res,
     task_bytes_read := res_bytes_read res, task_bytes_written := res_bytes_written res,
     task_finished := Some now, task_cur := None\<rparr>"

abbreviation holds_task :: "string \<Rightarrow> string \<Rightarrow> task \<Rightarrow> bool" where
  "holds_task tid aid u \<equiv> task_id u = tid \<and> task_status u = RUNNING \<and> task_cur u = Some aid"

text \<open>A result is accepted for the live current attempt only, or it repeats an accepted result.\<close>

lemma complete_cases:
  assumes ok: "completeTaskAttemptAt E boot tid aid token worker res now mnow recs strict fc d = Inr (out, d')"
  obtains
    (replay) a t where "a \<in> set (attempts d)" "att_id a = aid" "att_task a = tid"
      "att_status a \<in> {SUCCEEDED, FAILED}" "att_digest a = resultDigest E res"
      "t \<in> set (tasks d)" "task_id t = tid" "out = (AlreadyAccepted, task_status t)" "d' = d"
      "att_worker a = worker" "att_boot a = boot" "att_token a = token"
  | (accepted) a t r arts where
      "a \<in> set (attempts d)" "att_id a = aid" "att_task a = tid" "att_status a = ACTIVE" "mnow < att_deadline a"
      "att_worker a = worker" "att_boot a = boot" "att_token a = token"
      "t \<in> set (tasks d)" "task_id t = tid" "task_status t = RUNNING" "coalesce (task_cur t) '''' = aid"
      "find_run (task_run t) d = Some r" "run_status r = RUNNING"
      "res_status res \<in> {SUCCEEDED, FAILED, CANCELED}" "out = (Accepted, res_status res)"
      "(if strict \<and> res_status res = SUCCEEDED
        then insert_artifacts E tid aid (run_id r) (att_number a) mnow recs (artifacts d)
        else Inr (artifacts d)) = Inr arts"
      "strict \<and> res_status res = SUCCEEDED \<and> 0 < res_bytes_written res \<longrightarrow> recs \<noteq> []"
      "rows_affected (holds_task tid aid) (tasks d) = 1"
      "d' = d\<lparr>artifacts := arts,
         attempts := update_where (\<lambda>b. att_id b = aid \<and> att_status b = ACTIVE)
                       (completed_attempt E res fc now) (attempts d),
         tasks := update_where (holds_task tid aid) (completed_task res now) (tasks d)\<rparr>"
proof -
  obtain a t r where row: "find_attempt aid tid d = Some a" "find_task tid d = Some t"
      "find_run (task_run t) d = Some r"
    using ok by (auto simp: completeTaskAttemptAt_def Let_def)
  have mem: "a \<in> set (attempts d)" "att_id a = aid" "att_task a = tid" "t \<in> set (tasks d)" "task_id t = tid"
    using row(1,2) by (auto simp: find_attempt_def find_task_def)
  let ?arts = "if strict \<and> res_status res = SUCCEEDED
        then insert_artifacts E tid aid (run_id r) (att_number a) mnow recs (artifacts d)
        else Inr (artifacts d)"
  show thesis
  proof (cases "att_status a \<in> {SUCCEEDED, FAILED}")
    case True
    then show thesis using ok row mem
      by (intro replay [of a t]) (auto simp: completeTaskAttemptAt_def Let_def split: if_splits)
  next
    case False
    show thesis
    proof (cases ?arts)
      case (Inl e)
      then show thesis using ok row False by (simp add: completeTaskAttemptAt_def Let_def split: if_splits)
    next
      case (Inr arts)
      show thesis
        by (rule accepted [OF mem(1-3) _ _ _ _ _ mem(4,5) _ _ row(3) _ _ _ Inr])
          (use ok row False Inr in \<open>simp_all add: completeTaskAttemptAt_def Let_def split: if_splits\<close>)
    qed
  qed
qed

lemma complete_preserves:
  assumes inv: "lease_inv d"
    and ok: "completeTaskAttemptAt E boot tid aid token worker res now mnow recs strict fc d = Inr (out, d')"
  shows "lease_inv d'"
  using ok
proof (cases rule: complete_cases)
  case replay
  then show ?thesis using inv by simp
next
  case (accepted a t r arts)
  note A = accepted
  show ?thesis
  proof (rule lease_inv_release [OF inv, where d' = d'])
    show "tasks d' = update_where (holds_task tid aid) (completed_task res now) (tasks d)"
      using A(20) by simp
    show "attempts d' = update_where (\<lambda>b. att_id b = aid \<and> att_status b = ACTIVE)
        (completed_attempt E res fc now) (attempts d)"
      using A(20) by simp
    fix b u assume h: "b \<in> set (attempts d)" "u \<in> set (tasks d)" "att_status b = ACTIVE"
      "task_cur u = Some (att_id b)"
    have "att_id b = aid \<Longrightarrow> b = a"
      using keyed_unique [OF lease_invD(2) [OF inv] h(1) A(1)] A(2) by simp
    then show "(att_id b = aid \<and> att_status b = ACTIVE) \<longleftrightarrow> holds_task tid aid u"
      using h current_attempt [OF inv h(2,4,1) refl] lease_invD(7) [OF inv h(2)] A(3)
      by (auto simp: task_ok_def)
  qed (use A(15,20) in auto)
qed

lemma complete_frame:
  assumes "completeTaskAttemptAt E boot tid aid token worker res now mnow recs strict fc d = Inr (out, d')"
  shows "runs d' = runs d" "jobs d' = jobs d" "registrations d' = registrations d" "leader d' = leader d"
  using assms by (cases rule: complete_cases; simp)+

lemma abandon_cases:
  assumes ok: "AbandonTaskAttemptWithPolicy E tid aid worker reason now pol d = Inr (u, d')"
  obtains a t g rs where
    "a \<in> set (attempts d)" "att_id a = aid" "att_task a = tid" "att_worker a = worker" "att_status a = ACTIVE"
    "t \<in> set (tasks d)" "holds_task tid aid t"
    "tasks d' = update_where (holds_task tid aid) g (tasks d)"
    "attempts d' = update_where (\<lambda>b. att_id b = aid \<and> att_task b = tid \<and> att_worker b = worker \<and> att_status b = ACTIVE)
       (\<lambda>b. b\<lparr>att_status := FAILED, att_finished := Some now, att_fclass := ''ASSIGNMENT_BUILD_FAILURE'',
              att_fmsg := Some reason, att_updated := now\<rparr>) (attempts d)"
    "runs d' = rs" "jobs d' = jobs d" "artifacts d' = artifacts d"
    "if lp_max_attempts (normalized pol) \<le> att_number a
     then g = quarantine_task now reason \<and> rs = fail_run_retry_limit now (task_run t) (runs d)
     else g = requeue_task (now + retryBackoff pol (att_number a)) reason \<and> rs = runs d"
proof -
  obtain t where t: "select_one (holds_task tid aid) (tasks d) = Some t"
    using ok by (auto simp: AbandonTaskAttemptWithPolicy_def Let_def)
  obtain a where a: "select_one (\<lambda>a. att_id a = aid \<and> att_task a = tid \<and> att_worker a = worker \<and> att_status a = ACTIVE)
      (attempts d) = Some a"
    using ok by (auto simp: AbandonTaskAttemptWithPolicy_def Let_def)
  have rb: "retryBackoff (normalized pol) n = retryBackoff pol n" for n
    by (simp add: retryBackoff_def)
  show thesis
    by (rule that [of a t "if lp_max_attempts (normalized pol) \<le> att_number a then quarantine_task now reason
            else requeue_task (now + retryBackoff pol (att_number a)) reason" "runs d'"])
      (use ok a t in \<open>auto simp: AbandonTaskAttemptWithPolicy_def Let_def rb split: if_splits\<close>)
qed

lemma abandon_preserves:
  assumes inv: "lease_inv d"
    and ok: "AbandonTaskAttemptWithPolicy E tid aid worker reason now pol d = Inr (u, d')"
  shows "lease_inv d'"
  using ok
proof (cases rule: abandon_cases)
  case (1 a t g rs)
  show ?thesis
  proof (rule lease_inv_release [OF inv 1(8,9)])
    show "map run_id (runs d') = map run_id (runs d)" using 1(10,13) by (auto split: if_splits)
    fix b v assume h: "b \<in> set (attempts d)" "v \<in> set (tasks d)" "att_status b = ACTIVE"
      "task_cur v = Some (att_id b)"
    have "att_id b = aid \<Longrightarrow> b = a"
      using keyed_unique [OF lease_invD(2) [OF inv] h(1) 1(1)] 1(2) by simp
    then show "(att_id b = aid \<and> att_task b = tid \<and> att_worker b = worker \<and> att_status b = ACTIVE) \<longleftrightarrow> holds_task tid aid v"
      using h current_attempt [OF inv h(2,4,1) refl] lease_invD(7) [OF inv h(2)] 1
      by (auto simp: task_ok_def)
  qed (use 1(13) in \<open>auto split: if_splits\<close>)
qed

subsection \<open>Expiry\<close>

abbreviation expired_attempt :: "time \<Rightarrow> attempt \<Rightarrow> attempt" where
  "expired_attempt now a \<equiv> a\<lparr>att_status := EXPIRED, att_finished := Some now, att_fclass := ''LEASE_EXPIRED'',
     att_fmsg := Some ''lease expired'', att_updated := now\<rparr>"

definition expired_task :: "time \<Rightarrow> lease_policy \<Rightarrow> attempt \<Rightarrow> task \<Rightarrow> task" where
  "expired_task now p x t =
    (if lp_max_attempts p \<le> att_number x then quarantine_task now ''retry limit exhausted'' t
     else requeue_task (now + retryBackoff p (att_number x)) ''lease expired'' t)"

lemma expired_task_fields [simp]:
  "task_id (expired_task now p x t) = task_id t" "task_attempts (expired_task now p x t) = task_attempts t"
  "task_cur (expired_task now p x t) = None" "task_status (expired_task now p x t) \<noteq> RUNNING"
  "task_run (expired_task now p x t) = task_run t"
  by (simp_all add: expired_task_def)

lemma expire_item_attempts:
  "attempts (snd (expire_item E now p (x, rid) (n, d))) =
     update_where (\<lambda>a. att_id a = att_id x \<and> att_status a = ACTIVE) (expired_attempt now) (attempts d)"
  by (simp add: expire_item_def Let_def)

lemma expire_item_runs:
  "map run_id (runs (snd (expire_item E now p (x, rid) (n, d)))) = map run_id (runs d)"
  by (simp add: expire_item_def Let_def)

lemma expire_item_active:
  assumes "lease_inv d" "b \<in> set (attempts d)" "att_id b = att_id x" "att_status b = ACTIVE"
  shows "tasks (snd (expire_item E now p (x, rid) (n, d))) =
       update_where (\<lambda>t. task_id t = att_task x \<and> task_cur t = Some (att_id x)) (expired_task now p x) (tasks d)"
    and "fst (expire_item E now p (x, rid) (n, d)) = Suc n"
proof -
  have "rows_affected (\<lambda>a. att_id a = att_id x \<and> att_status a = ACTIVE) (attempts d) = 1"
    by (rule keyed_rows_affected_one [OF lease_invD(2) [OF assms(1)] assms(2)]) (use assms in auto)
  then show "tasks (snd (expire_item E now p (x, rid) (n, d))) =
       update_where (\<lambda>t. task_id t = att_task x \<and> task_cur t = Some (att_id x)) (expired_task now p x) (tasks d)"
    and "fst (expire_item E now p (x, rid) (n, d)) = Suc n"
    by (simp_all add: expire_item_def Let_def update_where_def expired_task_def)
qed

lemma expire_item_preserves:
  assumes inv: "lease_inv d" and b: "b \<in> set (attempts d)" "att_id b = att_id x" "att_task b = att_task x"
    "att_status b = ACTIVE"
  shows "lease_inv (snd (expire_item E now p (x, rid) (n, d)))"
proof (rule lease_inv_release [OF inv expire_item_active(1) [OF inv b(1,2,4)] expire_item_attempts expire_item_runs])
  fix a t assume h: "a \<in> set (attempts d)" "t \<in> set (tasks d)" "att_status a = ACTIVE" "task_cur t = Some (att_id a)"
  have "att_id a = att_id x \<Longrightarrow> a = b"
    using keyed_unique [OF lease_invD(2) [OF inv] h(1) b(1)] b(2) by simp
  then show "(att_id a = att_id x \<and> att_status a = ACTIVE) \<longleftrightarrow> (task_id t = att_task x \<and> task_cur t = Some (att_id x))"
    using h current_attempt [OF inv h(2,4,1) refl] b(3) by auto
qed auto

text \<open>The whole loop, over items that are distinct active attempts of the database.\<close>

definition expiry_items :: "db \<Rightarrow> (attempt \<times> string) list \<Rightarrow> bool" where
  "expiry_items d xs \<longleftrightarrow> distinct (map (\<lambda>x. att_id (fst x)) xs)
     \<and> (\<forall>x \<in> set xs. fst x \<in> set (attempts d) \<and> att_status (fst x) = ACTIVE)"

lemma expiry_items_tail:
  assumes "lease_inv d" "expiry_items d ((x, rid) # xs)"
  shows "expiry_items (snd (expire_item E now p (x, rid) (n, d))) xs"
  using assms(2) unfolding expiry_items_def expire_item_attempts
  by (force intro!: update_where_keepI)

lemma fold_expire_preserves:
  assumes "lease_inv d" "expiry_items d xs"
  shows "lease_inv (snd (fold (expire_item E now p) xs (n, d)))
       \<and> fst (fold (expire_item E now p) xs (n, d)) = n + length xs
       \<and> attempts (snd (fold (expire_item E now p) xs (n, d))) =
           update_where (\<lambda>a. att_status a = ACTIVE \<and> att_id a \<in> (\<lambda>x. att_id (fst x)) ` set xs)
             (expired_attempt now) (attempts d)"
  using assms
proof (induction xs arbitrary: n d)
  case Nil
  then show ?case by (simp add: update_where_none)
next
  case (Cons y xs)
  obtain x rid where y: "y = (x, rid)" by (cases y)
  let ?e = "expire_item E now p y (n, d)"
  have x: "x \<in> set (attempts d)" "att_status x = ACTIVE" using Cons.prems(2) y by (auto simp: expiry_items_def)
  have inv': "lease_inv (snd ?e)" unfolding y by (rule expire_item_preserves [OF Cons.prems(1) x(1) refl refl x(2)])
  have it': "expiry_items (snd ?e) xs" using expiry_items_tail Cons.prems y by blast
  have n': "fst ?e = Suc n" unfolding y by (rule expire_item_active(2) [OF Cons.prems(1) x(1) refl x(2)])
  have as': "attempts (snd ?e) = update_where (\<lambda>a. att_id a = att_id x \<and> att_status a = ACTIVE) (expired_attempt now) (attempts d)"
    unfolding y by (rule expire_item_attempts)
  have e: "?e = (Suc n, snd ?e)" using n' by (metis prod.collapse)
  note IH = Cons.IH [OF inv' it', of "Suc n"]
  have "update_where (\<lambda>a. att_status a = ACTIVE \<and> att_id a \<in> (\<lambda>x. att_id (fst x)) ` set xs) (expired_attempt now)
          (attempts (snd ?e)) =
        update_where (\<lambda>a. att_status a = ACTIVE \<and> att_id a \<in> (\<lambda>x. att_id (fst x)) ` set (y # xs)) (expired_attempt now)
          (attempts d)"
    unfolding as' by (subst update_where_union) (auto simp: y intro!: update_where_cong)
  moreover have "fold (expire_item E now p) (y # xs) (n, d) = fold (expire_item E now p) xs (Suc n, snd ?e)"
    by (subst e [symmetric]) simp
  ultimately show ?case using IH by (simp only: length_Cons add_Suc add_Suc_right simp_thms)
qed

lemma items_of_expirable:
  assumes "lease_inv d"
  shows "expiry_items d (map (\<lambda>a. (a, run_of_attempt d a)) (filter (expirable d now) (attempts d)))"
  using lease_invD(2) [OF assms]
  by (auto simp: expiry_items_def expirable_def comp_def keyed_def distinct_map_filter)

lemma expire_preserves:
  assumes "lease_inv d" "ExpireTaskAttempts E now pol d = Inr (n, d')"
  shows "lease_inv d'"
  using fold_expire_preserves [OF assms(1) items_of_expirable [OF assms(1), of now],
      where E = E and now = now and p = "normalized pol" and n = 0] assms(2)
  by (simp add: ExpireTaskAttempts_def Let_def)

lemma expire_attempts:
  assumes "lease_inv d" "ExpireTaskAttempts E now pol d = Inr (n, d')"
  shows "n = length (filter (expirable d now) (attempts d))"
    and "attempts d' = update_where (expirable d now) (expired_attempt now) (attempts d)"
proof -
  let ?xs = "map (\<lambda>a. (a, run_of_attempt d a)) (filter (expirable d now) (attempts d))"
  have f: "fold (expire_item E now (normalized pol)) ?xs (0, d) = (n, d')"
    using assms(2) by (simp add: ExpireTaskAttempts_def Let_def)
  have F: "n = length ?xs" "attempts d' = update_where (\<lambda>a. att_status a = ACTIVE \<and> att_id a \<in> (\<lambda>x. att_id (fst x)) ` set ?xs)
             (expired_attempt now) (attempts d)"
    using fold_expire_preserves [OF assms(1) items_of_expirable [OF assms(1), of now],
        where E = E and now = now and p = "normalized pol" and n = 0] f by auto
  show "n = length (filter (expirable d now) (attempts d))" using F(1) by simp
  have "(att_status a = ACTIVE \<and> att_id a \<in> (\<lambda>x. att_id (fst x)) ` set ?xs) \<longleftrightarrow> expirable d now a"
    if a: "a \<in> set (attempts d)" for a
  proof -
    have "att_id a \<in> (\<lambda>x. att_id (fst x)) ` set ?xs \<longleftrightarrow> (\<exists>b \<in> set (attempts d). expirable d now b \<and> att_id a = att_id b)"
      by (auto simp: image_iff)
    also have "\<dots> \<longleftrightarrow> expirable d now a"
      using a keyed_unique [OF lease_invD(2) [OF assms(1)] a] by blast
    finally show ?thesis by (auto simp: expirable_def)
  qed
  then show "attempts d' = update_where (expirable d now) (expired_attempt now) (attempts d)"
    unfolding F(2) update_where_def by (intro map_cong) auto
qed

end
