(* ===== verification/Samples.thy ===== *)
theory Samples
  imports Schema
begin

text \<open>
  A small concrete database, used by the witnesses that evaluate the operations: one job with a cap of
  two parallel tasks, one running run and two pending tasks. The functions of the environment are
  instantiated by simple total functions.
\<close>

definition sample_env :: env where
  "sample_env = \<lparr>sha256 = take 3, b64_decode = (\<lambda>s. Some s), marshal_records = (\<lambda>rs. concat (map ar_key rs)),
     marshal_evidence = evd_decision, key_zero = False, seal = (\<lambda>aad s. Some s), unseal = (\<lambda>aad s. Some s),
     parse_regcfg = (\<lambda>s. None), parse_intent = (\<lambda>s. Some (s, s)), parse_manifest = (\<lambda>s. None)\<rparr>"

definition sample_run :: run where
  "sample_run = \<lparr>run_id = ''r1'', run_job = ''j1'', run_dataset = ''ds'', run_status = RUNNING, run_started = 0,
     run_finished = None, run_error = None, run_fclass = '''', run_fphase = '''', run_regcfg = '''',
     run_commit_id = '''', run_commit_intent = '''', run_commit_phase = '''', run_rec_status = CR_None,
     run_rec_attempts = 0, run_rec_next = None, run_operator = False, run_claim_token = '''', run_claim_expires = None\<rparr>"

definition sample_task :: "string \<Rightarrow> int \<Rightarrow> task" where
  "sample_task i k = \<lparr>task_id = i, task_run = ''r1'', task_index = k, task_spec = '''', task_worker = None,
     task_status = PENDING, task_rows = 0, task_bytes_read = 0, task_bytes_written = 0, task_objects = '''',
     task_hwm = '''', task_started = None, task_finished = None, task_error = None, task_cur = None,
     task_attempts = 0, task_next = None\<rparr>"

definition sample_db :: db where
  "sample_db = \<lparr>jobs = [\<lparr>job_id = ''j1'', job_max_in_flight = Some 2, job_worker_pool = None\<rparr>], runs = [sample_run],
     tasks = [sample_task ''t1'' 0, sample_task ''t2'' 1], attempts = [], artifacts = [], events = [], registrations = [],
     reg_attempts = [], rec_attempts = [], upload_leases = [], multiparts = [], candidates = [],
     cleanup_attempts = [], leader = \<lparr>ld_instance = ''m'', ld_epoch = 1, ld_active = True, ld_deadline_ms = 100,
       ld_acquired_ms = 0, ld_renewed_ms = 0, ld_released_ms = 0, ld_metadata = ''{}''\<rparr>,
     leader_log = []\<rparr>"

text \<open>The database after an operation, or the given one when the operation fails.\<close>

definition state_after :: "('a \<times> db) res \<Rightarrow> db \<Rightarrow> db" where
  "state_after m d = (case m of Inl _ \<Rightarrow> d | Inr x \<Rightarrow> snd x)"

end
