(* ===== verification/TaskLeases.thy ===== *)
theory TaskLeases
  imports Attempts Samples
begin

text \<open>
  The correctness properties of leased task execution, stated over the operations of
  \<open>Attempts\<close>: assignment is work conserving and respects every cap, a result is accepted once and
  only from the live holder of the lease, and renewal and expiry exclude each other.
\<close>

section \<open>Shared facts\<close>

lemma rows_affected_update_one:
  assumes "keyed key xs" "t \<in> set xs" "\<not> p t" "p (f t)" "\<And>u. u \<in> set xs \<Longrightarrow> q u \<longleftrightarrow> key u = key t"
  shows "rows_affected p (update_where q f xs) = Suc (rows_affected p xs)"
  using assms
proof (induction xs)
  case (Cons x xs)
  have k: "keyed key xs" "key x \<notin> key ` set xs" using Cons.prems(1) by (auto simp: keyed_def)
  show ?case
  proof (cases "key x = key t")
    case True
    then have x: "x = t" using keyed_unique [OF Cons.prems(1), of x t] Cons.prems(2) by auto
    have "update_where q f xs = xs"
      using Cons.prems(5) k(2) True by (intro update_where_none) (metis image_eqI list.set_intros(2))
    then show ?thesis using x Cons.prems(3-5) by (simp add: rows_affected_def)
  next
    case False
    then have "t \<in> set xs" "\<not> q x" using Cons.prems(2,5) by auto
    then show ?thesis using Cons.IH [OF k(1) _ Cons.prems(3,4)] Cons.prems(5) by (simp add: rows_affected_def)
  qed
qed simp

lemma find_task_iff:
  assumes "lease_inv d"
  shows "find_task tid d = Some t \<longleftrightarrow> t \<in> set (tasks d) \<and> task_id t = tid"
  using keyed_select_one [OF lease_invD(1) [OF assms], of t "\<lambda>t. task_id t = tid"]
  by (auto simp: find_task_def)

lemma find_run_iff:
  assumes "lease_inv d"
  shows "find_run rid d = Some r \<longleftrightarrow> r \<in> set (runs d) \<and> run_id r = rid"
  using keyed_select_one [OF lease_invD(3) [OF assms], of r "\<lambda>r. run_id r = rid"]
  by (auto simp: find_run_def)


lemma active_unique:
  assumes "lease_inv d" "a \<in> set (attempts d)" "b \<in> set (attempts d)"
    and "att_status a = ACTIVE" "att_status b = ACTIVE" "att_task a = att_task b"
  shows "a = b"
proof -
  obtain t where t: "t \<in> set (tasks d)" "task_id t = att_task a"
    using lease_invD(6) [OF assms(1,2)] by (auto simp: attempt_ok_def)
  have "task_cur t = Some (att_id a)" "task_cur t = Some (att_id b)"
    using active_attempt_task(2) [OF assms(1)] assms t by metis+
  then show ?thesis using keyed_unique [OF lease_invD(2) [OF assms(1)] assms(2,3)] by simp
qed

text \<open>The tasks and runs after a sweep over expired leases.\<close>

definition holder_in :: "(attempt \<times> string) list \<Rightarrow> task \<Rightarrow> (attempt \<times> string) option" where
  "holder_in xs t = find (\<lambda>x. task_id t = att_task (fst x) \<and> task_cur t = Some (att_id (fst x))) xs"

lemma expire_item_runs_active:
  assumes "lease_inv d" "x \<in> set (attempts d)" "att_status x = ACTIVE"
  shows "runs (snd (expire_item E now p (x, rid) (n, d))) =
    (if lp_max_attempts p \<le> att_number x then fail_run_retry_limit now rid (runs d) else runs d)"
proof -
  have "rows_affected (\<lambda>a. att_id a = att_id x \<and> att_status a = ACTIVE) (attempts d) = 1"
    by (rule keyed_rows_affected_one [OF lease_invD(2) [OF assms(1)] assms(2)]) (use assms in auto)
  then show ?thesis by (simp add: expire_item_def Let_def)
qed

lemma fold_expire_step:
  assumes "lease_inv d" "expiry_items d ((x, rid) # xs)"
  obtains d1 where "fold (expire_item E now p) ((x, rid) # xs) (n, d) = fold (expire_item E now p) xs (Suc n, d1)"
    "lease_inv d1" "expiry_items d1 xs"
    "tasks d1 = update_where (\<lambda>t. task_id t = att_task x \<and> task_cur t = Some (att_id x)) (expired_task now p x) (tasks d)"
    "runs d1 = (if lp_max_attempts p \<le> att_number x then fail_run_retry_limit now rid (runs d) else runs d)"
proof -
  let ?e = "expire_item E now p (x, rid) (n, d)"
  have x: "x \<in> set (attempts d)" "att_status x = ACTIVE" using assms(2) by (auto simp: expiry_items_def)
  have "?e = (Suc n, snd ?e)"
    using expire_item_active(2) [OF assms(1) x(1) refl x(2), of E now p rid n] by (metis prod.collapse)
  then show thesis
    using that [of "snd ?e"] expire_item_preserves [OF assms(1) x(1) refl refl x(2), of E now p rid n]
      expiry_items_tail [OF assms, of E now p n] expire_item_active(1) [OF assms(1) x(1) refl x(2), of E now p rid n]
      expire_item_runs_active [OF assms(1) x, of E now p rid n]
    by (metis fold_simps(2))
qed

lemma find_never [simp]: "find (\<lambda>x. False) xs = None"
  by (induction xs) auto

lemma fold_expire_tasks:
  assumes "lease_inv d" "expiry_items d xs"
  shows "tasks (snd (fold (expire_item E now p) xs (n, d))) =
      map (\<lambda>t. case holder_in xs t of None \<Rightarrow> t | Some x \<Rightarrow> expired_task now p (fst x) t) (tasks d)"
  using assms
proof (induction xs arbitrary: n d)
  case Nil
  then show ?case by (simp add: holder_in_def)
next
  case (Cons y xs)
  obtain x rid where y: "y = (x, rid)" by (cases y)
  obtain d1 where d1: "fold (expire_item E now p) ((x, rid) # xs) (n, d) = fold (expire_item E now p) xs (Suc n, d1)"
    "lease_inv d1" "expiry_items d1 xs"
    "tasks d1 = update_where (\<lambda>t. task_id t = att_task x \<and> task_cur t = Some (att_id x)) (expired_task now p x) (tasks d)"
    by (rule fold_expire_step [OF Cons.prems(1) Cons.prems(2) [unfolded y]])
  show ?case
    by (simp add: y d1(1) [simplified] Cons.IH [OF d1(2,3)] d1(4) update_where_def holder_in_def)
qed


text \<open>What a sweep does to the task of one expired lease, and that it leaves the others alone.\<close>

abbreviation expiry_list :: "db \<Rightarrow> time \<Rightarrow> (attempt \<times> string) list" where
  "expiry_list d now \<equiv> map (\<lambda>a. (a, run_of_attempt d a)) (filter (expirable d now) (attempts d))"

lemma expire_result:
  assumes "ExpireTaskAttempts E now pol d = Inr (n, d')"
  shows "fold (expire_item E now (normalized pol)) (expiry_list d now) (0, d) = (n, d')"
  using assms by (simp add: ExpireTaskAttempts_def Let_def)

lemma holder_in_expiry_list:
  assumes "lease_inv d" "t \<in> set (tasks d)"
  shows "holder_in (expiry_list d now) t = Some x \<longleftrightarrow>
    (\<exists>a \<in> set (attempts d). expirable d now a \<and> att_task a = task_id t \<and> x = (a, task_run t))"
proof -
  have run: "run_of_attempt d a = task_run t" if "att_task a = task_id t" for a
    using find_task_iff [OF assms(1), of "task_id t" t] assms(2) that by (simp add: run_of_attempt_def)
  have cur: "task_cur t = Some (att_id a)" if "a \<in> set (attempts d)" "expirable d now a" "att_task a = task_id t" for a
    using active_attempt_task(2) [OF assms(1) that(1) _ assms(2)] that by (simp add: expirable_def)
  have uniq: "a = b" if "a \<in> set (attempts d)" "b \<in> set (attempts d)" "expirable d now a" "expirable d now b"
      "att_task a = att_task b" for a b
    using active_unique [OF assms(1) that(1,2)] that by (simp add: expirable_def)
  let ?p = "\<lambda>x. task_id t = att_task (fst x) \<and> task_cur t = Some (att_id (fst x))"
  show ?thesis
  proof
    assume "holder_in (expiry_list d now) t = Some x"
    then have "x \<in> set (expiry_list d now)" "?p x"
      by (auto simp only: holder_in_def select_one_def [symmetric] dest!: select_one_SomeD)
    then show "\<exists>a \<in> set (attempts d). expirable d now a \<and> att_task a = task_id t \<and> x = (a, task_run t)"
      using run by force
  next
    assume "\<exists>a \<in> set (attempts d). expirable d now a \<and> att_task a = task_id t \<and> x = (a, task_run t)"
    then obtain a where a: "a \<in> set (attempts d)" "expirable d now a" "att_task a = task_id t" "x = (a, task_run t)"
      by blast
    have x: "x \<in> set (expiry_list d now)" "?p x" using a run cur by auto
    then have "holder_in (expiry_list d now) t \<noteq> None"
      using select_one_NoneD [of ?p "expiry_list d now"] unfolding holder_in_def select_one_def by blast
    then obtain y where y: "holder_in (expiry_list d now) t = Some y" by blast
    then have "y \<in> set (expiry_list d now)" "?p y" 
      by (auto simp only: holder_in_def select_one_def [symmetric] dest!: select_one_SomeD)
    then obtain b where "y = (b, task_run t)" "b \<in> set (attempts d)" "expirable d now b" "att_task b = task_id t"
      using run by force
    then show "holder_in (expiry_list d now) t = Some x" using y uniq [of a b] a by simp
  qed
qed

lemma expire_task_cases:
  assumes "lease_inv d" "ExpireTaskAttempts E now pol d = Inr (n, d')" "t \<in> set (tasks d)"
  shows "a \<in> set (attempts d) \<Longrightarrow> expirable d now a \<Longrightarrow> att_task a = task_id t \<Longrightarrow>
      expired_task now (normalized pol) a t \<in> set (tasks d')"
    and "\<forall>a \<in> set (attempts d). expirable d now a \<longrightarrow> att_task a \<noteq> task_id t \<Longrightarrow> t \<in> set (tasks d')"
proof -
  have ts: "tasks d' = map (\<lambda>t. case holder_in (expiry_list d now) t of None \<Rightarrow> t
      | Some x \<Rightarrow> expired_task now (normalized pol) (fst x) t) (tasks d)"
    using fold_expire_tasks [OF assms(1) items_of_expirable [OF assms(1), of now], of E now "normalized pol" 0]
      expire_result [OF assms(2)] by simp
  note H = holder_in_expiry_list [OF assms(1,3), of now]
  show "expired_task now (normalized pol) a t \<in> set (tasks d')"
    if "a \<in> set (attempts d)" "expirable d now a" "att_task a = task_id t"
    using H [of "(a, task_run t)"] that assms(3) unfolding ts by (force intro!: image_eqI [of _ _ t])
  show "t \<in> set (tasks d')" if "\<forall>a \<in> set (attempts d). expirable d now a \<longrightarrow> att_task a \<noteq> task_id t"
  proof -
    have "holder_in (expiry_list d now) t = None" using H that by (metis not_None_eq)
    then show ?thesis using assms(3) unfolding ts by (force intro!: image_eqI [of _ _ t])
  qed
qed

section \<open>Sample states for the witnesses\<close>

definition sample_policy :: lease_policy where
  "sample_policy = \<lparr>lp_duration = 10, lp_max_attempts = 2, lp_max_active = 4, lp_backoff_base = 1, lp_backoff_max = 8\<rparr>"

text \<open>Task \<open>t1\<close> is assigned to worker \<open>w1\<close> at time 5, with lease deadline 15.\<close>

definition sample_assigned :: db where
  "sample_assigned = state_after (AssignNextPendingTaskInPool sample_env ''b'' ''w1'' '''' 5 sample_policy
     (Inr ''a1'') (Inr ''k1'') sample_db) sample_db"

definition sample_result :: result where
  "sample_result = \<lparr>res_status = SUCCEEDED, res_err = None, res_objects = '''', res_rows = 3, res_bytes_read = 4,
     res_bytes_written = 5, res_hwm = ''''\<rparr>"

lemma sample_db_inv: "lease_inv sample_db"
  by (simp add: lease_inv_def sample_db_def keyed_def task_ok_def sample_task_def)

lemma sample_assign_ok:
  "\<exists>asg. AssignNextPendingTaskInPool sample_env ''b'' ''w1'' '''' 5 sample_policy (Inr ''a1'') (Inr ''k1'') sample_db
     = Inr (Some asg, sample_assigned)"
proof -
  let ?m = "AssignNextPendingTaskInPool sample_env ''b'' ''w1'' '''' 5 sample_policy (Inr ''a1'') (Inr ''k1'') sample_db"
  have "(case ?m of Inr (Some _, _) \<Rightarrow> True | _ \<Rightarrow> False)" by code_simp
  then show ?thesis by (auto simp: sample_assigned_def state_after_def split: sum.splits option.splits prod.splits)
qed

lemma sample_assigned_inv: "lease_inv sample_assigned"
  using assign_preserves [OF sample_db_inv] sample_assign_ok by blast

section \<open>Assignment\<close>

text \<open>
  An assignment hands out an eligible pending task that is minimal in the fairness order (fewest
  running tasks of its run, then run start, run id and task index), together with one fresh ACTIVE
  attempt whose lease ends in the future and whose id and fencing token no other attempt has; that
  task becomes RUNNING under the new attempt, every other task is untouched, and the attempt number
  stays within the retry limit.
\<close>

lemma assignment_gives_fresh_live_attempt:
  assumes "lease_inv d"
    and "AssignNextPendingTaskInPool E boot worker pool now pol idFn tokenFn d = Inr (Some asg, d')"
  shows "\<exists>t \<in> set (tasks d). assignable d now (normalized pol) pool t
      \<and> (\<forall>u \<in> set (tasks d). assignable d now (normalized pol) pool u \<longrightarrow> assign_key d t \<le> assign_key d u)
      \<and> (\<exists>a. attempts d' = attempts d @ [a] \<and> att_status a = ACTIVE \<and> now < att_deadline a
           \<and> att_task a = task_id t \<and> att_number a = task_attempts t + 1
           \<and> att_id a = asg_attempt asg \<and> att_token a = asg_token asg \<and> att_deadline a = asg_deadline asg
           \<and> att_worker a = worker \<and> att_boot a = boot
           \<and> (\<forall>b \<in> set (attempts d). att_id b \<noteq> att_id a \<and> att_token b \<noteq> att_token a))
      \<and> (\<forall>u \<in> set (tasks d'). if task_id u = task_id t
           then task_status u = RUNNING \<and> task_cur u = Some (asg_attempt asg) \<and> task_attempts u = task_attempts t + 1
           else u \<in> set (tasks d))
      \<and> task_attempts t < lp_max_attempts (normalized pol)"
  using assms
proof (cases rule: assign_cases)
  case idle
  then show ?thesis by simp
next
  case (assigned t aid token a asg')
  note S = select_first_by_SomeD [OF assigned(4)]
  have "task_status t = PENDING" "task_attempts t < lp_max_attempts (normalized pol)"
    using S(2) by (auto simp: assignable_def)
  moreover have "\<forall>b \<in> set (attempts d). att_id b \<noteq> att_id a \<and> att_token b \<noteq> att_token a"
    using assigned(9) unfolding attempt_conflict_def by metis
  moreover have "\<forall>u \<in> set (tasks d'). if task_id u = task_id t
           then task_status u = RUNNING \<and> task_cur u = Some (asg_attempt asg) \<and> task_attempts u = task_attempts t + 1
           else u \<in> set (tasks d)"
    using assigned(1,19) unfolding assigned(5) by (auto elim!: in_update_whereE split: if_splits)
  moreover have "now < att_deadline a" using assigned(17) normalized_pos(1) [of pol] by simp
  ultimately show ?thesis
    using assigned(1,6,10-16,17,19-22) S(1,2) by (intro bexI [of _ t] conjI ballI impI exI [of _ a] S(3)) simp_all
qed

text \<open>
  C6. The scheduler is work conserving: with a fresh attempt id and token it always answers, and it
  answers "nothing to do" (leaving the database alone) only when no task at all is eligible.
\<close>

theorem assignment_work_conserving:
  assumes inv: "lease_inv d"
    and fresh: "\<And>a. a \<in> set (attempts d) \<Longrightarrow> att_id a \<noteq> aid \<and> att_token a \<noteq> token"
  shows "\<exists>r d'. AssignNextPendingTaskInPool E boot worker pool now pol (Inr aid) (Inr token) d = Inr (r, d')
      \<and> (r = None \<longleftrightarrow> (\<forall>t \<in> set (tasks d). \<not> assignable d now (normalized pol) pool t))
      \<and> (r = None \<longrightarrow> d' = d)"
proof (cases "select_first_by (assign_key d) (assignable d now (normalized pol) pool) (tasks d)")
  case None
  then have "\<forall>t \<in> set (tasks d). \<not> assignable d now (normalized pol) pool t"
    by (simp add: select_first_by_NoneD)
  then show ?thesis using None by (simp add: AssignNextPendingTaskInPool_def Let_def)
next
  case (Some t)
  note S = select_first_by_SomeD [OF Some]
  have t: "t \<in> set (tasks d)" "task_status t = PENDING" using S by (auto simp: assignable_def)
  have cur: "task_cur t = None" by (rule pending_no_current [OF inv t])
  let ?w = "\<lambda>u. task_id u = task_id t \<and> task_status u = PENDING \<and> task_cur u = None"
  have one: "rows_affected ?w (tasks d) = 1"
    by (rule keyed_rows_affected_one [OF lease_invD(1) [OF inv] t(1)]) (use t cur in auto)
  have num: "att_number b \<le> task_attempts t \<and> att_status b \<noteq> ACTIVE"
    if b: "b \<in> set (attempts d)" "att_task b = task_id t" for b
  proof -
    obtain u where u: "u \<in> set (tasks d)" "task_id u = att_task b" "att_number b \<le> task_attempts u"
      "att_status b = ACTIVE \<longrightarrow> task_status u = RUNNING"
      using lease_invD(6) [OF inv b(1)] by (auto simp: attempt_ok_def)
    have "u = t" using keyed_unique [OF lease_invD(1) [OF inv] u(1) t(1)] u(2) b(2) by simp
    then show ?thesis using u t by auto
  qed
  have "\<not> attempt_conflict a b" if "b \<in> set (attempts d)" "att_id a = aid" "att_token a = token"
      "att_task a = task_id t" "att_number a = task_attempts t + 1" for a b
    using fresh [OF that(1)] num [OF that(1)] that(2-) by (auto simp: attempt_conflict_def)
  then have ins: "insert_row attempt_conflict a (attempts d) = Inr (attempts d @ [a])"
    if "att_id a = aid" "att_token a = token" "att_task a = task_id t" "att_number a = task_attempts t + 1" for a
    using that by simp
  have "\<exists>t \<in> set (tasks d). assignable d now (normalized pol) pool t" using S by blast
  then show ?thesis using one by (auto simp: AssignNextPendingTaskInPool_def Let_def Some ins)
qed

theorem assignment_work_conserving_witness:
  "\<exists>r d'. AssignNextPendingTaskInPool sample_env ''b'' ''w1'' '''' 5 sample_policy (Inr ''a1'') (Inr ''k1'') sample_db
     = Inr (r, d')"
proof -
  have "attempts sample_db = []" by (simp add: sample_db_def)
  then show ?thesis
    using assignment_work_conserving [OF sample_db_inv, where aid = "''a1''" and token = "''k1''"]
    by (metis empty_iff empty_set)
qed

text \<open>
  Admission control of the scheduler: an assignment starts exactly one task, keeps the number of
  running tasks within the global limit, and keeps the running tasks of that task's run within the
  parallelism cap of its job, whenever those limits are set.
\<close>

lemma assignment_respects_caps:
  assumes inv: "lease_inv d"
    and ok: "AssignNextPendingTaskInPool E boot worker pool now pol idFn tokenFn d = Inr (Some asg, d')"
  shows "running_total d' = Suc (running_total d)
      \<and> (0 < lp_max_active pol \<longrightarrow> int (running_total d') \<le> lp_max_active pol)
      \<and> (\<exists>r j. find_run (asg_run asg) d = Some r \<and> find_job (run_job r) d = Some j \<and> run_status r = RUNNING
           \<and> running_of_run d' (run_id r) = Suc (running_of_run d (run_id r))
           \<and> (\<forall>cap. job_max_in_flight j = Some cap \<and> 0 < cap \<longrightarrow> int (running_of_run d' (run_id r)) \<le> cap)
           \<and> (pool \<noteq> '''' \<longrightarrow> job_pool j = pool))"
  using assms
proof (cases rule: assign_cases)
  case idle
  then show ?thesis by simp
next
  case (assigned t aid token a asg')
  note S = select_first_by_SomeD [OF assigned(4)]
  have t: "t \<in> set (tasks d)" "task_status t = PENDING" using S by (auto simp: assignable_def)
  obtain r j where r: "find_run (task_run t) d = Some r" "run_status r = RUNNING"
      "find_job (run_job r) d = Some j" "coalesce (job_max_in_flight j) 0 \<le> 0 \<or>
         int (running_of_run d (run_id r)) < coalesce (job_max_in_flight j) 0" "pool \<noteq> '''' \<longrightarrow> job_pool j = pool"
    using S(2) by (auto simp: assignable_def Let_def split: option.splits)
  have rid: "run_id r = task_run t" using r(1) find_run_iff [OF inv] by blast
  have count: "rows_affected p (tasks d') = Suc (rows_affected p (tasks d))"
    if "\<not> p t" "p (assigned_task worker aid now (task_attempts t + 1) t)" for p
    unfolding assigned(5)
    by (rule rows_affected_update_one [OF lease_invD(1) [OF inv] t(1)]) (use that in auto)
  have tot: "running_total d' = Suc (running_total d)"
    unfolding running_total_def by (rule count) (use t in auto)
  have run: "running_of_run d' (run_id r) = Suc (running_of_run d (run_id r))"
    unfolding running_of_run_def by (rule count) (use t rid in auto)
  have "lp_max_active pol \<le> 0 \<or> int (running_total d) < lp_max_active pol"
    using S(2) by (simp add: assignable_def normalized_def)
  moreover have "\<forall>cap. job_max_in_flight j = Some cap \<and> 0 < cap \<longrightarrow> int (running_of_run d' (run_id r)) \<le> cap"
    using r(4) run by auto
  ultimately show ?thesis using tot run r assigned(1,23) by auto
qed

section \<open>Results\<close>

text \<open>
  C1. Fencing of results: a result is accepted only from the worker incarnation that holds the live,
  unexpired lease of the task (matching worker, boot id and fencing token, current attempt of a
  RUNNING task of a RUNNING run); afterwards the task carries the reported outcome, has no current
  attempt, and none of its attempts is ACTIVE.
\<close>

theorem result_accepted_only_from_live_holder:
  assumes inv: "lease_inv d"
    and ok: "completeTaskAttemptAt E boot tid aid token worker res now mnow recs strict fc d = Inr ((Accepted, st), d')"
  shows "(\<exists>a \<in> set (attempts d). att_id a = aid \<and> att_task a = tid \<and> att_status a = ACTIVE \<and> mnow < att_deadline a
            \<and> att_worker a = worker \<and> att_boot a = boot \<and> att_token a = token)
      \<and> (\<exists>t \<in> set (tasks d). task_id t = tid \<and> task_status t = RUNNING \<and> task_cur t = Some aid
            \<and> (\<exists>r \<in> set (runs d). run_id r = task_run t \<and> run_status r = RUNNING))
      \<and> st = res_status res \<and> st \<in> {SUCCEEDED, FAILED, CANCELED}
      \<and> (\<exists>u \<in> set (tasks d'). task_id u = tid \<and> task_status u = st \<and> task_cur u = None \<and> task_rows u = res_rows res
            \<and> task_finished u = Some now)
      \<and> (\<forall>b \<in> set (attempts d'). att_task b = tid \<longrightarrow> att_status b \<noteq> ACTIVE)"
  using ok
proof (cases rule: complete_cases)
  case replay
  then show ?thesis by simp
next
  case (accepted a t r arts)
  note A = accepted
  have cur: "task_cur t = Some aid" using active_attempt_task(2) [OF inv A(1,4,9)] A(2,3,10) by simp
  have r: "r \<in> set (runs d)" "run_id r = task_run t" using A(13) find_run_iff [OF inv] by auto
  have u: "completed_task res now t \<in> set (tasks d')"
    using update_where_hitI [of t "tasks d" "holds_task tid aid" "completed_task res now"] A(9-11,20) cur by simp
  have "att_status b \<noteq> ACTIVE" if b: "b \<in> set (attempts d')" "att_task b = tid" for b
  proof -
    obtain c where c: "c \<in> set (attempts d)"
        "b = (if att_id c = aid \<and> att_status c = ACTIVE then completed_attempt E res fc now c else c)"
      using b(1) A(20) by (auto elim: in_update_whereE)
    show ?thesis
    proof (cases "att_id c = aid \<and> att_status c = ACTIVE")
      case True
      then show ?thesis using c(2) A(15) by auto
    next
      case False
      then have bc: "b = c" using c(2) by auto
      have "c = a" if "att_status c = ACTIVE"
        using active_unique [OF inv c(1) A(1) that A(4)] b(2) bc A(3) by simp
      then show ?thesis using False bc A(2) by blast
    qed
  qed
  moreover have "\<exists>u \<in> set (tasks d'). task_id u = tid \<and> task_status u = st \<and> task_cur u = None
      \<and> task_rows u = res_rows res \<and> task_finished u = Some now"
    using u A(10,16) by (intro bexI [of _ "completed_task res now t"]) auto
  moreover have "\<exists>t \<in> set (tasks d). task_id t = tid \<and> task_status t = RUNNING \<and> task_cur t = Some aid
            \<and> (\<exists>r \<in> set (runs d). run_id r = task_run t \<and> run_status r = RUNNING)"
    using A(9-11,14) cur r by blast
  moreover have "st = res_status res" using A(16) by simp
  moreover have "st \<in> {SUCCEEDED, FAILED, CANCELED}" using A(15,16) by simp
  ultimately show ?thesis using A(1-8) by (intro conjI) blast+
qed

lemma sample_complete_ok:
  "\<exists>d'. completeTaskAttemptAt sample_env ''b'' ''t1'' ''a1'' ''k1'' ''w1'' sample_result 9 9 [] False '''' sample_assigned
     = Inr ((Accepted, SUCCEEDED), d')"
proof -
  let ?m = "completeTaskAttemptAt sample_env ''b'' ''t1'' ''a1'' ''k1'' ''w1'' sample_result 9 9 [] False '''' sample_assigned"
  have "(case ?m of Inr (r, _) \<Rightarrow> r = (Accepted, SUCCEEDED) | _ \<Rightarrow> False)" by code_simp
  then show ?thesis by (auto split: sum.splits)
qed

theorem result_accepted_only_from_live_holder_witness:
  "\<exists>a \<in> set (attempts sample_assigned). att_id a = ''a1'' \<and> att_token a = ''k1'' \<and> att_status a = ACTIVE \<and> 9 < att_deadline a"
  using sample_complete_ok result_accepted_only_from_live_holder [OF sample_assigned_inv] by blast




section \<open>Leases\<close>

lemma renew_cases:
  assumes ok: "RenewTaskLease boot tid aid token worker now dur d = Inr (dl, d')"
  obtains a where "a \<in> set (attempts d)" "att_id a = aid" "att_task a = tid" "att_token a = token"
    "att_worker a = worker" "att_boot a = boot" "att_status a = ACTIVE" "now < att_deadline a"
    "a\<lparr>att_deadline := dl, att_renewed := now, att_updated := now\<rparr> \<in> set (attempts d')"
    "tasks d' = tasks d" "runs d' = runs d" "dl = now + (if dur \<le> 0 then 30 * second else dur)"
proof -
  let ?w = "\<lambda>a. att_id a = aid \<and> att_task a = tid \<and> att_token a = token \<and> att_worker a = worker
                \<and> att_boot a = boot \<and> att_status a = ACTIVE \<and> now < att_deadline a \<and> current_task d tid aid"
  have one: "rows_affected ?w (attempts d) = 1" and dl: "dl = now + (if dur \<le> 0 then 30 * second else dur)"
    and d': "d' = d\<lparr>attempts := update_where ?w (\<lambda>a. a\<lparr>att_deadline := dl, att_renewed := now, att_updated := now\<rparr>) (attempts d)\<rparr>"
    using ok by (auto simp: RenewTaskLease_def Let_def split: if_splits)
  obtain a where a: "a \<in> set (attempts d)" "?w a" using rows_affected_oneD [OF one] by blast
  show thesis
    using that [OF a(1)] a(2) dl d'
      update_where_hitI [of a "attempts d" ?w "\<lambda>a. a\<lparr>att_deadline := dl, att_renewed := now, att_updated := now\<rparr>"] a(1)
    by simp
qed

text \<open>
  A renewed lease is safe from the expiry sweep until its new deadline: whatever the policy, a sweep
  at an earlier instant leaves the attempt ACTIVE with its deadline, and the task RUNNING under it.
\<close>

lemma renewed_lease_survives_expiry:
  assumes inv: "lease_inv d"
    and renew: "RenewTaskLease boot tid aid token worker now dur d = Inr (dl, d1)"
    and sweep: "ExpireTaskAttempts E later pol d1 = Inr (n, d2)" and early: "later < dl"
  shows "\<exists>a \<in> set (attempts d2). att_id a = aid \<and> att_task a = tid \<and> att_status a = ACTIVE \<and> att_deadline a = dl
      \<and> (\<exists>t \<in> set (tasks d2). task_id t = tid \<and> task_status t = RUNNING \<and> task_cur t = Some aid)"
  using renew
proof (cases rule: renew_cases)
  case (1 a)
  have inv1: "lease_inv d1" by (rule renew_preserves [OF inv renew])
  let ?a = "a\<lparr>att_deadline := dl, att_renewed := now, att_updated := now\<rparr>"
  have ne: "\<not> expirable d1 later ?a" using early by (simp add: expirable_def)
  have a2: "?a \<in> set (attempts d2)"
    unfolding expire_attempts(2) [OF inv1 sweep] using 1(9) ne by (rule update_where_keepI)
  obtain t where t: "t \<in> set (tasks d1)" "task_id t = tid"
    using lease_invD(6) [OF inv1 1(9)] 1(3) by (auto simp: attempt_ok_def)
  have "\<forall>b \<in> set (attempts d1). expirable d1 later b \<longrightarrow> att_task b \<noteq> task_id t"
    using active_unique [OF inv1 _ 1(9)] ne 1(3,7) t(2) by (force simp: expirable_def)
  then have "t \<in> set (tasks d2)" by (rule expire_task_cases(2) [OF inv1 sweep t(1)])
  moreover have "task_status t = RUNNING" "task_cur t = Some aid"
    using active_attempt_task [OF inv1 1(9) _ t(1)] t(2) 1(2,3,7) by auto
  ultimately show ?thesis using a2 1(2,3,7) t(2) by (intro bexI [of _ ?a]) auto
qed








text \<open>
  The retry delay is exponential backoff with a ceiling: for a base below the ceiling, the delay
  after attempt \<open>n\<close> is \<open>min max (base * 2 ^ (n - 1))\<close>; the 64-bit multiplications of the loop never
  overflow for ceilings up to \<open>2 ^ 62\<close> nanoseconds (146 years).
\<close>

lemma retryBackoff_capped:
  assumes "lp_backoff_base (normalized pol) < lp_backoff_max (normalized pol)"
    and "lp_backoff_max (normalized pol) \<le> 2 ^ 62"
  shows "retryBackoff pol n = min (lp_backoff_max (normalized pol)) (lp_backoff_base (normalized pol) * 2 ^ nat (n - 1))"
  unfolding retryBackoff_def Let_def by (rule doubling_eq) (use assms in auto)

section \<open>Artifacts\<close>

lemma check_records_nth:
  assumes "check_records E tid aid i rs = Inr ()" "k < length rs"
  shows "Validate E (rs ! k) = Inr () \<and> ar_task (rs ! k) = tid \<and> ar_attempt (rs ! k) = aid
      \<and> ar_file_index (rs ! k) = i + int k"
  using assms
proof (induction rs arbitrary: i k)
  case (Cons r rs)
  then show ?case by (cases k) (auto split: if_splits)
qed simp

lemma insert_artifacts_appends:
  assumes "insert_artifacts E tid aid rid num mnow rs rows = Inr rows'"
    and "\<forall>r \<in> set rs. ar_task r = tid \<and> ar_attempt r = aid"
  shows "\<exists>new. rows' = rows @ new \<and> map arow_rec new = rs \<and> (\<forall>r \<in> set rs. ar_run r = rid \<and> ar_attempt_number r = num)
      \<and> (\<forall>n \<in> set new. arow_verified n = mnow)"
  using assms
proof (induction rs arbitrary: rows)
  case (Cons r rs)
  then have ok: "ar_run r = rid" "ar_attempt_number r = num" by (auto split: if_splits)
  have "r\<lparr>ar_task := tid, ar_attempt := aid\<rparr> = r" using Cons.prems(2) by (cases r) simp
  then obtain row where row: "arow_rec row = r" "arow_verified row = mnow"
      "insert_artifacts E tid aid rid num mnow rs (rows @ [row]) = Inr rows'"
    using Cons.prems(1) ok by (force split: if_splits)
  obtain new where "rows' = (rows @ [row]) @ new" "map arow_rec new = rs"
      "\<forall>r \<in> set rs. ar_run r = rid \<and> ar_attempt_number r = num" "\<forall>n \<in> set new. arow_verified n = mnow"
    using Cons.IH [OF row(3)] Cons.prems(2) by auto
  then show ?case using ok row(1,2) by (intro exI [of _ "row # new"]) auto
qed auto

lemma Validate_sound:
  assumes "Validate E r = Inr ()"
  shows "is_sha256_hex (ar_sha256 r)" "is_sha256_hex (ar_schema r)" "0 < ar_size r" "0 \<le> ar_rows r" "ar_status r = ''VERIFIED''"
  using assms by (auto simp: Validate_def is_sha256_hex_def split: if_splits)

text \<open>
  Only verified artifacts are recorded: when a successful result with artifacts is accepted, the
  database gains exactly the reported files, sorted and numbered 0, 1, 2, \<dots> without gaps, each of them
  verified, with well-formed digests, and bound to this run, task, attempt and attempt number; a task
  that wrote bytes cannot succeed without any.
\<close>

lemma accepted_artifacts_are_verified:
  assumes inv: "lease_inv d" and st: "res_status res = SUCCEEDED"
    and ok: "CompleteTaskAttemptWithArtifactsAndFailureClassAt E boot tid aid token worker res fc recs now mnow d
        = Inr ((Accepted, out), d')"
  shows "\<exists>new a. artifacts d' = artifacts d @ new \<and> a \<in> set (attempts d) \<and> att_id a = aid
      \<and> map arow_rec new = sort_key (\<lambda>r. (ar_file_index r, ar_key r)) recs
      \<and> (\<forall>k < length new. let r = arow_rec (new ! k) in ar_file_index r = int k \<and> ar_task r = tid \<and> ar_attempt r = aid
           \<and> ar_attempt_number r = att_number a \<and> ar_status r = ''VERIFIED'' \<and> 0 < ar_size r
           \<and> is_sha256_hex (ar_sha256 r) \<and> is_sha256_hex (ar_schema r))
      \<and> (0 < res_bytes_written res \<longrightarrow> new \<noteq> [])"
proof -
  let ?rs = "sort_key (\<lambda>r. (ar_file_index r, ar_key r)) recs"
  let ?res = "res\<lparr>res_objects := marshal_records E ?rs\<rparr>"
  have chk: "check_records E tid aid 0 ?rs = Inr ()"
    and run: "completeTaskAttemptAt E boot tid aid token worker ?res now mnow ?rs True fc d = Inr ((Accepted, out), d')"
    using ok by (auto simp: CompleteTaskAttemptWithArtifactsAndFailureClassAt_def Let_def)
  have ids: "\<forall>r \<in> set ?rs. ar_task r = tid \<and> ar_attempt r = aid"
  proof
    fix r assume "r \<in> set ?rs"
    then obtain k where "k < length ?rs" "?rs ! k = r" unfolding in_set_conv_nth by blast
    then show "ar_task r = tid \<and> ar_attempt r = aid" using check_records_nth [OF chk] by blast
  qed
  show ?thesis using run
  proof (cases rule: complete_cases)
    case replay
    then show ?thesis by simp
  next
    case (accepted a t r arts)
    have "insert_artifacts E tid aid (run_id r) (att_number a) mnow ?rs (artifacts d) = Inr arts"
      using accepted(17) st by simp
    then obtain new where new: "arts = artifacts d @ new" "map arow_rec new = ?rs"
        "\<forall>q \<in> set ?rs. ar_run q = run_id r \<and> ar_attempt_number q = att_number a"
      using insert_artifacts_appends [OF _ ids] by blast
    have len: "length new = length ?rs" using arg_cong [OF new(2), of length] by simp
    have nth: "arow_rec (new ! k) = ?rs ! k" if "k < length new" for k
      using nth_map [OF that, of arow_rec] new(2) by simp
    have "let q = arow_rec (new ! k) in ar_file_index q = int k \<and> ar_task q = tid \<and> ar_attempt q = aid
           \<and> ar_attempt_number q = att_number a \<and> ar_status q = ''VERIFIED'' \<and> 0 < ar_size q
           \<and> is_sha256_hex (ar_sha256 q) \<and> is_sha256_hex (ar_schema q)" if k: "k < length new" for k
    proof -
      have k': "k < length ?rs" using k len by simp
      show ?thesis
        using check_records_nth [OF chk k'] Validate_sound [of E "?rs ! k"] new(3) nth_mem [OF k']
        unfolding nth [OF k] Let_def by simp
    qed
    moreover have "0 < res_bytes_written res \<longrightarrow> new \<noteq> []"
      using accepted(18) st len by auto
    ultimately show ?thesis
      using accepted(1,2,20) new(1,2) by (intro exI [of _ new] exI [of _ a]) simp
  qed
qed

definition sample_record :: artifact_rec where
  "sample_record = \<lparr>ar_key = ''ds/r1/t1/0'', ar_size = 5, ar_sha256 = replicate 64 (CHR ''a''), ar_rows = 3,
     ar_schema = replicate 64 (CHR ''b''), ar_run = ''r1'', ar_task = ''t1'', ar_attempt = ''a1'', ar_attempt_number = 1,
     ar_file_index = 0, ar_format = 1, ar_method = ''PORTABLE_FULL_SHA256'', ar_status = ''VERIFIED'',
     ar_verified_at = None, ar_max_hwm = '''', ar_provider = ''''\<rparr>"

section \<open>Tasks of finished runs\<close>

text \<open>
  C7. Both the expiry sweep and the acceptance of results require the run to be RUNNING. A task that is
  still RUNNING when its run has failed (for instance because a sibling was quarantined) is therefore
  never taken back: no sweep, at any time and under any policy, changes it, no result for it is accepted,
  and it keeps counting against the global limit on running tasks.
\<close>

theorem running_task_of_finished_run_is_stuck:
  assumes inv: "lease_inv d"
    and t: "t \<in> set (tasks d)" "task_status t = RUNNING"
    and r: "r \<in> set (runs d)" "run_id r = task_run t" "run_status r \<noteq> RUNNING"
  shows "(\<forall>E now pol n d'. ExpireTaskAttempts E now pol d = Inr (n, d') \<longrightarrow> t \<in> set (tasks d') \<and> 1 \<le> running_total d')
      \<and> (\<forall>E boot aid token worker res now mnow recs strict fc st d'.
           completeTaskAttemptAt E boot (task_id t) aid token worker res now mnow recs strict fc d \<noteq> Inr ((Accepted, st), d'))"
proof (intro conjI allI impI notI)
  fix E now pol n d' assume ok: "ExpireTaskAttempts E now pol d = Inr (n, d')"
  have "\<not> expirable d now a" if "att_task a = task_id t" for a
    using find_task_iff [OF inv, of "task_id t" t] find_run_iff [OF inv, of "task_run t" r] t r that
    by (auto simp: expirable_def)
  then show t': "t \<in> set (tasks d')" using expire_task_cases(2) [OF inv ok t(1)] by blast
  have "0 < rows_affected (\<lambda>t. task_status t = RUNNING) (tasks d')"
    unfolding rows_affected_pos using t' t(2) by blast
  then show "1 \<le> running_total d'" by (simp add: running_total_def)
next
  fix E boot aid token worker res now mnow recs strict fc st d'
  assume ok: "completeTaskAttemptAt E boot (task_id t) aid token worker res now mnow recs strict fc d = Inr ((Accepted, st), d')"
  then show False
  proof (cases rule: complete_cases)
    case (accepted a u q arts)
    then have "u = t" using keyed_unique [OF lease_invD(1) [OF inv] accepted(9) t(1)] by simp
    then show False using accepted(13,14) find_run_iff [OF inv, of "task_run t" r] r by simp
  qed simp
qed

definition sample_stuck :: db where
  "sample_stuck = sample_assigned\<lparr>runs := [sample_run\<lparr>run_status := FAILED\<rparr>]\<rparr>"

lemma sample_stuck_inv: "lease_inv sample_stuck"
proof -
  have "runs sample_assigned = [sample_run]" by code_simp
  then have "map run_id (runs sample_stuck) = map run_id (runs sample_assigned)"
    by (simp add: sample_stuck_def sample_run_def)
  then show ?thesis
    by (intro lease_inv_cong [OF sample_assigned_inv, of sample_stuck id id]) (simp_all add: sample_stuck_def)
qed

theorem running_task_of_finished_run_is_stuck_witness:
  "1 \<le> running_total (state_after (ExpireTaskAttempts sample_env 1000 sample_policy sample_stuck) sample_stuck)"
proof -
  have "list_ex (\<lambda>t. task_status t = RUNNING \<and> task_run t = ''r1'') (tasks sample_stuck)" by code_simp
  then obtain t where t: "t \<in> set (tasks sample_stuck)" "task_status t = RUNNING" "task_run t = ''r1''"
    by (auto simp: list_ex_iff)
  have r: "sample_run\<lparr>run_status := FAILED\<rparr> \<in> set (runs sample_stuck)" "run_id (sample_run\<lparr>run_status := FAILED\<rparr>) = task_run t"
    "run_status (sample_run\<lparr>run_status := FAILED\<rparr>) \<noteq> RUNNING"
    by (simp_all add: sample_stuck_def sample_run_def t)
  obtain n d' where d': "ExpireTaskAttempts sample_env 1000 sample_policy sample_stuck = Inr (n, d')"
    by (metis ExpireTaskAttempts_def prod.collapse)
  then show ?thesis
    using running_task_of_finished_run_is_stuck [OF sample_stuck_inv t(1,2) r] by (auto simp: state_after_def)
qed

end
