(* ===== verification/Runs.thy ===== *)
theory Runs
  imports Objects
begin

text \<open>
  The life of a run (\<open>internal/db/store_runs.go\<close>, \<open>run_admission.go\<close>, \<open>run_failure.go\<close> and the task
  rows of \<open>store_tasks.go\<close>): creation, planning and admission under the global cap of active runs,
  cancellation, and finalization when its tasks are done. Publication is the subject of \<open>Commit\<close>.
\<close>

section \<open>Creation and planning\<close>

text \<open>
  \<open>INSERT INTO runs\<close> names the columns of the caller's run; the publication columns take their defaults.
  \<open>enc\<close> is the encrypted registration configuration.
\<close>

definition run_defaults :: "string \<Rightarrow> run \<Rightarrow> run" where
  "run_defaults cfg r = r\<lparr>run_regcfg := cfg, run_commit_id := '''', run_commit_intent := '''', run_commit_phase := '''',
     run_rec_status := CR_None, run_rec_attempts := 0, run_rec_next := None, run_operator := False,
     run_claim_token := '''', run_claim_expires := None\<rparr>"

definition CreateRun :: "string res \<Rightarrow> run \<Rightarrow> db \<Rightarrow> (unit \<times> db) res" where
  "CreateRun enc r d =
    rbind enc (\<lambda>cfg.
      let row = run_defaults cfg r in
      if list_ex (\<lambda>s. run_id row = run_id s) (runs d) then Inl ErrConstraint
      else if list_ex (run_conflict row) (runs d) then Inl ErrActiveDatasetRun
      else Inr ((), d\<lparr>runs := runs d @ [row]\<rparr>))"

definition FindActiveRunByDatasetKey :: "string \<Rightarrow> db \<Rightarrow> run option" where
  "FindActiveRunByDatasetKey ds d =
     select_first_by run_started (\<lambda>r. run_dataset r = ds \<and> run_status r \<in> {PLANNING, RUNNING, COMMITTING}) (runs d)"

text \<open>Runs left in PLANNING without tasks by a crash are failed during startup recovery.\<close>

definition fail_planning :: "time \<Rightarrow> string \<Rightarrow> db \<Rightarrow> db" where
  "fail_planning now rid d = add_event
     \<lparr>ev_id = ''planning-abandoned-'' @ rid, ev_run = rid, ev_task = None, ev_ts = now, ev_level = ''ERROR'',
      ev_msg = ''run FAILED'', ev_fields = [(''event_type'', JStr ''RUN_PLANNING_ABANDONED'')]\<rparr>
     (d\<lparr>runs := update_where (\<lambda>r. run_id r = rid \<and> run_status r = PLANNING)
        (\<lambda>r. r\<lparr>run_status := FAILED, run_finished := Some now,
               run_error := Some ''run planning was interrupted before tasks were created'',
               run_fclass := ''UNKNOWN_AMBIGUOUS'', run_fphase := ''planning''\<rparr>) (runs d)\<rparr>)"

definition has_task :: "db \<Rightarrow> string \<Rightarrow> bool" where
  "has_task d rid \<longleftrightarrow> list_ex (\<lambda>t. task_run t = rid) (tasks d)"

definition FailAbandonedPlanningRuns :: "time \<Rightarrow> db \<Rightarrow> (string list \<times> db) res" where
  "FailAbandonedPlanningRuns now d =
    (let ids = map run_id (filter (\<lambda>r. run_status r = PLANNING \<and> \<not> has_task d (run_id r)) (runs d))
     in Inr (ids, fold (fail_planning now) ids d))"

section \<open>Tasks\<close>

record task_insert =
  ti_id :: string
  ti_run :: string
  ti_index :: int
  ti_spec :: string
  ti_objects :: string
  ti_status :: status

definition new_task :: "task_insert \<Rightarrow> task" where
  "new_task t = \<lparr>task_id = ti_id t, task_run = ti_run t, task_index = ti_index t,
     task_spec = (if ti_spec t = '''' then ''{}'' else ti_spec t), task_worker = None,
     task_status = (if ti_status t = OtherStatus '''' then PENDING else ti_status t),
     task_rows = 0, task_bytes_read = 0, task_bytes_written = 0,
     task_objects = (if ti_objects t = '''' then ''[]'' else ti_objects t), task_hwm = '''',
     task_started = None, task_finished = None, task_error = None, task_cur = None,
     task_attempts = 0, task_next = None\<rparr>"

fun insertTasksTx :: "task_insert list \<Rightarrow> task list \<Rightarrow> task list res" where
  "insertTasksTx [] ts = Inr ts"
| "insertTasksTx (t # rest) ts = rbind (insert_row task_conflict (new_task t) ts) (insertTasksTx rest)"

definition InsertTasks :: "task_insert list \<Rightarrow> db \<Rightarrow> (unit \<times> db) res" where
  "InsertTasks ts d = rbind (insertTasksTx ts (tasks d)) (\<lambda>rows. Inr ((), d\<lparr>tasks := rows\<rparr>))"

section \<open>Admission\<close>

definition active_runs :: "db \<Rightarrow> nat" where
  "active_runs d = rows_affected (\<lambda>r. run_status r \<in> {RUNNING, COMMITTING}) (runs d)"

definition admit_where :: "string \<Rightarrow> run \<Rightarrow> bool" where
  "admit_where rid r \<longleftrightarrow> run_id r = rid \<and> run_status r = PLANNING"

definition admitted_run :: "run \<Rightarrow> run" where
  "admitted_run r = r\<lparr>run_status := RUNNING, run_finished := None, run_error := None\<rparr>"

text \<open>\<open>cap\<close> is \<open>Store.maxActiveRuns\<close>; a cap that is not positive disables admission control.\<close>

definition admitRunTx :: "int \<Rightarrow> string \<Rightarrow> db \<Rightarrow> (bool \<times> db) res" where
  "admitRunTx cap rid d =
    (if trim_space rid = '''' then Inl (ErrMsg ''missing run id'')
     else if cap > 0 \<and> int (active_runs d) \<ge> cap then Inr (False, d)
     else Inr (rows_affected (admit_where rid) (runs d) = 1,
               d\<lparr>runs := update_where (admit_where rid) admitted_run (runs d)\<rparr>))"

text \<open>\<open>snap\<close> is the outcome of recording the configuration snapshot, a column that is not modelled.\<close>

definition StartRunWithTasks :: "int \<Rightarrow> unit res \<Rightarrow> string \<Rightarrow> task_insert list \<Rightarrow> db \<Rightarrow> (bool \<times> db) res" where
  "StartRunWithTasks cap snap rid ts d =
    (if trim_space rid = '''' then Inl (ErrMsg ''missing run id'')
     else if ts = [] then Inl (ErrMsg ''missing tasks'')
     else rbind (insertTasksTx ts (tasks d)) (\<lambda>rows.
          rbind snap (\<lambda>_. admitRunTx cap rid (d\<lparr>tasks := rows\<rparr>))))"

definition queued :: "db \<Rightarrow> run \<Rightarrow> bool" where
  "queued d r \<longleftrightarrow> run_status r = PLANNING \<and> list_ex (\<lambda>t. task_run t = run_id r \<and> task_status t = PENDING) (tasks d)"

definition admit_one :: "time \<Rightarrow> string \<Rightarrow> nat \<times> db \<Rightarrow> nat \<times> db" where
  "admit_one now rid st = (case st of (k, d) \<Rightarrow>
    (let n = rows_affected (admit_where rid) (runs d);
         d1 = d\<lparr>runs := update_where (admit_where rid) admitted_run (runs d)\<rparr>
     in (k + n, if n = 1 then add_event
           \<lparr>ev_id = ''run-admitted-'' @ rid, ev_run = rid, ev_task = None, ev_ts = now, ev_level = ''INFO'',
            ev_msg = ''run admitted by global active-run admission'',
            ev_fields = [(''admission'', JStr ''MAX_ACTIVE_RUNS''), (''status'', JStr ''RUNNING'')]\<rparr> d1 else d1)))"

definition admission_queue :: "db \<Rightarrow> run list" where
  "admission_queue d = sort_key (\<lambda>r. (run_started r, run_id r)) (filter (queued d) (runs d))"

definition AdmitPendingRuns :: "int \<Rightarrow> time \<Rightarrow> db \<Rightarrow> (nat \<times> db) res" where
  "AdmitPendingRuns cap now d =
    (if cap \<le> 0 then Inr (0, d)
     else if \<not> (int (active_runs d) < cap \<and> list_ex (queued d) (runs d)) then Inr (0, d)
     else (let available = cap - int (active_runs d) in
           if available \<le> 0 then Inr (0, d)
           else Inr (fold (admit_one now) (map run_id (take (nat available) (admission_queue d))) (0, d))))"

section \<open>Status changes\<close>

definition updateRunStatusTx :: "string \<Rightarrow> status \<Rightarrow> bool \<Rightarrow> string option \<Rightarrow> time \<Rightarrow> db \<Rightarrow> (unit \<times> db) res" where
  "updateRunStatusTx rid st finished errSummary now d =
    (if st = OtherStatus '''' then Inl (ErrMsg ''missing run status'')
     else rbind (update_unique runs_unique (\<lambda>r. run_id r = rid)
            (\<lambda>r. if finished then r\<lparr>run_status := st, run_finished := Some now, run_error := errSummary\<rparr>
                 else r\<lparr>run_status := st, run_error := errSummary\<rparr>) (runs d))
          (\<lambda>rs. Inr ((), d\<lparr>runs := rs\<rparr>)))"

definition UpdateRunStatus :: "string \<Rightarrow> status \<Rightarrow> bool \<Rightarrow> string option \<Rightarrow> time \<Rightarrow> db \<Rightarrow> (unit \<times> db) res" where
  "UpdateRunStatus rid st finished errSummary now d =
    (if st = SUCCEEDED then Inl (ErrMsg ''SUCCEEDED requires verified commit completion'')
     else updateRunStatusTx rid st finished errSummary now d)"

definition cancel_event :: "env \<Rightarrow> string \<Rightarrow> string \<Rightarrow> time \<Rightarrow> attempt \<Rightarrow> db \<Rightarrow> db" where
  "cancel_event E rid reason now a =
     insertAttemptEventTx E rid (att_task a) (att_id a) (att_number a) (att_worker a)
       ''ATTEMPT_CANCELED'' ''RUN_CANCELED'' now [(''reason'', JStr reason)]"

definition cancel_tasks :: "time \<Rightarrow> string \<Rightarrow> string \<Rightarrow> task list \<Rightarrow> task list" where
  "cancel_tasks now reason rid ts =
     update_where (\<lambda>t. task_run t = rid \<and> task_status t = RUNNING)
       (\<lambda>t. t\<lparr>task_status := CANCELED, task_finished := Some now, task_error := Some reason, task_cur := None\<rparr>)
     (update_where (\<lambda>t. task_run t = rid \<and> task_status t = PENDING)
       (\<lambda>t. t\<lparr>task_status := CANCELED, task_finished := Some now, task_error := Some reason\<rparr>) ts)"

definition CancelRun :: "env \<Rightarrow> duration \<Rightarrow> string \<Rightarrow> string \<Rightarrow> time \<Rightarrow> db \<Rightarrow> ((bool \<times> status \<times> nat) \<times> db) res" where
  "CancelRun E retention rid reason0 now d =
    (let reason = (if trim_space reason0 = '''' then ''canceled by client'' else trim_space reason0) in
     rbind (of_row ErrNoRows (find_run rid d)) (\<lambda>r.
      if run_status r \<in> {SUCCEEDED, FAILED, CANCELED, COMMITTING} then Inr ((False, run_status r, 0), d)
      else
       (let canceled = filter (\<lambda>a. att_status a = ACTIVE \<and> task_of_run d rid (att_task a)) (attempts d);
            killed = rows_affected (\<lambda>t. task_run t = rid \<and> task_status t = PENDING) (tasks d);
            d1 = fold (cancel_event E rid reason now) canceled
                   (d\<lparr>attempts := cancel_attempts_of_run now reason rid d\<rparr>);
            d2 = d1\<lparr>tasks := cancel_tasks now reason rid (tasks d1),
                    runs := update_where (\<lambda>r. run_id r = rid)
                      (\<lambda>r. r\<lparr>run_status := CANCELED, run_finished := Some now, run_error := Some reason\<rparr>) (runs d1)\<rparr>
        in Inr ((True, CANCELED, killed), createCanceledObjectCandidatesTx E retention rid now d2))))"

section \<open>Failure summaries\<close>

text \<open>The class \<open>\s\<close> of Go regular expressions.\<close>

definition re_space :: "char \<Rightarrow> bool" where
  "re_space c \<longleftrightarrow> c \<in> {CHR 0x09, CHR 0x0A, CHR 0x0C, CHR 0x0D, CHR 0x20}"

text \<open>
  A match of \<open>(://[^/\s:@]*:)[^@\s]*@\<close> at the start of the string: the user part and the rest after the
  match. Each repetition is followed by a character its class excludes, so the greedy choice is the only one.
\<close>

definition url_credentials :: "string \<Rightarrow> (string \<times> string) option" where
  "url_credentials s =
    (if \<not> has_prefix s ''://'' then None
     else let s1 = drop 3 s;
              user = takeWhile (\<lambda>c. \<not> (c = CHR ''/'' \<or> re_space c \<or> c = CHR '':'' \<or> c = CHR ''@'')) s1;
              s2 = drop (length user) s1
          in case s2 of [] \<Rightarrow> None | c # s3 \<Rightarrow>
               if c \<noteq> CHR '':'' then None
               else case dropWhile (\<lambda>c. \<not> (c = CHR ''@'' \<or> re_space c)) s3 of [] \<Rightarrow> None
                    | c # rest \<Rightarrow> if c = CHR ''@'' then Some (user, rest) else None)"

lemma url_credentials_shorter: "url_credentials s = Some (u, rest) \<Longrightarrow> length rest < length s"
proof -
  assume h: "url_credentials s = Some (u, rest)"
  let ?user = "takeWhile (\<lambda>c. \<not> (c = CHR ''/'' \<or> re_space c \<or> c = CHR '':'' \<or> c = CHR ''@'')) (drop 3 s)"
  obtain c s3 where s3: "drop (length ?user) (drop 3 s) = c # s3"
    and d: "\<exists>c. dropWhile (\<lambda>c. \<not> (c = CHR ''@'' \<or> re_space c)) s3 = c # rest"
    using h by (auto simp: url_credentials_def Let_def split: if_splits list.splits)
  have "length rest < length s3"
    using d length_dropWhile_le [of "\<lambda>c. \<not> (c = CHR ''@'' \<or> re_space c)" s3] by auto
  moreover have "length s3 < length s" using arg_cong [OF s3, of length] by simp
  ultimately show ?thesis by simp
qed

function RedactCredentials :: "string \<Rightarrow> string" where
  "RedactCredentials s = (case url_credentials s of
     Some (user, rest) \<Rightarrow> ''://'' @ user @ '':***@'' @ RedactCredentials rest
   | None \<Rightarrow> (case s of [] \<Rightarrow> [] | c # cs \<Rightarrow> c # RedactCredentials cs))"
  by pat_completeness auto
termination
  by (relation "measure length") (auto dest: url_credentials_shorter)

declare RedactCredentials.simps [simp del]

definition maxRunFailureMessage :: nat where
  "maxRunFailureMessage = 500"

definition failed_task :: "string \<Rightarrow> task \<Rightarrow> bool" where
  "failed_task rid t \<longleftrightarrow> task_run t = rid \<and> task_status t \<in> {FAILED, QUARANTINED}"

definition taskFailureSummary :: "string \<Rightarrow> nat \<Rightarrow> nat \<Rightarrow> db \<Rightarrow> string \<times> string" where
  "taskFailureSummary rid failed ntasks d =
    (let (msg, cls) = (case select_first_by (\<lambda>t. (task_finished t, task_index t)) (failed_task rid) (tasks d) of
             None \<Rightarrow> ('''', '''')
           | Some t \<Rightarrow> (coalesce (task_error t) '''',
                       case last_attempt d (task_id t) of None \<Rightarrow> '''' | Some a \<Rightarrow> att_fclass a));
         summary = show_int (int failed) @ '' of '' @ show_int (int ntasks) @ '' task(s) failed'';
         txt = trim_space (RedactCredentials msg)
     in (if txt = '''' then summary
         else summary @ '': '' @ (if length txt > maxRunFailureMessage
                then take maxRunFailureMessage txt @ [CHR 0xE2, CHR 0x80, CHR 0xA6] else txt), cls))"

definition RecordRunFailure :: "string \<Rightarrow> string \<Rightarrow> string \<Rightarrow> db \<Rightarrow> (unit \<times> db) res" where
  "RecordRunFailure rid cls phase d =
     Inr ((), d\<lparr>runs := update_where (\<lambda>r. run_id r = rid \<and> run_status r = FAILED)
        (\<lambda>r. r\<lparr>run_fclass := cls, run_fphase := phase\<rparr>) (runs d)\<rparr>)"

section \<open>Finalization\<close>

definition tasks_of :: "string \<Rightarrow> db \<Rightarrow> task list" where
  "tasks_of rid d = filter (\<lambda>t. task_run t = rid) (tasks d)"

definition TryFinalizeRun :: "string \<Rightarrow> time \<Rightarrow> db \<Rightarrow> ((bool \<times> status) \<times> db) res" where
  "TryFinalizeRun rid now d =
    rbind (of_row ErrNoRows (find_run rid d)) (\<lambda>r.
     if run_status r \<in> {SUCCEEDED, FAILED, CANCELED, COMMITTING} then Inr ((False, run_status r), d)
     else
      (let ntasks = length (tasks_of rid d);
           succ = rows_affected (\<lambda>t. task_status t = SUCCEEDED) (tasks_of rid d);
           fail = rows_affected (\<lambda>t. task_status t \<in> {FAILED, QUARANTINED}) (tasks_of rid d)
       in if ntasks = 0 then Inl (ErrMsg ''run has no tasks'')
          else if fail > 0 then
            (let (summary, cls) = taskFailureSummary rid fail ntasks d in
             Inr ((True, FAILED),
               d\<lparr>runs := update_where (\<lambda>r. run_id r = rid)
                    (\<lambda>r. r\<lparr>run_status := FAILED, run_finished := Some now, run_error := Some summary,
                           run_fclass := cls, run_fphase := ''extract''\<rparr>) (runs d),
                 tasks := update_where (\<lambda>t. task_run t = rid \<and> task_status t = PENDING)
                    (\<lambda>t. t\<lparr>task_status := CANCELED, task_finished := Some now, task_error := Some ''canceled''\<rparr>) (tasks d)\<rparr>))
          else if succ = ntasks then
            Inr ((True, COMMITTING),
               d\<lparr>runs := update_where (\<lambda>r. run_id r = rid \<and> run_status r = RUNNING)
                    (\<lambda>r. r\<lparr>run_status := COMMITTING, run_finished := None, run_error := None, run_fclass := '''',
                           run_commit_phase := ''PREPARING'', run_rec_status := CR_PENDING, run_rec_attempts := 0,
                           run_rec_next := None, run_operator := False\<rparr>) (runs d)\<rparr>)
          else Inr ((False, run_status r), d)))"

section \<open>Unfenced task operations\<close>

text \<open>
  The operations from before leases existed (\<open>store_tasks.go\<close>). Nothing in the service calls them any
  more; only tests do.
\<close>

definition assignable_unleased :: "db \<Rightarrow> task \<Rightarrow> bool" where
  "assignable_unleased d t \<longleftrightarrow> task_status t = PENDING
     \<and> (case find_run (task_run t) d of None \<Rightarrow> False | Some r \<Rightarrow> run_status r = RUNNING
          \<and> (case find_job (run_job r) d of None \<Rightarrow> False | Some j \<Rightarrow>
               (let cap = coalesce (job_max_in_flight j) 0 in cap \<le> 0 \<or> int (running_of_run d (run_id r)) < cap)))"

definition AssignNextPendingTask :: "string \<Rightarrow> time \<Rightarrow> db \<Rightarrow> (task option \<times> db) res" where
  "AssignNextPendingTask worker now d =
    (case select_first_by (assign_key d) (assignable_unleased d) (tasks d) of
       None \<Rightarrow> Inr (None, d)
     | Some t \<Rightarrow>
       (let w = (\<lambda>u. task_id u = task_id t \<and> task_status u = PENDING);
            f = (\<lambda>u. u\<lparr>task_status := RUNNING, task_worker := Some worker, task_started := Some now\<rparr>);
            d1 = d\<lparr>tasks := update_where w f (tasks d)\<rparr>
        in if rows_affected w (tasks d) \<noteq> 1 then Inr (None, d1) else Inr (Some (f t), d1)))"

definition UpdateTaskProgress :: "string \<Rightarrow> int \<Rightarrow> int \<Rightarrow> int \<Rightarrow> db \<Rightarrow> (unit \<times> db) res" where
  "UpdateTaskProgress tid rws br bw d =
     Inr ((), d\<lparr>tasks := update_where (\<lambda>t. task_id t = tid)
        (\<lambda>t. t\<lparr>task_rows := rws, task_bytes_read := br, task_bytes_written := bw\<rparr>) (tasks d)\<rparr>)"

definition RequeueTaskAssignment :: "string \<Rightarrow> string \<Rightarrow> db \<Rightarrow> (unit \<times> db) res" where
  "RequeueTaskAssignment tid worker d =
     Inr ((), d\<lparr>tasks := update_where
        (\<lambda>t. task_id t = tid \<and> task_status t = RUNNING \<and> (trim_space worker = '''' \<or> task_worker t = Some worker))
        (\<lambda>t. t\<lparr>task_status := PENDING, task_worker := None, task_started := None\<rparr>) (tasks d)\<rparr>)"

definition nonblank :: "string option \<Rightarrow> string option" where
  "nonblank m = (case m of None \<Rightarrow> None | Some s \<Rightarrow> if trim_space s = '''' then None else Some (trim_space s))"

definition CompleteTask ::
  "string \<Rightarrow> status \<Rightarrow> string option \<Rightarrow> string \<Rightarrow> int \<Rightarrow> int \<Rightarrow> int \<Rightarrow> time \<Rightarrow> db \<Rightarrow> ((string \<times> status) \<times> db) res" where
  "CompleteTask tid st errMsg objects rws br bw now d =
    (if st \<notin> {SUCCEEDED, FAILED, CANCELED} then Inl (ErrMsg ''invalid task status'')
     else rbind (of_row ErrNoRows (find_task tid d)) (\<lambda>t.
          rbind (of_row ErrNoRows (find_run (task_run t) d)) (\<lambda>r.
       if task_status t = SUCCEEDED then Inr ((''already succeeded'', SUCCEEDED), d)
       else if task_status t = FAILED then Inr ((''already failed'', FAILED), d)
       else if task_status t = CANCELED then Inr ((''already canceled'', CANCELED), d)
       else if task_status t \<notin> {RUNNING, PENDING} then Inl (ErrMsg ''unexpected current task status'')
       else
        (let canceled = (run_status r = CANCELED);
             final = (if canceled then CANCELED else st);
             e = (if canceled \<and> nonblank errMsg = None
                  then Some (case nonblank (run_error r) of Some m \<Rightarrow> m | None \<Rightarrow>
                        (case nonblank (task_error t) of Some m \<Rightarrow> m | None \<Rightarrow> ''canceled by client''))
                  else errMsg)
         in if final = CANCELED \<and> \<not> canceled then Inl (ErrMsg ''cannot mark task canceled'')
            else Inr ((if final \<noteq> st then ''run canceled'' else ''accepted'', final),
              d\<lparr>tasks := update_where (\<lambda>u. task_id u = tid)
                 (\<lambda>u. u\<lparr>task_status := final, task_error := e,
                        task_objects := (if objects = '''' then ''[]'' else objects), task_rows := rws,
                        task_bytes_read := br, task_bytes_written := bw, task_finished := Some now\<rparr>) (tasks d)\<rparr>)))))"

end
