(* ===== verification/Bindings.thy ===== *)
theory Bindings
  imports Prelude
begin

text \<open>
  Several tables of the master pair a resource row with rows of leases on it: the resource names its
  current lease, and a lease is live while the resource names it (quarantined objects and their
  cleanup attempts, catalog registrations and their registration or reconciliation attempts). \<open>bound\<close>
  states that the two sides agree; the lemmas say which updates keep them in agreement. The first
  five arguments are the key and the current lease of a resource, and the key, the resource and the
  liveness of a lease.
\<close>

definition bound ::
  "('r \<Rightarrow> 'k) \<Rightarrow> ('r \<Rightarrow> 'i option) \<Rightarrow> ('l \<Rightarrow> 'i) \<Rightarrow> ('l \<Rightarrow> 'k) \<Rightarrow> ('l \<Rightarrow> bool) \<Rightarrow> 'r list \<Rightarrow> 'l list \<Rightarrow> bool" where
  "bound rk cur lk own live rs ls \<longleftrightarrow> keyed rk rs \<and> keyed lk ls
     \<and> (\<forall>l \<in> set ls. live l \<longrightarrow> (\<exists>r \<in> set rs. rk r = own l \<and> cur r = Some (lk l)))
     \<and> (\<forall>r \<in> set rs. \<forall>i. cur r = Some i \<longrightarrow> (\<exists>l \<in> set ls. lk l = i \<and> own l = rk r \<and> live l))"

lemma boundD:
  assumes "bound rk cur lk own live rs ls"
  shows "keyed rk rs" "keyed lk ls"
    "\<And>l. l \<in> set ls \<Longrightarrow> live l \<Longrightarrow> \<exists>r \<in> set rs. rk r = own l \<and> cur r = Some (lk l)"
    "\<And>r i. r \<in> set rs \<Longrightarrow> cur r = Some i \<Longrightarrow> \<exists>l \<in> set ls. lk l = i \<and> own l = rk r \<and> live l"
  using assms by (auto simp: bound_def)

lemma bound_live_cur:
  assumes "bound rk cur lk own live rs ls" "l \<in> set ls" "live l" "r \<in> set rs" "rk r = own l"
  shows "cur r = Some (lk l)"
  using boundD(3) [OF assms(1-3)] keyed_unique [OF boundD(1) [OF assms(1)] _ assms(4)] assms(5) by metis

lemma bound_cur_live:
  assumes "bound rk cur lk own live rs ls" "r \<in> set rs" "cur r = Some i" "l \<in> set ls" "lk l = i"
  shows "own l = rk r" "live l"
  using boundD(4) [OF assms(1-3)] keyed_unique [OF boundD(2) [OF assms(1)] _ assms(4)] assms(5) by metis+

lemma bound_one_live:
  assumes "bound rk cur lk own live rs ls" "l \<in> set ls" "m \<in> set ls" "live l" "live m" "own l = own m"
  shows "l = m"
proof -
  obtain r where "r \<in> set rs" "rk r = own l" using boundD(3) [OF assms(1,2,4)] by blast
  then have "cur r = Some (lk l)" "cur r = Some (lk m)"
    using bound_live_cur [OF assms(1)] assms(2-6) by metis+
  then show ?thesis using keyed_unique [OF boundD(2) [OF assms(1)] assms(2,3)] by simp
qed

lemma bound_frame:
  assumes "bound rk cur lk own live rs ls" "rs' = map g rs" "ls' = map f ls"
    and "\<And>r. r \<in> set rs \<Longrightarrow> rk (g r) = rk r \<and> cur (g r) = cur r"
    and "\<And>l. l \<in> set ls \<Longrightarrow> lk (f l) = lk l \<and> own (f l) = own l \<and> live (f l) = live l"
  shows "bound rk cur lk own live rs' ls'"
proof -
  have k: "map (rk \<circ> g) rs = map rk rs" "map (lk \<circ> f) ls = map lk ls" using assms(4,5) by auto
  show ?thesis using assms(1) unfolding bound_def keyed_def assms(2,3) by (auto simp: k assms(4,5))
qed

lemma bound_insert:
  assumes "bound rk cur lk own live rs ls" "cur r = None" "\<And>s. s \<in> set rs \<Longrightarrow> rk r \<noteq> rk s"
  shows "bound rk cur lk own live (rs @ [r]) ls"
  using assms by (auto simp: bound_def intro!: keyed_append)

lemma bound_grant:
  assumes b: "bound rk cur lk own live rs ls" and r: "r \<in> set rs" "cur r = None"
    and rs': "rs' = update_where p g rs" and p: "\<And>s. s \<in> set rs \<Longrightarrow> p s \<longleftrightarrow> rk s = rk r"
    and g: "\<And>s. rk (g s) = rk s \<and> cur (g s) = Some (lk l)"
    and l: "live l" "own l = rk r" "\<And>m. m \<in> set ls \<Longrightarrow> lk l \<noteq> lk m"
  shows "bound rk cur lk own live rs' (ls @ [l])"
proof -
  have only: "s = r" if "s \<in> set rs" "p s" for s
    using keyed_unique [OF boundD(1) [OF b] that(1) r(1)] p that by blast
  have keys: "keyed rk rs'" "keyed lk (ls @ [l])"
    using boundD(1,2) [OF b] l(3) g unfolding rs' by (auto intro!: keyed_update_where keyed_append)
  have hit: "g r \<in> set rs'" unfolding rs' by (rule update_where_hitI) (use r p in auto)
  have "\<exists>s \<in> set rs'. rk s = own m \<and> cur s = Some (lk m)" if m: "m \<in> set (ls @ [l])" "live m" for m
  proof (cases "m = l")
    case True
    then show ?thesis using hit g l(2) by force
  next
    case False
    then obtain s where s: "s \<in> set rs" "rk s = own m" "cur s = Some (lk m)" using boundD(3) [OF b] m by auto
    then have "\<not> p s" using only r(2) by auto
    then show ?thesis using s unfolding rs' by (blast intro: update_where_keepI)
  qed
  moreover have "\<exists>m \<in> set (ls @ [l]). lk m = i \<and> own m = rk s \<and> live m" if s: "s \<in> set rs'" "cur s = Some i" for s i
  proof -
    obtain s0 where s0: "s0 \<in> set rs" "s = (if p s0 then g s0 else s0)"
      using s(1) unfolding rs' by (rule in_update_whereE)
    show ?thesis
    proof (cases "p s0")
      case True
      then show ?thesis using s0 s(2) g l(1,2) only [OF s0(1)] by auto
    next
      case False
      then show ?thesis using boundD(4) [OF b s0(1)] s0(2) s(2) by auto
    qed
  qed
  ultimately show ?thesis using keys by (simp add: bound_def)
qed

lemma bound_release:
  assumes b: "bound rk cur lk own live rs ls"
    and rs': "rs' = update_where p g rs" and ls': "ls' = update_where q f ls"
    and f: "\<And>l. lk (f l) = lk l \<and> own (f l) = own l" "\<And>l. l \<in> set ls \<Longrightarrow> q l \<Longrightarrow> \<not> live (f l)"
    and g: "\<And>r. rk (g r) = rk r" "\<And>r. r \<in> set rs \<Longrightarrow> p r \<Longrightarrow> cur (g r) = None"
    and agree: "\<And>l r. l \<in> set ls \<Longrightarrow> r \<in> set rs \<Longrightarrow> live l \<Longrightarrow> cur r = Some (lk l) \<Longrightarrow> q l \<longleftrightarrow> p r"
  shows "bound rk cur lk own live rs' ls'"
proof -
  have keys: "keyed rk rs'" "keyed lk ls'"
    using boundD(1,2) [OF b] f g unfolding rs' ls' by (auto intro!: keyed_update_where)
  have "\<exists>r \<in> set rs'. rk r = own l \<and> cur r = Some (lk l)" if l: "l \<in> set ls'" "live l" for l
  proof -
    obtain m where m: "m \<in> set ls" "l = (if q m then f m else m)" using l(1) unfolding ls' by (rule in_update_whereE)
    then have nq: "\<not> q m" "l = m" using f(2) l(2) by (auto split: if_splits)
    then obtain r where r: "r \<in> set rs" "rk r = own m" "cur r = Some (lk m)" using boundD(3) [OF b m(1)] l(2) by auto
    then have "\<not> p r" using agree [OF m(1) r(1)] nq l(2) by simp
    then have "r \<in> set rs'" unfolding rs' using r(1) by (blast intro: update_where_keepI)
    then show ?thesis using r nq by auto
  qed
  moreover have "\<exists>l \<in> set ls'. lk l = i \<and> own l = rk s \<and> live l" if s: "s \<in> set rs'" "cur s = Some i" for s i
  proof -
    obtain r where r: "r \<in> set rs" "s = (if p r then g r else r)" using s(1) unfolding rs' by (rule in_update_whereE)
    then have np: "\<not> p r" "s = r" using g(2) s(2) by (auto split: if_splits)
    then obtain m where m: "m \<in> set ls" "lk m = i" "own m = rk r" "live m" using boundD(4) [OF b r(1)] s(2) by auto
    then have "\<not> q m" using agree [OF m(1) r(1)] np s(2) by auto
    then have "m \<in> set ls'" unfolding ls' using m(1) by (blast intro: update_where_keepI)
    then show ?thesis using m np by auto
  qed
  ultimately show ?thesis using keys by (simp add: bound_def)
qed

end
