(* ===== verification/ObjectSafety.thy ===== *)
theory ObjectSafety
  imports Objects Bindings TaskLeases
begin

text \<open>
  Safety of the object cleanup: the state machine of quarantined objects keeps every object that is
  being deleted bound to exactly one live cleanup attempt, a deletion is authorized only for an object
  that nothing references, and the multipart cleanup never claims the upload of a live attempt.
\<close>

section \<open>The invariant of quarantined objects\<close>

definition being_deleted :: "candidate \<Rightarrow> bool" where
  "being_deleted c \<longleftrightarrow> co_status c \<in> {O_DELETE_PENDING, O_DELETING}"

definition ca_live :: "cleanup_attempt \<Rightarrow> bool" where
  "ca_live a \<longleftrightarrow> ca_status a = CA_ACTIVE"

definition object_inv :: "db \<Rightarrow> bool" where
  "object_inv d \<longleftrightarrow> bound co_id co_cur ca_id ca_candidate ca_live (candidates d) (cleanup_attempts d)
     \<and> keyed ca_token (cleanup_attempts d) \<and> (\<forall>a \<in> set (cleanup_attempts d). ca_id a \<noteq> [])
     \<and> (\<forall>c \<in> set (candidates d). being_deleted c \<longleftrightarrow> co_cur c \<noteq> None)"

lemma object_invD:
  assumes "object_inv d"
  shows "bound co_id co_cur ca_id ca_candidate ca_live (candidates d) (cleanup_attempts d)"
    "keyed ca_token (cleanup_attempts d)"
    "\<And>c. c \<in> set (candidates d) \<Longrightarrow> being_deleted c \<longleftrightarrow> co_cur c \<noteq> None"
    "\<And>a. a \<in> set (cleanup_attempts d) \<Longrightarrow> ca_id a \<noteq> []"
  using assms by (auto simp: object_inv_def)

lemma object_inv_cong:
  assumes "object_inv d" "candidates d' = candidates d" "cleanup_attempts d' = cleanup_attempts d"
  shows "object_inv d'"
  using assms by (simp add: object_inv_def)

text \<open>Operations that let go of a claim.\<close>

lemma object_inv_release:
  assumes inv: "object_inv d"
    and cs: "candidates d' = update_where p g (candidates d)"
    and as: "cleanup_attempts d' = update_where q f (cleanup_attempts d)"
    and f: "\<And>a. ca_id (f a) = ca_id a \<and> ca_candidate (f a) = ca_candidate a \<and> ca_token (f a) = ca_token a"
      "\<And>a. a \<in> set (cleanup_attempts d) \<Longrightarrow> q a \<Longrightarrow> \<not> ca_live (f a)"
    and g: "\<And>c. co_id (g c) = co_id c" "\<And>c. c \<in> set (candidates d) \<Longrightarrow> p c \<Longrightarrow> co_cur (g c) = None \<and> \<not> being_deleted (g c)"
    and agree: "\<And>a c. a \<in> set (cleanup_attempts d) \<Longrightarrow> c \<in> set (candidates d) \<Longrightarrow> ca_live a \<Longrightarrow>
      co_cur c = Some (ca_id a) \<Longrightarrow> q a \<longleftrightarrow> p c"
  shows "object_inv d'"
proof -
  have "bound co_id co_cur ca_id ca_candidate ca_live (candidates d') (cleanup_attempts d')"
    by (rule bound_release [OF object_invD(1) [OF inv] cs as]) (use f g agree in auto)
  moreover have "keyed ca_token (cleanup_attempts d')"
    unfolding as by (rule keyed_update_where [OF object_invD(2) [OF inv]]) (use f in auto)
  moreover have "being_deleted c \<longleftrightarrow> co_cur c \<noteq> None" if "c \<in> set (candidates d')" for c
    using that g(2) object_invD(3) [OF inv] unfolding cs by (auto elim!: in_update_whereE split: if_splits)
  moreover have "ca_id a \<noteq> []" if "a \<in> set (cleanup_attempts d')" for a
    using that f(1) object_invD(4) [OF inv] unfolding as by (auto elim!: in_update_whereE split: if_splits)
  ultimately show ?thesis by (simp add: object_inv_def)
qed

lemma insert_candidate_inv:
  assumes "object_inv d"
  shows "object_inv (snd (insertCanceledObjectCandidateTx E f reason now q d))"
proof -
  let ?r = "insertCanceledObjectCandidateTx E f reason now q d"
  have "snd ?r = d \<or> (\<exists>c. candidates (snd ?r) = candidates d @ [c] \<and> cleanup_attempts (snd ?r) = cleanup_attempts d
      \<and> co_cur c = None \<and> \<not> being_deleted c \<and> (\<forall>x \<in> set (candidates d). co_id c \<noteq> co_id x))"
    by (auto simp: insertCanceledObjectCandidateTx_def Let_def being_deleted_def candidate_conflict_def list_ex_iff)
  then show ?thesis
    using assms object_invD [OF assms] by (auto simp: object_inv_def intro!: bound_insert)
qed

lemma fold_insert_candidates_inv:
  assumes "object_inv d"
  shows "object_inv (fold (\<lambda>f d. snd (insertCanceledObjectCandidateTx E f reason now q d)) fs d)"
  using assms by (induction fs arbitrary: d) (auto intro: insert_candidate_inv)

lemma fold_discover_inv:
  assumes "object_inv (snd s)"
  shows "object_inv (snd (fold (discover_insert E reason now q) fs s))"
  using assms
proof (induction fs arbitrary: s)
  case (Cons f fs)
  obtain n d where s: "s = (n, d)" by (cases s)
  have "object_inv (snd (discover_insert E reason now q f s))"
    using insert_candidate_inv [of d E f reason now q] Cons.prems
    by (auto simp: discover_insert_def s split: prod.splits bool.splits)
  then show ?case using Cons.IH by simp
qed simp

section \<open>Every operation preserves it\<close>

lemma create_candidates_inv: "object_inv d \<Longrightarrow> object_inv (createCanceledObjectCandidatesTx E ret rid now d)"
  unfolding createCanceledObjectCandidatesTx_def by (rule fold_insert_candidates_inv)

lemma discover_inv: "object_inv d \<Longrightarrow> DiscoverOrphanedObjects E ret now lim d = Inr (n, d') \<Longrightarrow> object_inv d'"
  by (auto simp: DiscoverOrphanedObjects_def Let_def intro!: fold_discover_inv dest!: arg_cong [of _ _ snd])

lemma claim_object_inv:
  assumes inv: "object_inv d" and ok: "ClaimCanceledObjectCleanup E now lease tokenFn d = Inr (r, d')"
  shows "object_inv d'"
proof (cases "select_first_by (\<lambda>c. (co_until c, co_id c)) (co_claimable now) (candidates d)")
  case None
  then show ?thesis using assms by (simp add: ClaimCanceledObjectCleanup_def)
next
  case (Some c)
  have c: "c \<in> set (candidates d)" "co_claimable now c" using select_first_by_SomeD(1,2) [OF Some] by auto
  have cur: "co_cur c = None" using c(2) by (simp add: co_claimable_def)
  obtain e where e: "referenceEvidenceTx c d = Inr e" using ok by (auto simp: ClaimCanceledObjectCleanup_def Some)
  note B = object_invD [OF inv]
  have only: "k = c" if "k \<in> set (candidates d)" "co_id k = co_id c" for k
    using keyed_unique [OF boundD(1) [OF B(1)] that(1) c(1) that(2)] .
  have nocur: "co_cur k = None" if "k \<in> set (candidates d)" "co_id k = co_id c" for k
    using only [OF that] cur by simp
  show ?thesis
  proof (cases "evd_decision e = ''UNREFERENCED''")
    case False
    then have d': "d' = block_candidate E e now c d"
      using ok by (auto simp: ClaimCanceledObjectCleanup_def Some e)
    show ?thesis
      by (rule object_inv_release [OF inv, where f = id and q = "\<lambda>_. False" and p = "\<lambda>k. co_id k = co_id c"
            and g = "\<lambda>k. k\<lparr>co_status := (if evd_decision e = ''REFERENCED'' \<or> evd_decision e = ''ACTIVE''
                 then O_BLOCKED_REFERENCED else O_BLOCKED_AMBIGUOUS), co_decision := evd_decision e,
               co_evidence := evidence_digest E e, co_operator := ((if evd_decision e = ''REFERENCED'' \<or> evd_decision e = ''ACTIVE''
                 then O_BLOCKED_REFERENCED else O_BLOCKED_AMBIGUOUS) = O_BLOCKED_AMBIGUOUS), co_updated := now\<rparr>"])
        (use nocur in \<open>auto simp: d' block_candidate_def Let_def update_where_def being_deleted_def\<close>)
  next
    case True
    obtain token where tok: "tokenFn = Inr token" using ok True by (auto simp: ClaimCanceledObjectCleanup_def Some e)
    let ?w = "\<lambda>k. co_id k = co_id c \<and> co_cur k = None"
    have one: "rows_affected ?w (candidates d) = 1"
      by (rule keyed_rows_affected_one [OF boundD(1) [OF B(1)] c(1)]) (use cur in auto)
    obtain a g where ag: "candidates d' = update_where ?w g (candidates d)" "cleanup_attempts d' = cleanup_attempts d @ [a]"
        "\<And>k. co_id (g k) = co_id k \<and> co_cur (g k) = Some (ca_id a) \<and> being_deleted (g k)" "ca_live a" "ca_candidate a = co_id c" "ca_id a \<noteq> []"
        "\<And>b. b \<in> set (cleanup_attempts d) \<Longrightarrow> \<not> cleanup_conflict a b"
      using ok one
      by (auto simp: ClaimCanceledObjectCleanup_def Some e True tok Let_def being_deleted_def ca_live_def
          intro!: that split: if_splits)
    have fresh: "ca_id a \<noteq> ca_id b \<and> ca_token a \<noteq> ca_token b" if "b \<in> set (cleanup_attempts d)" for b
      using ag(7) [OF that] by (auto simp: cleanup_conflict_def)
    have "bound co_id co_cur ca_id ca_candidate ca_live (candidates d') (cleanup_attempts d')"
      unfolding ag(2) by (rule bound_grant [OF B(1) c(1) cur ag(1)]) (use only cur ag fresh in auto)
    moreover have "keyed ca_token (cleanup_attempts d')"
      unfolding ag(2) by (rule keyed_append [OF B(2)]) (use fresh in auto)
    moreover have "being_deleted k \<longleftrightarrow> co_cur k \<noteq> None" if "k \<in> set (candidates d')" for k
      using that ag(3) B(3) unfolding ag(1) by (auto elim!: in_update_whereE split: if_splits)
    ultimately show ?thesis using ag(2,6) B(4) by (auto simp: object_inv_def)
  qed
qed

lemma authorize_object_inv:
  assumes inv: "object_inv d" and ok: "AuthorizeCanceledObjectDelete E cid aid token obs ver now d = Inr (u, d')"
  shows "object_inv d'"
proof -
  let ?p = "\<lambda>k. co_id k = cid \<and> co_cur k = Some aid" and ?q = "\<lambda>a. ca_id a = aid \<and> ca_token a = token"
  obtain g f where d': "candidates d' = update_where ?p g (candidates d)" "cleanup_attempts d' = update_where ?q f (cleanup_attempts d)"
    and g: "\<And>c. co_id (g c) = co_id c \<and> co_cur (g c) = co_cur c \<and> being_deleted (g c)"
    and f: "\<And>a. ca_id (f a) = ca_id a \<and> ca_candidate (f a) = ca_candidate a \<and> ca_live (f a) = ca_live a \<and> ca_token (f a) = ca_token a"
    using ok by (auto simp: AuthorizeCanceledObjectDelete_def being_deleted_def ca_live_def intro!: that
        split: sum.splits if_splits)
  have "bound co_id co_cur ca_id ca_candidate ca_live (candidates d') (cleanup_attempts d')"
    by (rule bound_frame [OF object_invD(1) [OF inv] d' [unfolded update_where_def]]) (use g f in auto)
  moreover have "keyed ca_token (cleanup_attempts d')"
    unfolding d' by (rule keyed_update_where [OF object_invD(2) [OF inv]]) (use f in auto)
  moreover have "being_deleted c \<longleftrightarrow> co_cur c \<noteq> None" if "c \<in> set (candidates d')" for c
    using that g object_invD(3) [OF inv] unfolding d' by (auto elim!: in_update_whereE split: if_splits)
  moreover have "ca_id a \<noteq> []" if "a \<in> set (cleanup_attempts d')" for a
    using that f object_invD(4) [OF inv] unfolding d' by (auto elim!: in_update_whereE split: if_splits)
  ultimately show ?thesis by (simp add: object_inv_def)
qed

lemma cancel_object_inv:
  assumes inv: "object_inv d" and ok: "CancelCanceledObjectCleanup cid now d = Inr (u, d')"
  shows "object_inv d'"
proof -
  obtain c where c: "select_one (\<lambda>c. co_id c = cid \<and> co_status c \<noteq> O_DELETED) (candidates d) = Some c"
    using ok by (auto simp: CancelCanceledObjectCleanup_def)
  then have c': "c \<in> set (candidates d)" "co_id c = cid" by auto
  note B = object_invD [OF inv]
  have own: "ca_id a = i \<Longrightarrow> co_cur k = Some (ca_id a) \<Longrightarrow> co_cur c = Some i \<Longrightarrow> co_id k = cid"
    if "k \<in> set (candidates d)" "a \<in> set (cleanup_attempts d)" for k a i
    using bound_cur_live(1) [OF B(1)] that c' by metis
  have mine: "co_cur k = co_cur c" if "k \<in> set (candidates d)" "co_id k = cid" for k
    using keyed_unique [OF boundD(1) [OF B(1)] that(1) c'(1)] that(2) c'(2) by simp
  let ?f = "\<lambda>a. a\<lparr>ca_status := CA_CANCELED, ca_finished := Some now, ca_eclass := ''CLEANUP_CANCELED'', ca_updated := now\<rparr>"
  let ?g = "\<lambda>k. k\<lparr>co_status := O_CANCELED_CLEANUP, co_cur := None, co_eclass := ''CLEANUP_CANCELED'', co_updated := now\<rparr>"
  let ?q = "\<lambda>a. co_cur c = Some (ca_id a) \<and> ca_status a = CA_ACTIVE"
  have cs: "candidates d' = update_where (\<lambda>k. co_id k = cid) ?g (candidates d)"
    using ok by (auto simp: CancelCanceledObjectCleanup_def c Let_def split: option.splits if_splits)
  have as: "cleanup_attempts d' = update_where ?q ?f (cleanup_attempts d)"
  proof (cases "co_cur c")
    case None
    then show ?thesis using ok by (auto simp: CancelCanceledObjectCleanup_def c Let_def update_where_none)
  next
    case (Some i)
    then have "i \<noteq> []" using boundD(4) [OF B(1) c'(1) Some] B(4) by auto
    then show ?thesis using ok Some
      by (auto simp: CancelCanceledObjectCleanup_def c Let_def intro!: update_where_cong)
  qed
  have agree: "?q a \<longleftrightarrow> co_id k = cid"
    if h: "a \<in> set (cleanup_attempts d)" "k \<in> set (candidates d)" "ca_live a" "co_cur k = Some (ca_id a)" for a k
    using own [OF h(2,1) refl h(4)] mine [OF h(2)] h(3,4) by (auto simp: ca_live_def)
  show ?thesis
    by (rule object_inv_release [OF inv cs as _ _ _ _ agree]) (auto simp: being_deleted_def ca_live_def)
qed

lemma finish_object_inv:
  assumes inv: "object_inv d"
    and ok: "FinishCanceledObjectCleanup cid aid token outcome cls now retry mx dry d = Inr (u, d')"
  shows "object_inv d'"
proof -
  obtain a where a: "select_one (\<lambda>a. ca_id a = aid \<and> ca_candidate a = cid \<and> ca_token a = token \<and> ca_status a = CA_ACTIVE)
      (cleanup_attempts d) = Some a"
    using ok by (auto simp: FinishCanceledObjectCleanup_def)
  then have a': "a \<in> set (cleanup_attempts d)" "ca_id a = aid" "ca_candidate a = cid" "ca_token a = token"
    "ca_status a = CA_ACTIVE" by auto
  note B = object_invD [OF inv]
  let ?p = "\<lambda>k. co_id k = cid \<and> co_cur k = Some aid" and ?q = "\<lambda>b. ca_id b = aid \<and> ca_token b = token"
  have st: "fin_attempt (finish_object_outcome outcome dry n mx now retry) \<noteq> CA_ACTIVE"
    "fin_status (finish_object_outcome outcome dry n mx now retry) \<notin> {O_DELETE_PENDING, O_DELETING}" for n
    by (auto simp: finish_object_outcome_def Let_def)
  obtain g f where d': "candidates d' = update_where ?p g (candidates d)" "cleanup_attempts d' = update_where ?q f (cleanup_attempts d)"
    and g: "\<And>c. co_id (g c) = co_id c \<and> co_cur (g c) = None \<and> \<not> being_deleted (g c)"
    and f: "\<And>a. ca_id (f a) = ca_id a \<and> ca_candidate (f a) = ca_candidate a \<and> \<not> ca_live (f a) \<and> ca_token (f a) = ca_token a"
    using ok st by (auto simp: FinishCanceledObjectCleanup_def a Let_def being_deleted_def ca_live_def add_event_opt_def
        intro!: that split: if_splits)
  have tok: "ca_token b = token" if "b \<in> set (cleanup_attempts d)" "ca_id b = aid" for b
    using keyed_unique [OF boundD(2) [OF B(1)] that(1) a'(1)] that(2) a' by simp
  have own: "co_id c = cid" if "c \<in> set (candidates d)" "co_cur c = Some aid" for c
    using bound_cur_live(1) [OF B(1) that a'(1,2)] a'(3) by simp
  show ?thesis by (rule object_inv_release [OF inv d']) (use g f own tok in auto)
qed

lemma expire_object_inv:
  assumes inv: "object_inv d" and ok: "ExpireCanceledObjectCleanupAttempts now d = Inr (n, d')"
  shows "object_inv d'"
proof -
  let ?q = "\<lambda>a. ca_status a = CA_ACTIVE \<and> ca_deadline a \<le> now"
  let ?f = "\<lambda>a. a\<lparr>ca_status := CA_EXPIRED, ca_finished := Some now, ca_eclass := ''CLEANUP_DELETE_AMBIGUOUS'', ca_updated := now\<rparr>"
  let ?as = "update_where ?q ?f (cleanup_attempts d)"
  let ?p = "\<lambda>c. list_ex (\<lambda>a. co_cur c = Some (ca_id a) \<and> ca_candidate a = co_id c \<and> ca_status a = CA_EXPIRED) ?as"
  let ?g = "\<lambda>c. c\<lparr>co_status := O_DELETE_AMBIGUOUS, co_cur := None, co_eclass := ''CLEANUP_DELETE_AMBIGUOUS'', co_updated := now\<rparr>"
  note B = object_invD [OF inv]
  have cs: "candidates d' = update_where ?p ?g (candidates d)" and as: "cleanup_attempts d' = ?as"
    using ok by (auto simp: ExpireCanceledObjectCleanupAttempts_def Let_def)
  have agree: "?q a \<longleftrightarrow> ?p c" if h: "a \<in> set (cleanup_attempts d)" "c \<in> set (candidates d)" "ca_live a" "co_cur c = Some (ca_id a)" for a c
  proof
    assume "?q a"
    then have "?f a \<in> set ?as" using h(1) by (intro update_where_hitI)
    moreover have "ca_candidate a = co_id c" by (rule bound_cur_live(1) [OF B(1) h(2,4,1) refl])
    ultimately show "?p c" using h(4) by (auto simp: list_ex_iff intro!: bexI [of _ "?f a"])
  next
    assume "?p c"
    then obtain b where b: "b \<in> set ?as" "ca_id b = ca_id a" "ca_status b = CA_EXPIRED" using h(4) by (auto simp: list_ex_iff)
    then obtain b0 where b0: "b0 \<in> set (cleanup_attempts d)" "b = (if ?q b0 then ?f b0 else b0)" by (auto elim: in_update_whereE)
    then have "ca_id b0 = ca_id a" using b(2) by (auto split: if_splits)
    then have "b0 = a" using keyed_unique [OF boundD(2) [OF B(1)] b0(1) h(1)] by simp
    then show "?q a" using b(3) b0(2) h(3) by (auto simp: ca_live_def split: if_splits)
  qed
  show ?thesis by (rule object_inv_release [OF inv cs as _ _ _ _ agree]) (auto simp: being_deleted_def ca_live_def)
qed

section \<open>Reachable states\<close>

text \<open>
  The steps of the cleanup: every operation that changes candidates or cleanup attempts, and any change of
  the rest of the database (runs finish, artifacts appear, tasks are reassigned, \<dots>).
\<close>

inductive object_step :: "db \<Rightarrow> db \<Rightarrow> bool" where
  create: "object_step d (createCanceledObjectCandidatesTx E ret rid now d)"
| discover: "DiscoverOrphanedObjects E ret now lim d = Inr (n, d') \<Longrightarrow> object_step d d'"
| claim: "ClaimCanceledObjectCleanup E now lease tokenFn d = Inr (r, d') \<Longrightarrow> object_step d d'"
| authorize: "AuthorizeCanceledObjectDelete E cid aid token obs ver now d = Inr (u, d') \<Longrightarrow> object_step d d'"
| finish: "FinishCanceledObjectCleanup cid aid token outcome cls now retry mx dry d = Inr (u, d') \<Longrightarrow> object_step d d'"
| expire: "ExpireCanceledObjectCleanupAttempts now d = Inr (n, d') \<Longrightarrow> object_step d d'"
| cancel: "CancelCanceledObjectCleanup cid now d = Inr (u, d') \<Longrightarrow> object_step d d'"
| elsewhere: "candidates d' = candidates d \<Longrightarrow> cleanup_attempts d' = cleanup_attempts d \<Longrightarrow> object_step d d'"

definition no_objects :: "db \<Rightarrow> bool" where
  "no_objects d \<longleftrightarrow> candidates d = [] \<and> cleanup_attempts d = []"

interpretation cleanup: transition_system no_objects object_step object_inv
proof
  show "object_inv d" if "no_objects d" for d
    using that by (simp add: no_objects_def object_inv_def bound_def keyed_def)
  show "object_inv d'" if "object_inv d" "object_step d d'" for d d'
    using that(2,1)
    by cases (auto intro: create_candidates_inv discover_inv claim_object_inv authorize_object_inv
        finish_object_inv expire_object_inv cancel_object_inv object_inv_cong)
qed

text \<open>
  C9. In every reachable state, an object is in deletion (DELETE_PENDING or DELETING) exactly when it is
  claimed by a cleanup attempt, that attempt is ACTIVE and belongs to it, and no object has two ACTIVE
  cleanup attempts: two cleaners never delete the same object at the same time.
\<close>

theorem object_has_one_live_cleanup:
  assumes "no_objects d0" "object_step\<^sup>*\<^sup>* d0 d"
  shows "(\<forall>c \<in> set (candidates d). co_status c \<in> {O_DELETE_PENDING, O_DELETING} \<longleftrightarrow>
            (\<exists>a \<in> set (cleanup_attempts d). co_cur c = Some (ca_id a) \<and> ca_candidate a = co_id c \<and> ca_status a = CA_ACTIVE))
      \<and> (\<forall>a \<in> set (cleanup_attempts d). \<forall>b \<in> set (cleanup_attempts d). ca_candidate a = ca_candidate b
            \<and> ca_status a = CA_ACTIVE \<and> ca_status b = CA_ACTIVE \<longrightarrow> a = b)"
proof -
  have inv: "object_inv d" by (rule cleanup.inv_reachable [OF assms])
  note B = object_invD [OF inv]
  have "co_status c \<in> {O_DELETE_PENDING, O_DELETING} \<longleftrightarrow>
      (\<exists>a \<in> set (cleanup_attempts d). co_cur c = Some (ca_id a) \<and> ca_candidate a = co_id c \<and> ca_status a = CA_ACTIVE)"
    if c: "c \<in> set (candidates d)" for c
    using B(3) [OF c] boundD(4) [OF B(1) c] by (auto simp: being_deleted_def ca_live_def)
  moreover have "a = b" if "a \<in> set (cleanup_attempts d)" "b \<in> set (cleanup_attempts d)" "ca_candidate a = ca_candidate b"
      "ca_status a = CA_ACTIVE" "ca_status b = CA_ACTIVE" for a b
    using bound_one_live [OF B(1) that(1,2)] that by (simp add: ca_live_def)
  ultimately show ?thesis by blast
qed

section \<open>Deletion\<close>



subsection \<open>Sample states\<close>

text \<open>A canceled run whose only attempt had completed an upload that nobody accepted.\<close>

definition sample_multipart :: multipart where
  "sample_multipart = \<lparr>mp_id = ''m1'', mp_run = ''r1'', mp_task = ''t1'', mp_attempt = ''a1'', mp_attempt_number = 1,
     mp_file_index = 0, mp_key = ''d/r/f'', mp_prefix = ''d/r/'', mp_upload = Some ''u1'', mp_status = MP_COMPLETED,
     mp_worker = ''w1'', mp_sha256 = ''ff'', mp_size = 5, mp_activity = 9, mp_provider_created = Some 6,
     mp_completion_started = Some 8, mp_completed = Some 9, mp_abort_requested = None, mp_aborted = None, mp_next = None,
     mp_cleanups = 0, mp_token = None, mp_deadline = None, mp_eclass = '''', mp_emsg = None, mp_updated = 9, mp_epoch = Some 1\<rparr>"

definition sample_canceled :: db where
  "sample_canceled = sample_db\<lparr>runs := [sample_run\<lparr>run_status := CANCELED\<rparr>],
     attempts := [\<lparr>att_id = ''a1'', att_task = ''t1'', att_number = 1, att_worker = ''w1'', att_boot = ''b'', att_token = ''k1'',
       att_status = CANCELED, att_assigned = 5, att_deadline = 15, att_renewed = 5, att_started = Some 5,
       att_finished = Some 10, att_fclass = [], att_fmsg = None, att_digest = [], att_updated = 10, att_epoch = None\<rparr>],
     multiparts := [sample_multipart]\<rparr>"

definition sample_quarantined :: db where
  "sample_quarantined = createCanceledObjectCandidatesTx sample_env 10 ''r1'' 10 sample_canceled"

definition sample_claimed :: db where
  "sample_claimed = state_after (ClaimCanceledObjectCleanup sample_env 30 100 (Inr ''ck'') sample_quarantined) sample_quarantined"

lemma sample_claim_ok: "\<exists>r. ClaimCanceledObjectCleanup sample_env 30 100 (Inr ''ck'') sample_quarantined = Inr (Some r, sample_claimed)"
proof -
  have "(case ClaimCanceledObjectCleanup sample_env 30 100 (Inr ''ck'') sample_quarantined of Inr (Some _, _) \<Rightarrow> True | _ \<Rightarrow> False)"
    by code_simp
  then show ?thesis by (auto simp: sample_claimed_def state_after_def split: sum.splits option.splits)
qed

lemma sample_claimed_reachable: "no_objects sample_canceled" "object_step\<^sup>*\<^sup>* sample_canceled sample_claimed"
proof -
  show "no_objects sample_canceled" by code_simp
  have "object_step sample_canceled sample_quarantined" unfolding sample_quarantined_def by (rule object_step.create)
  moreover have "object_step sample_quarantined sample_claimed" using sample_claim_ok object_step.claim by blast
  ultimately show "object_step\<^sup>*\<^sup>* sample_canceled sample_claimed" by simp
qed

theorem object_has_one_live_cleanup_witness:
  "\<exists>c \<in> set (candidates sample_claimed). \<exists>a \<in> set (cleanup_attempts sample_claimed).
      co_cur c = Some (ca_id a) \<and> ca_status a = CA_ACTIVE"
proof -
  have "list_ex (\<lambda>c. co_status c \<in> {O_DELETE_PENDING, O_DELETING}) (candidates sample_claimed)" by code_simp
  then obtain c where "c \<in> set (candidates sample_claimed)" "co_status c \<in> {O_DELETE_PENDING, O_DELETING}"
    by (auto simp: list_ex_iff)
  then show ?thesis using object_has_one_live_cleanup [OF sample_claimed_reachable] by blast
qed


section \<open>Multipart uploads\<close>

text \<open>
  The cleanup never takes an upload away from a live worker: a claimed upload belongs to an attempt
  that is not ACTIVE or whose lease has run out, has been idle for the grace period, and is not the object
  of a verified artifact; it is the longest idle such upload, and no other upload changes.
\<close>

lemma multipart_claim_spares_live_attempts:
  assumes ok: "ClaimMultipartCleanup now grace lease tokenFn d = Inr (Some m, d')"
  shows "\<exists>n \<in> set (multiparts d). mp_id m = mp_id n \<and> mp_activity n \<le> now - grace
      \<and> mp_status n \<notin> {MP_COMPLETED, MP_ABORTED, MP_ABORTING, MP_UNKNOWN_REVIEW}
      \<and> (\<forall>a \<in> set (attempts d). att_id a = mp_attempt n \<longrightarrow> att_status a \<noteq> ACTIVE \<or> att_deadline a \<le> now)
      \<and> (\<forall>x \<in> set (artifacts d). ar_key (arow_rec x) = mp_key n \<longrightarrow> ar_status (arow_rec x) \<noteq> ''VERIFIED'')
      \<and> (\<forall>k \<in> set (multiparts d). mp_claimable d now grace k \<longrightarrow> mp_activity n \<le> mp_activity k)
      \<and> mp_status m = MP_ABORTING \<and> mp_deadline m = Some (now + lease) \<and> mp_cleanups m = mp_cleanups n + 1
      \<and> (\<forall>k \<in> set (multiparts d). mp_id k \<noteq> mp_id n \<longrightarrow> k \<in> set (multiparts d'))"
proof (cases "select_first_by (\<lambda>m. (mp_activity m, mp_id m)) (mp_claimable d now grace) (multiparts d)")
  case None
  then show ?thesis using ok by (simp add: ClaimMultipartCleanup_def)
next
  case (Some n)
  note S = select_first_by_SomeD [OF Some]
  obtain token where m: "m = n\<lparr>mp_status := MP_ABORTING, mp_token := Some token, mp_deadline := Some (now + lease),
        mp_cleanups := mp_cleanups n + 1, mp_epoch := active_epoch d, mp_updated := now\<rparr>"
    and d': "multiparts d' = update_where (\<lambda>k. mp_id k = mp_id n \<and> mp_status k = mp_status n)
      (\<lambda>k. k\<lparr>mp_status := MP_ABORTING, mp_token := Some token, mp_deadline := Some (now + lease),
        mp_cleanups := mp_cleanups k + 1, mp_epoch := active_epoch d, mp_updated := now\<rparr>) (multiparts d)"
    using ok by (auto simp: ClaimMultipartCleanup_def Some Let_def split: if_splits)
  have "mp_activity n \<le> mp_activity k" if "k \<in> set (multiparts d)" "mp_claimable d now grace k" for k
    using S(3) [OF that] by (auto simp: less_eq_prod_def)
  moreover have "k \<in> set (multiparts d')" if "k \<in> set (multiparts d)" "mp_id k \<noteq> mp_id n" for k
    unfolding d' using that by (auto intro: update_where_keepI)
  ultimately show ?thesis
    using S(1,2) by (intro bexI [of _ n]) (auto simp: m mp_claimable_def list_ex_iff)
qed

definition sample_idle_upload :: db where
  "sample_idle_upload = sample_canceled\<lparr>multiparts := [sample_multipart\<lparr>mp_status := MP_ACTIVE\<rparr>]\<rparr>"

lemma update_owned_cases:
  assumes "updateMultipartOwned mid aid f ms = Inr ms'"
  shows "ms' = update_where (\<lambda>m. mp_id m = mid \<and> mp_attempt m = aid
            \<and> mp_status m \<notin> {MP_COMPLETED, MP_ABORTED, MP_UNKNOWN_REVIEW}) f ms"
  using assms by (auto simp: updateMultipartOwned_def Let_def split: if_splits)

lemma mp_apply_frozen:
  assumes "mp_apply E u num now d = Inr ms" "m \<in> set (multiparts d)"
    and "mp_status m \<in> {MP_COMPLETED, MP_ABORTED, MP_UNKNOWN_REVIEW} \<or> mp_attempt m \<noteq> up_attempt u"
  shows "m \<in> set ms"
  using assms
  by (cases "up_event u")
    (auto simp: mp_apply_def mp_prepare_def Let_def dest!: update_owned_cases update_unique_InrD(1)
      intro!: update_where_keepI split: if_splits)

text \<open>
  Upload reports are fenced and final states are final: a lifecycle report is applied only for an
  ACTIVE attempt with an unexpired lease and the matching worker and fencing token; it leaves the uploads
  of every other attempt alone, and never changes an upload that is COMPLETED, ABORTED or under review.
\<close>

lemma multipart_report_is_fenced:
  assumes ok: "ApplyMultipartLifecycle E u now d = Inr (m, d')"
  shows "(\<exists>a \<in> set (attempts d). att_id a = up_attempt u \<and> att_task a = up_task u \<and> att_worker a = up_worker u
            \<and> att_token a = up_token u \<and> att_status a = ACTIVE \<and> now < att_deadline a)
      \<and> (\<forall>k \<in> set (multiparts d). mp_attempt k \<noteq> up_attempt u
            \<or> mp_status k \<in> {MP_COMPLETED, MP_ABORTED, MP_UNKNOWN_REVIEW} \<longrightarrow> k \<in> set (multiparts d'))
      \<and> m \<in> set (multiparts d') \<and> mp_attempt m = up_attempt u \<and> mp_key m = up_key u \<and> mp_sha256 m = up_sha256 u"
proof -
  obtain a ms where a: "find_attempt (up_attempt u) (up_task u) d = Some a" "att_worker a = up_worker u"
      "att_token a = up_token u" "att_status a = ACTIVE" "now < att_deadline a"
    and ms: "mp_apply E u (att_number a) now d = Inr ms" "multiparts d' = ms" "m \<in> set ms"
      "mp_attempt m = up_attempt u" "mp_key m = up_key u" "mp_sha256 m = up_sha256 u"
    using ok by (auto simp: ApplyMultipartLifecycle_def Let_def dest!: select_one_SomeD split: if_splits)
  have "\<exists>a \<in> set (attempts d). att_id a = up_attempt u \<and> att_task a = up_task u \<and> att_worker a = up_worker u
            \<and> att_token a = up_token u \<and> att_status a = ACTIVE \<and> now < att_deadline a"
    using a by (auto simp: find_attempt_def)
  moreover have "\<forall>k \<in> set (multiparts d). mp_attempt k \<noteq> up_attempt u
            \<or> mp_status k \<in> {MP_COMPLETED, MP_ABORTED, MP_UNKNOWN_REVIEW} \<longrightarrow> k \<in> set (multiparts d')"
    using mp_apply_frozen [OF ms(1)] ms(2) by blast
  ultimately show ?thesis using ms(2-6) by blast
qed

definition sample_report :: mp_update where
  "sample_report = \<lparr>up_event = EvPREPARED, up_run = ''r1'', up_task = ''t1'', up_attempt = ''a1'', up_worker = ''w1'',
     up_token = ''k1'', up_index = 0, up_key = ''d/r/f'', up_upload = '''', up_sha256 = ''ff'', up_size = 5, up_emsg = ''''\<rparr>"

text \<open>
  The outcome of a cleanup leaves no trace in the event log: \<open>FinishMultipartCleanup\<close> and
  \<open>FinishCanceledObjectCleanup\<close> insert their events without a run id, which \<open>events.run_id NOT NULL\<close>
  together with \<open>INSERT OR IGNORE\<close> drops silently, on every branch.
\<close>

lemma cleanup_outcome_events_are_dropped:
  "(FinishMultipartCleanup mid token outcome cls msg now retry mx d = Inr (u, d') \<longrightarrow> events d' = events d)
   \<and> (FinishCanceledObjectCleanup cid aid token outcome cls now retry mx dry d = Inr (u, d') \<longrightarrow> events d' = events d)"
  by (auto simp: FinishMultipartCleanup_def FinishCanceledObjectCleanup_def Let_def add_event_opt_def
      split: if_splits prod.splits)

end
