(* ===== verification/RunLife.thy ===== *)
theory RunLife
  imports Runs ObjectSafety
begin

text \<open>
  Correctness of the life of runs: at most one active run per dataset, admission within the global cap
  and without idling, complete cancellation, finalization decided by the tasks, redacted summaries.
\<close>

section \<open>One active run per dataset\<close>

lemma list_ex_update_where:
  assumes "\<And>r. p (f r) = p r"
  shows "list_ex p (update_where q f xs) = list_ex p xs"
  using assms by (induction xs) auto

lemma pairwise_map_mono:
  assumes "pairwise c xs" "\<And>x y. c (f x) (f y) \<Longrightarrow> c x y"
  shows "pairwise c (map f xs)"
  using assms by (induction xs) (auto simp: list_all_iff)

lemma pairwise_append_one: "pairwise c (xs @ [x]) \<longleftrightarrow> pairwise c xs \<and> (\<forall>y \<in> set xs. \<not> c y x)"
  by (induction xs) (auto simp: list_all_iff)

lemma pairwiseD: "pairwise c xs \<Longrightarrow> x \<in> set xs \<Longrightarrow> y \<in> set xs \<Longrightarrow> x \<noteq> y \<Longrightarrow> \<not> c x y \<or> \<not> c y x"
  by (induction xs) (auto simp: list_all_iff)

lemma run_conflict_sym: "run_conflict r s = run_conflict s r"
  by (auto simp: run_conflict_def)

lemma runs_unique_update:
  assumes "runs_unique rs"
    and "\<And>r. run_id (f r) = run_id r \<and> run_dataset (f r) = run_dataset r"
    and "\<And>r. p r \<Longrightarrow> run_active (f r) \<Longrightarrow> run_active r"
  shows "runs_unique (update_where p f rs)"
  unfolding runs_unique_def update_where_def
  using assms(2,3) by (intro pairwise_map_mono [OF assms(1) [unfolded runs_unique_def]]) (auto simp: run_conflict_def split: if_splits)

lemma runs_unique_keyed: "runs_unique rs \<Longrightarrow> keyed run_id rs"
  unfolding runs_unique_def keyed_def by (induction rs) (auto simp: list_all_iff run_conflict_def)

lemma runs_unique_dataset:
  assumes "runs_unique rs" "r \<in> set rs" "s \<in> set rs" "run_active r" "run_active s" "run_dataset r = run_dataset s"
  shows "r = s"
  using pairwiseD [OF assms(1) [unfolded runs_unique_def] assms(2,3)] assms(4-6) by (auto simp: run_conflict_def)

text \<open>
  A dataset is locked by its active run: with a fresh run id, creating an active run for a dataset
  fails with \<open>ErrActiveDatasetRun\<close> exactly when the lookup of the active run of that dataset finds one, and
  otherwise appends exactly the new run, with no trace of an earlier publication.
\<close>

lemma create_run_respects_dataset_lock:
  assumes "\<And>s. s \<in> set (runs d) \<Longrightarrow> run_id s \<noteq> run_id r"
    and "run_status r \<in> {PLANNING, RUNNING, COMMITTING}" "run_dataset r \<noteq> ''''"
  shows "CreateRun (Inr cfg) r d =
      (case FindActiveRunByDatasetKey (run_dataset r) d of
         Some _ \<Rightarrow> Inl ErrActiveDatasetRun
       | None \<Rightarrow> Inr ((), d\<lparr>runs := runs d @ [run_defaults cfg r]\<rparr>))
    \<and> run_commit_id (run_defaults cfg r) = '''' \<and> run_claim_token (run_defaults cfg r) = ''''"
proof -
  have id: "\<not> list_ex (\<lambda>s. run_id (run_defaults cfg r) = run_id s) (runs d)"
    using assms(1) by (fastforce simp: list_ex_iff run_defaults_def)
  have "list_ex (run_conflict (run_defaults cfg r)) (runs d)
      \<longleftrightarrow> (\<exists>s \<in> set (runs d). run_dataset s = run_dataset r \<and> run_status s \<in> {PLANNING, RUNNING, COMMITTING})"
    using assms by (fastforce simp: list_ex_iff run_conflict_def run_active_def run_defaults_def)
  also have "\<dots> \<longleftrightarrow> FindActiveRunByDatasetKey (run_dataset r) d \<noteq> None"
    by (auto simp: FindActiveRunByDatasetKey_def select_first_by_NoneD)
  finally show ?thesis using id by (auto simp: CreateRun_def Let_def run_defaults_def split: option.splits)
qed

section \<open>Admission\<close>

lemma admit_fold:
  assumes "keyed run_id (runs d)" "distinct ids" "\<forall>i \<in> set ids. \<exists>r \<in> set (runs d). admit_where i r"
  shows "runs (snd (fold (admit_one now) ids (k, d))) = update_where (\<lambda>r. run_status r = PLANNING \<and> run_id r \<in> set ids) admitted_run (runs d)
      \<and> fst (fold (admit_one now) ids (k, d)) = k + length ids
      \<and> tasks (snd (fold (admit_one now) ids (k, d))) = tasks d \<and> attempts (snd (fold (admit_one now) ids (k, d))) = attempts d"
  using assms
proof (induction ids arbitrary: k d)
  case Nil
  then show ?case by (simp add: update_where_none)
next
  case (Cons i ids)
  let ?rs = "update_where (admit_where i) admitted_run (runs d)"
  obtain r where r: "r \<in> set (runs d)" "admit_where i r" using Cons.prems(3) by auto
  have one: "rows_affected (admit_where i) (runs d) = 1"
    by (rule keyed_rows_affected_one [OF Cons.prems(1) r(1), of "admit_where i"]) (use r in \<open>auto simp: admit_where_def\<close>)
  obtain d1 where d1: "admit_one now i (k, d) = (Suc k, d1)" "runs d1 = ?rs" "tasks d1 = tasks d" "attempts d1 = attempts d"
    using one by (auto simp: admit_one_def Let_def)
  have "keyed run_id (runs d1)" unfolding d1
    by (rule keyed_update_where [OF Cons.prems(1)]) (simp add: admitted_run_def)
  moreover have "\<exists>r \<in> set (runs d1). admit_where j r" if j: "j \<in> set ids" for j
  proof -
    obtain s where s: "s \<in> set (runs d)" "admit_where j s"
      using Cons.prems(3) j by (meson list.set_intros(2))
    then have "\<not> admit_where i s" using Cons.prems(2) j by (auto simp: admit_where_def)
    then show ?thesis using s unfolding d1 by (blast intro: update_where_keepI)
  qed
  ultimately have IH: "runs (snd (fold (admit_one now) ids (Suc k, d1))) =
        update_where (\<lambda>r. run_status r = PLANNING \<and> run_id r \<in> set ids) admitted_run (runs d1)
      \<and> fst (fold (admit_one now) ids (Suc k, d1)) = Suc k + length ids
      \<and> tasks (snd (fold (admit_one now) ids (Suc k, d1))) = tasks d1 \<and> attempts (snd (fold (admit_one now) ids (Suc k, d1))) = attempts d1"
    using Cons.IH [of d1 "Suc k"] Cons.prems(2) by auto
  have "update_where (\<lambda>r. run_status r = PLANNING \<and> run_id r \<in> set ids) admitted_run ?rs
      = update_where (\<lambda>r. run_status r = PLANNING \<and> run_id r \<in> set (i # ids)) admitted_run (runs d)"
    unfolding update_where_def by (auto simp: admit_where_def admitted_run_def)
  then show ?case using IH d1 by simp
qed

lemma rows_affected_update_new:
  assumes "\<And>r. r \<in> set xs \<Longrightarrow> p r \<Longrightarrow> \<not> q r" "\<And>r. q (f r)"
  shows "rows_affected q (update_where p f xs) = rows_affected q xs + rows_affected p xs"
  using assms by (induction xs) (auto simp: rows_affected_def)

lemma queue_ids:
  assumes "keyed run_id (runs d)"
  shows "distinct (map run_id (take k (admission_queue d)))"
    and "\<forall>i \<in> set (map run_id (take k (admission_queue d))). \<exists>r \<in> set (runs d). admit_where i r"
proof -
  have "distinct (map run_id (filter (queued d) (runs d)))"
    using assms unfolding keyed_def by (rule distinct_map_filter)
  then have "distinct (map run_id (admission_queue d))"
    unfolding admission_queue_def by (simp add: distinct_map)
  then show "distinct (map run_id (take k (admission_queue d)))" by (metis distinct_take take_map)
  show "\<forall>i \<in> set (map run_id (take k (admission_queue d))). \<exists>r \<in> set (runs d). admit_where i r"
    by (auto simp: admission_queue_def queued_def admit_where_def dest!: in_set_takeD)
qed

lemma admit_pending_cases:
  assumes "keyed run_id (runs d)" "0 < cap" "int (active_runs d) \<le> cap" "AdmitPendingRuns cap now d = Inr (n, d')"
  defines "ids \<equiv> map run_id (take (nat (cap - int (active_runs d))) (admission_queue d))"
  shows "runs d' = update_where (\<lambda>r. run_status r = PLANNING \<and> run_id r \<in> set ids) admitted_run (runs d)"
    and "n = length ids" and "tasks d' = tasks d" and "attempts d' = attempts d"
proof -
  note Q = queue_ids [OF assms(1), of "nat (cap - int (active_runs d))"]
  have *: "runs d' = update_where (\<lambda>r. run_status r = PLANNING \<and> run_id r \<in> set ids) admitted_run (runs d)
      \<and> n = length ids \<and> tasks d' = tasks d \<and> attempts d' = attempts d"
  proof (cases "int (active_runs d) < cap \<and> list_ex (queued d) (runs d)")
    case True
    then show ?thesis
      using assms(2,4) admit_fold [OF assms(1) Q, of now 0] by (simp add: AdmitPendingRuns_def Let_def ids_def)
  next
    case False
    then have "ids = []"
      using assms(3) by (auto simp: ids_def admission_queue_def list_ex_iff filter_empty_conv)
    moreover have "d' = d \<and> n = 0" using False assms(2,4) by (simp add: AdmitPendingRuns_def split: if_splits)
    ultimately show ?thesis by (simp add: update_where_none)
  qed
  show "runs d' = update_where (\<lambda>r. run_status r = PLANNING \<and> run_id r \<in> set ids) admitted_run (runs d)"
    and "n = length ids" and "tasks d' = tasks d" and "attempts d' = attempts d" using * by auto
qed

lemma rows_affected_ids:
  assumes "keyed run_id rs" "distinct ids" "\<forall>i \<in> set ids. \<exists>r \<in> set rs. admit_where i r"
  shows "rows_affected (\<lambda>r. run_status r = PLANNING \<and> run_id r \<in> set ids) rs = length ids"
proof -
  let ?xs = "filter (\<lambda>r. run_status r = PLANNING \<and> run_id r \<in> set ids) rs"
  have "distinct (map run_id ?xs)" using assms(1) unfolding keyed_def by (rule distinct_map_filter)
  moreover have "set (map run_id ?xs) = set ids" using assms(3) by (force simp: admit_where_def)
  ultimately show ?thesis unfolding rows_affected_def using assms(2) by (metis distinct_card length_map)
qed

text \<open>
  C10. Admission is safe and does not idle: admitting the waiting runs never exceeds the global cap on
  active runs, admits exactly the reported number of runs, in the order of their creation, and afterwards
  either the cap is reached or no queued run is left.
\<close>

theorem admission_fills_capacity:
  assumes uniq: "runs_unique (runs d)" and cap: "0 < cap" "int (active_runs d) \<le> cap"
    and ok: "AdmitPendingRuns cap now d = Inr (n, d')"
  shows "int (active_runs d') \<le> cap \<and> active_runs d' = active_runs d + n
      \<and> (\<forall>r \<in> set (runs d). if run_id r \<in> run_id ` set (take n (admission_queue d))
           then admitted_run r \<in> set (runs d') else r \<in> set (runs d'))
      \<and> (int (active_runs d') = cap \<or> (\<forall>r \<in> set (runs d'). \<not> queued d' r))"
proof -
  let ?k = "nat (cap - int (active_runs d))"
  let ?ids = "map run_id (take ?k (admission_queue d))"
  have key: "keyed run_id (runs d)" by (rule runs_unique_keyed [OF uniq])
  note C = admit_pending_cases [OF key cap ok] and Q = queue_ids [OF key, of ?k]
  have n: "n = length (take ?k (admission_queue d))" using C(2) by simp
  have take: "take n (admission_queue d) = take ?k (admission_queue d)" using n by (metis length_take min.commute take_all_iff take_take nle_le)
  have "active_runs d' = active_runs d + rows_affected (\<lambda>r. run_status r = PLANNING \<and> run_id r \<in> set ?ids) (runs d)"
    unfolding active_runs_def C(1) by (rule rows_affected_update_new) (auto simp: admitted_run_def)
  then have act: "active_runs d' = active_runs d + n" using rows_affected_ids [OF key Q] C(2) by simp
  have bound: "int (active_runs d') \<le> cap" using act n cap by simp
  have mem: "if run_id r \<in> run_id ` set (take n (admission_queue d)) then admitted_run r \<in> set (runs d') else r \<in> set (runs d')"
    if r: "r \<in> set (runs d)" for r
  proof (cases "run_id r \<in> set ?ids")
    case True
    then have "run_status r = PLANNING" using Q(2) keyed_unique [OF key r] by (auto simp: admit_where_def)
    then have "admitted_run r \<in> set (runs d')"
      unfolding C(1) using r True by (intro update_where_hitI) auto
    then show ?thesis using True unfolding take by simp
  next
    case False
    then have "r \<in> set (runs d')" unfolding C(1) using r by (intro update_where_keepI) auto
    then show ?thesis using False unfolding take by simp
  qed
  have "\<not> queued d' r" if r: "r \<in> set (runs d')" and lt: "int (active_runs d') \<noteq> cap" for r
  proof
    assume q: "queued d' r"
    obtain s where s: "s \<in> set (runs d)" "r = (if run_status s = PLANNING \<and> run_id s \<in> set ?ids then admitted_run s else s)"
      using r unfolding C(1) by (rule in_update_whereE)
    have rs: "r = s" "run_id s \<notin> set ?ids" using s(2) q by (auto simp: queued_def admitted_run_def split: if_splits)
    have "length (admission_queue d) \<le> ?k" using lt act n bound cap(2) by (auto simp: min_def split: if_splits)
    then have "take ?k (admission_queue d) = admission_queue d" by simp
    moreover have "s \<in> set (admission_queue d)" using q s(1) rs(1) C(3) by (simp add: admission_queue_def queued_def)
    ultimately show False using rs(2) by (metis image_eqI set_map)
  qed
  then show ?thesis using bound act mem by blast
qed

definition sample_queued :: db where
  "sample_queued = sample_db\<lparr>runs := [sample_run\<lparr>run_status := PLANNING\<rparr>]\<rparr>"

theorem admission_fills_capacity_witness:
  "\<exists>n d'. AdmitPendingRuns 2 7 sample_queued = Inr (n, d') \<and> active_runs d' = active_runs sample_queued + n \<and> int (active_runs d') \<le> 2"
proof -
  obtain n d' where ok: "AdmitPendingRuns 2 7 sample_queued = Inr (n, d')"
    by (cases "AdmitPendingRuns 2 7 sample_queued") (auto simp: AdmitPendingRuns_def Let_def split: if_splits)
  have "runs_unique (runs sample_queued)" "int (active_runs sample_queued) \<le> 2" by code_simp+
  then show ?thesis using admission_fills_capacity [OF _ _ _ ok] ok by auto
qed

section \<open>Cancellation\<close>

lemma cancel_events_frame:
  "jobs (fold (cancel_event E rid reason now) as d) = jobs d" "runs (fold (cancel_event E rid reason now) as d) = runs d"
  "tasks (fold (cancel_event E rid reason now) as d) = tasks d"
  "attempts (fold (cancel_event E rid reason now) as d) = attempts d"
  "artifacts (fold (cancel_event E rid reason now) as d) = artifacts d"
  "multiparts (fold (cancel_event E rid reason now) as d) = multiparts d"
  "candidates (fold (cancel_event E rid reason now) as d) = candidates d"
  "cleanup_attempts (fold (cancel_event E rid reason now) as d) = cleanup_attempts d"
  "registrations (fold (cancel_event E rid reason now) as d) = registrations d"
  "reg_attempts (fold (cancel_event E rid reason now) as d) = reg_attempts d"
  "rec_attempts (fold (cancel_event E rid reason now) as d) = rec_attempts d"
  "upload_leases (fold (cancel_event E rid reason now) as d) = upload_leases d"
  "leader (fold (cancel_event E rid reason now) as d) = leader d"
  by (induction as arbitrary: d) (simp_all add: cancel_event_def)

lemma insert_candidate_frame:
  "jobs (snd (insertCanceledObjectCandidateTx E f reason now q d)) = jobs d"
  "runs (snd (insertCanceledObjectCandidateTx E f reason now q d)) = runs d"
  "tasks (snd (insertCanceledObjectCandidateTx E f reason now q d)) = tasks d"
  "attempts (snd (insertCanceledObjectCandidateTx E f reason now q d)) = attempts d"
  "artifacts (snd (insertCanceledObjectCandidateTx E f reason now q d)) = artifacts d"
  "multiparts (snd (insertCanceledObjectCandidateTx E f reason now q d)) = multiparts d"
  "registrations (snd (insertCanceledObjectCandidateTx E f reason now q d)) = registrations d"
  "reg_attempts (snd (insertCanceledObjectCandidateTx E f reason now q d)) = reg_attempts d"
  "rec_attempts (snd (insertCanceledObjectCandidateTx E f reason now q d)) = rec_attempts d"
  "upload_leases (snd (insertCanceledObjectCandidateTx E f reason now q d)) = upload_leases d"
  "leader (snd (insertCanceledObjectCandidateTx E f reason now q d)) = leader d"
  by (simp_all add: insertCanceledObjectCandidateTx_def Let_def)

lemma create_candidates_frame:
  "jobs (createCanceledObjectCandidatesTx E ret rid now d) = jobs d"
  "runs (createCanceledObjectCandidatesTx E ret rid now d) = runs d"
  "tasks (createCanceledObjectCandidatesTx E ret rid now d) = tasks d"
  "attempts (createCanceledObjectCandidatesTx E ret rid now d) = attempts d"
  "artifacts (createCanceledObjectCandidatesTx E ret rid now d) = artifacts d"
  "multiparts (createCanceledObjectCandidatesTx E ret rid now d) = multiparts d"
  "registrations (createCanceledObjectCandidatesTx E ret rid now d) = registrations d"
  "reg_attempts (createCanceledObjectCandidatesTx E ret rid now d) = reg_attempts d"
  "rec_attempts (createCanceledObjectCandidatesTx E ret rid now d) = rec_attempts d"
  "upload_leases (createCanceledObjectCandidatesTx E ret rid now d) = upload_leases d"
  "leader (createCanceledObjectCandidatesTx E ret rid now d) = leader d"
proof -
  have *: "P (fold (\<lambda>f d. snd (insertCanceledObjectCandidateTx E f r now q d)) fs d) = P d"
    if "\<And>f d. P (snd (insertCanceledObjectCandidateTx E f r now q d)) = P d" for P :: "db \<Rightarrow> 'x" and r q fs d
    using that by (induction fs arbitrary: d) auto
  show "jobs (createCanceledObjectCandidatesTx E ret rid now d) = jobs d"
    "runs (createCanceledObjectCandidatesTx E ret rid now d) = runs d"
    "tasks (createCanceledObjectCandidatesTx E ret rid now d) = tasks d"
    "attempts (createCanceledObjectCandidatesTx E ret rid now d) = attempts d"
    "artifacts (createCanceledObjectCandidatesTx E ret rid now d) = artifacts d"
    "multiparts (createCanceledObjectCandidatesTx E ret rid now d) = multiparts d"
    "registrations (createCanceledObjectCandidatesTx E ret rid now d) = registrations d"
    "reg_attempts (createCanceledObjectCandidatesTx E ret rid now d) = reg_attempts d"
    "rec_attempts (createCanceledObjectCandidatesTx E ret rid now d) = rec_attempts d"
    "upload_leases (createCanceledObjectCandidatesTx E ret rid now d) = upload_leases d"
    "leader (createCanceledObjectCandidatesTx E ret rid now d) = leader d"
    unfolding createCanceledObjectCandidatesTx_def by (rule *, rule insert_candidate_frame)+
qed

lemmas cancel_frames = cancel_events_frame create_candidates_frame

abbreviation cancel_reason :: "string \<Rightarrow> string" where
  "cancel_reason reason0 \<equiv> (if trim_space reason0 = [] then ''canceled by client'' else trim_space reason0)"

lemma cancel_cases:
  assumes "CancelRun E ret rid reason0 now d = Inr (out, d')"
  obtains (refused) r where "find_run rid d = Some r" "run_status r \<in> {SUCCEEDED, FAILED, CANCELED, COMMITTING}"
      "out = (False, run_status r, 0)" "d' = d"
  | (canceled) r where "find_run rid d = Some r" "run_status r \<notin> {SUCCEEDED, FAILED, CANCELED, COMMITTING}"
      "out = (True, CANCELED, rows_affected (\<lambda>t. task_run t = rid \<and> task_status t = PENDING) (tasks d))"
      "tasks d' = cancel_tasks now (cancel_reason reason0) rid (tasks d)"
      "attempts d' = cancel_attempts_of_run now (cancel_reason reason0) rid d"
      "runs d' = update_where (\<lambda>r. run_id r = rid)
        (\<lambda>r. r\<lparr>run_status := CANCELED, run_finished := Some now, run_error := Some (cancel_reason reason0)\<rparr>) (runs d)"
      "jobs d' = jobs d" "artifacts d' = artifacts d" "registrations d' = registrations d"
      "\<exists>d2. candidates d2 = candidates d \<and> cleanup_attempts d2 = cleanup_attempts d
         \<and> d' = createCanceledObjectCandidatesTx E ret rid now d2"
      "reg_attempts d' = reg_attempts d" "rec_attempts d' = rec_attempts d" "upload_leases d' = upload_leases d"
      "leader d' = leader d"
proof -
  obtain r where r: "find_run rid d = Some r" using assms by (auto simp: CancelRun_def Let_def)
  show thesis
  proof (cases "run_status r \<in> {SUCCEEDED, FAILED, CANCELED, COMMITTING}")
    case True
    then show thesis using assms r by (intro refused [of r]) (simp_all add: CancelRun_def Let_def)
  next
    case False
    have ok: "Inr (out, d') = CancelRun E ret rid reason0 now d" using assms by simp
    define R where "R = cancel_reason reason0"
    define D where "D = fold (cancel_event E rid R now)
        (filter (\<lambda>a. att_status a = ACTIVE \<and> task_of_run d rid (att_task a)) (attempts d))
        (d\<lparr>attempts := cancel_attempts_of_run now R rid d\<rparr>)"
    note F = cancel_events_frame [of E rid R now _ "d\<lparr>attempts := cancel_attempts_of_run now R rid d\<rparr>"]
    have D: "tasks D = tasks d" "runs D = runs d" "attempts D = cancel_attempts_of_run now R rid d" "jobs D = jobs d"
      "artifacts D = artifacts d" "registrations D = registrations d" "candidates D = candidates d"
      "cleanup_attempts D = cleanup_attempts d" "reg_attempts D = reg_attempts d" "rec_attempts D = rec_attempts d"
      "upload_leases D = upload_leases d" "leader D = leader d"
      by (simp_all add: D_def F)
    have out: "out = (True, CANCELED, rows_affected (\<lambda>t. task_run t = rid \<and> task_status t = PENDING) (tasks d))"
      and d': "d' = createCanceledObjectCandidatesTx E ret rid now (D\<lparr>tasks := cancel_tasks now R rid (tasks D),
        runs := update_where (\<lambda>r. run_id r = rid)
          (\<lambda>r. r\<lparr>run_status := CANCELED, run_finished := Some now, run_error := Some R\<rparr>) (runs D)\<rparr>)"
      using ok [unfolded CancelRun_def Let_def] r False unfolding D_def R_def
      by (simp_all only: of_row_simps rbind_Inr if_False sum.inject prod.inject)
    show thesis
    proof (rule canceled [OF r False out])
      show "\<exists>d2. candidates d2 = candidates d \<and> cleanup_attempts d2 = cleanup_attempts d
         \<and> d' = createCanceledObjectCandidatesTx E ret rid now d2"
        unfolding d' by (rule exI, intro conjI, rule_tac [3] refl) (simp_all add: D)
    qed (simp_all add: d' create_candidates_frame D R_def)
  qed
qed

lemma cancel_tasks_eq:
  "cancel_tasks now reason rid ts = update_where (\<lambda>t. task_run t = rid \<and> task_status t \<in> {PENDING, RUNNING})
     (\<lambda>t. t\<lparr>task_status := CANCELED, task_finished := Some now, task_error := Some reason,
            task_cur := (if task_status t = RUNNING then None else task_cur t)\<rparr>) ts"
  by (auto simp: cancel_tasks_def update_where_def)

lemma cancel_lease_inv:
  assumes inv: "lease_inv d" and ok: "CancelRun E ret rid reason now d = Inr (out, d')"
  shows "lease_inv d'"
  using ok
proof (cases rule: cancel_cases)
  case refused
  then show ?thesis using inv by simp
next
  case (canceled r)
  have agree: "(att_status a = ACTIVE \<and> task_of_run d rid (att_task a)) \<longleftrightarrow> (task_run t = rid \<and> task_status t \<in> {PENDING, RUNNING})"
    if h: "a \<in> set (attempts d)" "t \<in> set (tasks d)" "att_status a = ACTIVE" "task_cur t = Some (att_id a)" for a t
  proof -
    have at: "att_task a = task_id t" by (rule current_attempt(1) [OF inv h(2,4,1) refl])
    have run: "task_status t = RUNNING" using lease_invD(7) [OF inv h(2)] h(4) by (simp add: task_ok_def)
    have "task_of_run d rid (att_task a) \<longleftrightarrow> task_run t = rid"
      using keyed_unique [OF lease_invD(1) [OF inv] _ h(2)] h(2) at by (auto simp: task_of_run_def list_ex_iff)
    then show ?thesis using h(3) run by simp
  qed
  have pend: "task_status t = PENDING \<Longrightarrow> task_cur t = None" if "t \<in> set (tasks d)" for t
    by (rule pending_no_current [OF inv that])
  let ?g = "\<lambda>t. t\<lparr>task_status := CANCELED, task_finished := Some now, task_error := Some (cancel_reason reason), task_cur := None\<rparr>"
  have ts: "tasks d' = update_where (\<lambda>t. task_run t = rid \<and> task_status t \<in> {PENDING, RUNNING}) ?g (tasks d)"
    unfolding canceled(4) cancel_tasks_eq update_where_def
  proof (intro map_cong refl)
    fix t assume "t \<in> set (tasks d)"
    from pend [OF this] show "(if task_run t = rid \<and> task_status t \<in> {PENDING, RUNNING}
        then t\<lparr>task_status := CANCELED, task_finished := Some now, task_error := Some (cancel_reason reason),
          task_cur := if task_status t = RUNNING then None else task_cur t\<rparr> else t)
      = (if task_run t = rid \<and> task_status t \<in> {PENDING, RUNNING} then ?g t else t)"
      by (cases "task_status t = RUNNING") simp_all
  qed
  show ?thesis
    by (rule lease_inv_release [OF inv ts canceled(5) [unfolded cancel_attempts_of_run_def] _ _ _ agree])
      (simp_all add: canceled(6) update_where_key)
qed

lemma cancel_object_inv_run:
  assumes "object_inv d" "CancelRun E ret rid reason now d = Inr (out, d')"
  shows "object_inv d'"
  using assms(2)
proof (cases rule: cancel_cases)
  case refused
  then show ?thesis using assms(1) by simp
next
  case (canceled r)
  obtain d2 where "candidates d2 = candidates d" "cleanup_attempts d2 = cleanup_attempts d"
      "d' = createCanceledObjectCandidatesTx E ret rid now d2"
    using canceled(10) by blast
  then show ?thesis using create_candidates_inv object_inv_cong [OF assms(1), of d2] by simp
qed

text \<open>
  Cancellation is complete and precise: a run that is still PLANNING or RUNNING (or in any other
  state that is not final and not COMMITTING) becomes CANCELED; none of its tasks stays PENDING or RUNNING
  and none of its attempts stays ACTIVE, while tasks and attempts of other runs are untouched. A finished
  run, or one that is being committed, is left exactly as it is.
\<close>

lemma cancel_run_is_complete:
  assumes inv: "lease_inv d" and ok: "CancelRun E ret rid reason now d = Inr ((changed, st, k), d')"
  shows "if changed
    then st = CANCELED \<and> (\<exists>r \<in> set (runs d'). run_id r = rid \<and> run_status r = CANCELED)
      \<and> (\<forall>t \<in> set (tasks d'). task_run t = rid \<longrightarrow> task_status t \<notin> {PENDING, RUNNING})
      \<and> (\<forall>a \<in> set (attempts d'). task_of_run d' rid (att_task a) \<longrightarrow> att_status a \<noteq> ACTIVE)
      \<and> (\<forall>t \<in> set (tasks d). task_run t \<noteq> rid \<longrightarrow> t \<in> set (tasks d'))
      \<and> (\<forall>a \<in> set (attempts d). \<not> task_of_run d rid (att_task a) \<longrightarrow> a \<in> set (attempts d'))
      \<and> (\<forall>r \<in> set (runs d). run_id r \<noteq> rid \<longrightarrow> r \<in> set (runs d'))
    else d' = d \<and> (\<exists>r \<in> set (runs d). run_id r = rid \<and> st = run_status r \<and> st \<in> {SUCCEEDED, FAILED, CANCELED, COMMITTING})"
  using ok
proof (cases rule: cancel_cases)
  case (refused r)
  then show ?thesis using find_run_iff [OF inv, of rid r] by auto
next
  case (canceled r)
  let ?f = "\<lambda>r. r\<lparr>run_status := CANCELED, run_finished := Some now, run_error := Some (cancel_reason reason)\<rparr>"
  have r: "r \<in> set (runs d)" "run_id r = rid" using canceled(1) find_run_iff [OF inv] by auto
  have "?f r \<in> set (runs d')"
    unfolding canceled(6) using r update_where_hitI [of r "runs d" "\<lambda>r. run_id r = rid" ?f] by simp
  then have run: "\<exists>r \<in> set (runs d'). run_id r = rid \<and> run_status r = CANCELED"
    using r(2) by (intro bexI [of _ "?f r"]) simp_all
  have ids: "task_of_run d' rid tid \<longleftrightarrow> task_of_run d rid tid" for tid
    unfolding task_of_run_def canceled(4) cancel_tasks_eq by (rule list_ex_update_where) simp
  have ts: "\<forall>t \<in> set (tasks d'). task_run t = rid \<longrightarrow> task_status t \<notin> {PENDING, RUNNING}"
    unfolding canceled(4) cancel_tasks_eq by (auto elim!: in_update_whereE split: if_splits)
  have as: "\<forall>a \<in> set (attempts d'). task_of_run d' rid (att_task a) \<longrightarrow> att_status a \<noteq> ACTIVE"
    unfolding ids canceled(5) cancel_attempts_of_run_def by (auto elim!: in_update_whereE split: if_splits)
  have keep: "t \<in> set (tasks d) \<Longrightarrow> task_run t \<noteq> rid \<Longrightarrow> t \<in> set (tasks d')"
    "a \<in> set (attempts d) \<Longrightarrow> \<not> task_of_run d rid (att_task a) \<Longrightarrow> a \<in> set (attempts d')"
    "q \<in> set (runs d) \<Longrightarrow> run_id q \<noteq> rid \<Longrightarrow> q \<in> set (runs d')" for t a q
    unfolding canceled(4-6) cancel_tasks_eq cancel_attempts_of_run_def by (rule update_where_keepI, assumption, simp)+
  have "changed" "st = CANCELED" using canceled(3) by auto
  then show ?thesis using run ts as keep by simp
qed

section \<open>Finalization\<close>

lemma rows_affected_all: "rows_affected p xs = length xs \<longleftrightarrow> (\<forall>x \<in> set xs. p x)"
proof (induction xs)
  case (Cons x xs)
  have "length (filter p xs) \<noteq> Suc (length xs)" using length_filter_le [of p xs] by linarith
  then show ?case using Cons by (auto simp: rows_affected_def)
qed (simp add: rows_affected_def)

lemma finalize_cases:
  assumes ok: "TryFinalizeRun rid now d = Inr (out, d')"
  obtains (settled) r where "find_run rid d = Some r" "run_status r \<in> {SUCCEEDED, FAILED, CANCELED, COMMITTING}"
      "out = (False, run_status r)" "d' = d"
  | (failed) r f where "find_run rid d = Some r" "run_status r \<notin> {SUCCEEDED, FAILED, CANCELED, COMMITTING}"
      "\<exists>t \<in> set (tasks d). failed_task rid t" "out = (True, FAILED)"
      "runs d' = update_where (\<lambda>r. run_id r = rid) f (runs d)"
      "\<And>r. run_id (f r) = run_id r \<and> run_dataset (f r) = run_dataset r \<and> run_status (f r) = FAILED
         \<and> run_error (f r) = Some (fst (taskFailureSummary rid
             (rows_affected (\<lambda>t. task_status t \<in> {FAILED, QUARANTINED}) (tasks_of rid d)) (length (tasks_of rid d)) d))"
      "tasks d' = update_where (\<lambda>t. task_run t = rid \<and> task_status t = PENDING)
         (\<lambda>t. t\<lparr>task_status := CANCELED, task_finished := Some now, task_error := Some ''canceled''\<rparr>) (tasks d)"
      "attempts d' = attempts d"
      "candidates d' = candidates d" "cleanup_attempts d' = cleanup_attempts d" "registrations d' = registrations d"
      "artifacts d' = artifacts d" "reg_attempts d' = reg_attempts d"
  | (committing) r where "find_run rid d = Some r" "run_status r \<notin> {SUCCEEDED, FAILED, CANCELED, COMMITTING}"
      "\<forall>t \<in> set (tasks d). task_run t = rid \<longrightarrow> task_status t = SUCCEEDED" "\<exists>t \<in> set (tasks d). task_run t = rid"
      "out = (True, COMMITTING)"
      "d' = d\<lparr>runs := update_where (\<lambda>r. run_id r = rid \<and> run_status r = RUNNING)
         (\<lambda>r. r\<lparr>run_status := COMMITTING, run_finished := None, run_error := None, run_fclass := [],
                run_commit_phase := ''PREPARING'', run_rec_status := CR_PENDING, run_rec_attempts := 0,
                run_rec_next := None, run_operator := False\<rparr>) (runs d)\<rparr>"
  | (waiting) r where "find_run rid d = Some r" "run_status r \<notin> {SUCCEEDED, FAILED, CANCELED, COMMITTING}"
      "\<forall>t \<in> set (tasks d). \<not> failed_task rid t" "\<exists>t \<in> set (tasks d). task_run t = rid \<and> task_status t \<noteq> SUCCEEDED"
      "out = (False, run_status r)" "d' = d"
proof -
  obtain r where r: "find_run rid d = Some r" using ok by (auto simp: TryFinalizeRun_def)
  let ?n = "length (tasks_of rid d)" and ?s = "rows_affected (\<lambda>t. task_status t = SUCCEEDED) (tasks_of rid d)"
  let ?f = "rows_affected (\<lambda>t. task_status t \<in> {FAILED, QUARANTINED}) (tasks_of rid d)"
  have f0: "0 < ?f \<longleftrightarrow> (\<exists>t \<in> set (tasks d). failed_task rid t)"
    unfolding rows_affected_pos by (auto simp: tasks_of_def failed_task_def)
  have s: "?s = ?n \<longleftrightarrow> (\<forall>t \<in> set (tasks d). task_run t = rid \<longrightarrow> task_status t = SUCCEEDED)"
    unfolding rows_affected_all by (auto simp: tasks_of_def)
  have n: "?n = 0 \<longleftrightarrow> (\<forall>t \<in> set (tasks d). task_run t \<noteq> rid)" by (auto simp: tasks_of_def filter_empty_conv)
  have ok': "(if run_status r \<in> {SUCCEEDED, FAILED, CANCELED, COMMITTING} then Inr ((False, run_status r), d)
     else if ?n = 0 then Inl (ErrMsg ''run has no tasks'')
          else if ?f > 0 then
            (case taskFailureSummary rid ?f ?n d of (summary, cls) \<Rightarrow>
             Inr ((True, FAILED),
               d\<lparr>runs := update_where (\<lambda>r. run_id r = rid)
                    (\<lambda>r. r\<lparr>run_status := FAILED, run_finished := Some now, run_error := Some summary,
                           run_fclass := cls, run_fphase := ''extract''\<rparr>) (runs d),
                 tasks := update_where (\<lambda>t. task_run t = rid \<and> task_status t = PENDING)
                    (\<lambda>t. t\<lparr>task_status := CANCELED, task_finished := Some now, task_error := Some ''canceled''\<rparr>) (tasks d)\<rparr>))
          else if ?s = ?n then
            Inr ((True, COMMITTING),
               d\<lparr>runs := update_where (\<lambda>r. run_id r = rid \<and> run_status r = RUNNING)
                    (\<lambda>r. r\<lparr>run_status := COMMITTING, run_finished := None, run_error := None, run_fclass := [],
                           run_commit_phase := ''PREPARING'', run_rec_status := CR_PENDING, run_rec_attempts := 0,
                           run_rec_next := None, run_operator := False\<rparr>) (runs d)\<rparr>)
          else Inr ((False, run_status r), d)) = Inr (out, d')"
    using ok [unfolded TryFinalizeRun_def Let_def] r by (simp only: of_row_simps rbind_Inr)
  show thesis
  proof (cases "run_status r \<in> {SUCCEEDED, FAILED, CANCELED, COMMITTING}")
    case True
    then show thesis using ok' by (intro settled [OF r]) simp_all
  next
    case F: False
    then have nz: "?n \<noteq> 0" using ok' by (cases "?n = 0") simp_all
    show thesis
    proof (cases "0 < ?f")
      case True
      obtain sm c where sm: "taskFailureSummary rid ?f ?n d = (sm, c)" by (cases "taskFailureSummary rid ?f ?n d")
      let ?g = "\<lambda>r. r\<lparr>run_status := FAILED, run_finished := Some now, run_error := Some sm,
                           run_fclass := c, run_fphase := ''extract''\<rparr>"
      have d': "out = (True, FAILED)" "d' = d\<lparr>runs := update_where (\<lambda>r. run_id r = rid) ?g (runs d),
                 tasks := update_where (\<lambda>t. task_run t = rid \<and> task_status t = PENDING)
                    (\<lambda>t. t\<lparr>task_status := CANCELED, task_finished := Some now, task_error := Some ''canceled''\<rparr>) (tasks d)\<rparr>"
        using ok' F nz True sm by auto
      show thesis
        by (rule failed [OF r F, where f = ?g]) (use d' True sm f0 in simp_all)
    next
      case no: False
      show thesis
      proof (cases "?s = ?n")
        case True
        show thesis by (rule committing [OF r F]) (use ok' F nz no True s n in simp_all)
      next
        case False
        have "out = (False, run_status r)" "d' = d" using ok' F nz no False by auto
        then show thesis by (intro waiting [OF r F]) (use no False s f0 in simp_all)
      qed
    qed
  qed
qed

lemma finalize_lease_inv:
  assumes inv: "lease_inv d" and ok: "TryFinalizeRun rid now d = Inr (out, d')"
  shows "lease_inv d'"
  using ok
proof (cases rule: finalize_cases)
  case (failed r f)
  have agree: "False \<longleftrightarrow> (task_run t = rid \<and> task_status t = PENDING)"
    if h: "a \<in> set (attempts d)" "t \<in> set (tasks d)" "att_status a = ACTIVE" "task_cur t = Some (att_id a)" for a t
    using pending_no_current [OF inv h(2)] h(4) by auto
  let ?g = "\<lambda>t. t\<lparr>task_status := CANCELED, task_finished := Some now, task_error := Some ''canceled'', task_cur := None\<rparr>"
  have ts: "tasks d' = update_where (\<lambda>t. task_run t = rid \<and> task_status t = PENDING) ?g (tasks d)"
    unfolding failed(7) update_where_def
  proof (intro map_cong refl)
    fix t assume "t \<in> set (tasks d)"
    from pending_no_current [OF inv this]
    show "(if task_run t = rid \<and> task_status t = PENDING
        then t\<lparr>task_status := CANCELED, task_finished := Some now, task_error := Some ''canceled''\<rparr> else t)
      = (if task_run t = rid \<and> task_status t = PENDING then ?g t else t)" by simp
  qed
  have as: "attempts d' = update_where (\<lambda>_. False) (\<lambda>a. a\<lparr>att_status := CANCELED\<rparr>) (attempts d)"
    using failed(8) by (simp add: update_where_none)
  show ?thesis
    by (rule lease_inv_release [OF inv ts as _ _ _ agree]) (simp_all add: failed(5) update_where_key failed(6))
next
  case (committing r)
  show ?thesis
    by (rule lease_inv_cong [OF inv, of d' id id]) (simp_all add: committing(6) update_where_key)
qed (use inv in simp_all)

text \<open>
  The tasks decide the outcome of a run: a run that is still open becomes FAILED when one of its tasks
  failed or was quarantined, is handed to publication (COMMITTING) when it is RUNNING and all of its tasks
  succeeded, and is left alone otherwise; a settled run is never touched. A run is never marked SUCCEEDED
  here, and its published state never changes.
\<close>

lemma finalize_follows_tasks:
  assumes inv: "lease_inv d" and r: "r \<in> set (runs d)" "run_id r = rid"
    and ok: "TryFinalizeRun rid now d = Inr ((changed, st), d')"
  shows "(if run_status r \<in> {SUCCEEDED, FAILED, CANCELED, COMMITTING} then \<not> changed \<and> d' = d
          else if \<exists>t \<in> set (tasks d). failed_task rid t then changed \<and> st = FAILED
            \<and> (\<exists>q \<in> set (runs d'). run_id q = rid \<and> run_status q = FAILED)
            \<and> (\<forall>t \<in> set (tasks d'). task_run t = rid \<longrightarrow> task_status t \<noteq> PENDING)
          else if \<forall>t \<in> set (tasks d). task_run t = rid \<longrightarrow> task_status t = SUCCEEDED then changed \<and> st = COMMITTING
            \<and> (run_status r = RUNNING \<longrightarrow> (\<exists>q \<in> set (runs d'). run_id q = rid \<and> run_status q = COMMITTING
                 \<and> run_commit_phase q = ''PREPARING'' \<and> run_commit_id q = run_commit_id r))
          else \<not> changed \<and> d' = d)
      \<and> (\<forall>q \<in> set (runs d'). run_status q = SUCCEEDED \<longrightarrow> q \<in> set (runs d))"
proof -
  have fr: "find_run rid d = Some r" using find_run_iff [OF inv] r by simp
  show ?thesis using ok
  proof (cases rule: finalize_cases)
    case (failed q f)
    have "f r \<in> set (runs d')" unfolding failed(5) using r update_where_hitI [of r "runs d" "\<lambda>r. run_id r = rid" f] by simp
    then have "\<exists>q \<in> set (runs d'). run_id q = rid \<and> run_status q = FAILED"
      using failed(6) r(2) by (intro bexI [of _ "f r"]) auto
    moreover have "\<forall>t \<in> set (tasks d'). task_run t = rid \<longrightarrow> task_status t \<noteq> PENDING"
      unfolding failed(7) by (auto elim!: in_update_whereE split: if_splits)
    moreover have "\<forall>q \<in> set (runs d'). run_status q = SUCCEEDED \<longrightarrow> q \<in> set (runs d)"
      unfolding failed(5) using failed(6) by (auto elim!: in_update_whereE split: if_splits)
    ultimately show ?thesis using failed(1-4) fr by auto
  next
    case (committing q)
    let ?f = "\<lambda>r. r\<lparr>run_status := COMMITTING, run_finished := None, run_error := None, run_fclass := [],
                run_commit_phase := ''PREPARING'', run_rec_status := CR_PENDING, run_rec_attempts := 0,
                run_rec_next := None, run_operator := False\<rparr>"
    have rs: "runs d' = update_where (\<lambda>r. run_id r = rid \<and> run_status r = RUNNING) ?f (runs d)"
      using committing(6) by simp
    have nf: "\<not> (\<exists>t \<in> set (tasks d). failed_task rid t)" using committing(3) by (auto simp: failed_task_def)
    have "?f r \<in> set (runs d')" if "run_status r = RUNNING"
      unfolding rs using r that update_where_hitI [of r "runs d" "\<lambda>r. run_id r = rid \<and> run_status r = RUNNING" ?f] by simp
    then have "run_status r = RUNNING \<longrightarrow> (\<exists>q \<in> set (runs d'). run_id q = rid \<and> run_status q = COMMITTING
                 \<and> run_commit_phase q = ''PREPARING'' \<and> run_commit_id q = run_commit_id r)"
      using r(2) by (intro impI bexI [of _ "?f r"]) simp_all
    moreover have "\<forall>q \<in> set (runs d'). run_status q = SUCCEEDED \<longrightarrow> q \<in> set (runs d)"
      unfolding rs by (auto elim!: in_update_whereE split: if_splits)
    moreover have "q = r" using committing(1) fr by simp
    ultimately show ?thesis using committing(2,3,5) nf by simp
  qed (use fr in auto)
qed

definition sample_all_done :: db where
  "sample_all_done = sample_db\<lparr>tasks := map (\<lambda>t. t\<lparr>task_status := SUCCEEDED\<rparr>) (tasks sample_db)\<rparr>"

end
