(* ===== verification/Timestamps.thy ===== *)
theory Timestamps
  imports Prelude
begin

text \<open>
  The timestamp text of the store (\<open>internal/db/store.go\<close>, \<open>TimestampLayout\<close>, \<open>FormatTimestamp\<close>): UTC, with a
  fixed-width date, time and nine-digit fraction, over Go's proleptic Gregorian calendar. The
  development compares instants as integers; the theorem of this theory is what justifies it, since
  the SQL of the store compares the texts.
\<close>

section \<open>Calendar\<close>

definition is_leap :: "int \<Rightarrow> bool" where
  "is_leap y \<longleftrightarrow> y mod 4 = 0 \<and> (y mod 100 \<noteq> 0 \<or> y mod 400 = 0)"

text \<open>Days from 1970-01-01 to the first of January of a year.\<close>

definition year_start :: "int \<Rightarrow> int" where
  "year_start y = 365 * (y - 1) + (y - 1) div 4 - (y - 1) div 100 + (y - 1) div 400 - 719162"

definition year_of :: "int \<Rightarrow> int" where
  "year_of day =
    (let y = (day + 719162) * 400 div 146097 + 1
     in if day < year_start y then y - 1 else if year_start (y + 1) \<le> day then y + 1 else y)"

definition month_starts :: "bool \<Rightarrow> int list" where
  "month_starts leap = (if leap then [0, 31, 60, 91, 121, 152, 182, 213, 244, 274, 305, 335]
                        else [0, 31, 59, 90, 120, 151, 181, 212, 243, 273, 304, 334])"

definition month_day :: "bool \<Rightarrow> int \<Rightarrow> int \<times> int" where
  "month_day leap doy =
    (let starts = filter (\<lambda>s. s \<le> doy) (month_starts leap)
     in (int (length starts), doy - last starts + 1))"

definition civil :: "int \<Rightarrow> int \<times> int \<times> int" where
  "civil day = (let y = year_of day in (y, month_day (is_leap y) (day - year_start y)))"

section \<open>The layout\<close>

fun pad :: "nat \<Rightarrow> int \<Rightarrow> string" where
  "pad 0 n = ''''"
| "pad (Suc w) n = pad w (n div 10) @ [digit_char (nat (n mod 10))]"

text \<open>A year with more than four digits is written in full.\<close>

definition year_text :: "int \<Rightarrow> string" where
  "year_text y = (if y < 0 then ''-'' else '''') @ (if \<bar>y\<bar> < 10000 then pad 4 \<bar>y\<bar> else show_nat (nat \<bar>y\<bar>))"

definition FormatTimestamp :: "time \<Rightarrow> string" where
  "FormatTimestamp t =
    (let sec = t div second; sod = sec mod 86400
     in case civil (sec div 86400) of (y, m, dd) \<Rightarrow>
       year_text y @ ''-'' @ pad 2 m @ ''-'' @ pad 2 dd @ ''T''
       @ pad 2 (sod div 3600) @ '':'' @ pad 2 (sod div 60 mod 60) @ '':'' @ pad 2 (sod mod 60)
       @ ''.'' @ pad 9 (t mod second) @ ''Z'')"

section \<open>The calendar is monotone\<close>

lemma div_step:
  assumes "0 < (k::int)"
  shows "y div k = (y - 1) div k + of_bool (y mod k = 0)"
proof (cases "y mod k = 0")
  case True
  then have "y - 1 = (k - 1) + (y div k - 1) * k" by (simp add: algebra_simps) (metis add.right_neutral div_mult_mod_eq mult.commute)
  then have "(y - 1) div k = y div k - 1"
    using assms by (intro int_div_pos_eq [where r = "k - 1"]) (simp_all add: algebra_simps)
  then show ?thesis using True by simp
next
  case False
  then have "0 < y mod k" using assms by (simp add: order_less_le)
  then have "(y - 1) div k = y div k"
    using assms pos_mod_bound [OF assms, of y]
    by (intro int_div_pos_eq [where r = "y mod k - 1"]) (simp_all add: algebra_simps)
  then show ?thesis using False by simp
qed

lemma year_start_step: "year_start (y + 1) - year_start y = (if is_leap y then 366 else 365)"
proof -
  have "y mod 400 = 0 \<Longrightarrow> y mod 100 = 0" "y mod 100 = 0 \<Longrightarrow> y mod 4 = 0"
    using dvd_trans [of "100::int" 400 y] dvd_trans [of "4::int" 100 y] by (simp_all add: dvd_eq_mod_eq_0)
  moreover have "year_start (y + 1) - year_start y
      = 365 + of_bool (y mod 4 = 0) - of_bool (y mod 100 = 0) + of_bool (y mod 400 = 0)"
  proof -
    define f g where "f k = y div k" and "g k = (y - 1) div k" for k
    have "f 4 = g 4 + of_bool (y mod 4 = 0)" "f 100 = g 100 + of_bool (y mod 100 = 0)"
      "f 400 = g 400 + of_bool (y mod 400 = 0)"
      unfolding f_def g_def by (rule div_step, simp)+
    moreover have "year_start (y + 1) = 365 * y + f 4 - f 100 + f 400 - 719162"
      "year_start y = 365 * (y - 1) + g 4 - g 100 + g 400 - 719162"
      by (simp_all only: year_start_def f_def g_def add_diff_cancel_right')
    ultimately show ?thesis by simp
  qed
  ultimately show ?thesis unfolding is_leap_def by (cases "y mod 4 = 0"; cases "y mod 100 = 0"; cases "y mod 400 = 0"; simp only: of_bool_eq if_True if_False simp_thms; simp)
qed

lemma year_start_mono: "y < z \<Longrightarrow> year_start y + 365 * (z - y) \<le> year_start z"
proof (induction "nat (z - y)" arbitrary: z)
  case (Suc n)
  have s: "year_start z \<ge> year_start (z - 1) + 365"
    using year_start_step [of "z - 1"] by (simp split: if_splits)
  show ?case
  proof (cases "y < z - 1")
    case True
    then have "year_start y + 365 * (z - 1 - y) \<le> year_start (z - 1)" using Suc(1) [of "z - 1"] Suc(2) by linarith
    then show ?thesis using s by (simp add: algebra_simps)
  next
    case False
    then have "z = y + 1" using Suc(3) by simp
    then show ?thesis using s by simp
  qed
qed simp

lemma year_start_bounds:
  "146097 * (y - 1) \<le> 400 * (year_start y + 719162) + 800"
  "400 * (year_start y + 719162) \<le> 146097 * (y - 1) + 400"
proof -
  define x where "x = y - 1"
  obtain a r where a: "x = 4 * a + r" "x div 4 = a" "0 \<le> r" "r < 4"
    using mult_div_mod_eq [of 4 x] by (metis pos_mod_bound pos_mod_sign zero_less_numeral)
  obtain b s where b: "x = 100 * b + s" "x div 100 = b" "0 \<le> s" "s < 100"
    using mult_div_mod_eq [of 100 x] by (metis pos_mod_bound pos_mod_sign zero_less_numeral)
  obtain c t where c: "x = 400 * c + t" "x div 400 = c" "0 \<le> t" "t < 400"
    using mult_div_mod_eq [of 400 x] by (metis pos_mod_bound pos_mod_sign zero_less_numeral)
  have e: "year_start y + 719162 = 365 * x + a - b + c"
    unfolding year_start_def x_def [symmetric] using a b c by linarith
  have "400 * a = 100 * x - 100 * r" "400 * b = 4 * x - 4 * s" "400 * c = x - t" using a(1) b(1) c(1) by simp_all
  then have f: "400 * (365 * x + a - b + c) = 146097 * x - 100 * r + 4 * s - t" by (simp add: algebra_simps)
  show "146097 * (y - 1) \<le> 400 * (year_start y + 719162) + 800"
    unfolding e f x_def [symmetric] using a(3,4) b(3,4) c(3,4) by linarith
  show "400 * (year_start y + 719162) \<le> 146097 * (y - 1) + 400"
    unfolding e f x_def [symmetric] using a(3,4) b(3,4) c(3,4) by linarith
qed

lemma year_of_bounds: "year_start (year_of day) \<le> day" "day < year_start (year_of day + 1)"
proof -
  define y where "y = (day + 719162) * 400 div 146097 + 1"
  have e: "146097 * (y - 1) \<le> (day + 719162) * 400" "(day + 719162) * 400 < 146097 * y"
    unfolding y_def by simp_all
  have "year_start (y - 1) \<le> day" "day < year_start (y + 2)"
    using e year_start_bounds [of "y - 1"] year_start_bounds [of "y + 2"] by (simp_all add: algebra_simps)
  then show "year_start (year_of day) \<le> day" "day < year_start (year_of day + 1)"
    unfolding year_of_def Let_def y_def [symmetric] by (auto simp: algebra_simps)
qed

lemma doy_bounds: "0 \<le> day - year_start (year_of day)" "day - year_start (year_of day) < 366"
  using year_of_bounds [of day] year_start_step [of "year_of day"] by (auto split: if_splits)

text \<open>The month table is checked on every day of the year.\<close>

lemma month_day_table:
  "list_all (\<lambda>leap. list_all (\<lambda>i. month_day leap i < month_day leap (i + 1)) [0..364]
     \<and> list_all (\<lambda>i. 0 \<le> fst (month_day leap i) \<and> fst (month_day leap i) < 100
         \<and> 0 \<le> snd (month_day leap i) \<and> snd (month_day leap i) < 100) [0..365]) [True, False]"
  by code_simp

lemma month_day_mono:
  assumes "0 \<le> i" "i < j" "j < 366"
  shows "month_day leap i < month_day leap j"
  using assms
proof (induction "nat (j - i)" arbitrary: j)
  case (Suc n)
  have step: "month_day leap (j - 1) < month_day leap j"
    using month_day_table Suc.prems by (cases leap) (auto simp: list_all_iff dest!: bspec [of _ _ "j - 1"])
  show ?case
  proof (cases "i = j - 1")
    case True
    then show ?thesis using step by simp
  next
    case False
    then have "month_day leap i < month_day leap (j - 1)" using Suc by (intro Suc.hyps(1)) auto
    then show ?thesis using step by (rule less_trans)
  qed
qed simp

lemma civil_mono:
  assumes "a < b" shows "civil a < civil b"
proof (cases "year_of a = year_of b")
  case True
  then show ?thesis using assms doy_bounds [of a] doy_bounds [of b]
    by (simp add: civil_def Let_def month_day_mono)
next
  case False
  have "year_of a < year_of b"
  proof (rule ccontr)
    assume "\<not> year_of a < year_of b"
    then have le: "year_of b + 1 \<le> year_of a" using False by simp
    then have "year_start (year_of b + 1) \<le> year_start (year_of a)"
      using year_start_mono [of "year_of b + 1" "year_of a"] by (cases "year_of b + 1 = year_of a") auto
    then show False using year_of_bounds [of a] year_of_bounds [of b] assms by simp
  qed
  then show ?thesis by (simp add: civil_def Let_def)
qed

section \<open>Fixed-width texts compare like the numbers\<close>

lemma length_pad [simp]: "length (pad w n) = w"
  by (induction w arbitrary: n) auto

lemma less_append_iff:
  assumes "length a = length (b::string)"
  shows "a @ u < b @ v \<longleftrightarrow> a < b \<or> a = b \<and> u < v"
  using assms
proof (induction a arbitrary: b)
  case (Cons x a)
  then obtain y c where "b = y # c" "length a = length c" by (cases b) auto
  then show ?case using Cons.IH [of c] by auto
qed simp

lemma digit_char_less: "m < 10 \<Longrightarrow> n < 10 \<Longrightarrow> digit_char m < digit_char n \<longleftrightarrow> m < n"
  and digit_char_inj: "m < 10 \<Longrightarrow> n < 10 \<Longrightarrow> digit_char m = digit_char n \<longleftrightarrow> m = n"
proof -
  have "\<forall>m \<in> {0..<10}. \<forall>n \<in> {0..<10}. (digit_char m < digit_char n \<longleftrightarrow> m < n) \<and> (digit_char m = digit_char n \<longleftrightarrow> m = n)"
    by code_simp
  then show "m < 10 \<Longrightarrow> n < 10 \<Longrightarrow> digit_char m < digit_char n \<longleftrightarrow> m < n"
    "m < 10 \<Longrightarrow> n < 10 \<Longrightarrow> digit_char m = digit_char n \<longleftrightarrow> m = n" by simp_all
qed

lemma pad_order:
  assumes "m \<in> {0..<10 ^ w}" "n \<in> {0..<10 ^ w}"
  shows "(pad w m < pad w n \<longleftrightarrow> m < n) \<and> (pad w m = pad w n \<longleftrightarrow> m = n)"
  using assms
proof (induction w arbitrary: m n)
  case (Suc w)
  have lt: "m div 10 \<in> {0..<10 ^ w}" "n div 10 \<in> {0..<10 ^ w}" using Suc.prems by auto
  have d: "m = 10 * (m div 10) + m mod 10" "n = 10 * (n div 10) + n mod 10" by simp_all
  have b: "0 \<le> m mod 10" "0 \<le> n mod 10" "nat (m mod 10) < 10" "nat (n mod 10) < 10" by simp_all
  have "m < n \<longleftrightarrow> m div 10 < n div 10 \<or> m div 10 = n div 10 \<and> m mod 10 < n mod 10"
    using d b by linarith
  moreover have "m = n \<longleftrightarrow> m div 10 = n div 10 \<and> m mod 10 = n mod 10" using d by metis
  moreover have "digit_char (nat (m mod 10)) < digit_char (nat (n mod 10)) \<longleftrightarrow> m mod 10 < n mod 10"
    "digit_char (nat (m mod 10)) = digit_char (nat (n mod 10)) \<longleftrightarrow> m mod 10 = n mod 10"
    using b(1,2) by (auto simp: digit_char_less [OF b(3,4)] digit_char_inj [OF b(3,4)])
  ultimately show ?case using Suc.IH [OF lt] by (simp add: less_append_iff)
qed simp

section \<open>String order is chronological\<close>

lemma year_text_pad: "0 \<le> y \<Longrightarrow> y < 10000 \<Longrightarrow> year_text y = pad 4 y"
  by (simp add: year_text_def)

definition stamp :: "time \<Rightarrow> (int \<times> int \<times> int) \<times> int \<times> int \<times> int \<times> int" where
  "stamp t = (let sec = t div second; sod = sec mod 86400
     in (civil (sec div 86400), sod div 3600, sod div 60 mod 60, sod mod 60, t mod second))"

definition stamp_text :: "(int \<times> int \<times> int) \<times> int \<times> int \<times> int \<times> int \<Rightarrow> string" where
  "stamp_text = (\<lambda>((y, m, dd), h, mi, s, ns). pad 4 y @ ''-'' @ pad 2 m @ ''-'' @ pad 2 dd @ ''T''
       @ pad 2 h @ '':'' @ pad 2 mi @ '':'' @ pad 2 s @ ''.'' @ pad 9 ns @ ''Z'')"

definition stamp_ok :: "(int \<times> int \<times> int) \<times> int \<times> int \<times> int \<times> int \<Rightarrow> bool" where
  "stamp_ok = (\<lambda>((y, m, dd), h, mi, s, ns). y \<in> {0..<10000} \<and> m \<in> {0..<100} \<and> dd \<in> {0..<100} \<and> h \<in> {0..<100}
     \<and> mi \<in> {0..<100} \<and> s \<in> {0..<100} \<and> ns \<in> {0..<second})"

lemmas pad_orders = pad_order [where w = 2, simplified] pad_order [where w = 4, simplified]
  pad_order [where w = 9, simplified]

lemma stamp_text_order:
  assumes "stamp_ok a" "stamp_ok b"
  shows "stamp_text a < stamp_text b \<longleftrightarrow> a < b"
  using assms unfolding stamp_text_def stamp_ok_def
  by (cases a; cases b) (auto simp: less_append_iff pad_orders)

text \<open>The years the store writes.\<close>

definition four_digit_year :: "time \<Rightarrow> bool" where
  "four_digit_year t \<longleftrightarrow> 0 \<le> fst (civil (t div second div 86400)) \<and> fst (civil (t div second div 86400)) < 10000"

lemma div_mod_less:
  assumes "x < (y::int)" "0 < k"
  shows "x div k < y div k \<or> x div k = y div k \<and> x mod k < y mod k"
proof (cases "x div k = y div k")
  case True
  then show ?thesis using assms mult_div_mod_eq [of k x] mult_div_mod_eq [of k y] by (metis add_less_cancel_left)
next
  case False
  then show ?thesis using zdiv_mono1 [of x y k] assms by simp
qed

lemma clock_less:
  assumes "x < (y::int)"
  shows "(x div 3600, x div 60 mod 60, x mod 60) < (y div 3600, y div 60 mod 60, y mod 60)"
proof -
  have h: "x div 3600 = x div 60 div 60" "y div 3600 = y div 60 div 60" by (simp_all add: zdiv_zmult2_eq [symmetric])
  show ?thesis
  proof (cases "x div 60 = y div 60")
    case True
    then show ?thesis using h div_mod_less [OF assms, of 60] by simp
  next
    case False
    then show ?thesis
      unfolding h using div_mod_less [OF assms, of 60] div_mod_less [of "x div 60" "y div 60" 60]
      by (simp del: div_mult2_eq) auto
  qed
qed

lemma stamp_mono:
  assumes "t < u" shows "stamp t < stamp u"
proof -
  define s r where "s = t div second" and "r = u div second"
  have le: "s \<le> r" unfolding s_def r_def using assms by (simp add: zdiv_mono1)
  have tu: "t = second * s + t mod second" "u = second * r + u mod second" unfolding s_def r_def by simp_all
  have sr: "s = 86400 * (s div 86400) + s mod 86400" "r = 86400 * (r div 86400) + r mod 86400" by simp_all
  show ?thesis
  proof (cases "s div 86400 = r div 86400")
    case False
    then have "s div 86400 < r div 86400" using zdiv_mono1 [OF le, of 86400] by simp
    then show ?thesis using civil_mono by (simp add: stamp_def s_def [symmetric] r_def [symmetric] Let_def)
  next
    case same: True
    show ?thesis
    proof (cases "s = r")
      case True
      then show ?thesis using assms tu by (simp add: stamp_def s_def [symmetric] r_def [symmetric] Let_def)
    next
      case False
      then have "s mod 86400 < r mod 86400" using le sr same by linarith
      then have "(s mod 86400 div 3600, s mod 86400 div 60 mod 60, s mod 86400 mod 60)
          < (r mod 86400 div 3600, r mod 86400 div 60 mod 60, r mod 86400 mod 60)"
        by (rule clock_less)
      then show ?thesis using same
        by (auto simp: stamp_def s_def [symmetric] r_def [symmetric] Let_def)
    qed
  qed
qed

lemma format_is_stamp:
  assumes "four_digit_year t"
  shows "FormatTimestamp t = stamp_text (stamp t)" "stamp_ok (stamp t)"
proof -
  define day where "day = t div second div 86400"
  obtain m dd where c: "civil day = (year_of day, m, dd)" "month_day (is_leap (year_of day)) (day - year_start (year_of day)) = (m, dd)"
    by (cases "month_day (is_leap (year_of day)) (day - year_start (year_of day))") (simp add: civil_def)
  have y: "0 \<le> year_of day" "year_of day < 10000" using assms c by (auto simp: four_digit_year_def day_def [symmetric])
  have "m \<in> {0..<100} \<and> dd \<in> {0..<100}"
    using month_day_table doy_bounds [of day] c(2)
    by (cases "is_leap (year_of day)") (auto simp: list_all_iff dest!: bspec [of _ _ "day - year_start (year_of day)"])
  moreover have "0 \<le> s mod 86400 div 3600" "s mod 86400 div 3600 < 100" for s :: int
    using pos_mod_bound [of 86400 s] by (simp_all add: pos_imp_zdiv_nonneg_iff)
  moreover have "i mod 60 < 100" for i :: int using pos_mod_bound [of 60 i] by linarith
  ultimately show "stamp_ok (stamp t)"
    using y by (simp add: stamp_ok_def stamp_def Let_def day_def [symmetric] c(1))
  show "FormatTimestamp t = stamp_text (stamp t)"
    by (simp add: FormatTimestamp_def stamp_text_def stamp_def Let_def day_def [symmetric] c(1) year_text_pad [OF y])
qed

text \<open>
  The texts the store writes order like the instants they denote: for years 0000 to 9999, comparing
  two formatted timestamps as strings (SQL's \<open><\<close> on the text columns) is comparing the instants, and
  equal texts denote equal instants.
\<close>

lemma timestamp_order_is_chronological:
  assumes "four_digit_year t" "four_digit_year u"
  shows "(FormatTimestamp t < FormatTimestamp u \<longleftrightarrow> t < u)
    \<and> (FormatTimestamp t = FormatTimestamp u \<longleftrightarrow> t = u)"
proof -
  have lt: "FormatTimestamp a < FormatTimestamp b \<longleftrightarrow> stamp a < stamp b" if "four_digit_year a" "four_digit_year b" for a b
    using format_is_stamp [OF that(1)] format_is_stamp [OF that(2)] stamp_text_order by simp
  have "FormatTimestamp t < FormatTimestamp u \<longleftrightarrow> t < u" "FormatTimestamp u < FormatTimestamp t \<longleftrightarrow> u < t"
    using lt assms stamp_mono by (metis less_asym linorder_neqE order_less_irrefl)+
  then show ?thesis by (metis less_irrefl linorder_neqE)
qed

end
