(* ===== verification/Registrations.thy ===== *)
theory Registrations
  imports Runs Timestamps
begin

text \<open>
  Catalog registrations (\<open>internal/db/registrations.go\<close>) and the reconciliation of ambiguous ones
  (\<open>internal/db/reconciliation.go\<close>). A registration is created in the transaction that completes a
  commit; registrations of one dataset and catalog target carry consecutive sequence numbers and are
  worked off in that order, each by leased attempts whose phase records how far the external catalog
  commit got. This theory holds the operations; \<open>RegistrationOrder\<close> proves their properties.
\<close>

section \<open>Sealed documents\<close>

text \<open>\<open>encryptStoredJSON\<close> and \<open>decryptStoredJSON\<close> of \<open>store.go\<close>, for a \<open>TEXT\<close> column.\<close>

definition encryptedRegistrationConfigPrefix :: string where
  "encryptedRegistrationConfigPrefix = ''enc:v1:''"

definition encryptStoredJSON :: "env \<Rightarrow> string \<Rightarrow> string \<Rightarrow> string res" where
  "encryptStoredJSON E aad plaintext =
    (if plaintext = '''' then Inr ''''
     else if key_zero E then Inl (ErrMsg ''master key required'')
     else rbind (of_row (ErrMsg ''encrypt value'') (seal E aad plaintext)) (\<lambda>blob.
       Inr (encryptedRegistrationConfigPrefix @ blob)))"

definition decryptStoredJSON :: "env \<Rightarrow> string \<Rightarrow> string \<Rightarrow> string res" where
  "decryptStoredJSON E aad stored =
    (if trim_space stored = '''' then Inr ''''
     else if \<not> has_prefix stored encryptedRegistrationConfigPrefix then
       Inl (ErrMsg ''value is stored unencrypted; run the legacy secret migration'')
     else if key_zero E then Inl (ErrMsg ''master key required'')
     else of_row (ErrMsg ''decrypt value'') (unseal E aad (drop (length encryptedRegistrationConfigPrefix) stored)))"

definition encryptRunRegistrationConfig :: "env \<Rightarrow> string \<Rightarrow> string \<Rightarrow> string res" where
  "encryptRunRegistrationConfig E rid plaintext = encryptStoredJSON E (''run-registration-config:'' @ rid) plaintext"

definition decryptRunRegistrationConfig :: "env \<Rightarrow> string \<Rightarrow> string \<Rightarrow> string res" where
  "decryptRunRegistrationConfig E rid stored = decryptStoredJSON E (''run-registration-config:'' @ rid) stored"

definition registrationRetryOverrideAAD :: "string \<Rightarrow> string" where
  "registrationRetryOverrideAAD gid = ''registration-retry-override:'' @ gid"

definition encryptRegistrationRetryOverride :: "env \<Rightarrow> string \<Rightarrow> string \<Rightarrow> string res" where
  "encryptRegistrationRetryOverride E gid plaintext = encryptStoredJSON E (registrationRetryOverrideAAD gid) plaintext"

text \<open>A scanned registration carries the opened override instead of the stored text.\<close>

definition scanRegistration :: "env \<Rightarrow> registration \<Rightarrow> registration res" where
  "scanRegistration E r =
    (if trim_space (reg_override r) = '''' then Inr (r\<lparr>reg_override := ''''\<rparr>)
     else rbind (decryptStoredJSON E (registrationRetryOverrideAAD (reg_id r)) (reg_override r)) (\<lambda>p.
       Inr (r\<lparr>reg_override := p\<rparr>)))"

section \<open>Identities and events\<close>

record reg_policy =
  rp_lease :: duration
  rp_max :: int
  rp_base :: duration
  rp_bmax :: duration

definition stableRegistrationID :: "env \<Rightarrow> string list \<Rightarrow> string" where
  "stableRegistrationID E parts = ''reg-'' @ take 32 (sha256 E (join [NUL] parts))"

definition find_registration :: "string \<Rightarrow> db \<Rightarrow> registration option" where
  "find_registration gid d = select_one (\<lambda>r. reg_id r = gid) (registrations d)"

text \<open>\<open>fmt.Sprint(extra[k])\<close>: an absent key reads as \<open>nil\<close>.\<close>

fun sprint :: "jval option \<Rightarrow> string" where
  "sprint None = ''<nil>''"
| "sprint (Some JNull) = ''<nil>''"
| "sprint (Some (JStr s)) = s"
| "sprint (Some (JInt i)) = show_int i"
| "sprint (Some (JBool b)) = (if b then ''true'' else ''false'')"

definition next_json :: "time option \<Rightarrow> jval" where
  "next_json n = (case n of None \<Rightarrow> JNull | Some t \<Rightarrow> JStr (FormatTimestamp t))"

definition event_attempt_number :: "string \<Rightarrow> db \<Rightarrow> int" where
  "event_attempt_number aid d =
    (case select_one (\<lambda>a. rat_id a = aid) (reg_attempts d) of
       Some a \<Rightarrow> rat_number a
     | None \<Rightarrow> (case select_one (\<lambda>a. rec_id a = aid) (rec_attempts d) of Some a \<Rightarrow> rec_number a | None \<Rightarrow> 0))"

definition insertRegistrationEventTx ::
  "env \<Rightarrow> string \<Rightarrow> string \<Rightarrow> string \<Rightarrow> string \<Rightarrow> string \<Rightarrow> time \<Rightarrow> (string \<times> jval) list \<Rightarrow> db \<Rightarrow> db res" where
  "insertRegistrationEventTx E eventType gid aid level msg now extra d =
    rbind (of_row ErrNoRows (find_registration gid d)) (\<lambda>r.
     Inr (add_event
       \<lparr>ev_id = ''registration-event-'' @ stableRegistrationID E
           [eventType, gid, aid, sprint (map_of extra ''classification''), sprint (map_of extra ''next_retry_at'')],
        ev_run = reg_run r, ev_task = None, ev_ts = now, ev_level = level, ev_msg = msg,
        ev_fields = [(''event_type'', JStr eventType), (''registration_id'', JStr gid), (''dataset_id'', JStr (reg_dataset r)),
            (''commit_id'', JStr (reg_commit r)), (''backend'', JStr (reg_backend r)), (''table_identifier'', JStr (reg_table r))]
          @ (if aid = '''' then [] else [(''attempt_id'', JStr aid), (''attempt_number'', JInt (event_attempt_number aid d))])
          @ extra\<rparr> d))"

section \<open>Creation\<close>

text \<open>The uniqueness constraints and the \<open>CHECK\<close>s of \<open>iceberg_registrations\<close>.\<close>

definition same_line :: "registration \<Rightarrow> registration \<Rightarrow> bool" where
  "same_line r s \<longleftrightarrow> reg_dataset r = reg_dataset s \<and> reg_target r = reg_target s"

definition registration_conflict :: "registration \<Rightarrow> registration \<Rightarrow> bool" where
  "registration_conflict r s \<longleftrightarrow> reg_id r = reg_id s \<or> (reg_run r = reg_run s \<and> reg_target r = reg_target s)
     \<or> (same_line r s \<and> reg_seq r = reg_seq s)"

definition registration_check :: "registration \<Rightarrow> bool" where
  "registration_check r \<longleftrightarrow> reg_seq r > 0 \<and> length (reg_commit r) = 64 \<and> list_ex (\<lambda>c. c \<noteq> CHR '' '') (reg_manifest_key r)
     \<and> length (reg_digest r) = 64"

definition max_seq :: "registration list \<Rightarrow> int" where
  "max_seq rs = fold (\<lambda>r. max (reg_seq r)) rs 0"

text \<open>\<open>cfg.Table[:strings.LastIndex(cfg.Table, ".")]\<close> when the index is positive.\<close>

definition table_namespace :: "string \<Rightarrow> string" where
  "table_namespace t =
    (let front = rev (dropWhile (\<lambda>c. c \<noteq> CHR ''.'') (rev t)) in if front = '''' then '''' else butlast front)"

definition target_key :: "env \<Rightarrow> regcfg \<Rightarrow> string" where
  "target_key E c = sha256 E (cfg_engine c @ [NUL] @ cfg_uri c @ [NUL] @ cfg_table c)"

definition normalize_regcfg :: "regcfg \<Rightarrow> regcfg" where
  "normalize_regcfg c =
    (let e = to_lower (trim_space (cfg_engine c))
     in c\<lparr>cfg_engine := (if e = '''' then ''rest-go'' else e), cfg_table := trim_space (cfg_table c),
          cfg_uri := trim_space (cfg_uri c)\<rparr>)"

definition new_registration ::
  "env \<Rightarrow> string \<Rightarrow> string \<Rightarrow> string \<Rightarrow> regcfg \<Rightarrow> string \<Rightarrow> manifest \<Rightarrow> time \<Rightarrow> db \<Rightarrow> registration" where
  "new_registration E rid ds cid c key m now d =
     \<lparr>reg_id = stableRegistrationID E [rid, target_key E c], reg_run = rid, reg_dataset = ds,
      reg_seq = max_seq (filter (\<lambda>r. reg_dataset r = ds \<and> reg_target r = target_key E c) (registrations d)) + 1,
      reg_target = target_key E c, reg_commit = cid, reg_manifest_key = key,
      reg_digest = sha256 E (concat (map (\<lambda>a. a @ [NUL]) (mf_artifacts m))), reg_backend = cfg_engine c,
      reg_namespace = table_namespace (cfg_table c), reg_table = cfg_table c, reg_status = R_PENDING,
      reg_tries = 0, reg_cur = None, reg_next = None, reg_eclass = '''', reg_emsg = None, reg_receipt = '''',
      reg_updated = now, reg_registered = None, reg_override = '''', reg_budget = 0, reg_rec_status = REC_None,
      reg_rec_attempts = 0, reg_rec_cur = None, reg_rec_outcome = '''', reg_rec_eclass = '''', reg_rec_next = None,
      reg_obs_snapshot = '''', reg_obs_metadata = '''', reg_matched = 0, reg_expected = 0, reg_rec_evidence = '''',
      reg_ambiguity = 0\<rparr>"

definition ensureRegistrationTx ::
  "env \<Rightarrow> string \<Rightarrow> string \<Rightarrow> string \<Rightarrow> string \<Rightarrow> string \<Rightarrow> time \<Rightarrow> db \<Rightarrow> db res" where
  "ensureRegistrationTx E rid ds cid config intent now d =
    (if trim_space config = '''' then Inr d
     else case parse_regcfg E config of
       None \<Rightarrow> Inr d
     | Some c0 \<Rightarrow>
       if \<not> cfg_enabled c0 then Inr d
       else let c = normalize_regcfg c0 in
       (case parse_intent E intent of
          None \<Rightarrow> Inl (ErrMsg ''registration requires durable commit intent'')
        | Some (key, mjson) \<Rightarrow>
          if trim_space key = '''' then Inl (ErrMsg ''registration requires durable commit intent'')
          else (case parse_manifest E mjson of
            None \<Rightarrow> Inl (ErrMsg ''registration requires exact schema-v2 verified manifest'')
          | Some m \<Rightarrow>
            if mf_schema m \<noteq> 2 \<or> mf_run m \<noteq> rid
            then Inl (ErrMsg ''registration requires exact schema-v2 verified manifest'')
            else if sha256 E mjson \<noteq> cid then Inl (ErrMsg ''registration commit id does not authenticate manifest'')
            else let r = new_registration E rid ds cid c key m now d in
              if list_ex (registration_conflict r) (registrations d) \<or> \<not> registration_check r then Inr d
              else Inr (add_event
                \<lparr>ev_id = ''registration-queued-'' @ reg_id r, ev_run = rid, ev_task = None, ev_ts = now, ev_level = ''INFO'',
                 ev_msg = ''iceberg registration queued'',
                 ev_fields = [(''event_type'', JStr ''REGISTRATION_QUEUED''), (''registration_id'', JStr (reg_id r)),
                   (''commit_id'', JStr cid), (''manifest_key'', JStr key)]\<rparr>
                (d\<lparr>registrations := registrations d @ [r]\<rparr>)))))"

definition GetRegistrationForRun :: "env \<Rightarrow> string \<Rightarrow> db \<Rightarrow> registration res" where
  "GetRegistrationForRun E rid d =
    rbind (of_row ErrNoRows (select_first_by reg_id (\<lambda>r. reg_run r = rid) (registrations d))) (scanRegistration E)"

section \<open>Attempts\<close>

definition reg_attempt_conflict :: "reg_attempt \<Rightarrow> reg_attempt \<Rightarrow> bool" where
  "reg_attempt_conflict a b \<longleftrightarrow> rat_id a = rat_id b \<or> (rat_reg a = rat_reg b \<and> rat_number a = rat_number b)
     \<or> rat_token a = rat_token b \<or> (rat_reg a = rat_reg b \<and> rat_status a = RA_ACTIVE \<and> rat_status b = RA_ACTIVE)"

text \<open>\<open>idx_iceberg_registration_one_active_dataset\<close>.\<close>

definition registering_unique :: "registration list \<Rightarrow> bool" where
  "registering_unique rs =
     pairwise (\<lambda>r s. same_line r s \<and> reg_status r = R_REGISTERING \<and> reg_status s = R_REGISTERING) rs"

definition RequeueRegistrationManual :: "env \<Rightarrow> string \<Rightarrow> string \<Rightarrow> time \<Rightarrow> db \<Rightarrow> ((registration \<times> bool) \<times> db) res" where
  "RequeueRegistrationManual E rid override now d =
    rbind (of_row ErrNoRows (find_run rid d)) (\<lambda>run.
     if run_status run \<noteq> SUCCEEDED \<or> run_commit_phase run \<noteq> ''COMPLETE''
     then Inl (ErrMsg ''registration retry requires a succeeded run with a complete commit'')
     else rbind (GetRegistrationForRun E rid d) (\<lambda>g.
      rbind (encryptRegistrationRetryOverride E (reg_id g) override) (\<lambda>stored.
       if reg_status g \<in> {R_PENDING, R_RETRY_REQUIRED} then
         Inr ((g\<lparr>reg_override := override\<rparr>, True),
           d\<lparr>registrations := update_where
              (\<lambda>r. reg_id r = reg_id g \<and> reg_status r \<in> {R_PENDING, R_RETRY_REQUIRED} \<and> reg_cur r = None)
              (\<lambda>r. r\<lparr>reg_override := stored, reg_updated := now\<rparr>) (registrations d)\<rparr>)
       else if reg_status g \<in> {R_FAILED, R_CANCELED} then
        (let w = (\<lambda>r. reg_id r = reg_id g \<and> reg_status r \<in> {R_FAILED, R_CANCELED})
         in if rows_affected w (registrations d) \<noteq> 1 then Inl (ErrMsg ''registration retry was concurrently changed'')
            else rbind (insertRegistrationEventTx E ''REGISTRATION_MANUAL_RETRY_QUEUED'' (reg_id g) '''' ''INFO''
                ''manual registration retry queued'' now []
                (d\<lparr>registrations := update_where w
                   (\<lambda>r. r\<lparr>reg_status := R_PENDING, reg_cur := None, reg_next := None, reg_eclass := '''', reg_emsg := None,
                          reg_override := stored, reg_budget := reg_budget r + 1, reg_updated := now\<rparr>)
                   (registrations d)\<rparr>)) (\<lambda>d1.
              Inr ((g\<lparr>reg_status := R_PENDING, reg_cur := None, reg_next := None, reg_eclass := '''', reg_emsg := None,
                      reg_override := override\<rparr>, True), d1)))
       else Inl (ErrMsg ''registration retry is not allowed in this status''))))"

text \<open>
  The queue: a registration may be claimed once every earlier registration of its dataset and target
  is REGISTERED.
\<close>

definition earlier_open :: "registration list \<Rightarrow> registration \<Rightarrow> registration list" where
  "earlier_open rs r = filter (\<lambda>p. same_line p r \<and> reg_seq p < reg_seq r \<and> reg_status p \<noteq> R_REGISTERED) rs"

definition reg_claimable :: "registration list \<Rightarrow> time \<Rightarrow> registration \<Rightarrow> bool" where
  "reg_claimable rs now r \<longleftrightarrow> reg_status r \<in> {R_PENDING, R_RETRY_REQUIRED}
     \<and> (case reg_next r of None \<Rightarrow> True | Some n \<Rightarrow> n \<le> now) \<and> earlier_open rs r = []"

definition blocked_pairs :: "registration list \<Rightarrow> (string \<times> string) list" where
  "blocked_pairs rs = concat (map (\<lambda>r.
     if reg_status r \<in> {R_PENDING, R_RETRY_REQUIRED} \<and> earlier_open rs r \<noteq> []
     then map (\<lambda>p. (reg_id r, reg_id p))
       (filter (\<lambda>p. same_line p r \<and> reg_seq p = Min (set (map reg_seq (earlier_open rs r)))) rs)
     else []) rs)"

definition record_blocked :: "env \<Rightarrow> time \<Rightarrow> string \<times> string \<Rightarrow> db \<Rightarrow> db res" where
  "record_blocked E now = (\<lambda>(gid, blocker).
     insertRegistrationEventTx E ''REGISTRATION_BLOCKED'' gid '''' ''WARN'' ''registration blocked by earlier unresolved work'' now
       [(''blocking_registration_id'', JStr blocker)])"

definition ClaimRegistration ::
  "env \<Rightarrow> time \<Rightarrow> reg_policy \<Rightarrow> string res \<Rightarrow> db \<Rightarrow> ((registration \<times> reg_attempt) option \<times> db) res" where
  "ClaimRegistration E now p0 tokenFn d =
    (let lease = (if rp_lease p0 \<le> 0 then 30 * second else rp_lease p0);
         mx = (if rp_max p0 \<le> 0 then 3 else rp_max p0)
     in case select_first_by (\<lambda>r. (reg_seq r, reg_id r)) (reg_claimable (registrations d) now) (registrations d) of
       None \<Rightarrow> rbind (foldM (record_blocked E now) (blocked_pairs (registrations d)) d) (\<lambda>d1. Inr (None, d1))
     | Some row \<Rightarrow>
       rbind (scanRegistration E row) (\<lambda>r.
        if reg_tries row \<ge> mx + reg_budget row then
          Inr (None, d\<lparr>registrations := update_where (\<lambda>s. reg_id s = reg_id r)
            (\<lambda>s. s\<lparr>reg_status := R_FAILED, reg_eclass := ''RETRY_LIMIT_EXHAUSTED'', reg_updated := now\<rparr>) (registrations d)\<rparr>)
        else rbind tokenFn (\<lambda>token.
          let num = reg_tries row + 1;
              aid = stableRegistrationID E [reg_id r, show_int num, token];
              w = (\<lambda>s. reg_id s = reg_id r \<and> reg_status s \<in> {R_PENDING, R_RETRY_REQUIRED} \<and> reg_cur s = None)
          in rbind (update_unique registering_unique w
               (\<lambda>s. s\<lparr>reg_status := R_REGISTERING, reg_tries := num, reg_cur := Some aid, reg_next := None,
                      reg_updated := now\<rparr>) (registrations d)) (\<lambda>rs.
            if rows_affected w (registrations d) \<noteq> 1 then Inr (None, d\<lparr>registrations := rs\<rparr>)
            else let a = \<lparr>rat_id = aid, rat_reg = reg_id r, rat_number = num, rat_status = RA_ACTIVE, rat_token = token,
                          rat_deadline = now + lease, rat_renewed = now, rat_phase = PREPARED, rat_finished = None,
                          rat_fclass = '''', rat_fmsg = None, rat_next = None, rat_receipt = '''', rat_updated = now,
                          rat_epoch = active_epoch d\<rparr>
              in rbind (insert_row reg_attempt_conflict a (reg_attempts d)) (\<lambda>ats.
               rbind (insertRegistrationEventTx E ''REGISTRATION_ATTEMPT_ASSIGNED'' (reg_id r) aid ''INFO''
                   ''registration attempt assigned'' now [(''lease_deadline'', JStr (FormatTimestamp (now + lease)))]
                   (d\<lparr>registrations := rs, reg_attempts := ats\<rparr>)) (\<lambda>d1.
                 Inr (Some (r\<lparr>reg_status := R_REGISTERING, reg_tries := num, reg_cur := Some aid\<rparr>, a), d1)))))))"

definition owns_registration :: "string \<Rightarrow> string \<Rightarrow> string \<Rightarrow> reg_attempt \<Rightarrow> bool" where
  "owns_registration gid aid token a \<longleftrightarrow> rat_id a = aid \<and> rat_reg a = gid \<and> rat_token a = token \<and> rat_status a = RA_ACTIVE"

definition AdvanceRegistrationPhase ::
  "string \<Rightarrow> string \<Rightarrow> string \<Rightarrow> reg_phase \<Rightarrow> reg_phase \<Rightarrow> time \<Rightarrow> db \<Rightarrow> (unit \<times> db) res" where
  "AdvanceRegistrationPhase gid aid token from to now d =
    (let w = (\<lambda>a. owns_registration gid aid token a \<and> rat_phase a = from
            \<and> list_ex (\<lambda>r. reg_id r = gid \<and> reg_cur r = Some aid \<and> reg_status r = R_REGISTERING) (registrations d))
     in if rows_affected w (reg_attempts d) \<noteq> 1 then Inl ErrRegistrationFenced
        else Inr ((), d\<lparr>reg_attempts := update_where w (\<lambda>a. a\<lparr>rat_phase := to, rat_updated := now\<rparr>) (reg_attempts d)\<rparr>))"

text \<open>
  The two ways to record a receipt of the catalog: after the external commit, or, for a registration
  that needs no external commit, directly from \<open>PREPARED\<close> and only over an empty receipt.
\<close>

definition persist_receipt ::
  "env \<Rightarrow> reg_phase \<Rightarrow> (registration \<Rightarrow> bool) \<Rightarrow> string \<Rightarrow> string \<Rightarrow> string \<Rightarrow> string \<Rightarrow> string \<Rightarrow> string \<Rightarrow> time \<Rightarrow> db
    \<Rightarrow> (unit \<times> db) res" where
  "persist_receipt E from extra eventType msg gid aid token receipt now d =
    (let w = (\<lambda>a. owns_registration gid aid token a \<and> rat_phase a = from);
         v = (\<lambda>r. reg_id r = gid \<and> reg_cur r = Some aid \<and> reg_status r = R_REGISTERING \<and> extra r)
     in if rows_affected w (reg_attempts d) \<noteq> 1 then Inl ErrRegistrationFenced
        else if rows_affected v (registrations d) \<noteq> 1 then Inl ErrRegistrationFenced
        else rbind (insertRegistrationEventTx E eventType gid aid ''INFO'' msg now [(''catalog_receipt'', JStr receipt)]
          (d\<lparr>reg_attempts := update_where w
               (\<lambda>a. a\<lparr>rat_phase := CATALOG_COMMITTED, rat_receipt := receipt, rat_updated := now\<rparr>) (reg_attempts d),
             registrations := update_where v (\<lambda>r. r\<lparr>reg_receipt := receipt, reg_updated := now\<rparr>) (registrations d)\<rparr>))
          (\<lambda>d1. Inr ((), d1)))"

definition PersistCatalogReceipt ::
  "env \<Rightarrow> string \<Rightarrow> string \<Rightarrow> string \<Rightarrow> string \<Rightarrow> time \<Rightarrow> db \<Rightarrow> (unit \<times> db) res" where
  "PersistCatalogReceipt E = persist_receipt E EXTERNAL_COMMIT_STARTED (\<lambda>r. True) ''REGISTRATION_CATALOG_COMMITTED''
     ''registration catalog commit recorded''"

text \<open>The proof inside a no-op receipt, as its JSON decoder returns it.\<close>

record noop_proof =
  np_no_op :: bool
  np_reason :: string
  np_digest :: string

definition is_hex_char :: "char \<Rightarrow> bool" where
  "is_hex_char c \<longleftrightarrow> c \<in> set ''0123456789abcdefABCDEF''"

definition PersistCatalogNoOpReceipt ::
  "env \<Rightarrow> (string \<Rightarrow> noop_proof option) \<Rightarrow> string \<Rightarrow> string \<Rightarrow> string \<Rightarrow> string \<Rightarrow> time \<Rightarrow> db \<Rightarrow> (unit \<times> db) res" where
  "PersistCatalogNoOpReceipt E parse_proof gid aid token receipt now d =
    (case parse_proof receipt of
       None \<Rightarrow> Inl (ErrMsg ''invalid catalog no-op receipt'')
     | Some p \<Rightarrow>
       if \<not> np_no_op p \<or> trim_space (np_reason p) = '''' \<or> length (np_digest p) \<noteq> 64
       then Inl (ErrMsg ''invalid catalog no-op receipt'')
       else if \<not> list_all is_hex_char (np_digest p) then Inl (ErrMsg ''invalid catalog no-op evidence digest'')
       else persist_receipt E PREPARED (\<lambda>r. reg_receipt r = '''') ''REGISTRATION_NOOP_VERIFIED''
         ''registration no-op verified'' gid aid token receipt now d)"

definition CompleteRegistration :: "env \<Rightarrow> string \<Rightarrow> string \<Rightarrow> string \<Rightarrow> time \<Rightarrow> db \<Rightarrow> (unit \<times> db) res" where
  "CompleteRegistration E gid aid token now d =
    (let w = (\<lambda>a. owns_registration gid aid token a \<and> rat_phase a = ICE_STATE_WRITING);
         v = (\<lambda>r. reg_id r = gid \<and> reg_cur r = Some aid \<and> reg_status r = R_REGISTERING)
     in if rows_affected w (reg_attempts d) \<noteq> 1 then Inl ErrRegistrationFenced
        else if rows_affected v (registrations d) \<noteq> 1 then Inl ErrRegistrationFenced
        else rbind (insertRegistrationEventTx E ''REGISTRATION_COMPLETED'' gid aid ''INFO'' ''iceberg registration SUCCEEDED'' now []
          (d\<lparr>reg_attempts := update_where w (\<lambda>a. a\<lparr>rat_status := RA_SUCCEEDED, rat_phase := VERIFIED,
               rat_finished := Some now, rat_updated := now\<rparr>) (reg_attempts d),
             registrations := update_where v (\<lambda>r. r\<lparr>reg_status := R_REGISTERED, reg_cur := None,
               reg_registered := Some now, reg_updated := now, reg_eclass := '''', reg_emsg := None\<rparr>) (registrations d)\<rparr>))
          (\<lambda>d1. Inr ((), d1)))"

section \<open>Failure, renewal and expiry\<close>

definition base_backoff :: "reg_policy \<Rightarrow> duration" where
  "base_backoff p = (if rp_base p \<le> 0 then second else rp_base p)"

text \<open>\<open>for i := 1; i < n; i++ { b *= 2; if max > 0 && b >= max { b = max; break } }\<close>\<close>

fun reg_doubling :: "nat \<Rightarrow> duration \<Rightarrow> duration \<Rightarrow> duration" where
  "reg_doubling 0 b mx = b"
| "reg_doubling (Suc n) b mx =
     (let b' = wrap64 (b * 2) in if mx > 0 \<and> b' \<ge> mx then mx else reg_doubling n b' mx)"

definition reg_backoff :: "reg_policy \<Rightarrow> int \<Rightarrow> duration" where
  "reg_backoff p n = reg_doubling (nat (n - 1)) (base_backoff p) (rp_bmax p)"

text \<open>What a failure or an expiry makes of a registration and of its attempt.\<close>

record reg_outcome =
  go_status :: reg_status
  go_attempt :: rat_status
  go_class :: string
  go_next :: "time option"

definition fail_outcome :: "reg_phase \<Rightarrow> int \<Rightarrow> string \<Rightarrow> bool \<Rightarrow> bool \<Rightarrow> time \<Rightarrow> reg_policy \<Rightarrow> reg_outcome" where
  "fail_outcome phase n cls retryable definite now p =
    (let failed = \<lparr>go_status = R_FAILED, go_attempt = RA_FAILED, go_class = cls, go_next = None\<rparr> in
     if phase = CATALOG_COMMITTED then
       (if n < rp_max p then \<lparr>go_status = R_RETRY_REQUIRED, go_attempt = RA_RETRY_REQUIRED,
            go_class = ''ICE_STATE_VERIFY_FAILED'', go_next = Some (now + base_backoff p)\<rparr>
        else failed\<lparr>go_class := ''RETRY_LIMIT_EXHAUSTED''\<rparr>)
     else if phase \<noteq> PREPARED \<and> \<not> definite then
       \<lparr>go_status = R_RECONCILING, go_attempt = RA_RECONCILING, go_class = ''EXTERNAL_COMMIT_AMBIGUOUS'', go_next = None\<rparr>
     else if retryable \<and> n < rp_max p then
       \<lparr>go_status = R_RETRY_REQUIRED, go_attempt = RA_RETRY_REQUIRED, go_class = cls, go_next = Some (now + reg_backoff p n)\<rparr>
     else if retryable then failed\<lparr>go_class := ''RETRY_LIMIT_EXHAUSTED''\<rparr>
     else failed)"

definition fail_event :: "reg_outcome \<Rightarrow> string \<times> string \<times> string" where
  "fail_event o1 =
    (let e0 = (''REGISTRATION_DEFINITELY_REJECTED'', ''registration definitely rejected'', ''ERROR'');
         e1 = (if go_status o1 = R_RETRY_REQUIRED
               then (''REGISTRATION_RETRY_SCHEDULED'', ''registration retry scheduled'', ''WARN'') else e0);
         e2 = (if go_status o1 = R_RECONCILING
               then (''REGISTRATION_RECONCILIATION_REQUIRED'', ''registration requires reconciliation'', snd (snd e1)) else e1);
         e3 = (if go_class o1 = ''ICE_STATE_VERIFY_FAILED''
               then (''REGISTRATION_ICE_STATE_REPAIR_REQUIRED'', ''registration ice state repair required'', snd (snd e2)) else e2)
     in if go_class o1 = ''RETRY_LIMIT_EXHAUSTED''
        then (''REGISTRATION_RETRY_EXHAUSTED'', ''registration retry exhausted'', snd (snd e3)) else e3)"

definition settle_registration :: "reg_outcome \<Rightarrow> string \<Rightarrow> time \<Rightarrow> registration \<Rightarrow> registration" where
  "settle_registration o1 msg now r = r\<lparr>reg_status := go_status o1, reg_cur := None, reg_next := go_next o1,
     reg_eclass := go_class o1, reg_emsg := Some msg,
     reg_rec_status := (if go_status o1 = R_RECONCILING then REC_PENDING else reg_rec_status r), reg_updated := now\<rparr>"

definition FailRegistrationAttempt ::
  "env \<Rightarrow> string \<Rightarrow> string \<Rightarrow> string \<Rightarrow> string \<Rightarrow> string \<Rightarrow> bool \<Rightarrow> bool \<Rightarrow> time \<Rightarrow> reg_policy \<Rightarrow> db \<Rightarrow> (unit \<times> db) res" where
  "FailRegistrationAttempt E gid aid token cls msg retryable definite now p d =
    rbind (of_row ErrRegistrationFenced (select_one (owns_registration gid aid token) (reg_attempts d))) (\<lambda>a.
     let o1 = fail_outcome (rat_phase a) (rat_number a) cls retryable definite now p;
         w = (\<lambda>r. reg_id r = gid \<and> reg_cur r = Some aid)
     in if rows_affected w (registrations d) \<noteq> 1 then Inl ErrRegistrationFenced
        else case fail_event o1 of (eventType, emsg, level) \<Rightarrow>
         rbind (insertRegistrationEventTx E eventType gid aid level emsg now
             [(''classification'', JStr (go_class o1)), (''next_retry_at'', next_json (go_next o1))]
             (d\<lparr>reg_attempts := update_where (\<lambda>b. rat_id b = aid)
                  (\<lambda>b. b\<lparr>rat_status := go_attempt o1, rat_finished := Some now, rat_fclass := go_class o1,
                         rat_fmsg := Some msg, rat_next := go_next o1, rat_updated := now\<rparr>) (reg_attempts d),
                registrations := update_where w (settle_registration o1 msg now) (registrations d)\<rparr>))
          (\<lambda>d1. Inr ((), d1)))"

definition RenewRegistrationLease ::
  "string \<Rightarrow> string \<Rightarrow> string \<Rightarrow> time \<Rightarrow> duration \<Rightarrow> db \<Rightarrow> (unit \<times> db) res" where
  "RenewRegistrationLease gid aid token now lease d =
    (let w = (\<lambda>a. owns_registration gid aid token a \<and> rat_deadline a > now)
     in if rows_affected w (reg_attempts d) \<noteq> 1 then Inl ErrRegistrationFenced
        else Inr ((), d\<lparr>reg_attempts := update_where w
          (\<lambda>a. a\<lparr>rat_deadline := now + lease, rat_renewed := now, rat_updated := now\<rparr>) (reg_attempts d)\<rparr>))"

definition expire_outcome :: "reg_phase \<Rightarrow> int \<Rightarrow> time \<Rightarrow> reg_policy \<Rightarrow> reg_outcome" where
  "expire_outcome phase n now p =
    (if phase = CATALOG_COMMITTED \<or> phase = ICE_STATE_WRITING then
       \<lparr>go_status = R_RETRY_REQUIRED, go_attempt = RA_EXPIRED, go_class = ''ICE_STATE_VERIFY_FAILED'',
        go_next = Some (now + base_backoff p)\<rparr>
     else if phase \<noteq> PREPARED then
       \<lparr>go_status = R_RECONCILING, go_attempt = RA_RECONCILING, go_class = ''EXTERNAL_COMMIT_AMBIGUOUS'', go_next = None\<rparr>
     else if n \<ge> rp_max p then
       \<lparr>go_status = R_FAILED, go_attempt = RA_EXPIRED, go_class = ''RETRY_LIMIT_EXHAUSTED'', go_next = None\<rparr>
     else \<lparr>go_status = R_RETRY_REQUIRED, go_attempt = RA_EXPIRED, go_class = ''LEASE_EXPIRED_BEFORE_EXTERNAL_COMMIT'',
        go_next = Some (now + reg_backoff p n)\<rparr>)"

text \<open>One overdue attempt, with the \<open>attempt_count\<close> the query read for its registration.\<close>

definition expire_registration_item :: "env \<Rightarrow> time \<Rightarrow> reg_policy \<Rightarrow> reg_attempt \<times> int \<Rightarrow> nat \<times> db \<Rightarrow> (nat \<times> db) res" where
  "expire_registration_item E now p = (\<lambda>(a, n) (count, d).
     let o1 = expire_outcome (rat_phase a) n now p
     in rbind (insertRegistrationEventTx E
           (if go_status o1 = R_RECONCILING then ''REGISTRATION_RECONCILIATION_REQUIRED'' else ''REGISTRATION_ATTEMPT_EXPIRED'')
           (rat_reg a) (rat_id a) ''WARN'' ''registration attempt lease expired'' now
           [(''classification'', JStr (go_class o1)), (''next_retry_at'', next_json (go_next o1))]
           (d\<lparr>reg_attempts := update_where (\<lambda>b. rat_id b = rat_id a \<and> rat_status b = RA_ACTIVE)
                (\<lambda>b. b\<lparr>rat_status := go_attempt o1, rat_finished := Some now, rat_fclass := go_class o1, rat_updated := now\<rparr>)
                (reg_attempts d),
              registrations := update_where (\<lambda>r. reg_id r = rat_reg a \<and> reg_cur r = Some (rat_id a))
                (settle_registration o1 ''registration lease expired'' now) (registrations d)\<rparr>))
        (\<lambda>d1. Inr (Suc count, d1)))"

definition overdue_registrations :: "time \<Rightarrow> db \<Rightarrow> (reg_attempt \<times> int) list" where
  "overdue_registrations now d = concat (map (\<lambda>a.
     if rat_status a = RA_ACTIVE \<and> rat_deadline a \<le> now
     then map (\<lambda>r. (a, reg_tries r)) (filter (\<lambda>r. reg_id r = rat_reg a \<and> reg_cur r = Some (rat_id a)) (registrations d))
     else []) (reg_attempts d))"

definition ExpireRegistrationAttempts :: "env \<Rightarrow> time \<Rightarrow> reg_policy \<Rightarrow> db \<Rightarrow> (nat \<times> db) res" where
  "ExpireRegistrationAttempts E now p d = foldM (expire_registration_item E now p) (overdue_registrations now d) (0, d)"

text \<open>The user-visible readiness of a run's data; \<open>None\<close> is the empty catalog status of a run without registration.\<close>

fun RegistrationReadiness :: "status \<Rightarrow> reg_status option \<Rightarrow> string" where
  "RegistrationReadiness FAILED c = ''FAILED''"
| "RegistrationReadiness CANCELED c = ''CANCELED''"
| "RegistrationReadiness COMMITTING c = ''COMMIT_RECONCILING''"
| "RegistrationReadiness SUCCEEDED c = (case c of
     None \<Rightarrow> ''DATA_COMMITTED''
   | Some R_PENDING \<Rightarrow> ''CATALOG_PENDING''
   | Some R_REGISTERING \<Rightarrow> ''CATALOG_REGISTERING''
   | Some R_RETRY_REQUIRED \<Rightarrow> ''CATALOG_RETRYING''
   | Some R_RECONCILING \<Rightarrow> ''CATALOG_RECONCILING''
   | Some R_REGISTERED \<Rightarrow> ''READY''
   | Some R_FAILED \<Rightarrow> ''CATALOG_FAILED''
   | Some R_QUARANTINED \<Rightarrow> ''CATALOG_FAILED''
   | Some R_CANCELED \<Rightarrow> ''CATALOG_FAILED''
   | Some R_BLOCKED \<Rightarrow> ''CATALOG_BLOCKED'')"
| "RegistrationReadiness _ c = ''IN_PROGRESS''"

section \<open>Cancellation and history\<close>

record cancel_result =
  cr_status :: reg_status
  cr_changed :: bool
  cr_attempt :: string

definition canceled_registration :: "time \<Rightarrow> registration \<Rightarrow> registration" where
  "canceled_registration now r = r\<lparr>reg_status := R_CANCELED, reg_next := None, reg_eclass := ''REGISTRATION_CANCELED'',
     reg_emsg := Some ''canceled by operator'', reg_updated := now\<rparr>"

text \<open>The branch of a registration that is being worked on: how far its attempt got decides.\<close>

definition cancel_registering :: "env \<Rightarrow> string \<Rightarrow> string \<Rightarrow> time \<Rightarrow> db \<Rightarrow> (cancel_result \<times> db) res" where
  "cancel_registering E gid aid now d =
    rbind (of_row ErrRegistrationFenced (select_one (\<lambda>a. rat_id a = aid \<and> rat_status a = RA_ACTIVE) (reg_attempts d))) (\<lambda>a.
     if rat_phase a = EXTERNAL_COMMIT_STARTED then
       rbind (insertRegistrationEventTx E ''REGISTRATION_RECONCILIATION_REQUIRED'' gid aid ''WARN''
           ''registration cancellation requires reconciliation'' now [(''classification'', JStr ''EXTERNAL_COMMIT_AMBIGUOUS'')]
           (d\<lparr>reg_attempts := update_where (\<lambda>b. rat_id b = aid)
                (\<lambda>b. b\<lparr>rat_status := RA_RECONCILING, rat_fclass := ''EXTERNAL_COMMIT_AMBIGUOUS'', rat_finished := Some now,
                       rat_updated := now\<rparr>) (reg_attempts d),
              registrations := update_where (\<lambda>r. reg_id r = gid)
                (\<lambda>r. r\<lparr>reg_status := R_RECONCILING, reg_cur := None, reg_eclass := ''EXTERNAL_COMMIT_AMBIGUOUS'',
                       reg_emsg := Some ''cancellation requested after external commit boundary'',
                       reg_rec_status := REC_PENDING, reg_updated := now\<rparr>) (registrations d)\<rparr>))
         (\<lambda>d1. Inr (\<lparr>cr_status = R_RECONCILING, cr_changed = False, cr_attempt = ''''\<rparr>, d1))
     else if rat_phase a \<noteq> PREPARED then Inl ErrRegistrationCancelTooLate
     else let w = (\<lambda>b. rat_id b = aid \<and> rat_status b = RA_ACTIVE) in
       if rows_affected w (reg_attempts d) \<noteq> 1 then Inl ErrRegistrationFenced
       else rbind (insertRegistrationEventTx E ''REGISTRATION_CANCELED'' gid aid ''INFO'' ''registration canceled'' now
           [(''classification'', JStr ''REGISTRATION_CANCELED'')]
           (d\<lparr>reg_attempts := update_where w
                (\<lambda>b. b\<lparr>rat_status := RA_CANCELED, rat_fclass := ''REGISTRATION_CANCELED'',
                       rat_fmsg := Some ''canceled by operator'', rat_finished := Some now, rat_updated := now\<rparr>) (reg_attempts d),
              registrations := update_where (\<lambda>r. reg_id r = gid \<and> reg_cur r = Some aid)
                (\<lambda>r. (canceled_registration now r)\<lparr>reg_cur := None\<rparr>) (registrations d)\<rparr>))
         (\<lambda>d1. Inr (\<lparr>cr_status = R_CANCELED, cr_changed = True, cr_attempt = aid\<rparr>, d1)))"

definition CancelRegistration :: "env \<Rightarrow> string \<Rightarrow> time \<Rightarrow> db \<Rightarrow> (cancel_result \<times> db) res" where
  "CancelRegistration E gid now d =
    rbind (of_row ErrNoRows (find_registration gid d)) (\<lambda>r.
     if reg_status r \<in> {R_REGISTERED, R_FAILED, R_QUARANTINED, R_CANCELED} then Inl ErrRegistrationCancelTooLate
     else if reg_status r \<in> {R_PENDING, R_RETRY_REQUIRED} then
      (let w = (\<lambda>s. reg_id s = gid \<and> reg_status s = reg_status r)
       in if rows_affected w (registrations d) \<noteq> 1 then Inl ErrRegistrationFenced
          else rbind (insertRegistrationEventTx E ''REGISTRATION_CANCELED'' gid '''' ''INFO'' ''registration canceled'' now
              [(''classification'', JStr ''REGISTRATION_CANCELED'')]
              (d\<lparr>registrations := update_where w (canceled_registration now) (registrations d)\<rparr>))
            (\<lambda>d1. Inr (\<lparr>cr_status = R_CANCELED, cr_changed = True, cr_attempt = ''''\<rparr>, d1)))
     else case (reg_status r, reg_cur r) of
       (R_REGISTERING, Some aid) \<Rightarrow> cancel_registering E gid aid now d
     | _ \<Rightarrow> Inl ErrRegistrationCancelTooLate)"

definition RecordRegistrationStaleResult :: "env \<Rightarrow> string \<Rightarrow> string \<Rightarrow> string \<Rightarrow> time \<Rightarrow> db \<Rightarrow> (unit \<times> db) res" where
  "RecordRegistrationStaleResult E gid aid cls now d =
    rbind (insertRegistrationEventTx E ''REGISTRATION_STALE_RESULT_REJECTED'' gid aid ''WARN''
        ''stale registration result rejected'' now [(''classification'', JStr cls)] d) (\<lambda>d1. Inr ((), d1))"

record historical =
  hc_run :: string
  hc_class :: string
  hc_registration :: string

text \<open>The classification of one succeeded run; \<open>None\<close> skips it.\<close>

definition classify_existing :: "run \<Rightarrow> registration \<Rightarrow> historical option" where
  "classify_existing v g =
    (let c = \<lparr>hc_run = run_id v, hc_class = '''', hc_registration = reg_id g\<rparr> in
     if reg_status g = R_REGISTERED \<and> reg_receipt g \<noteq> '''' then Some (c\<lparr>hc_class := ''ALREADY_REGISTERED_VERIFIED''\<rparr>)
     else if reg_status g = R_RECONCILING then Some (c\<lparr>hc_class := ''REQUIRES_RECONCILIATION''\<rparr>)
     else if reg_status g \<in> {R_PENDING, R_RETRY_REQUIRED, R_REGISTERING} then Some (c\<lparr>hc_class := ''SAFE_TO_ENQUEUE''\<rparr>)
     else None)"

definition legacy_commit :: "env \<Rightarrow> run \<Rightarrow> bool" where
  "legacy_commit E v \<longleftrightarrow> run_commit_phase v \<noteq> ''COMPLETE'' \<or> length (run_commit_id v) \<noteq> 64
     \<or> (case parse_intent E (run_commit_intent v) of
          None \<Rightarrow> True
        | Some (key, mjson) \<Rightarrow> (case parse_manifest E mjson of
            None \<Rightarrow> True
          | Some m \<Rightarrow> mf_schema m \<noteq> 2 \<or> mf_run m \<noteq> run_id v \<or> mf_artifacts m = []))"

definition classify_new :: "env \<Rightarrow> time \<Rightarrow> run \<Rightarrow> db \<Rightarrow> (historical \<times> db) res" where
  "classify_new E now v d =
    (let c = \<lparr>hc_run = run_id v, hc_class = '''', hc_registration = ''''\<rparr> in
     if trim_space (run_regcfg v) = '''' then Inr (c\<lparr>hc_class := ''NOT_CONFIGURED''\<rparr>, d)
     else rbind (decryptRunRegistrationConfig E (run_id v) (run_regcfg v)) (\<lambda>config.
      case parse_regcfg E config of
        None \<Rightarrow> Inr (c\<lparr>hc_class := ''CONFIGURATION_UNAVAILABLE''\<rparr>, d)
      | Some cfg \<Rightarrow>
        if \<not> cfg_enabled cfg then Inr (c\<lparr>hc_class := ''CONFIGURATION_UNAVAILABLE''\<rparr>, d)
        else if legacy_commit E v then Inr (c\<lparr>hc_class := ''UNSUPPORTED_LEGACY_COMMIT''\<rparr>, d)
        else (case ensureRegistrationTx E (run_id v) (run_dataset v) (run_commit_id v) config (run_commit_intent v) now d of
           Inl _ \<Rightarrow> Inr (c\<lparr>hc_class := ''CONFIGURATION_UNAVAILABLE''\<rparr>, d)
         | Inr d1 \<Rightarrow> Inr (c\<lparr>hc_class := ''SAFE_TO_ENQUEUE'',
             hc_registration := (case select_one (\<lambda>g. reg_run g = run_id v) (registrations d1) of
                None \<Rightarrow> '''' | Some g \<Rightarrow> reg_id g)\<rparr>, d1))))"

definition historical_event :: "env \<Rightarrow> time \<Rightarrow> historical \<Rightarrow> event" where
  "historical_event E now c = \<lparr>ev_id = ''registration-history-'' @ stableRegistrationID E [hc_run c, hc_class c],
     ev_run = hc_run c, ev_task = None, ev_ts = now, ev_level = ''INFO'', ev_msg = ''historical registration classified'',
     ev_fields = [(''event_type'', JStr ''REGISTRATION_HISTORICAL_CLASSIFIED''), (''classification'', JStr (hc_class c)),
       (''registration_id'', JStr (hc_registration c))]\<rparr>"

definition classify_run :: "env \<Rightarrow> time \<Rightarrow> run \<Rightarrow> historical list \<times> db \<Rightarrow> (historical list \<times> db) res" where
  "classify_run E now v = (\<lambda>(out, d).
     case select_one (\<lambda>g. reg_run g = run_id v) (registrations d) of
       Some g \<Rightarrow> (case classify_existing v g of
          None \<Rightarrow> Inr (out, d)
        | Some c \<Rightarrow> Inr (out @ [c], add_event (historical_event E now c) d))
     | None \<Rightarrow> rbind (classify_new E now v d) (\<lambda>(c, d1). Inr (out @ [c], add_event (historical_event E now c) d1)))"

definition ReconcileHistoricalRegistrations :: "env \<Rightarrow> time \<Rightarrow> db \<Rightarrow> (historical list \<times> db) res" where
  "ReconcileHistoricalRegistrations E now d =
     foldM (classify_run E now) (filter (\<lambda>v. run_status v = SUCCEEDED) (runs d)) ([], d)"

section \<open>Reconciliation\<close>

definition rec_conflict :: "rec_attempt \<Rightarrow> rec_attempt \<Rightarrow> bool" where
  "rec_conflict a b \<longleftrightarrow> rec_id a = rec_id b \<or> (rec_reg a = rec_reg b \<and> rec_number a = rec_number b)
     \<or> rec_token a = rec_token b \<or> (rec_reg a = rec_reg b \<and> rec_status a = RA_ACTIVE \<and> rec_status b = RA_ACTIVE)"

text \<open>An event whose error the code drops (\<open>_ = insertRegistrationEventTx(\<dots>)\<close>).\<close>

definition try_event :: "db res \<Rightarrow> db \<Rightarrow> db" where
  "try_event m d = (case m of Inl _ \<Rightarrow> d | Inr d1 \<Rightarrow> d1)"

definition ClaimReconciliation ::
  "env \<Rightarrow> time \<Rightarrow> duration \<Rightarrow> string res \<Rightarrow> db \<Rightarrow> ((registration \<times> rec_attempt) option \<times> db) res" where
  "ClaimReconciliation E now lease tokenFn d =
    (case select_first_by (\<lambda>r. (reg_seq r, reg_id r))
        (\<lambda>r. reg_status r = R_RECONCILING \<and> reg_rec_status r \<in> {REC_PENDING, REC_RETRY_REQUIRED}
           \<and> (case reg_rec_next r of None \<Rightarrow> True | Some n \<Rightarrow> n \<le> now)) (registrations d) of
       None \<Rightarrow> Inr (None, d)
     | Some row \<Rightarrow>
       rbind (scanRegistration E row) (\<lambda>r.
       rbind tokenFn (\<lambda>token.
        let n = reg_rec_attempts row + 1;
            aid = stableRegistrationID E [''reconcile'', reg_id r, show_int n, token];
            w = (\<lambda>s. reg_id s = reg_id r \<and> reg_status s = R_RECONCILING \<and> reg_rec_status s \<in> {REC_PENDING, REC_RETRY_REQUIRED});
            d1 = d\<lparr>registrations := update_where w
                (\<lambda>s. s\<lparr>reg_rec_status := REC_INSPECTING, reg_rec_attempts := n, reg_rec_cur := Some aid, reg_rec_next := None,
                       reg_updated := now\<rparr>) (registrations d)\<rparr>;
            a = \<lparr>rec_id = aid, rec_reg = reg_id r, rec_number = n, rec_status = RA_ACTIVE, rec_token = token,
                 rec_deadline = now + lease, rec_obs_start = '''', rec_obs_end = '''', rec_outcome = '''', rec_evidence = '''',
                 rec_eclass = '''', rec_next = None, rec_finished = None, rec_updated = now, rec_epoch = active_epoch d\<rparr>
        in if rows_affected w (registrations d) \<noteq> 1 then Inr (None, d1)
           else rbind (insert_row rec_conflict a (rec_attempts d)) (\<lambda>ras.
             let d2 = d1\<lparr>rec_attempts := ras\<rparr>
             in Inr (Some (r, a), try_event (insertRegistrationEventTx E ''RECONCILIATION_ATTEMPT_ASSIGNED'' (reg_id r) aid ''INFO''
                  ''reconciliation attempt assigned'' now [(''lease_deadline'', JStr (FormatTimestamp (now + lease)))] d2) d2)))))"

record rec_decision =
  rd_status :: reg_status
  rd_rec :: rec_status
  rd_attempt :: rat_status
  rd_event :: string
  rd_operator :: int
  rd_next :: "time option"
  rd_cycles :: int

definition reconciliation_decision :: "string \<Rightarrow> int \<Rightarrow> int \<Rightarrow> time \<Rightarrow> rec_decision" where
  "reconciliation_decision outcome cycles mx now =
    (let retry = \<lparr>rd_status = R_RETRY_REQUIRED, rd_rec = REC_SUCCEEDED, rd_attempt = RA_SUCCEEDED,
                  rd_event = ''RECONCILIATION_EXACT_COMMIT_FOUND'', rd_operator = 0, rd_next = Some now, rd_cycles = cycles\<rparr>;
         stop = \<lparr>rd_status = R_QUARANTINED, rd_rec = REC_FAILED, rd_attempt = RA_FAILED,
                 rd_event = ''RECONCILIATION_PARTIAL_COMMIT'', rd_operator = 1, rd_next = None, rd_cycles = cycles\<rparr>
     in if outcome = ''EXACTLY_COMMITTED'' then retry
        else if outcome = ''DEFINITELY_NOT_COMMITTED'' \<or> outcome = ''TABLE_NOT_FOUND'' then
          (if cycles + 1 > mx then stop\<lparr>rd_event := ''RECONCILIATION_RETRY_EXHAUSTED'', rd_cycles := cycles + 1\<rparr>
           else retry\<lparr>rd_event := ''RECONCILIATION_ABSENCE_PROVEN'', rd_cycles := cycles + 1\<rparr>)
        else if outcome = ''PARTIALLY_COMMITTED'' then stop
        else if outcome = ''CONFLICTING_COMMIT'' then stop\<lparr>rd_event := ''RECONCILIATION_CONFLICT''\<rparr>
        else stop\<lparr>rd_status := R_RECONCILING, rd_event := ''RECONCILIATION_INSUFFICIENT_EVIDENCE''\<rparr>)"

text \<open>The observation a decision rests on, as the caller reports it.\<close>

record observation =
  ob_digest :: string
  ob_start :: string
  ob_end :: string
  ob_snapshot :: string
  ob_receipt :: string
  ob_matched :: int
  ob_expected :: int

definition ApplyReconciliationDecision ::
  "env \<Rightarrow> string \<Rightarrow> string \<Rightarrow> string \<Rightarrow> string \<Rightarrow> observation \<Rightarrow> time \<Rightarrow> int \<Rightarrow> db \<Rightarrow> (unit \<times> db) res" where
  "ApplyReconciliationDecision E gid aid token outcome ob now mx d =
    rbind (of_row ErrRegistrationFenced (select_one
       (\<lambda>r. reg_id r = gid \<and> reg_status r = R_RECONCILING \<and> reg_rec_status r = REC_INSPECTING) (registrations d))) (\<lambda>g.
     if reg_rec_cur g \<noteq> Some aid then Inl ErrRegistrationFenced
     else let dec = reconciliation_decision outcome (reg_ambiguity g) mx now;
              w = (\<lambda>r. reg_id r = gid \<and> reg_rec_cur r = Some aid)
      in if rows_affected w (registrations d) \<noteq> 1 then Inl ErrRegistrationFenced
         else let d1 = d\<lparr>rec_attempts := update_where (\<lambda>a. rec_id a = aid \<and> rec_token a = token \<and> rec_status a = RA_ACTIVE)
                 (\<lambda>a. a\<lparr>rec_status := rd_attempt dec, rec_obs_start := ob_start ob, rec_obs_end := ob_end ob,
                        rec_outcome := outcome, rec_evidence := ob_digest ob, rec_finished := Some now, rec_updated := now\<rparr>)
                 (rec_attempts d),
               registrations := update_where w
                 (\<lambda>r. r\<lparr>reg_status := rd_status dec, reg_rec_status := rd_rec dec, reg_rec_cur := None,
                        reg_rec_outcome := outcome, reg_obs_snapshot := ob_snapshot ob, reg_obs_metadata := ob_end ob,
                        reg_matched := ob_matched ob, reg_expected := ob_expected ob, reg_rec_evidence := ob_digest ob,
                        reg_receipt := (if ob_receipt ob \<noteq> '''' then ob_receipt ob else reg_receipt r),
                        reg_next := rd_next dec, reg_ambiguity := rd_cycles dec, reg_updated := now\<rparr>) (registrations d)\<rparr>
           in Inr ((), try_event (insertRegistrationEventTx E (rd_event dec) gid '''' ''INFO''
               ''catalog reconciliation decision persisted'' now [(''outcome'', JStr outcome),
                 (''evidence_digest'', JStr (ob_digest ob)), (''operator_action_required'', JInt (rd_operator dec))] d1) d1))"

definition owns_reconciliation :: "string \<Rightarrow> string \<Rightarrow> string \<Rightarrow> rec_attempt \<Rightarrow> bool" where
  "owns_reconciliation gid aid token a \<longleftrightarrow> rec_id a = aid \<and> rec_reg a = gid \<and> rec_token a = token \<and> rec_status a = RA_ACTIVE"

definition RetryReconciliationObservation ::
  "env \<Rightarrow> string \<Rightarrow> string \<Rightarrow> string \<Rightarrow> string \<Rightarrow> string \<Rightarrow> time \<Rightarrow> duration \<Rightarrow> int \<Rightarrow> db \<Rightarrow> (unit \<times> db) res" where
  "RetryReconciliationObservation E gid aid token cls msg now backoff mx d =
    rbind (of_row ErrRegistrationFenced (select_one (owns_reconciliation gid aid token) (rec_attempts d))) (\<lambda>a.
     let exhausted = rec_number a \<ge> mx;
         next = now + backoff;
         d1 = d\<lparr>rec_attempts := update_where (\<lambda>b. rec_id b = aid)
               (\<lambda>b. b\<lparr>rec_status := (if exhausted then RA_FAILED else RA_RETRY_REQUIRED), rec_eclass := cls,
                      rec_finished := Some now, rec_next := Some next, rec_updated := now\<rparr>) (rec_attempts d),
             registrations := update_where (\<lambda>r. reg_id r = gid \<and> reg_rec_cur r = Some aid)
               (\<lambda>r. r\<lparr>reg_rec_status := (if exhausted then REC_FAILED else REC_RETRY_REQUIRED), reg_rec_cur := None,
                      reg_rec_eclass := cls, reg_rec_next := Some next, reg_updated := now\<rparr>) (registrations d)\<rparr>
     in Inr ((), try_event (insertRegistrationEventTx E
          (if exhausted then ''RECONCILIATION_RETRY_EXHAUSTED'' else ''RECONCILIATION_OBSERVATION_RETRY'') gid '''' ''WARN'' msg now
          [(''classification'', JStr cls), (''next_retry_at'', JStr (FormatTimestamp next))] d1) d1))"

definition inspecting :: "string \<Rightarrow> string \<Rightarrow> registration \<Rightarrow> bool" where
  "inspecting gid aid r \<longleftrightarrow> reg_id r = gid \<and> reg_status r = R_RECONCILING \<and> reg_rec_status r = REC_INSPECTING
     \<and> reg_rec_cur r = Some aid"

definition RenewReconciliationLease ::
  "string \<Rightarrow> string \<Rightarrow> string \<Rightarrow> time \<Rightarrow> duration \<Rightarrow> db \<Rightarrow> (unit \<times> db) res" where
  "RenewReconciliationLease gid aid token now lease d =
    (let w = (\<lambda>a. owns_reconciliation gid aid token a \<and> list_ex (inspecting gid aid) (registrations d))
     in if rows_affected w (rec_attempts d) \<noteq> 1 then Inl ErrRegistrationFenced
        else Inr ((), d\<lparr>rec_attempts := update_where w
          (\<lambda>a. a\<lparr>rec_deadline := now + lease, rec_updated := now\<rparr>) (rec_attempts d)\<rparr>))"

definition expire_reconciliation_item :: "env \<Rightarrow> time \<Rightarrow> duration \<Rightarrow> int \<Rightarrow> rec_attempt \<Rightarrow> nat \<times> db \<Rightarrow> (nat \<times> db) res" where
  "expire_reconciliation_item E now backoff mx a = (\<lambda>(count, d).
     let exhausted = rec_number a \<ge> mx;
         next = (if exhausted then None else Some (now + backoff));
         w = (\<lambda>r. reg_id r = rec_reg a \<and> reg_rec_cur r = Some (rec_id a));
         d1 = d\<lparr>rec_attempts := update_where (\<lambda>b. rec_id b = rec_id a \<and> rec_status b = RA_ACTIVE)
                 (\<lambda>b. b\<lparr>rec_status := RA_EXPIRED, rec_eclass := ''CATALOG_OBSERVATION_UNAVAILABLE'',
                        rec_finished := Some now, rec_updated := now\<rparr>) (rec_attempts d),
               registrations := update_where w
                 (\<lambda>r. r\<lparr>reg_rec_status := (if exhausted then REC_FAILED else REC_RETRY_REQUIRED), reg_rec_cur := None,
                        reg_rec_eclass := ''CATALOG_OBSERVATION_UNAVAILABLE'', reg_rec_next := next, reg_updated := now\<rparr>)
                 (registrations d)\<rparr>
     in if rows_affected w (registrations d) \<noteq> 1 then Inr (count, d1)
        else rbind (insertRegistrationEventTx E
            (if exhausted then ''RECONCILIATION_RETRY_EXHAUSTED'' else ''RECONCILIATION_OBSERVATION_RETRY'') (rec_reg a) '''' ''WARN''
            ''reconciliation observation lease expired'' now
            [(''classification'', JStr ''CATALOG_OBSERVATION_UNAVAILABLE''), (''next_retry_at'', next_json next)] d1)
          (\<lambda>d2. Inr (Suc count, d2)))"

definition ExpireReconciliationAttempts :: "env \<Rightarrow> time \<Rightarrow> duration \<Rightarrow> int \<Rightarrow> db \<Rightarrow> (nat \<times> db) res" where
  "ExpireReconciliationAttempts E now backoff mx d =
     foldM (expire_reconciliation_item E now backoff mx)
       (filter (\<lambda>a. rec_status a = RA_ACTIVE \<and> rec_deadline a \<le> now
          \<and> list_ex (inspecting (rec_reg a) (rec_id a)) (registrations d)) (rec_attempts d)) (0, d)"

definition CancelReconciliation :: "env \<Rightarrow> string \<Rightarrow> time \<Rightarrow> db \<Rightarrow> (unit \<times> db) res" where
  "CancelReconciliation E gid now d =
    rbind (of_row ErrNoRows (select_one (\<lambda>r. reg_id r = gid \<and> reg_status r = R_RECONCILING
        \<and> reg_rec_status r \<in> {REC_PENDING, REC_RETRY_REQUIRED, REC_INSPECTING}) (registrations d))) (\<lambda>g.
     let w = (\<lambda>r. reg_id r = gid \<and> reg_status r = R_RECONCILING);
         ras = (case reg_rec_cur g of None \<Rightarrow> rec_attempts d
           | Some aid \<Rightarrow> update_where (\<lambda>a. rec_id a = aid \<and> rec_status a = RA_ACTIVE)
               (\<lambda>a. a\<lparr>rec_status := RA_CANCELED, rec_eclass := ''RECONCILIATION_CANCELED'', rec_finished := Some now,
                      rec_updated := now\<rparr>) (rec_attempts d))
     in if rows_affected w (registrations d) \<noteq> 1 then Inl ErrRegistrationFenced
        else rbind (insertRegistrationEventTx E ''RECONCILIATION_CANCELED'' gid '''' ''WARN''
            ''reconciliation inspection canceled; ambiguous registration remains blocked'' now
            [(''classification'', JStr ''RECONCILIATION_CANCELED'')]
            (d\<lparr>rec_attempts := ras, registrations := update_where w
                (\<lambda>r. r\<lparr>reg_rec_status := REC_CANCELED, reg_rec_cur := None, reg_rec_eclass := ''RECONCILIATION_CANCELED'',
                       reg_rec_next := None, reg_rec_outcome := ''INSUFFICIENT_EVIDENCE'', reg_updated := now\<rparr>)
                (registrations d)\<rparr>)) (\<lambda>d1. Inr ((), d1)))"

record projection =
  pj_status :: rec_status
  pj_attempt :: int
  pj_outcome :: string
  pj_eclass :: string
  pj_next :: "time option"
  pj_snapshot :: string
  pj_metadata :: string
  pj_matched :: int
  pj_expected :: int
  pj_evidence :: string
  pj_operator :: bool

definition GetReconciliationProjection :: "string \<Rightarrow> db \<Rightarrow> projection res" where
  "GetReconciliationProjection gid d =
    rbind (of_row ErrNoRows (find_registration gid d)) (\<lambda>r.
     Inr \<lparr>pj_status = reg_rec_status r, pj_attempt = reg_rec_attempts r, pj_outcome = reg_rec_outcome r,
          pj_eclass = reg_rec_eclass r, pj_next = reg_rec_next r, pj_snapshot = reg_obs_snapshot r,
          pj_metadata = reg_obs_metadata r, pj_matched = reg_matched r, pj_expected = reg_expected r,
          pj_evidence = reg_rec_evidence r,
          pj_operator = (reg_rec_outcome r \<in> {''PARTIALLY_COMMITTED'', ''CONFLICTING_COMMIT'', ''INSUFFICIENT_EVIDENCE''})\<rparr>)"

end
