(* ===== verification/RegistrationOrder.thy ===== *)
theory RegistrationOrder
  imports Registrations Bindings Samples
begin

text \<open>
  Correctness of catalog registration: registrations of one dataset and catalog target enter the
  catalog in commit order; a registration is held by exactly one live attempt while it is being
  worked on; an external commit of unknown outcome is reconciled before anything is tried again.
\<close>

section \<open>Invariants\<close>

abbreviation rat_live :: "reg_attempt \<Rightarrow> bool" where
  "rat_live a \<equiv> rat_status a = RA_ACTIVE"

definition reg_bound :: "db \<Rightarrow> bool" where
  "reg_bound d = bound reg_id reg_cur rat_id rat_reg rat_live (registrations d) (reg_attempts d)"

text \<open>Only a REGISTERING registration names an attempt, and every status past the queue needs one.\<close>

definition reg_ok :: "registration \<Rightarrow> bool" where
  "reg_ok r \<longleftrightarrow> 0 \<le> reg_tries r \<and> (reg_cur r \<noteq> None \<longleftrightarrow> reg_status r = R_REGISTERING)
     \<and> (reg_status r \<in> {R_REGISTERING, R_RECONCILING, R_REGISTERED, R_QUARANTINED} \<longrightarrow> 0 < reg_tries r)"

text \<open>
  A line is the registrations of one dataset and target. Its sequence numbers are distinct, and
  work on a registration starts only when everything before it is REGISTERED.
\<close>

definition line_inv :: "registration list \<Rightarrow> bool" where
  "line_inv rs \<longleftrightarrow> (\<forall>r \<in> set rs. reg_ok r)
     \<and> (\<forall>r \<in> set rs. \<forall>s \<in> set rs. same_line s r \<and> reg_seq s < reg_seq r \<and> 0 < reg_tries r \<longrightarrow> reg_status s = R_REGISTERED)
     \<and> (\<forall>r \<in> set rs. \<forall>s \<in> set rs. same_line r s \<and> reg_seq r = reg_seq s \<longrightarrow> reg_id r = reg_id s)"

definition reg_inv :: "db \<Rightarrow> bool" where
  "reg_inv d \<longleftrightarrow> reg_bound d \<and> line_inv (registrations d)"

lemma reg_invD:
  assumes "reg_inv d"
  shows "bound reg_id reg_cur rat_id rat_reg rat_live (registrations d) (reg_attempts d)" "line_inv (registrations d)"
    "keyed reg_id (registrations d)" "keyed rat_id (reg_attempts d)" "\<And>r. r \<in> set (registrations d) \<Longrightarrow> reg_ok r"
  using assms boundD(1,2) by (auto simp: reg_inv_def reg_bound_def line_inv_def)

definition same_identity :: "registration \<Rightarrow> registration \<Rightarrow> bool" where
  "same_identity r s \<longleftrightarrow> reg_id r = reg_id s \<and> reg_dataset r = reg_dataset s \<and> reg_target r = reg_target s \<and> reg_seq r = reg_seq s"

text \<open>The one rule for updates: identities stay, REGISTERED stays, and work starts only at the head of a line.\<close>

lemma line_inv_map:
  assumes inv: "line_inv rs"
    and g: "\<And>r. r \<in> set rs \<Longrightarrow> same_identity (g r) r \<and> reg_ok (g r)"
    and start: "\<And>r. r \<in> set rs \<Longrightarrow> 0 < reg_tries (g r) \<Longrightarrow> 0 < reg_tries r \<or> earlier_open rs r = []"
    and keep: "\<And>r. r \<in> set rs \<Longrightarrow> reg_status r = R_REGISTERED \<Longrightarrow> reg_status (g r) = R_REGISTERED"
  shows "line_inv (map g rs)"
proof -
  have "reg_status (g s) = R_REGISTERED"
    if rs: "r \<in> set rs" "s \<in> set rs" and h: "same_line (g s) (g r)" "reg_seq (g s) < reg_seq (g r)" "0 < reg_tries (g r)" for r s
  proof -
    have l: "same_line s r" "reg_seq s < reg_seq r" using g rs h by (auto simp: same_identity_def same_line_def)
    have "reg_status s = R_REGISTERED"
    proof (cases "0 < reg_tries r")
      case True
      then show ?thesis using inv rs l by (auto simp: line_inv_def)
    next
      case False
      then have "earlier_open rs r = []" using start rs h(3) by blast
      then show ?thesis using rs(2) l by (auto simp: earlier_open_def filter_empty_conv)
    qed
    then show ?thesis using keep rs by simp
  qed
  moreover have "reg_id (g r) = reg_id (g s)"
    if "r \<in> set rs" "s \<in> set rs" "same_line (g r) (g s)" "reg_seq (g r) = reg_seq (g s)" for r s
    using inv that g [OF that(1)] g [OF that(2)] unfolding line_inv_def same_identity_def same_line_def by metis
  ultimately show ?thesis using g unfolding line_inv_def by auto
qed

lemma line_inv_update:
  assumes "line_inv rs" and "rs' = update_where p f rs"
    and "\<And>r. r \<in> set rs \<Longrightarrow> p r \<Longrightarrow> same_identity (f r) r \<and> reg_ok (f r) \<and> reg_tries (f r) = reg_tries r"
    and "\<And>r. r \<in> set rs \<Longrightarrow> p r \<Longrightarrow> reg_status r = R_REGISTERED \<Longrightarrow> reg_status (f r) = R_REGISTERED"
  shows "line_inv rs'"
  unfolding assms(2) update_where_def
proof (rule line_inv_map [OF assms(1)])
  fix r assume r: "r \<in> set rs"
  then have "reg_ok r" using assms(1) by (simp add: line_inv_def)
  then show "same_identity (if p r then f r else r) r \<and> reg_ok (if p r then f r else r)"
    using assms(3) [OF r] by (simp add: same_identity_def)
  show "0 < reg_tries r \<or> earlier_open rs r = []" if "0 < reg_tries (if p r then f r else r)"
    using that assms(3) [OF r] by (cases "p r") auto
  show "reg_status (if p r then f r else r) = R_REGISTERED" if "reg_status r = R_REGISTERED"
    using that assms(4) [OF r] by simp
qed

lemma line_inv_append:
  assumes inv: "line_inv rs" and r: "reg_ok r" "reg_tries r = 0"
    and s: "\<And>s. s \<in> set rs \<Longrightarrow> same_line s r \<Longrightarrow> reg_seq s < reg_seq r"
  shows "line_inv (rs @ [r])"
proof -
  have sym: "same_line r s \<longleftrightarrow> same_line s r" for s by (auto simp: same_line_def)
  have lt: "\<not> (same_line s r \<and> reg_seq r \<le> reg_seq s)" if "s \<in> set rs" for s using s [OF that] by auto
  show ?thesis
    unfolding line_inv_def
  proof (intro conjI ballI impI)
    fix a b assume ab: "a \<in> set (rs @ [r])" "b \<in> set (rs @ [r])"
    show "reg_status b = R_REGISTERED" if h: "same_line b a \<and> reg_seq b < reg_seq a \<and> 0 < reg_tries a"
    proof (cases "b = r")
      case True
      have "a \<noteq> r" using h r(2) by auto
      then show ?thesis using ab h True sym [of a] lt [of a] by auto
    next
      case False
      then have "a \<in> set rs" "b \<in> set rs" using ab h r(2) by auto
      then show ?thesis using h inv unfolding line_inv_def by blast
    qed
    show "reg_id a = reg_id b" if h: "same_line a b \<and> reg_seq a = reg_seq b"
    proof (cases "a = r \<or> b = r")
      case True
      then show ?thesis using ab h lt [of a] lt [of b] sym [of b] by auto
    next
      case False
      then have "a \<in> set rs" "b \<in> set rs" using ab by auto
      then show ?thesis using h inv unfolding line_inv_def by blast
    qed
  qed (use inv r in \<open>auto simp: line_inv_def\<close>)
qed

section \<open>Every operation keeps them\<close>

lemma reg_event_InrE:
  assumes "insertRegistrationEventTx E t gid aid lv msg now x d = Inr d'"
  obtains e where "d' = add_event e d"
  using assms by (auto simp: insertRegistrationEventTx_def)

lemma try_event_frame [simp]:
  "registrations (try_event (insertRegistrationEventTx E t gid aid lv msg now x d) d) = registrations d"
  "reg_attempts (try_event (insertRegistrationEventTx E t gid aid lv msg now x d) d) = reg_attempts d"
  "rec_attempts (try_event (insertRegistrationEventTx E t gid aid lv msg now x d) d) = rec_attempts d"
  by (auto simp: try_event_def elim!: reg_event_InrE split: sum.splits)

text \<open>An update that leaves the binding of registrations and attempts alone.\<close>

lemma reg_inv_frame:
  assumes inv: "reg_inv d"
    and rs: "registrations d' = update_where p f (registrations d)"
    and ats: "reg_attempts d' = update_where q h (reg_attempts d)"
    and f: "\<And>r. r \<in> set (registrations d) \<Longrightarrow> p r \<Longrightarrow> same_identity (f r) r \<and> reg_tries (f r) = reg_tries r
        \<and> reg_cur (f r) = reg_cur r \<and> reg_ok (f r) \<and> (reg_status r = R_REGISTERED \<longrightarrow> reg_status (f r) = R_REGISTERED)"
    and h: "\<And>a. rat_id (h a) = rat_id a \<and> rat_reg (h a) = rat_reg a \<and> rat_status (h a) = rat_status a"
  shows "reg_inv d'"
proof -
  have "bound reg_id reg_cur rat_id rat_reg rat_live (registrations d') (reg_attempts d')"
    using f h by (intro bound_frame [OF reg_invD(1) [OF inv] rs [unfolded update_where_def] ats [unfolded update_where_def]])
      (auto simp: same_identity_def)
  moreover have "line_inv (registrations d')"
    by (rule line_inv_update [OF reg_invD(2) [OF inv] rs]) (use f in auto)
  ultimately show ?thesis by (simp add: reg_inv_def reg_bound_def)
qed

text \<open>An update that ends an attempt and clears the registration that names it.\<close>

lemma reg_inv_release:
  assumes inv: "reg_inv d"
    and rs: "registrations d' = update_where p f (registrations d)"
    and ats: "reg_attempts d' = update_where q h (reg_attempts d)"
    and f: "\<And>r. same_identity (f r) r \<and> reg_tries (f r) = reg_tries r \<and> reg_cur (f r) = None"
    and st: "\<And>r. r \<in> set (registrations d) \<Longrightarrow> p r \<Longrightarrow> reg_status (f r) \<noteq> R_REGISTERING
        \<and> (reg_status (f r) \<in> {R_RECONCILING, R_REGISTERED, R_QUARANTINED} \<longrightarrow> reg_status r = R_REGISTERING)
        \<and> (reg_status r = R_REGISTERED \<longrightarrow> reg_status (f r) = R_REGISTERED)"
    and h: "\<And>a. rat_id (h a) = rat_id a \<and> rat_reg (h a) = rat_reg a" "\<And>a. a \<in> set (reg_attempts d) \<Longrightarrow> q a \<Longrightarrow> \<not> rat_live (h a)"
    and agree: "\<And>a r. a \<in> set (reg_attempts d) \<Longrightarrow> r \<in> set (registrations d) \<Longrightarrow> rat_live a
        \<Longrightarrow> reg_cur r = Some (rat_id a) \<Longrightarrow> reg_id r = rat_reg a \<Longrightarrow> q a \<longleftrightarrow> p r"
  shows "reg_inv d'"
proof -
  note b = reg_invD(1) [OF inv]
  have "bound reg_id reg_cur rat_id rat_reg rat_live (registrations d') (reg_attempts d')"
  proof (rule bound_release [OF b rs ats])
    fix a r assume h: "a \<in> set (reg_attempts d)" "r \<in> set (registrations d)" "rat_live a" "reg_cur r = Some (rat_id a)"
    then have "reg_id r = rat_reg a" using bound_cur_live(1) [OF b h(2,4,1)] by simp
    then show "q a \<longleftrightarrow> p r" using agree h by blast
  qed (use f h in \<open>auto simp: same_identity_def\<close>)
  moreover have "line_inv (registrations d')"
  proof (rule line_inv_update [OF reg_invD(2) [OF inv] rs])
    fix r assume r: "r \<in> set (registrations d)" "p r"
    have ok: "reg_ok r" using reg_invD(5) [OF inv r(1)] .
    have "reg_status (f r) \<in> {R_RECONCILING, R_REGISTERED, R_QUARANTINED} \<Longrightarrow> 0 < reg_tries r"
      using st [OF r] ok unfolding reg_ok_def by blast
    moreover have "0 \<le> reg_tries r" "reg_status (f r) \<noteq> R_REGISTERING" using ok st [OF r] unfolding reg_ok_def by blast+
    ultimately show "same_identity (f r) r \<and> reg_ok (f r) \<and> reg_tries (f r) = reg_tries r"
      using f [of r] unfolding reg_ok_def by auto
  qed (use st in blast)
  ultimately show ?thesis by (simp add: reg_inv_def reg_bound_def)
qed

lemma update_where_False [simp]: "update_where (\<lambda>_. False) f xs = xs"
  by (induction xs) auto

lemma rows_affected_Suc0D: "rows_affected p xs = Suc 0 \<Longrightarrow> \<exists>r \<in> set xs. p r"
  using rows_affected_oneD [of p xs] by simp

lemma reg_cur_registering:
  assumes "reg_inv d" "r \<in> set (registrations d)" "reg_cur r = Some i"
  shows "reg_status r = R_REGISTERING"
  using reg_invD(5) [OF assms(1,2)] assms(3) by (auto simp: reg_ok_def)

lemma reg_cur_none:
  assumes "reg_inv d" "r \<in> set (registrations d)" "reg_status r \<noteq> R_REGISTERING"
  shows "reg_cur r = None"
  using reg_invD(5) [OF assms(1,2)] assms(3) by (auto simp: reg_ok_def)

text \<open>The end of the attempt \<open>aid\<close> of the registration \<open>gid\<close>, as the operations write it.\<close>

lemma reg_inv_end:
  assumes inv: "reg_inv d"
    and rs: "registrations d' = update_where p f (registrations d)"
    and ats: "reg_attempts d' = update_where q h (reg_attempts d)"
    and p: "\<And>r. r \<in> set (registrations d) \<Longrightarrow> p r \<longleftrightarrow> reg_id r = gid \<and> reg_cur r = Some aid"
    and q: "\<And>a. a \<in> set (reg_attempts d) \<Longrightarrow> rat_live a \<Longrightarrow> q a \<longleftrightarrow> rat_id a = aid"
    and own: "\<And>a. a \<in> set (reg_attempts d) \<Longrightarrow> rat_id a = aid \<Longrightarrow> rat_reg a = gid"
    and f: "\<And>r. same_identity (f r) r \<and> reg_tries (f r) = reg_tries r \<and> reg_cur (f r) = None"
      "\<And>r. reg_status (f r) \<in> {R_RETRY_REQUIRED, R_FAILED, R_RECONCILING, R_REGISTERED, R_CANCELED}"
    and h: "\<And>a. rat_id (h a) = rat_id a \<and> rat_reg (h a) = rat_reg a" "\<And>a. \<not> rat_live (h a)"
  shows "reg_inv d'"
proof (rule reg_inv_release [OF inv rs ats])
  fix r assume r: "r \<in> set (registrations d)" "p r"
  then have "reg_status r = R_REGISTERING" using p reg_cur_registering [OF inv] by blast
  then show "reg_status (f r) \<noteq> R_REGISTERING
      \<and> (reg_status (f r) \<in> {R_RECONCILING, R_REGISTERED, R_QUARANTINED} \<longrightarrow> reg_status r = R_REGISTERING)
      \<and> (reg_status r = R_REGISTERED \<longrightarrow> reg_status (f r) = R_REGISTERED)"
    using f(2) [of r] by auto
next
  fix a r assume "a \<in> set (reg_attempts d)" "r \<in> set (registrations d)" "rat_live a" "reg_cur r = Some (rat_id a)"
    "reg_id r = rat_reg a"
  then show "q a \<longleftrightarrow> p r" using p q own by auto
qed (use f h in auto)

text \<open>An update of registrations that nobody is working on.\<close>

lemma reg_inv_idle:
  assumes inv: "reg_inv d"
    and rs: "registrations d' = update_where p f (registrations d)" and ats: "reg_attempts d' = reg_attempts d"
    and f: "\<And>r. r \<in> set (registrations d) \<Longrightarrow> p r \<Longrightarrow> same_identity (f r) r \<and> reg_tries (f r) = reg_tries r
        \<and> (reg_cur (f r) = reg_cur r \<or> reg_cur (f r) = None)"
    and st: "\<And>r. r \<in> set (registrations d) \<Longrightarrow> p r \<Longrightarrow> reg_status r \<noteq> R_REGISTERING \<and> reg_status r \<noteq> R_REGISTERED
        \<and> reg_status (f r) \<noteq> R_REGISTERING \<and> reg_status (f r) \<noteq> R_REGISTERED"
    and stop: "\<And>r. r \<in> set (registrations d) \<Longrightarrow> p r \<Longrightarrow> reg_status (f r) \<in> {R_RECONCILING, R_QUARANTINED} \<Longrightarrow> 0 < reg_tries r"
  shows "reg_inv d'"
proof (rule reg_inv_frame [OF inv rs, where q = "\<lambda>_. False" and h = id])
  fix r assume r: "r \<in> set (registrations d)" "p r"
  have c: "reg_cur r = None" using reg_cur_none [OF inv r(1)] st [OF r] by blast
  have "0 \<le> reg_tries r" using reg_invD(5) [OF inv r(1)] by (simp add: reg_ok_def)
  then show "same_identity (f r) r \<and> reg_tries (f r) = reg_tries r \<and> reg_cur (f r) = reg_cur r \<and> reg_ok (f r)
      \<and> (reg_status r = R_REGISTERED \<longrightarrow> reg_status (f r) = R_REGISTERED)"
    using c f [OF r] st [OF r] stop [OF r] unfolding reg_ok_def by auto
qed (use ats in auto)

lemma owner_unique:
  assumes "reg_inv d" "a \<in> set (reg_attempts d)" "owns_registration gid aid token a" "b \<in> set (reg_attempts d)" "rat_id b = aid"
  shows "b = a"
  using keyed_unique [OF reg_invD(4) [OF assms(1)] assms(4,2)] assms(3,5) by (simp add: owns_registration_def)

lemma registration_unique:
  assumes "reg_inv d" "r \<in> set (registrations d)" "s \<in> set (registrations d)" "reg_id r = reg_id s"
  shows "r = s"
  by (rule keyed_unique [OF reg_invD(3) [OF assms(1)] assms(2-4)])

subsection \<open>Creation and requeueing\<close>

lemma max_seq_ge: "r \<in> set rs \<Longrightarrow> reg_seq r \<le> max_seq rs"
proof -
  have le: "x \<le> fold (\<lambda>r. max (reg_seq r)) rs x" for x :: int and rs
  proof (induction rs arbitrary: x)
    case (Cons r rs)
    show ?case using Cons.IH [of "max (reg_seq r) x"] by (auto elim: max.boundedE)
  qed simp
  have "r \<in> set rs \<Longrightarrow> reg_seq r \<le> fold (\<lambda>r. max (reg_seq r)) rs x" for x
  proof (induction rs arbitrary: x)
    case (Cons s rs)
    then show ?case using le [of "max (reg_seq s) x" rs] by auto
  qed simp
  then show "r \<in> set rs \<Longrightarrow> reg_seq r \<le> max_seq rs" by (simp add: max_seq_def)
qed

lemma ensureE:
  assumes "ensureRegistrationTx E rid ds cid config intent now d = Inr d'"
  obtains "d' = d"
  | r e where "d' = add_event e (d\<lparr>registrations := registrations d @ [r]\<rparr>)"
      "\<forall>s \<in> set (registrations d). \<not> registration_conflict r s" "reg_status r = R_PENDING" "reg_tries r = 0" "reg_cur r = None"
      "reg_run r = rid" "reg_dataset r = ds" "reg_commit r = cid"
      "reg_seq r = max_seq (filter (\<lambda>s. reg_dataset s = reg_dataset r \<and> reg_target s = reg_target r) (registrations d)) + 1"
      "\<exists>key mjson m. parse_intent E intent = Some (key, mjson) \<and> reg_manifest_key r = key \<and> sha256 E mjson = cid
         \<and> parse_manifest E mjson = Some m \<and> mf_run m = rid \<and> mf_schema m = 2"
proof (cases "d' = d")
  case False
  then obtain c key mjson m e where r: "d' = add_event e (d\<lparr>registrations := registrations d @ [new_registration E rid ds cid c key m now d]\<rparr>)"
      "\<not> list_ex (registration_conflict (new_registration E rid ds cid c key m now d)) (registrations d)"
    and m: "parse_intent E intent = Some (key, mjson)" "parse_manifest E mjson = Some m" "mf_schema m = 2" "mf_run m = rid"
      "sha256 E mjson = cid"
    using assms unfolding ensureRegistrationTx_def Let_def by (auto split: if_splits option.splits prod.splits)
  show ?thesis
    by (rule that(2) [OF r(1)]) (use r(2) m in \<open>auto simp: new_registration_def list_ex_iff\<close>)
qed (use that(1) in blast)

lemma ensure_reg_inv:
  assumes inv: "reg_inv d" and e: "ensureRegistrationTx E rid ds cid config intent now d = Inr d'"
  shows "reg_inv d'"
  using e
proof (cases rule: ensureE)
  case (2 r e)
  have "bound reg_id reg_cur rat_id rat_reg rat_live (registrations d @ [r]) (reg_attempts d)"
    using 2 by (intro bound_insert [OF reg_invD(1) [OF inv]]) (auto simp: registration_conflict_def)
  moreover have "line_inv (registrations d @ [r])"
  proof (rule line_inv_append [OF reg_invD(2) [OF inv]])
    show "reg_ok r" using 2 by (simp add: reg_ok_def)
    show "reg_seq s < reg_seq r" if "s \<in> set (registrations d)" "same_line s r" for s
      using max_seq_ge [of s "filter (\<lambda>s. reg_dataset s = reg_dataset r \<and> reg_target s = reg_target r) (registrations d)"] that 2(9)
      by (simp add: same_line_def)
  qed (use 2 in simp)
  ultimately show ?thesis using 2(1) by (simp add: reg_inv_def reg_bound_def)
qed (use inv in simp)

lemma requeueE:
  assumes "RequeueRegistrationManual E rid ov now d = Inr (x, d')"
  obtains p f where "registrations d' = update_where p f (registrations d)" "reg_attempts d' = reg_attempts d"
    "\<And>r. r \<in> set (registrations d) \<Longrightarrow> p r \<Longrightarrow> same_identity (f r) r \<and> reg_tries (f r) = reg_tries r
        \<and> reg_cur (f r) = None \<and> reg_status r \<in> {R_PENDING, R_RETRY_REQUIRED, R_FAILED, R_CANCELED}
        \<and> reg_status (f r) \<in> {R_PENDING, R_RETRY_REQUIRED}"
  using assms unfolding RequeueRegistrationManual_def Let_def
  by (fastforce simp: same_identity_def split: if_splits elim!: reg_event_InrE)

lemma requeue_reg_inv:
  assumes inv: "reg_inv d" and e: "RequeueRegistrationManual E rid ov now d = Inr (x, d')"
  shows "reg_inv d'"
  using e
proof (cases rule: requeueE)
  case (1 p f)
  show ?thesis by (rule reg_inv_idle [OF inv 1(1,2)]) (use 1(3) in force)+
qed

subsection \<open>Claims\<close>

text \<open>The four ways a claim ends: nothing claimable, a spent budget, a lost race, a granted attempt.\<close>

lemma claimE:
  assumes c: "ClaimRegistration E now p tokenFn d = Inr (x, d')"
  obtains "x = None" "registrations d' = registrations d" "reg_attempts d' = reg_attempts d" "rec_attempts d' = rec_attempts d"
      "\<forall>r \<in> set (registrations d). \<not> reg_claimable (registrations d) now r"
  | r where "x = None" "r \<in> set (registrations d)" "reg_claimable (registrations d) now r"
      "(if rp_max p \<le> 0 then 3 else rp_max p) + reg_budget r \<le> reg_tries r"
      "d' = d\<lparr>registrations := update_where (\<lambda>s. reg_id s = reg_id r)
         (\<lambda>s. s\<lparr>reg_status := R_FAILED, reg_eclass := ''RETRY_LIMIT_EXHAUSTED'', reg_updated := now\<rparr>) (registrations d)\<rparr>"
  | r rs where "x = None" "r \<in> set (registrations d)" "d' = d\<lparr>registrations := rs\<rparr>"
      "rows_affected (\<lambda>s. reg_id s = reg_id r \<and> reg_status s \<in> {R_PENDING, R_RETRY_REQUIRED} \<and> reg_cur s = None) (registrations d) \<noteq> 1"
      "reg_claimable (registrations d) now r"
  | r a g where "x = Some (g, a)" "r \<in> set (registrations d)" "reg_claimable (registrations d) now r"
      "\<And>s. s \<in> set (registrations d) \<Longrightarrow> reg_claimable (registrations d) now s \<Longrightarrow> (reg_seq r, reg_id r) \<le> (reg_seq s, reg_id s)"
      "registrations d' = update_where (\<lambda>s. reg_id s = reg_id r \<and> reg_status s \<in> {R_PENDING, R_RETRY_REQUIRED} \<and> reg_cur s = None)
         (\<lambda>s. s\<lparr>reg_status := R_REGISTERING, reg_tries := reg_tries r + 1, reg_cur := Some (rat_id a), reg_next := None,
                reg_updated := now\<rparr>) (registrations d)"
      "registering_unique (registrations d')" "reg_attempts d' = reg_attempts d @ [a]" "rec_attempts d' = rec_attempts d"
      "\<forall>b \<in> set (reg_attempts d). \<not> reg_attempt_conflict a b" "rat_live a" "rat_reg a = reg_id r" "rat_phase a = PREPARED"
      "rat_number a = reg_tries r + 1" "reg_id g = reg_id r" "reg_cur g = Some (rat_id a)" "tokenFn = Inr (rat_token a)"
      "rat_deadline a > now"
proof -
  let ?S = "select_first_by (\<lambda>r. (reg_seq r, reg_id r)) (reg_claimable (registrations d) now) (registrations d)"
  show ?thesis
  proof (cases ?S)
    case None
    then obtain d1 where f: "foldM (record_blocked E now) (blocked_pairs (registrations d)) d = Inr d1" and x: "x = None" "d' = d1"
      using c by (auto simp: ClaimRegistration_def)
    have "registrations d1 = registrations d \<and> reg_attempts d1 = reg_attempts d \<and> rec_attempts d1 = rec_attempts d"
      by (rule foldM_inv [OF f, where P = "\<lambda>s. registrations s = registrations d \<and> reg_attempts s = reg_attempts d
            \<and> rec_attempts s = rec_attempts d"]) (auto simp: record_blocked_def elim!: reg_event_InrE)
    then show ?thesis using that(1) x None by (simp add: select_first_by_NoneD)
  next
    case (Some r)
    note r = select_first_by_SomeD [OF Some]
    show ?thesis
    proof (cases x)
      case None
      then show ?thesis
        using c that(2) [OF _ r(1,2)] that(3) [OF _ r(1)] r(2)
        unfolding ClaimRegistration_def Some Let_def
        by (auto simp: scanRegistration_def split: if_splits)
    next
      case (Some y)
      obtain g a where y: "y = (g, a)" by fastforce
      show ?thesis
        using c that(4) [OF Some [unfolded y] r(1,2) r(3)] unfolding ClaimRegistration_def \<open>?S = Some r\<close> Let_def Some y
        by (auto simp: scanRegistration_def update_unique_def Let_def split: if_splits elim!: reg_event_InrE)
    qed
  qed
qed

lemma claimable_idle:
  assumes "reg_inv d" "r \<in> set (registrations d)" "reg_claimable (registrations d) now r"
  shows "reg_cur r = None" "reg_status r \<in> {R_PENDING, R_RETRY_REQUIRED}" "earlier_open (registrations d) r = []"
  using reg_cur_none [OF assms(1,2)] assms(3) by (auto simp: reg_claimable_def)

lemma claimable_row:
  assumes "reg_inv d" "r \<in> set (registrations d)" "reg_claimable (registrations d) now r" "s \<in> set (registrations d)"
  shows "reg_id s = reg_id r \<and> reg_status s \<in> {R_PENDING, R_RETRY_REQUIRED} \<and> reg_cur s = None \<longleftrightarrow> reg_id s = reg_id r"
  using registration_unique [OF assms(1,4,2)] claimable_idle [OF assms(1-3)] by auto

lemma claim_reg_inv:
  assumes inv: "reg_inv d" and c: "ClaimRegistration E now p tokenFn d = Inr (x, d')"
  shows "reg_inv d'"
  using c
proof (cases rule: claimE)
  case 1
  then show ?thesis using inv by (simp add: reg_inv_def reg_bound_def)
next
  case (2 r)
  have only: "s = r" if "s \<in> set (registrations d)" "reg_id s = reg_id r" for s using registration_unique [OF inv that(1) 2(2) that(2)] .
  have st: "reg_status s \<in> {R_PENDING, R_RETRY_REQUIRED}" if "s \<in> set (registrations d)" "reg_id s = reg_id r" for s
    using only [OF that] claimable_idle [OF inv 2(2,3)] by simp
  show ?thesis
    by (rule reg_inv_idle [OF inv, of _ "\<lambda>s. reg_id s = reg_id r"]) (use 2(5) st in \<open>force simp: same_identity_def\<close>)+
next
  case (3 r rs)
  have "rows_affected (\<lambda>s. reg_id s = reg_id r \<and> reg_status s \<in> {R_PENDING, R_RETRY_REQUIRED} \<and> reg_cur s = None) (registrations d) = 1"
    by (rule keyed_rows_affected_one [OF reg_invD(3) [OF inv] 3(2)]) (use claimable_idle [OF inv 3(2,5)] in auto)
  then show ?thesis using 3(4) by simp
next
  case (4 r a g)
  note row = claimable_row [OF inv 4(2,3)]
  have only: "s = r" if "s \<in> set (registrations d)" "reg_id s = reg_id r" for s using registration_unique [OF inv that(1) 4(2) that(2)] .
  have "bound reg_id reg_cur rat_id rat_reg rat_live (registrations d') (reg_attempts d @ [a])"
    by (rule bound_grant [OF reg_invD(1) [OF inv] 4(2) claimable_idle(1) [OF inv 4(2,3)] 4(5)])
      (use row 4(9,10,11) in \<open>auto simp: reg_attempt_conflict_def\<close>)
  moreover have "line_inv (registrations d')"
    unfolding 4(5) update_where_def
  proof (rule line_inv_map [OF reg_invD(2) [OF inv]], goal_cases)
    case (1 s)
    then show ?case using reg_invD(5) [OF inv 1] reg_invD(5) [OF inv 4(2)] by (auto simp: same_identity_def reg_ok_def)
  next
    case (2 s)
    then show ?case using only [OF 2(1)] claimable_idle(3) [OF inv 4(2,3)] by (auto split: if_splits)
  qed (auto)
  ultimately show ?thesis using 4(7) by (simp add: reg_inv_def reg_bound_def)
qed

subsection \<open>Work on an attempt\<close>

lemma advance_reg_inv:
  assumes inv: "reg_inv d" and e: "AdvanceRegistrationPhase gid aid token from to now d = Inr (x, d')"
  shows "reg_inv d'"
  using e unfolding AdvanceRegistrationPhase_def Let_def
  by (auto intro!: reg_inv_frame [OF inv, where p = "\<lambda>_. False" and f = id] split: if_splits)

lemma renew_reg_inv:
  assumes inv: "reg_inv d" and e: "RenewRegistrationLease gid aid token now lease d = Inr (x, d')"
  shows "reg_inv d'"
  using e unfolding RenewRegistrationLease_def Let_def
  by (auto intro!: reg_inv_frame [OF inv, where p = "\<lambda>_. False" and f = id] split: if_splits)

lemma persist_receiptE:
  assumes "persist_receipt E from extra t msg gid aid token receipt now d = Inr (x, d')"
  obtains e where "d' = add_event e (d\<lparr>reg_attempts := update_where (\<lambda>a. owns_registration gid aid token a \<and> rat_phase a = from)
        (\<lambda>a. a\<lparr>rat_phase := CATALOG_COMMITTED, rat_receipt := receipt, rat_updated := now\<rparr>) (reg_attempts d),
      registrations := update_where (\<lambda>r. reg_id r = gid \<and> reg_cur r = Some aid \<and> reg_status r = R_REGISTERING \<and> extra r)
        (\<lambda>r. r\<lparr>reg_receipt := receipt, reg_updated := now\<rparr>) (registrations d)\<rparr>)"
    "\<exists>a \<in> set (reg_attempts d). owns_registration gid aid token a \<and> rat_phase a = from"
    "\<exists>r \<in> set (registrations d). reg_id r = gid \<and> reg_cur r = Some aid \<and> reg_status r = R_REGISTERING \<and> extra r"
  using assms that unfolding persist_receipt_def Let_def
  by (auto dest!: rows_affected_Suc0D split: if_splits elim!: reg_event_InrE)

lemma receipt_reg_inv:
  assumes inv: "reg_inv d" and e: "persist_receipt E from extra t msg gid aid token receipt now d = Inr (x, d')"
  shows "reg_inv d'"
  using e
proof (cases rule: persist_receiptE)
  case (1 e)
  show ?thesis
    by (rule reg_inv_frame [OF inv, of _ _ "\<lambda>r. r\<lparr>reg_receipt := receipt, reg_updated := now\<rparr>"
          _ "\<lambda>a. a\<lparr>rat_phase := CATALOG_COMMITTED, rat_receipt := receipt, rat_updated := now\<rparr>"])
      (use 1(1) reg_invD(5) [OF inv] in \<open>auto simp: same_identity_def reg_ok_def\<close>)
qed

lemma completeE:
  assumes "CompleteRegistration E gid aid token now d = Inr (x, d')"
  obtains a r where
    "registrations d' = update_where (\<lambda>r. reg_id r = gid \<and> reg_cur r = Some aid \<and> reg_status r = R_REGISTERING)
        (\<lambda>r. r\<lparr>reg_status := R_REGISTERED, reg_cur := None, reg_registered := Some now, reg_updated := now, reg_eclass := '''',
               reg_emsg := None\<rparr>) (registrations d)"
    "reg_attempts d' = update_where (\<lambda>a. owns_registration gid aid token a \<and> rat_phase a = ICE_STATE_WRITING)
        (\<lambda>a. a\<lparr>rat_status := RA_SUCCEEDED, rat_phase := VERIFIED, rat_finished := Some now, rat_updated := now\<rparr>) (reg_attempts d)"
    "rec_attempts d' = rec_attempts d"
    "a \<in> set (reg_attempts d)" "owns_registration gid aid token a" "rat_phase a = ICE_STATE_WRITING"
    "r \<in> set (registrations d)" "reg_id r = gid" "reg_cur r = Some aid" "reg_status r = R_REGISTERING"
  using assms that unfolding CompleteRegistration_def Let_def
  by (auto dest!: rows_affected_Suc0D split: if_splits elim!: reg_event_InrE)

lemma complete_reg_inv:
  assumes inv: "reg_inv d" and e: "CompleteRegistration E gid aid token now d = Inr (x, d')"
  shows "reg_inv d'"
  using e
proof (cases rule: completeE)
  case (1 a r)
  note own = owner_unique [OF inv 1(4,5)]
  have st: "r \<in> set (registrations d) \<Longrightarrow> reg_cur r = Some aid \<Longrightarrow> reg_status r = R_REGISTERING" for r
    by (rule reg_cur_registering [OF inv])
  show ?thesis
  proof (rule reg_inv_end [OF inv 1(1,2), of gid aid])
    fix b assume b: "b \<in> set (reg_attempts d)"
    show "owns_registration gid aid token b \<and> rat_phase b = ICE_STATE_WRITING \<longleftrightarrow> rat_id b = aid"
      using own [OF b] 1(5,6) by (auto simp: owns_registration_def)
    show "rat_id b = aid \<Longrightarrow> rat_reg b = gid" using own [OF b] 1(5) by (simp add: owns_registration_def)
  qed (use st in \<open>auto simp: same_identity_def\<close>)
qed

text \<open>What the failure of an attempt writes.\<close>

definition ended_attempt :: "reg_outcome \<Rightarrow> string \<Rightarrow> time \<Rightarrow> reg_attempt \<Rightarrow> reg_attempt" where
  "ended_attempt o1 msg now b = b\<lparr>rat_status := go_attempt o1, rat_finished := Some now, rat_fclass := go_class o1,
     rat_fmsg := Some msg, rat_next := go_next o1, rat_updated := now\<rparr>"

lemma failE:
  assumes "FailRegistrationAttempt E gid aid token cls msg retryable definite now p d = Inr (x, d')"
  obtains a r where
    "registrations d' = update_where (\<lambda>r. reg_id r = gid \<and> reg_cur r = Some aid)
       (settle_registration (fail_outcome (rat_phase a) (rat_number a) cls retryable definite now p) msg now) (registrations d)"
    "reg_attempts d' = update_where (\<lambda>b. rat_id b = aid)
       (ended_attempt (fail_outcome (rat_phase a) (rat_number a) cls retryable definite now p) msg now) (reg_attempts d)"
    "rec_attempts d' = rec_attempts d"
    "a \<in> set (reg_attempts d)" "owns_registration gid aid token a"
    "r \<in> set (registrations d)" "reg_id r = gid" "reg_cur r = Some aid"
proof -
  obtain a where a: "select_one (owns_registration gid aid token) (reg_attempts d) = Some a"
    using assms by (auto simp: FailRegistrationAttempt_def)
  show ?thesis
    using assms that [of a] select_one_SomeD [OF a] unfolding FailRegistrationAttempt_def a Let_def ended_attempt_def [abs_def]
    by (auto dest!: rows_affected_Suc0D split: if_splits prod.splits elim!: reg_event_InrE)
qed

lemma fail_outcome_range:
  "go_status (fail_outcome ph n c r df now p) \<in> {R_RETRY_REQUIRED, R_FAILED, R_RECONCILING}"
  "go_attempt (fail_outcome ph n c r df now p) \<noteq> RA_ACTIVE"
  by (auto simp: fail_outcome_def Let_def)

lemma expire_outcome_range:
  "go_status (expire_outcome ph n now p) \<in> {R_RETRY_REQUIRED, R_FAILED, R_RECONCILING}"
  "go_attempt (expire_outcome ph n now p) \<noteq> RA_ACTIVE"
  by (auto simp: expire_outcome_def)

lemma settle_registration_simps [simp]:
  "same_identity (settle_registration o1 msg now r) r" "reg_tries (settle_registration o1 msg now r) = reg_tries r"
  "reg_cur (settle_registration o1 msg now r) = None" "reg_status (settle_registration o1 msg now r) = go_status o1"
  by (simp_all add: settle_registration_def same_identity_def)

lemma ended_attempt_simps [simp]:
  "rat_id (ended_attempt o1 msg now b) = rat_id b" "rat_reg (ended_attempt o1 msg now b) = rat_reg b"
  "rat_status (ended_attempt o1 msg now b) = go_attempt o1"
  by (simp_all add: ended_attempt_def)

lemma fail_reg_inv:
  assumes inv: "reg_inv d" and e: "FailRegistrationAttempt E gid aid token cls msg retryable definite now p d = Inr (x, d')"
  shows "reg_inv d'"
  using e
proof (cases rule: failE)
  case (1 a r)
  note o = fail_outcome_range [of "rat_phase a" "rat_number a" cls retryable definite now p]
  show ?thesis
    by (rule reg_inv_end [OF inv 1(1,2), of gid aid])
      (use 1(5) o owner_unique [OF inv 1(4,5)] in \<open>auto simp: owns_registration_def\<close>)
qed

text \<open>
  The expiry loop: an item is an attempt of the table when the loop started, so its registration is
  the one the table still gives for its id.
\<close>

definition known_attempt :: "db \<Rightarrow> reg_attempt \<Rightarrow> bool" where
  "known_attempt d a \<longleftrightarrow> (\<forall>b \<in> set (reg_attempts d). rat_id b = rat_id a \<longrightarrow> rat_reg b = rat_reg a)"

lemma known_attempt_update:
  assumes "known_attempt d a" "reg_attempts d' = update_where q h (reg_attempts d)"
    "\<And>b. rat_id (h b) = rat_id b \<and> rat_reg (h b) = rat_reg b"
  shows "known_attempt d' a"
  using assms by (auto simp: known_attempt_def in_update_where split: if_splits)

lemma expire_itemE:
  assumes "expire_registration_item E now p (a, n) (k, d) = Inr (k', d')"
  obtains h where "k' = Suc k"
    "registrations d' = update_where (\<lambda>r. reg_id r = rat_reg a \<and> reg_cur r = Some (rat_id a))
        (settle_registration (expire_outcome (rat_phase a) n now p) ''registration lease expired'' now) (registrations d)"
    "reg_attempts d' = update_where (\<lambda>b. rat_id b = rat_id a \<and> rat_status b = RA_ACTIVE) h (reg_attempts d)"
    "rec_attempts d' = rec_attempts d"
    "\<And>b. rat_id (h b) = rat_id b \<and> rat_reg (h b) = rat_reg b \<and> rat_phase (h b) = rat_phase b \<and> rat_token (h b) = rat_token b
       \<and> rat_status (h b) = go_attempt (expire_outcome (rat_phase a) n now p)"
  using assms that [of "\<lambda>b. b\<lparr>rat_status := go_attempt (expire_outcome (rat_phase a) n now p), rat_finished := Some now,
      rat_fclass := go_class (expire_outcome (rat_phase a) n now p), rat_updated := now\<rparr>"]
  unfolding expire_registration_item_def Let_def by (auto elim!: reg_event_InrE)

lemma expire_item_reg_inv:
  assumes inv: "reg_inv d" and known: "known_attempt d a" and e: "expire_registration_item E now p (a, n) (k, d) = Inr (k', d')"
  shows "reg_inv d'"
  using e
proof (cases rule: expire_itemE)
  case (1 h)
  note o = expire_outcome_range [of "rat_phase a" n now p]
  show ?thesis
    by (rule reg_inv_end [OF inv 1(2,3), of "rat_reg a" "rat_id a"]) (use 1(5) o known in \<open>auto simp: known_attempt_def\<close>)
qed

lemma overdue_iff:
  "(a, n) \<in> set (overdue_registrations now d) \<longleftrightarrow> a \<in> set (reg_attempts d) \<and> rat_live a \<and> rat_deadline a \<le> now
     \<and> (\<exists>r \<in> set (registrations d). reg_id r = rat_reg a \<and> reg_cur r = Some (rat_id a) \<and> n = reg_tries r)"
  by (auto simp: overdue_registrations_def)

lemma expire_reg_inv:
  assumes inv: "reg_inv d" and e: "ExpireRegistrationAttempts E now p d = Inr (k, d')"
  shows "reg_inv d'"
proof -
  let ?P = "\<lambda>s. reg_inv (snd s) \<and> (\<forall>a \<in> set (reg_attempts d). known_attempt (snd s) a)"
  have "?P (0, d)" using inv keyed_unique [OF reg_invD(4) [OF inv]] by (auto simp: known_attempt_def)
  moreover have "?P t" if x: "x \<in> set (overdue_registrations now d)" "?P s" "expire_registration_item E now p x s = Inr t" for x s t
  proof -
    obtain a n k c where x': "x = (a, n)" "s = (k, c)" by fastforce
    have a: "a \<in> set (reg_attempts d)" using x(1) x'(1) by (simp add: overdue_iff)
    obtain k' c' where t: "t = (k', c')" by fastforce
    note step = x(3) [unfolded x'(1,2) t]
    have "reg_inv c'" using expire_item_reg_inv [OF _ _ step] x(2) x'(2) a by simp
    moreover have "known_attempt c' b" if b: "b \<in> set (reg_attempts d)" for b
      using step
    proof (cases rule: expire_itemE)
      case (1 h)
      show ?thesis by (rule known_attempt_update [OF _ 1(3)]) (use 1(5) x(2) x'(2) b in auto)
    qed
    ultimately show ?thesis using t by simp
  qed
  ultimately have "?P (k, d')" using foldM_inv [OF e [unfolded ExpireRegistrationAttempts_def], of ?P] by blast
  then show ?thesis by simp
qed

subsection \<open>Cancellation and reconciliation\<close>

lemma cancel_registeringE:
  assumes inv: "reg_inv d" and r: "r \<in> set (registrations d)" "reg_id r = gid" "reg_cur r = Some aid"
    and e: "cancel_registering E gid aid now d = Inr (x, d')"
  obtains p f q h where "registrations d' = update_where p f (registrations d)"
    "reg_attempts d' = update_where q h (reg_attempts d)"
    "\<And>s. s \<in> set (registrations d) \<Longrightarrow> p s \<longleftrightarrow> reg_id s = gid \<and> reg_cur s = Some aid"
    "\<And>b. b \<in> set (reg_attempts d) \<Longrightarrow> rat_live b \<Longrightarrow> q b \<longleftrightarrow> rat_id b = aid"
    "\<And>s. same_identity (f s) s \<and> reg_tries (f s) = reg_tries s \<and> reg_cur (f s) = None
        \<and> reg_status (f s) \<in> {R_RECONCILING, R_CANCELED}"
    "\<And>b. rat_id (h b) = rat_id b \<and> rat_reg (h b) = rat_reg b \<and> \<not> rat_live (h b)"
proof -
  obtain a where a: "select_one (\<lambda>a. rat_id a = aid \<and> rat_status a = RA_ACTIVE) (reg_attempts d) = Some a"
    using e by (auto simp: cancel_registering_def)
  have mem: "a \<in> set (reg_attempts d)" "rat_id a = aid" using select_one_SomeD [OF a] by auto
  have only: "s = r" if "s \<in> set (registrations d)" "reg_id s = gid" for s
    using registration_unique [OF inv that(1) r(1)] that(2) r(2) by simp
  show ?thesis
  proof (cases "rat_phase a = EXTERNAL_COMMIT_STARTED")
    case True
    show ?thesis
      by (rule that [of "\<lambda>r. reg_id r = gid" "\<lambda>r. r\<lparr>reg_status := R_RECONCILING, reg_cur := None,
               reg_eclass := ''EXTERNAL_COMMIT_AMBIGUOUS'', reg_emsg := Some ''cancellation requested after external commit boundary'',
               reg_rec_status := REC_PENDING, reg_updated := now\<rparr>"
            "\<lambda>b. rat_id b = aid" "\<lambda>b. b\<lparr>rat_status := RA_RECONCILING, rat_fclass := ''EXTERNAL_COMMIT_AMBIGUOUS'',
               rat_finished := Some now, rat_updated := now\<rparr>"])
        (use e True r(3) only in \<open>auto simp: cancel_registering_def a same_identity_def elim!: reg_event_InrE\<close>)
  next
    case False
    show ?thesis
      by (rule that [of "\<lambda>r. reg_id r = gid \<and> reg_cur r = Some aid" "\<lambda>r. (canceled_registration now r)\<lparr>reg_cur := None\<rparr>"
            "\<lambda>b. rat_id b = aid \<and> rat_status b = RA_ACTIVE" "\<lambda>b. b\<lparr>rat_status := RA_CANCELED, rat_fclass := ''REGISTRATION_CANCELED'',
               rat_fmsg := Some ''canceled by operator'', rat_finished := Some now, rat_updated := now\<rparr>"])
        (use e False in \<open>auto simp: cancel_registering_def a same_identity_def canceled_registration_def Let_def
           split: if_splits elim!: reg_event_InrE\<close>)
  qed
qed

lemma cancel_registering_reg_inv:
  assumes inv: "reg_inv d" and r: "r \<in> set (registrations d)" "reg_id r = gid" "reg_cur r = Some aid"
    and e: "cancel_registering E gid aid now d = Inr (x, d')"
  shows "reg_inv d'"
  using cancel_registeringE [OF assms]
proof cases
  case (1 p f q h)
  have own: "rat_reg b = gid" if "b \<in> set (reg_attempts d)" "rat_id b = aid" for b
    using bound_cur_live(1) [OF reg_invD(1) [OF inv] r(1,3) that] r(2) by simp
  show ?thesis by (rule reg_inv_end [OF inv 1(1,2), of gid aid]) (use 1(3-6) own in auto)
qed

lemma cancelE:
  assumes e: "CancelRegistration E gid now d = Inr (x, d')"
  obtains st where "registrations d' = update_where (\<lambda>s. reg_id s = gid \<and> reg_status s = st) (canceled_registration now)
        (registrations d)" "reg_attempts d' = reg_attempts d" "st \<in> {R_PENDING, R_RETRY_REQUIRED}"
  | r aid where "r \<in> set (registrations d)" "reg_id r = gid" "reg_cur r = Some aid" "cancel_registering E gid aid now d = Inr (x, d')"
proof -
  obtain r where f: "find_registration gid d = Some r" using e by (auto simp: CancelRegistration_def)
  then have r: "r \<in> set (registrations d)" "reg_id r = gid" by (auto simp: find_registration_def)
  show ?thesis
  proof (cases "reg_status r \<in> {R_PENDING, R_RETRY_REQUIRED}")
    case True
    then have "registrations d' = update_where (\<lambda>s. reg_id s = gid \<and> reg_status s = reg_status r) (canceled_registration now)
        (registrations d)" "reg_attempts d' = reg_attempts d"
      using e by (auto simp: CancelRegistration_def f Let_def split: if_splits elim!: reg_event_InrE)
    then show ?thesis using True that(1) by blast
  next
    case False
    then obtain aid where "reg_cur r = Some aid" "cancel_registering E gid aid now d = Inr (x, d')"
      using e by (auto simp: CancelRegistration_def f split: if_splits reg_status.splits option.splits)
    then show ?thesis using that(2) r by blast
  qed
qed

lemma cancel_reg_inv:
  assumes inv: "reg_inv d" and e: "CancelRegistration E gid now d = Inr (x, d')"
  shows "reg_inv d'"
  using e
proof (cases rule: cancelE)
  case (1 st)
  show ?thesis
    by (rule reg_inv_idle [OF inv 1(1,2)]) (use 1(3) in \<open>auto simp: canceled_registration_def same_identity_def\<close>)
next
  case (2 r aid)
  then show ?thesis using cancel_registering_reg_inv [OF inv] by blast
qed

text \<open>Reconciliation never touches attempts and only moves registrations that are RECONCILING.\<close>

lemma reg_inv_reconciling:
  assumes inv: "reg_inv d"
    and rs: "registrations d' = update_where p f (registrations d)" and ats: "reg_attempts d' = reg_attempts d"
    and f: "\<And>r. same_identity (f r) r \<and> reg_tries (f r) = reg_tries r \<and> reg_cur (f r) = reg_cur r"
    and st: "\<And>r. r \<in> set (registrations d) \<Longrightarrow> p r \<Longrightarrow> reg_status (f r) = reg_status r
        \<or> reg_status r = R_RECONCILING \<and> reg_status (f r) \<in> {R_RETRY_REQUIRED, R_QUARANTINED}"
  shows "reg_inv d'"
proof (rule reg_inv_frame [OF inv rs, where q = "\<lambda>_. False" and h = id])
  fix r assume r: "r \<in> set (registrations d)" "p r"
  show "same_identity (f r) r \<and> reg_tries (f r) = reg_tries r \<and> reg_cur (f r) = reg_cur r \<and> reg_ok (f r)
      \<and> (reg_status r = R_REGISTERED \<longrightarrow> reg_status (f r) = R_REGISTERED)"
    using f [of r] st [OF r] reg_invD(5) [OF inv r(1)] unfolding reg_ok_def by auto
qed (use ats in auto)

lemma decision_range:
  "rd_status (reconciliation_decision out c mx now) \<in> {R_RETRY_REQUIRED, R_QUARANTINED, R_RECONCILING}"
  by (auto simp: reconciliation_decision_def Let_def)

lemma claim_reconciliationE:
  assumes "ClaimReconciliation E now lease tokenFn d = Inr (x, d')"
  obtains "x = None" "d' = d"
  | p f where "registrations d' = update_where p f (registrations d)" "reg_attempts d' = reg_attempts d"
      "\<And>r. same_identity (f r) r \<and> reg_tries (f r) = reg_tries r \<and> reg_cur (f r) = reg_cur r \<and> reg_status (f r) = reg_status r"
proof (cases "registrations d' = registrations d \<and> x = None \<and> d' = d")
  case False
  then show ?thesis
    using assms that(2) unfolding ClaimReconciliation_def Let_def
    by (fastforce simp: same_identity_def split: if_splits option.splits)
qed (use that(1) in blast)

lemma claim_reconciliation_reg_inv:
  assumes inv: "reg_inv d" and e: "ClaimReconciliation E now lease tokenFn d = Inr (x, d')"
  shows "reg_inv d'"
  using e
proof (cases rule: claim_reconciliationE)
  case (2 p f)
  then show ?thesis by (intro reg_inv_reconciling [OF inv 2(1,2)]) auto
qed (use inv in simp)

lemma apply_decisionE:
  assumes "ApplyReconciliationDecision E gid aid token out ob now mx d = Inr (x, d')"
  obtains g f where "g \<in> set (registrations d)" "reg_id g = gid" "reg_status g = R_RECONCILING" "reg_rec_status g = REC_INSPECTING"
    "reg_rec_cur g = Some aid"
    "registrations d' = update_where (\<lambda>r. reg_id r = gid \<and> reg_rec_cur r = Some aid) f (registrations d)"
    "reg_attempts d' = reg_attempts d"
    "rec_attempts d' = update_where (\<lambda>a. rec_id a = aid \<and> rec_token a = token \<and> rec_status a = RA_ACTIVE)
       (\<lambda>a. a\<lparr>rec_status := rd_attempt (reconciliation_decision out (reg_ambiguity g) mx now), rec_obs_start := ob_start ob,
              rec_obs_end := ob_end ob, rec_outcome := out, rec_evidence := ob_digest ob, rec_finished := Some now,
              rec_updated := now\<rparr>) (rec_attempts d)"
    "\<And>r. same_identity (f r) r \<and> reg_tries (f r) = reg_tries r \<and> reg_cur (f r) = reg_cur r \<and> reg_rec_cur (f r) = None
       \<and> reg_status (f r) = rd_status (reconciliation_decision out (reg_ambiguity g) mx now)
       \<and> reg_rec_outcome (f r) = out
       \<and> reg_ambiguity (f r) = rd_cycles (reconciliation_decision out (reg_ambiguity g) mx now)"
proof -
  let ?w = "\<lambda>r. reg_id r = gid \<and> reg_status r = R_RECONCILING \<and> reg_rec_status r = REC_INSPECTING"
  obtain g where g: "select_one ?w (registrations d) = Some g" using assms by (auto simp: ApplyReconciliationDecision_def)
  let ?dec = "reconciliation_decision out (reg_ambiguity g) mx now"
  let ?f = "\<lambda>r. r\<lparr>reg_status := rd_status ?dec, reg_rec_status := rd_rec ?dec, reg_rec_cur := None,
      reg_rec_outcome := out, reg_obs_snapshot := ob_snapshot ob, reg_obs_metadata := ob_end ob,
      reg_matched := ob_matched ob, reg_expected := ob_expected ob, reg_rec_evidence := ob_digest ob,
      reg_receipt := (if ob_receipt ob \<noteq> '''' then ob_receipt ob else reg_receipt r),
      reg_next := rd_next ?dec, reg_ambiguity := rd_cycles ?dec, reg_updated := now\<rparr>"
  show ?thesis
    by (rule that [of g ?f])
      (use assms select_one_SomeD [OF g] in \<open>auto simp: ApplyReconciliationDecision_def g Let_def same_identity_def split: if_splits\<close>)
qed

lemma apply_decision_reg_inv:
  assumes inv: "reg_inv d" and e: "ApplyReconciliationDecision E gid aid token out ob now mx d = Inr (x, d')"
  shows "reg_inv d'"
  using e
proof (cases rule: apply_decisionE)
  case (1 g f)
  have only: "r = g" if "r \<in> set (registrations d)" "reg_id r = gid" for r
    using registration_unique [OF inv that(1) 1(1)] that(2) 1(2) by simp
  have st: "reg_status r = R_RECONCILING" if "r \<in> set (registrations d)" "reg_id r = gid" for r using only [OF that] 1(3) by simp
  show ?thesis
    by (rule reg_inv_reconciling [OF inv 1(6,7)]) (use 1(9) st decision_range [of out "reg_ambiguity g" mx now] in auto)
qed

lemma reconciliation_bookkeeping_reg_inv:
  assumes inv: "reg_inv d" and rs: "registrations d' = update_where p f (registrations d)" "reg_attempts d' = reg_attempts d"
    and "\<And>r. same_identity (f r) r \<and> reg_tries (f r) = reg_tries r \<and> reg_cur (f r) = reg_cur r \<and> reg_status (f r) = reg_status r"
  shows "reg_inv d'"
  using assms(4) by (intro reg_inv_reconciling [OF inv rs]) auto

lemma retry_observation_reg_inv:
  assumes inv: "reg_inv d" and e: "RetryReconciliationObservation E gid aid token cls msg now bo mx d = Inr (x, d')"
  shows "reg_inv d'"
proof -
  obtain f where "registrations d' = update_where (\<lambda>r. reg_id r = gid \<and> reg_rec_cur r = Some aid) f (registrations d)"
    "reg_attempts d' = reg_attempts d"
    "\<And>r. same_identity (f r) r \<and> reg_tries (f r) = reg_tries r \<and> reg_cur (f r) = reg_cur r \<and> reg_status (f r) = reg_status r"
    using e unfolding RetryReconciliationObservation_def Let_def by (fastforce simp: same_identity_def)
  then show ?thesis by (rule reconciliation_bookkeeping_reg_inv [OF inv])
qed

lemma expire_reconciliation_reg_inv:
  assumes inv: "reg_inv d" and e: "ExpireReconciliationAttempts E now bo mx d = Inr (k, d')"
  shows "reg_inv d'"
proof -
  have "reg_inv (snd (k, d'))"
    using e unfolding ExpireReconciliationAttempts_def
  proof (rule foldM_inv [where P = "\<lambda>s. reg_inv (snd s)"])
    fix a s t assume s: "reg_inv (snd s)" and i: "expire_reconciliation_item E now bo mx a s = Inr t"
    obtain f where "registrations (snd t) = update_where (\<lambda>r. reg_id r = rec_reg a \<and> reg_rec_cur r = Some (rec_id a)) f (registrations (snd s))"
      "reg_attempts (snd t) = reg_attempts (snd s)"
      "\<And>r. same_identity (f r) r \<and> reg_tries (f r) = reg_tries r \<and> reg_cur (f r) = reg_cur r \<and> reg_status (f r) = reg_status r"
      using i unfolding expire_reconciliation_item_def Let_def
      by (cases s) (fastforce simp: same_identity_def split: if_splits elim!: reg_event_InrE)
    then show "reg_inv (snd t)" by (rule reconciliation_bookkeeping_reg_inv [OF s])
  qed (use inv in simp)
  then show ?thesis by simp
qed

lemma cancel_reconciliation_reg_inv:
  assumes inv: "reg_inv d" and e: "CancelReconciliation E gid now d = Inr (x, d')"
  shows "reg_inv d'"
proof -
  obtain f where "registrations d' = update_where (\<lambda>r. reg_id r = gid \<and> reg_status r = R_RECONCILING) f (registrations d)"
    "reg_attempts d' = reg_attempts d"
    "\<And>r. same_identity (f r) r \<and> reg_tries (f r) = reg_tries r \<and> reg_cur (f r) = reg_cur r \<and> reg_status (f r) = reg_status r"
    using e unfolding CancelReconciliation_def Let_def by (fastforce simp: same_identity_def split: if_splits elim!: reg_event_InrE)
  then show ?thesis by (rule reconciliation_bookkeeping_reg_inv [OF inv])
qed

lemma historical_reg_inv:
  assumes inv: "reg_inv d" and e: "ReconcileHistoricalRegistrations E now d = Inr (x, d')"
  shows "reg_inv d'"
proof -
  have ev: "reg_inv (add_event e s) = reg_inv s" for e s by (simp add: reg_inv_def reg_bound_def)
  have "reg_inv (snd (x, d'))"
    using e unfolding ReconcileHistoricalRegistrations_def
  proof (rule foldM_inv [where P = "\<lambda>s. reg_inv (snd s)"])
    fix v s t assume s: "reg_inv (snd s)" and i: "classify_run E now v s = Inr t"
    obtain out c where sc: "s = (out, c)" by fastforce
    have new: "reg_inv c'" if "classify_new E now v c = Inr (h, c')" for h c'
      using that s sc by (auto simp: classify_new_def Let_def split: if_splits option.splits sum.splits intro: ensure_reg_inv)
    show "reg_inv (snd t)"
      using i s new unfolding classify_run_def sc by (auto simp: ev split: option.splits prod.splits)
  qed (use inv in simp)
  then show ?thesis by simp
qed

section \<open>Reachable states\<close>

text \<open>Every operation of the two files as a step; other components leave both tables alone.\<close>

inductive reg_step :: "db \<Rightarrow> db \<Rightarrow> bool" where
  create: "ensureRegistrationTx E rid ds cid config intent now d = Inr d' \<Longrightarrow> reg_step d d'"
| requeue: "RequeueRegistrationManual E rid ov now d = Inr (x, d') \<Longrightarrow> reg_step d d'"
| claim: "ClaimRegistration E now p tokenFn d = Inr (y, d') \<Longrightarrow> reg_step d d'"
| advance: "AdvanceRegistrationPhase gid aid token from to now d = Inr (u, d') \<Longrightarrow> reg_step d d'"
| receipt: "PersistCatalogReceipt E gid aid token rc now d = Inr (u, d') \<Longrightarrow> reg_step d d'"
| no_op: "PersistCatalogNoOpReceipt E pp gid aid token rc now d = Inr (u, d') \<Longrightarrow> reg_step d d'"
| complete: "CompleteRegistration E gid aid token now d = Inr (u, d') \<Longrightarrow> reg_step d d'"
| fail: "FailRegistrationAttempt E gid aid token cls msg re df now p d = Inr (u, d') \<Longrightarrow> reg_step d d'"
| renew: "RenewRegistrationLease gid aid token now lease d = Inr (u, d') \<Longrightarrow> reg_step d d'"
| expire: "ExpireRegistrationAttempts E now p d = Inr (k, d') \<Longrightarrow> reg_step d d'"
| cancel: "CancelRegistration E gid now d = Inr (c, d') \<Longrightarrow> reg_step d d'"
| history: "ReconcileHistoricalRegistrations E now d = Inr (hs, d') \<Longrightarrow> reg_step d d'"
| inspect: "ClaimReconciliation E now lease tokenFn d = Inr (z, d') \<Longrightarrow> reg_step d d'"
| decide: "ApplyReconciliationDecision E gid aid token out ob now mx d = Inr (u, d') \<Longrightarrow> reg_step d d'"
| observe: "RetryReconciliationObservation E gid aid token cls msg now bo mx d = Inr (u, d') \<Longrightarrow> reg_step d d'"
| rec_renew: "RenewReconciliationLease gid aid token now lease d = Inr (u, d') \<Longrightarrow> reg_step d d'"
| rec_expire: "ExpireReconciliationAttempts E now bo mx d = Inr (k, d') \<Longrightarrow> reg_step d d'"
| rec_cancel: "CancelReconciliation E gid now d = Inr (u, d') \<Longrightarrow> reg_step d d'"
| elsewhere: "registrations d' = registrations d \<Longrightarrow> reg_attempts d' = reg_attempts d \<Longrightarrow> reg_step d d'"

definition no_registrations :: "db \<Rightarrow> bool" where
  "no_registrations d \<longleftrightarrow> registrations d = [] \<and> reg_attempts d = []"

interpretation registration: transition_system no_registrations reg_step reg_inv
proof
  show "reg_inv s" if "no_registrations s" for s
    using that by (simp add: no_registrations_def reg_inv_def reg_bound_def bound_def line_inv_def keyed_def)
  show "reg_inv t" if s: "reg_inv s" and "reg_step s t" for s t
    using that(2)
  proof cases
    case receipt
    then show ?thesis unfolding PersistCatalogReceipt_def by (rule receipt_reg_inv [OF s])
  next
    case no_op
    then show ?thesis unfolding PersistCatalogNoOpReceipt_def by (auto intro: receipt_reg_inv [OF s] split: option.splits if_splits)
  next
    case rec_renew
    then have "registrations t = registrations s" "reg_attempts t = reg_attempts s"
      by (auto simp: RenewReconciliationLease_def Let_def split: if_splits)
    then show ?thesis using s by (simp add: reg_inv_def reg_bound_def)
  next
    case elsewhere
    then show ?thesis using s by (simp add: reg_inv_def reg_bound_def)
  qed (blast intro: s ensure_reg_inv requeue_reg_inv claim_reg_inv advance_reg_inv complete_reg_inv fail_reg_inv renew_reg_inv
      expire_reg_inv cancel_reg_inv historical_reg_inv claim_reconciliation_reg_inv apply_decision_reg_inv
      retry_observation_reg_inv expire_reconciliation_reg_inv cancel_reconciliation_reg_inv)+
qed

end
