(* ===== verification/Leases.thy ===== *)
theory Leases
  imports Prelude
begin

text \<open>
  The contract of an exclusive lease with a deadline, as a client sees it: a request \<open>'q\<close> may acquire
  the lease at an instant and becomes its holder \<open>'h\<close>, a genuine holder may renew or release it (the
  empty token, say, is the mark of a free lease and no holder). The master's leadership and the right to publish a run are such leases; their theories interpret this locale.
\<close>

locale exclusive_lease =
  fixes holds :: "'h \<Rightarrow> int \<Rightarrow> 's \<Rightarrow> bool"
    and acquire :: "'q \<Rightarrow> int \<Rightarrow> 's \<Rightarrow> ('h \<times> 's) option"
    and renew :: "'q \<Rightarrow> 'h \<Rightarrow> int \<Rightarrow> 's \<Rightarrow> 's option"
    and release :: "'h \<Rightarrow> 'r \<Rightarrow> 's \<Rightarrow> 's"
    and genuine :: "'h \<Rightarrow> bool"
    and lasting :: "'q \<Rightarrow> bool"
  assumes unique: "holds h t s \<Longrightarrow> holds k t s \<Longrightarrow> h = k"
    and earlier: "holds h t s \<Longrightarrow> u \<le> t \<Longrightarrow> holds h u s"
    and acquire_free: "acquire q t s = Some (h, s') \<Longrightarrow> \<not> holds k t s"
    and acquire_holds: "acquire q t s = Some (h, s') \<Longrightarrow> lasting q \<Longrightarrow> holds h t s'"
    and acquire_only: "acquire q t s = Some (h, s') \<Longrightarrow> holds k u s' \<Longrightarrow> k = h"
    and renew_needs: "renew q h t s = Some s' \<Longrightarrow> genuine h \<Longrightarrow> holds h t s"
    and renew_holds: "renew q h t s = Some s' \<Longrightarrow> genuine h \<Longrightarrow> lasting q \<Longrightarrow> holds h t s'"
    and renew_only: "renew q h t s = Some s' \<Longrightarrow> holds k u s' \<Longrightarrow> k = h"
    and release_holds: "holds k t (release h r s) \<longleftrightarrow> holds k t s \<and> k \<noteq> h"
begin

lemma held_is_taken: "holds h t s \<Longrightarrow> u \<le> t \<Longrightarrow> acquire q u s = None"
  using acquire_free [of q u s] earlier [of h t s u] by (cases "acquire q u s") auto

lemma lapsed_cannot_renew: "\<not> holds h t s \<Longrightarrow> t \<le> u \<Longrightarrow> genuine h \<Longrightarrow> renew q h u s = None"
  using renew_needs [of q h u s] earlier [of h u s t] by (cases "renew q h u s") auto

lemma replaced_cannot_renew: "acquire q t s = Some (k, s') \<Longrightarrow> h \<noteq> k \<Longrightarrow> genuine h \<Longrightarrow> renew p h u s' = None"
  using renew_needs [of p h u s'] acquire_only [of q t s k s'] by (cases "renew p h u s'") auto

text \<open>What anyone but the holder may do up to an instant.\<close>

inductive others :: "'h \<Rightarrow> int \<Rightarrow> 's \<Rightarrow> 's \<Rightarrow> bool" for h t where
  acquired: "u \<le> t \<Longrightarrow> acquire q u s = Some (k, s') \<Longrightarrow> others h t s s'"
| renewed: "u \<le> t \<Longrightarrow> renew q k u s = Some s' \<Longrightarrow> genuine k \<Longrightarrow> k \<noteq> h \<Longrightarrow> others h t s s'"
| released: "k \<noteq> h \<Longrightarrow> s' = release k r s \<Longrightarrow> others h t s s'"
| elsewhere: "(\<And>k u. holds k u s' = holds k u s) \<Longrightarrow> others h t s s'"

lemma others_keep:
  assumes "others h t s s'" "holds h t s"
  shows "holds h t s'"
  using assms(1)
proof cases
  case (acquired u q k)
  then show ?thesis using held_is_taken [OF assms(2), of u q] by simp
next
  case (renewed u q k)
  then show ?thesis using renew_needs [of q k u s s'] earlier [OF assms(2), of u] unique by blast
next
  case (released k r)
  then show ?thesis using assms(2) by (simp add: release_holds)
next
  case elsewhere
  then show ?thesis using assms(2) by simp
qed

lemma undisturbed: "(others h t)\<^sup>*\<^sup>* s s' \<Longrightarrow> holds h t s \<Longrightarrow> holds h t s'"
  by (induction rule: rtranclp_induct) (auto intro: others_keep)

end

end
