(* ===== verification/Commit.thy ===== *)
theory Commit
  imports RegistrationOrder Leases Samples
begin

text \<open>
  The database side of publishing a run (\<open>internal/db/store_runs.go\<close> and
  \<open>internal/db/commit_reconciliation.go\<close>): the commit intent is saved once, the phase follows the
  publication in storage, the completion of the commit creates the catalog registration in the same
  transaction, and failures are retried a bounded number of times. A committer works under a claim of
  the run, an exclusive lease in the sense of \<open>Leases\<close>.
\<close>

section \<open>Intent, phase and completion\<close>

definition SaveCommitIntent :: "string \<Rightarrow> string \<Rightarrow> string \<Rightarrow> db \<Rightarrow> (unit \<times> db) res" where
  "SaveCommitIntent rid cid intent d =
    (let p = (\<lambda>r. run_id r = rid \<and> run_status r = COMMITTING \<and> run_commit_id r = '''') in
     if rows_affected p (runs d) = 1
     then Inr ((), d\<lparr>runs := update_where p
            (\<lambda>r. r\<lparr>run_commit_id := cid, run_commit_intent := intent, run_commit_phase := ''INTENT''\<rparr>) (runs d)\<rparr>)
     else rbind (of_row ErrNoRows (find_run rid d)) (\<lambda>r.
       if run_status r \<noteq> COMMITTING
       then Inl (ErrMsg (''run '' @ rid @ '' is '' @ status_text (run_status r) @ '', not COMMITTING''))
       else if run_commit_id r \<noteq> cid \<or> run_commit_intent r \<noteq> intent
       then Inl (ErrMsg (''commit integrity conflict for run '' @ rid))
       else Inr ((), d)))"

definition SetCommitPhase :: "string \<Rightarrow> string \<Rightarrow> db \<Rightarrow> (unit \<times> db) res" where
  "SetCommitPhase rid phase d = Inr ((), d\<lparr>runs := update_where (\<lambda>r. run_id r = rid \<and> run_status r = COMMITTING)
     (\<lambda>r. r\<lparr>run_commit_phase := phase\<rparr>) (runs d)\<rparr>)"

definition commit_precondition :: "string \<Rightarrow> err" where
  "commit_precondition rid = ErrMsg (''run '' @ rid @ '' commit completion precondition failed'')"

definition succeeded_run :: "time \<Rightarrow> run \<Rightarrow> run" where
  "succeeded_run now s = s\<lparr>run_status := SUCCEEDED, run_finished := Some now, run_error := None, run_fclass := '''',
     run_commit_phase := ''COMPLETE'', run_rec_status := CR_COMPLETE, run_rec_next := None, run_operator := False\<rparr>"

definition CompleteRunCommit :: "env \<Rightarrow> string \<Rightarrow> time \<Rightarrow> db \<Rightarrow> (unit \<times> db) res" where
  "CompleteRunCommit E rid now d =
    rbind (of_row (commit_precondition rid) (select_one (\<lambda>r. run_id r = rid \<and> run_status r = COMMITTING \<and> run_commit_id r \<noteq> ''''
        \<and> run_commit_phase r = ''VERIFIED'') (runs d))) (\<lambda>r.
    rbind (decryptRunRegistrationConfig E rid (run_regcfg r)) (\<lambda>config.
    rbind (ensureRegistrationTx E rid (run_dataset r) (run_commit_id r) config (run_commit_intent r) now d) (\<lambda>d1.
    let p = (\<lambda>s. run_id s = rid \<and> run_status s = COMMITTING \<and> run_commit_id s = run_commit_id r \<and> run_commit_phase s = ''VERIFIED'') in
    if rows_affected p (runs d1) \<noteq> 1 then Inl (commit_precondition rid)
    else Inr ((), add_event
      \<lparr>ev_id = ''commit-'' @ run_commit_id r, ev_run = rid, ev_task = None, ev_ts = now, ev_level = ''INFO'', ev_msg = ''run committed'',
       ev_fields = [(''commit_id'', JStr (run_commit_id r)), (''finalization_phase'', JStr ''COMPLETE'')]\<rparr>
      (d1\<lparr>runs := update_where p (succeeded_run now) (runs d1)\<rparr>)))))"

text \<open>Which runs a commit may be tried for at an instant.\<close>

definition commit_eligible :: "time \<Rightarrow> run \<Rightarrow> bool" where
  "commit_eligible now r \<longleftrightarrow> run_status r = COMMITTING \<and> run_rec_status r \<in> {CR_None, CR_PENDING, CR_RETRY_REQUIRED}
     \<and> (case run_rec_next r of None \<Rightarrow> True | Some t \<Rightarrow> t \<le> now)"

definition ListCommittingRunIDsAt :: "time \<Rightarrow> db \<Rightarrow> string list" where
  "ListCommittingRunIDsAt now d = map run_id (sort_key run_started (filter (commit_eligible now) (runs d)))"

section \<open>Failures of a commit\<close>

record commit_policy =
  cp_max :: int
  cp_base :: duration
  cp_bmax :: duration

definition commit_policy_defaults :: "commit_policy \<Rightarrow> commit_policy" where
  "commit_policy_defaults p = \<lparr>cp_max = (if cp_max p \<le> 0 then 5 else cp_max p),
     cp_base = (if cp_base p \<le> 0 then second else cp_base p), cp_bmax = (if cp_bmax p \<le> 0 then 60 * second else cp_bmax p)\<rparr>"

text \<open>The outcome of a failed attempt: the class of the reconciliation, the run's status, the next try.\<close>

definition commit_failure_outcome :: "commit_policy \<Rightarrow> bool \<Rightarrow> bool \<Rightarrow> int \<Rightarrow> time \<Rightarrow> commit_rec_status \<times> status \<times> time option" where
  "commit_failure_outcome p retryable operator attempt now =
    (if operator then (CR_ACTION_REQUIRED, FAILED, None)
     else if retryable \<and> attempt < cp_max p
     then (CR_RETRY_REQUIRED, COMMITTING, Some (now + doubling (nat (attempt - 1)) (cp_base p) (cp_bmax p)))
     else (CR_TERMINAL, FAILED, None))"

definition RecordCommitReconciliationFailure ::
  "string \<Rightarrow> string \<Rightarrow> string \<Rightarrow> bool \<Rightarrow> bool \<Rightarrow> time \<Rightarrow> commit_policy \<Rightarrow> db \<Rightarrow> (unit \<times> db) res" where
  "RecordCommitReconciliationFailure rid cls msg retryable operator now pol d =
    rbind (of_row ErrNoRows (find_run rid d)) (\<lambda>r.
     if run_status r \<noteq> COMMITTING then Inr ((), d)
     else let attempt = run_rec_attempts r + 1;
              (rstatus, status, next) = commit_failure_outcome (commit_policy_defaults pol) retryable operator attempt now;
              failed = (status = FAILED);
              p = (\<lambda>s. run_id s = rid \<and> run_status s = COMMITTING)
       in if rows_affected p (runs d) \<noteq> 1 then Inl (ErrMsg (''run '' @ rid @ '' commit reconciliation update was fenced''))
       else Inr ((), add_event
         \<lparr>ev_id = ''commit-reconciliation-'' @ rid @ ''-'' @ show_int attempt, ev_run = rid, ev_task = None, ev_ts = now, ev_level = ''ERROR'',
          ev_msg = msg, ev_fields = [(''event_type'', JStr ''COMMIT_RECONCILIATION_FAILED''), (''classification'', JStr cls),
            (''attempt'', JInt attempt), (''retryable'', JBool (rstatus = CR_RETRY_REQUIRED)), (''operator_action_required'', JBool operator)]\<rparr>
         (d\<lparr>runs := update_where p (\<lambda>s. s\<lparr>run_status := status, run_finished := (if failed then Some now else None),
             run_error := Some msg, run_fclass := cls, run_fphase := (if failed then ''commit'' else ''''), run_rec_status := rstatus,
             run_rec_attempts := attempt, run_rec_next := next, run_operator := operator,
             run_commit_phase := (if failed then ''FAILED'' else ''RETRY_REQUIRED'')\<rparr>) (runs d)\<rparr>)))"

section \<open>The claim of a committer\<close>

definition commit_claimable :: "time \<Rightarrow> run \<Rightarrow> bool" where
  "commit_claimable now r \<longleftrightarrow> commit_eligible now r
     \<and> (run_claim_token r = '''' \<or> (case run_claim_expires r of None \<Rightarrow> True | Some t \<Rightarrow> t \<le> now))"

definition ClaimCommittingRun :: "string \<Rightarrow> string \<Rightarrow> time \<Rightarrow> duration \<Rightarrow> db \<Rightarrow> (bool \<times> db) res" where
  "ClaimCommittingRun rid token now lease d =
    (let p = (\<lambda>r. run_id r = rid \<and> commit_claimable now r)
     in Inr (rows_affected p (runs d) = 1,
        d\<lparr>runs := update_where p (\<lambda>r. r\<lparr>run_claim_token := token, run_claim_expires := Some (now + lease)\<rparr>) (runs d)\<rparr>))"

definition claim_live :: "string \<Rightarrow> time \<Rightarrow> run \<Rightarrow> bool" where
  "claim_live token now r \<longleftrightarrow> run_status r = COMMITTING \<and> run_claim_token r = token
     \<and> (case run_claim_expires r of None \<Rightarrow> False | Some t \<Rightarrow> t > now)"

definition RenewCommitClaim :: "string \<Rightarrow> string \<Rightarrow> time \<Rightarrow> duration \<Rightarrow> db \<Rightarrow> (unit \<times> db) res" where
  "RenewCommitClaim rid token now lease d =
    (let p = (\<lambda>r. run_id r = rid \<and> claim_live token now r)
     in if rows_affected p (runs d) \<noteq> 1 then Inl ErrCommitClaimLost
        else Inr ((), d\<lparr>runs := update_where p (\<lambda>r. r\<lparr>run_claim_expires := Some (now + lease)\<rparr>) (runs d)\<rparr>))"

definition ReleaseCommitClaim :: "string \<Rightarrow> string \<Rightarrow> db \<Rightarrow> (unit \<times> db) res" where
  "ReleaseCommitClaim rid token d = Inr ((), d\<lparr>runs := update_where (\<lambda>r. run_id r = rid \<and> run_claim_token r = token)
     (\<lambda>r. r\<lparr>run_claim_token := '''', run_claim_expires := None\<rparr>) (runs d)\<rparr>)"

section \<open>The claim is an exclusive lease\<close>

text \<open>The operations on the row of the run; \<open>claim_row_*\<close> below lifts them to the table.\<close>

definition row_holds :: "string \<Rightarrow> time \<Rightarrow> run \<Rightarrow> bool" where
  "row_holds token now r \<longleftrightarrow> token \<noteq> '''' \<and> claim_live token now r"

definition row_claim :: "string \<times> duration \<Rightarrow> time \<Rightarrow> run \<Rightarrow> (string \<times> run) option" where
  "row_claim q now r = (if commit_claimable now r
     then Some (fst q, r\<lparr>run_claim_token := fst q, run_claim_expires := Some (now + snd q)\<rparr>) else None)"

definition row_renew :: "string \<times> duration \<Rightarrow> string \<Rightarrow> time \<Rightarrow> run \<Rightarrow> run option" where
  "row_renew q token now r = (if claim_live token now r then Some (r\<lparr>run_claim_expires := Some (now + snd q)\<rparr>) else None)"

definition row_release :: "string \<Rightarrow> unit \<Rightarrow> run \<Rightarrow> run" where
  "row_release token _ r = (if run_claim_token r = token then r\<lparr>run_claim_token := '''', run_claim_expires := None\<rparr> else r)"

lemmas row_defs = row_holds_def row_claim_def row_renew_def row_release_def claim_live_def commit_claimable_def commit_eligible_def

interpretation commit_claim: exclusive_lease row_holds row_claim row_renew row_release "\<lambda>h. h \<noteq> ''''" "\<lambda>q. fst q \<noteq> '''' \<and> snd q > 0"
proof
  fix h k :: string and q :: "string \<times> duration" and t u :: int and r :: unit and s s' :: run
  show "row_holds h t s \<Longrightarrow> row_holds k t s \<Longrightarrow> h = k" by (simp add: row_defs)
  show "row_holds h t s \<Longrightarrow> u \<le> t \<Longrightarrow> row_holds h u s" by (auto simp: row_defs split: option.splits)
  show "row_claim q t s = Some (h, s') \<Longrightarrow> \<not> row_holds k t s" by (auto simp: row_defs split: option.splits if_splits)
  show "row_claim q t s = Some (h, s') \<Longrightarrow> fst q \<noteq> '''' \<and> snd q > 0 \<Longrightarrow> row_holds h t s'"
    by (auto simp: row_defs split: if_splits)
  show "row_claim q t s = Some (h, s') \<Longrightarrow> row_holds k u s' \<Longrightarrow> k = h" by (auto simp: row_defs split: if_splits)
  show "row_renew q h t s = Some s' \<Longrightarrow> h \<noteq> '''' \<Longrightarrow> row_holds h t s" by (auto simp: row_defs split: if_splits)
  show "row_renew q h t s = Some s' \<Longrightarrow> h \<noteq> '''' \<Longrightarrow> fst q \<noteq> '''' \<and> snd q > 0 \<Longrightarrow> row_holds h t s'"
    by (auto simp: row_defs split: if_splits)
  show "row_renew q h t s = Some s' \<Longrightarrow> row_holds k u s' \<Longrightarrow> k = h" by (auto simp: row_defs split: if_splits)
  show "row_holds k t (row_release h r s) \<longleftrightarrow> row_holds k t s \<and> k \<noteq> h" by (auto simp: row_defs)
qed

section \<open>Operations on the row of one run\<close>

text \<open>In a table with unique ids, an update of the row of one run is a function of that row.\<close>

lemma run_row_in:
  assumes "keyed run_id (runs d)"
  shows "find_run rid d = Some r \<longleftrightarrow> r \<in> set (runs d) \<and> run_id r = rid"
  unfolding find_run_def using keyed_select_one [OF assms, of r "\<lambda>r. run_id r = rid"] by (auto dest: select_one_SomeD)

lemma run_row_update:
  assumes k: "keyed run_id (runs d)" and r: "find_run rid d = Some r" and f: "\<And>s. run_id (f s) = run_id s"
  shows "find_run rid (d\<lparr>runs := update_where (\<lambda>s. run_id s = rid \<and> q s) f (runs d)\<rparr>) = Some (if q r then f r else r)"
    and "keyed run_id (update_where (\<lambda>s. run_id s = rid \<and> q s) f (runs d))"
    and "rows_affected (\<lambda>s. run_id s = rid \<and> q s) (runs d) = (if q r then 1 else 0)"
    and "find_run i d = Some s \<Longrightarrow> i \<noteq> rid \<Longrightarrow> find_run i (d\<lparr>runs := update_where (\<lambda>s. run_id s = rid \<and> q s) f (runs d)\<rparr>) = Some s"
proof -
  have in_r: "r \<in> set (runs d)" "run_id r = rid" using r run_row_in [OF k] by auto
  have only: "s = r" if "s \<in> set (runs d)" "run_id s = rid" for s using keyed_unique [OF k that(1) in_r(1)] in_r(2) that(2) by simp
  show k': "keyed run_id (update_where (\<lambda>s. run_id s = rid \<and> q s) f (runs d))" using k f by (rule keyed_update_where)
  then have kd: "keyed run_id (runs (d\<lparr>runs := update_where (\<lambda>s. run_id s = rid \<and> q s) f (runs d)\<rparr>))" by simp
  show "find_run rid (d\<lparr>runs := update_where (\<lambda>s. run_id s = rid \<and> q s) f (runs d)\<rparr>) = Some (if q r then f r else r)"
    using in_update_whereI [OF in_r(1), of "\<lambda>s. run_id s = rid \<and> q s" f] in_r(2) f by (simp add: run_row_in [OF kd])
  show "rows_affected (\<lambda>s. run_id s = rid \<and> q s) (runs d) = (if q r then 1 else 0)"
  proof (cases "q r")
    case True
    then show ?thesis using keyed_rows_affected_one [OF k in_r(1), of "\<lambda>s. run_id s = rid \<and> q s"] in_r(2) by auto
  next
    case False
    then show ?thesis using only by (auto simp: sql_simps)
  qed
  show "find_run i (d\<lparr>runs := update_where (\<lambda>s. run_id s = rid \<and> q s) f (runs d)\<rparr>) = Some s" if "find_run i d = Some s" "i \<noteq> rid"
    using that update_where_keepI [of s "runs d" "\<lambda>s. run_id s = rid \<and> q s" f] by (auto simp: run_row_in [OF kd] run_row_in [OF k])
qed

text \<open>What the rest of the system may do to the claim of a run up to an instant, its holder apart.\<close>

inductive claim_rival :: "string \<Rightarrow> string \<Rightarrow> time \<Rightarrow> db \<Rightarrow> db \<Rightarrow> bool" for rid token t where
  claim: "u \<le> t \<Longrightarrow> ClaimCommittingRun rid tok u l d = Inr (b, d') \<Longrightarrow> claim_rival rid token t d d'"
| renew: "u \<le> t \<Longrightarrow> tok \<noteq> token \<Longrightarrow> tok \<noteq> '''' \<Longrightarrow> RenewCommitClaim rid tok u l d = Inr ((), d') \<Longrightarrow> claim_rival rid token t d d'"
| release: "tok \<noteq> token \<Longrightarrow> ReleaseCommitClaim rid tok d = Inr ((), d') \<Longrightarrow> claim_rival rid token t d d'"
| elsewhere: "keyed run_id (runs d') \<Longrightarrow> find_run rid d = Some r \<Longrightarrow> find_run rid d' = Some r' \<Longrightarrow> run_status r' = run_status r
    \<Longrightarrow> run_claim_token r' = run_claim_token r \<Longrightarrow> run_claim_expires r' = run_claim_expires r \<Longrightarrow> claim_rival rid token t d d'"

lemma claim_rival_row:
  assumes st: "claim_rival rid token t d d'" and k: "keyed run_id (runs d)" and r: "find_run rid d = Some r" and h: "row_holds token t r"
  shows "keyed run_id (runs d') \<and> (\<exists>r'. find_run rid d' = Some r' \<and> row_holds token t r')"
  using st
proof cases
  case (claim u tok l b)
  have "row_claim (tok, l) u r = None" by (rule commit_claim.held_is_taken [OF h claim(1)])
  then have "\<not> commit_claimable u r" by (simp add: row_claim_def split: if_splits)
  then show ?thesis using claim(2) run_row_update(1,2) [OF k r, of _ "commit_claimable u"] h
    by (auto simp: ClaimCommittingRun_def Let_def)
next
  case (renew u tok l)
  let ?f = "\<lambda>r. r\<lparr>run_claim_expires := Some (u + l)\<rparr>"
  have "\<not> row_holds tok u r" using commit_claim.unique commit_claim.earlier [OF h renew(1)] renew(2) by blast
  then have "\<not> claim_live tok u r" using renew(3) by (simp add: row_holds_def)
  then show ?thesis using renew(4) run_row_update(3) [OF k r, of _ "claim_live tok u"] by (auto simp: RenewCommitClaim_def Let_def)
next
  case (release tok)
  have "run_claim_token r \<noteq> tok" using h release(1) by (simp add: row_defs)
  then show ?thesis using release(2) run_row_update(1,2) [OF k r, of _ "\<lambda>r. run_claim_token r = tok"] h
    by (auto simp: ReleaseCommitClaim_def)
next
  case (elsewhere r0 r')
  then show ?thesis using r h by (auto simp: row_defs)
qed

lemma claim_rivals_row:
  assumes "(claim_rival rid token t)\<^sup>*\<^sup>* d d'" "keyed run_id (runs d)" "find_run rid d = Some r" "row_holds token t r"
  shows "keyed run_id (runs d') \<and> (\<exists>r'. find_run rid d' = Some r' \<and> row_holds token t r')"
  using assms by (induction rule: rtranclp_induct) (auto dest: claim_rival_row)

section \<open>Properties\<close>

text \<open>
  C20. A committer that claims a run has it to itself until its claim expires: whatever other committers do
  to the run up to an instant before the deadline (claims, renewals and releases with other tokens) and
  whatever else happens while the run stays COMMITTING, its renewal succeeds, every other claim is refused
  without a change and every renewal with another token fails.
\<close>

theorem commit_claim_is_exclusive:
  assumes k: "keyed run_id (runs d)" and c: "ClaimCommittingRun rid token now lease d = Inr (True, d1)" and ne: "token \<noteq> ''''"
    and rivals: "(claim_rival rid token t)\<^sup>*\<^sup>* d1 d2" and t: "t < now + lease"
  shows "(\<exists>d3. RenewCommitClaim rid token t l d2 = Inr ((), d3))
    \<and> (\<forall>tok u m. u \<le> t \<longrightarrow> ClaimCommittingRun rid tok u m d2 = Inr (False, d2))
    \<and> (\<forall>tok m. tok \<noteq> token \<and> tok \<noteq> '''' \<longrightarrow> RenewCommitClaim rid tok t m d2 = Inl ErrCommitClaimLost)"
proof -
  have n1: "rows_affected (\<lambda>r. run_id r = rid \<and> commit_claimable now r) (runs d) = 1" and
    d1: "d1 = d\<lparr>runs := update_where (\<lambda>r. run_id r = rid \<and> commit_claimable now r)
      (\<lambda>r. r\<lparr>run_claim_token := token, run_claim_expires := Some (now + lease)\<rparr>) (runs d)\<rparr>"
    using c by (auto simp: ClaimCommittingRun_def Let_def)
  obtain r where r: "r \<in> set (runs d)" "run_id r = rid" "commit_claimable now r" using rows_affected_oneD [OF n1] by blast
  then have fr: "find_run rid d = Some r" using run_row_in [OF k] by simp
  let ?f = "\<lambda>r. r\<lparr>run_claim_token := token, run_claim_expires := Some (now + lease)\<rparr>"
  have "find_run rid d1 = Some (?f r)" "keyed run_id (runs d1)"
    using run_row_update(1,2) [OF k fr, of ?f "commit_claimable now"] r(3) unfolding d1 by auto
  moreover have "row_holds token t (?f r)" using r(3) ne t by (simp add: row_defs)
  ultimately obtain r2 where r2: "keyed run_id (runs d2)" "find_run rid d2 = Some r2" and h: "row_holds token t r2"
    using claim_rivals_row [OF rivals] by blast
  have "ClaimCommittingRun rid tok u m d2 = Inr (False, d2)" if "u \<le> t" for tok u m
  proof -
    have "row_claim (tok, m) u r2 = None" by (rule commit_claim.held_is_taken [OF h that])
    then have "\<not> commit_claimable u r2" by (simp add: row_claim_def split: if_splits)
    then have "\<not> (run_id s = rid \<and> commit_claimable u s)" if "s \<in> set (runs d2)" for s
      using that r2 run_row_in [OF r2(1), of rid] by (metis option.inject)
    then show ?thesis using run_row_update(3) [OF r2, of "\<lambda>s. s" "commit_claimable u"] \<open>\<not> commit_claimable u r2\<close>
      by (simp add: ClaimCommittingRun_def Let_def update_where_none)
  qed
  moreover have "RenewCommitClaim rid tok t m d2 = Inl ErrCommitClaimLost" if "tok \<noteq> token" "tok \<noteq> ''''" for tok m
  proof -
    have "\<not> claim_live tok t r2" using commit_claim.unique [OF h, of tok] that by (auto simp: row_holds_def)
    then show ?thesis using run_row_update(3) [OF r2, of "\<lambda>s. s" "claim_live tok t"] by (simp add: RenewCommitClaim_def Let_def)
  qed
  moreover have "\<exists>d3. RenewCommitClaim rid token t l d2 = Inr ((), d3)"
    using run_row_update(3) [OF r2, of "\<lambda>s. s" "claim_live token t"] h by (simp add: RenewCommitClaim_def Let_def row_holds_def)
  ultimately show ?thesis by blast
qed

text \<open>Every operation on commits, of any run, and what leaves the identity of all commits alone.\<close>

inductive commit_step :: "db \<Rightarrow> db \<Rightarrow> bool" where
  save: "SaveCommitIntent rid cid intent d = Inr ((), d') \<Longrightarrow> commit_step d d'"
| phase: "SetCommitPhase rid ph d = Inr ((), d') \<Longrightarrow> commit_step d d'"
| complete: "CompleteRunCommit E rid now d = Inr ((), d') \<Longrightarrow> commit_step d d'"
| failure: "RecordCommitReconciliationFailure rid cls msg retryable operator now pol d = Inr ((), d') \<Longrightarrow> commit_step d d'"
| claim: "ClaimCommittingRun rid token now lease d = Inr (b, d') \<Longrightarrow> commit_step d d'"
| renew: "RenewCommitClaim rid token now lease d = Inr ((), d') \<Longrightarrow> commit_step d d'"
| release: "ReleaseCommitClaim rid token d = Inr ((), d') \<Longrightarrow> commit_step d d'"
| elsewhere: "keyed run_id (runs d') \<Longrightarrow> (\<And>i r. find_run i d = Some r \<Longrightarrow> \<exists>r'. find_run i d' = Some r'
      \<and> run_commit_id r' = run_commit_id r \<and> run_commit_intent r' = run_commit_intent r) \<Longrightarrow> commit_step d d'"

text \<open>Row by row, the ids are kept and so is, once it is set, the identity of the commit.\<close>

definition same_commit :: "run \<Rightarrow> run \<Rightarrow> bool" where
  "same_commit s s' \<longleftrightarrow> run_id s' = run_id s
     \<and> (run_commit_id s \<noteq> '''' \<longrightarrow> run_commit_id s' = run_commit_id s \<and> run_commit_intent s' = run_commit_intent s)"

abbreviation keeps_commits :: "db \<Rightarrow> db \<Rightarrow> bool" where
  "keeps_commits d d' \<equiv> list_all2 same_commit (runs d) (runs d')"

lemma keeps_commits_update [simp]:
  "list_all2 same_commit xs (update_where p f xs) \<longleftrightarrow> (\<forall>s \<in> set xs. p s \<longrightarrow> same_commit s (f s))"
  "list_all2 same_commit xs xs"
  by (auto simp: update_where_def list_all2_map2 list_all2_same same_commit_def)

lemma keeps_commits_row:
  assumes kc: "keeps_commits d d'" and k: "keyed run_id (runs d)"
  shows "keyed run_id (runs d')"
    and "find_run i d = Some r \<Longrightarrow> run_commit_id r \<noteq> '''' \<Longrightarrow>
      \<exists>r'. find_run i d' = Some r' \<and> run_commit_id r' = run_commit_id r \<and> run_commit_intent r' = run_commit_intent r"
proof -
  have "map run_id (runs d') = map run_id (runs d)"
    using kc by (induction rule: list_all2_induct) (auto simp: same_commit_def)
  then show k': "keyed run_id (runs d')" using k by (simp add: keyed_def)
  assume r: "find_run i d = Some r" "run_commit_id r \<noteq> ''''"
  then obtain j where j: "j < length (runs d)" "runs d ! j = r" "run_id r = i" by (auto simp: run_row_in [OF k] in_set_conv_nth)
  then have "same_commit r (runs d' ! j)" "runs d' ! j \<in> set (runs d')"
    using kc list_all2_nthD [OF kc j(1)] list_all2_lengthD [OF kc] by auto
  then show "\<exists>r'. find_run i d' = Some r' \<and> run_commit_id r' = run_commit_id r \<and> run_commit_intent r' = run_commit_intent r"
    using r(2) j(3) by (intro exI [of _ "runs d' ! j"]) (simp add: run_row_in [OF k'] same_commit_def)
qed

lemma ensure_runs: "ensureRegistrationTx E rid ds cid config intent now d = Inr d' \<Longrightarrow> runs d' = runs d"
  by (erule ensureE) simp_all

lemma commit_ops_keep:
  "SaveCommitIntent rid cid intent d = Inr ((), d') \<Longrightarrow> keeps_commits d d'"
  "SetCommitPhase rid ph d = Inr ((), d') \<Longrightarrow> keeps_commits d d'"
  "CompleteRunCommit E rid now d = Inr ((), d') \<Longrightarrow> keeps_commits d d'"
  "RecordCommitReconciliationFailure rid cls msg retryable operator now pol d = Inr ((), d') \<Longrightarrow> keeps_commits d d'"
  "ClaimCommittingRun rid token now lease d = Inr (b, d') \<Longrightarrow> keeps_commits d d'"
  "RenewCommitClaim rid token now lease d = Inr ((), d') \<Longrightarrow> keeps_commits d d'"
  "ReleaseCommitClaim rid token d = Inr ((), d') \<Longrightarrow> keeps_commits d d'"
  by (auto simp: SaveCommitIntent_def SetCommitPhase_def CompleteRunCommit_def RecordCommitReconciliationFailure_def
      ClaimCommittingRun_def RenewCommitClaim_def ReleaseCommitClaim_def Let_def same_commit_def succeeded_run_def
      split: if_splits prod.splits dest!: ensure_runs)

lemma commit_step_row:
  assumes st: "commit_step d d'" and k: "keyed run_id (runs d)" and r: "find_run i d = Some r" "run_commit_id r \<noteq> ''''"
  shows "keyed run_id (runs d') \<and> (\<exists>r'. find_run i d' = Some r' \<and> run_commit_id r' = run_commit_id r \<and> run_commit_intent r' = run_commit_intent r)"
proof -
  consider "keeps_commits d d'" | "keyed run_id (runs d')"
      "\<exists>r'. find_run i d' = Some r' \<and> run_commit_id r' = run_commit_id r \<and> run_commit_intent r' = run_commit_intent r"
    using st r(1) by cases (blast dest: commit_ops_keep)+
  then show ?thesis using keeps_commits_row [OF _ k] r by cases blast+
qed

lemma commit_steps_row:
  assumes "commit_step\<^sup>*\<^sup>* d d'" "keyed run_id (runs d)" "find_run i d = Some r" "run_commit_id r \<noteq> ''''"
  shows "keyed run_id (runs d') \<and> (\<exists>r'. find_run i d' = Some r' \<and> run_commit_id r' = run_commit_id r \<and> run_commit_intent r' = run_commit_intent r)"
  using assms
proof (induction rule: rtranclp_induct)
  case (step d1 d2)
  then show ?case using commit_step_row [OF step.hyps(2), of i] by fastforce
qed blast

lemma save_intent_row:
  assumes k: "keyed run_id (runs d)" and ok: "SaveCommitIntent rid cid intent d = Inr ((), d')"
  shows "keyed run_id (runs d')" "\<exists>r. find_run rid d' = Some r \<and> run_commit_id r = cid \<and> run_commit_intent r = intent"
proof -
  let ?q = "\<lambda>r. run_status r = COMMITTING \<and> run_commit_id r = ''''"
  show "keyed run_id (runs d')" by (rule keeps_commits_row(1) [OF commit_ops_keep(1) [OF ok] k])
  obtain r where r: "find_run rid d = Some r"
  proof (cases "find_run rid d")
    case None
    then have "rows_affected (\<lambda>r. run_id r = rid \<and> ?q r) (runs d) = 0" by (auto simp: sql_simps find_run_def select_one_NoneD)
    then show ?thesis using ok None by (simp add: SaveCommitIntent_def)
  qed
  show "\<exists>r. find_run rid d' = Some r \<and> run_commit_id r = cid \<and> run_commit_intent r = intent"
  proof (cases "?q r")
    case True
    then show ?thesis
      using ok run_row_update(1,3) [OF k r, of "\<lambda>r. r\<lparr>run_commit_id := cid, run_commit_intent := intent, run_commit_phase := ''INTENT''\<rparr>" ?q]
      by (auto simp: SaveCommitIntent_def Let_def)
  next
    case False
    then have "rows_affected (\<lambda>r. run_id r = rid \<and> ?q r) (runs d) = 0"
      using run_row_update(3) [OF k r, of "\<lambda>r. r" ?q] by (simp only: if_False)
    then have "d' = d \<and> run_commit_id r = cid \<and> run_commit_intent r = intent"
      using ok r by (simp add: SaveCommitIntent_def split: if_splits)
    then show ?thesis using r by blast
  qed
qed

text \<open>
  C21. The commit of a run has one identity: once a commit intent is saved, no later operation on commits
  changes the commit id or the intent of the run, saving the same intent again succeeds without a change
  while the run is COMMITTING, and saving any other intent is rejected.
\<close>

theorem commit_intent_is_immutable:
  assumes k: "keyed run_id (runs d)" and ok: "SaveCommitIntent rid cid intent d = Inr ((), d1)" and ne: "cid \<noteq> ''''"
    and steps: "commit_step\<^sup>*\<^sup>* d1 d2"
  shows "\<exists>r. find_run rid d2 = Some r \<and> run_commit_id r = cid \<and> run_commit_intent r = intent
    \<and> (run_status r = COMMITTING \<longrightarrow> SaveCommitIntent rid cid intent d2 = Inr ((), d2))
    \<and> (\<forall>cid' intent'. (cid', intent') \<noteq> (cid, intent) \<longrightarrow> (\<exists>e. SaveCommitIntent rid cid' intent' d2 = Inl e))"
proof -
  obtain r1 where r1: "find_run rid d1 = Some r1" "run_commit_id r1 = cid" "run_commit_intent r1 = intent"
    using save_intent_row(2) [OF k ok] by blast
  then obtain r where k2: "keyed run_id (runs d2)" and r: "find_run rid d2 = Some r" "run_commit_id r = cid" "run_commit_intent r = intent"
    using commit_steps_row [OF steps save_intent_row(1) [OF k ok] r1(1)] ne by auto
  have "rows_affected (\<lambda>s. run_id s = rid \<and> run_status s = COMMITTING \<and> run_commit_id s = '''') (runs d2) = 0"
    using run_row_update(3) [OF k2 r(1), of "\<lambda>s. s" "\<lambda>s. run_status s = COMMITTING \<and> run_commit_id s = ''''"] r(2) ne by simp
  then show ?thesis using r by (intro exI [of _ r]) (auto simp: SaveCommitIntent_def)
qed

section \<open>Completion and failure\<close>

text \<open>The settings of a run ask for a registration.\<close>

definition wants_registration :: "env \<Rightarrow> string \<Rightarrow> regcfg option" where
  "wants_registration E config = (if trim_space config = '''' then None
     else case parse_regcfg E config of None \<Rightarrow> None | Some c \<Rightarrow> if cfg_enabled c then Some (normalize_regcfg c) else None)"

lemma trim_space_char: "trim_space s \<noteq> '''' \<Longrightarrow> list_ex (\<lambda>c. c \<noteq> CHR '' '') s"
proof (rule ccontr)
  assume "trim_space s \<noteq> ''''" "\<not> list_ex (\<lambda>c. c \<noteq> CHR '' '') s"
  then have "\<forall>c \<in> set s. is_space c" by (auto simp: list_ex_iff is_space_def)
  then show False using \<open>trim_space s \<noteq> ''''\<close> by (simp add: trim_space_def)
qed

lemma max_seq_nonneg: "0 \<le> max_seq rs"
proof -
  have "0 \<le> x \<Longrightarrow> 0 \<le> fold (\<lambda>r. max (reg_seq r)) rs x" for x :: int
    by (induction rs arbitrary: x) (auto simp: max.coboundedI2)
  then show ?thesis by (simp add: max_seq_def)
qed

lemma ensure_none: "ensureRegistrationTx E rid ds cid config intent now d = Inr d' \<Longrightarrow> wants_registration E config = None \<Longrightarrow> d' = d"
  by (auto simp: ensureRegistrationTx_def wants_registration_def split: if_splits option.splits)

lemma ensure_creates:
  assumes ok: "ensureRegistrationTx E rid ds cid config intent now d = Inr d'" and want: "wants_registration E config = Some c"
    and hash: "\<And>x. length (sha256 E x) = 64"
    and fresh: "\<And>g. g \<in> set (registrations d) \<Longrightarrow> reg_run g \<noteq> rid \<and> reg_id g \<noteq> stableRegistrationID E [rid, target_key E c]"
  obtains key mjson m where "parse_intent E intent = Some (key, mjson)" "parse_manifest E mjson = Some m" "mf_run m = rid" "sha256 E mjson = cid"
    "registrations d' = registrations d @ [new_registration E rid ds cid c key m now d]"
proof -
  obtain c0 where c0: "trim_space config \<noteq> ''''" "parse_regcfg E config = Some c0" "cfg_enabled c0" "c = normalize_regcfg c0"
    using want by (auto simp: wants_registration_def split: if_splits option.splits)
  obtain key mjson m where m: "parse_intent E intent = Some (key, mjson)" "trim_space key \<noteq> ''''" "parse_manifest E mjson = Some m"
      "mf_run m = rid" "sha256 E mjson = cid"
    using ok c0 by (auto simp: ensureRegistrationTx_def Let_def split: if_splits option.splits prod.splits)
  let ?r = "new_registration E rid ds cid c key m now d"
  have "registration_check ?r"
    using max_seq_nonneg hash m(2,5) by (auto simp: registration_check_def new_registration_def trim_space_char add_pos_nonneg add_nonneg_pos)
  moreover have "\<not> registration_conflict ?r g" if "g \<in> set (registrations d)" for g
    using fresh [OF that] that max_seq_ge [of g "filter (\<lambda>r. reg_dataset r = ds \<and> reg_target r = target_key E c) (registrations d)"]
    by (auto simp: registration_conflict_def new_registration_def same_line_def)
  then have "\<not> list_ex (registration_conflict ?r) (registrations d)" by (auto simp: list_ex_iff)
  ultimately have "registrations d' = registrations d @ [?r]"
    using ok c0 m by (auto simp: ensureRegistrationTx_def Let_def split: if_splits)
  then show thesis using that m by blast
qed

lemma complete_commitE:
  assumes k: "keyed run_id (runs d)" and ok: "CompleteRunCommit E rid now d = Inr ((), d')"
  obtains r config d1 where "find_run rid d = Some r" "run_status r = COMMITTING" "run_commit_id r \<noteq> ''''" "run_commit_phase r = ''VERIFIED''"
    "decryptRunRegistrationConfig E rid (run_regcfg r) = Inr config"
    "ensureRegistrationTx E rid (run_dataset r) (run_commit_id r) config (run_commit_intent r) now d = Inr d1"
    "registrations d' = registrations d1" "keyed run_id (runs d')" "find_run rid d' = Some (succeeded_run now r)"
    "\<And>i s. find_run i d = Some s \<Longrightarrow> i \<noteq> rid \<Longrightarrow> find_run i d' = Some s"
proof -
  obtain r config d1 where r: "select_one (\<lambda>r. run_id r = rid \<and> run_status r = COMMITTING \<and> run_commit_id r \<noteq> ''''
        \<and> run_commit_phase r = ''VERIFIED'') (runs d) = Some r" "decryptRunRegistrationConfig E rid (run_regcfg r) = Inr config"
      "ensureRegistrationTx E rid (run_dataset r) (run_commit_id r) config (run_commit_intent r) now d = Inr d1"
    and d': "registrations d' = registrations d1" "runs d' = update_where (\<lambda>s. run_id s = rid \<and> run_status s = COMMITTING
        \<and> run_commit_id s = run_commit_id r \<and> run_commit_phase s = ''VERIFIED'') (succeeded_run now) (runs d1)"
    using ok unfolding CompleteRunCommit_def Let_def by (auto split: if_splits)
  note d'' = d'(2) [unfolded ensure_runs [OF r(3)]]
  let ?q = "\<lambda>s. run_status s = COMMITTING \<and> run_commit_id s = run_commit_id r \<and> run_commit_phase s = ''VERIFIED''"
  have q: "find_run rid d = Some r" "run_status r = COMMITTING" "run_commit_id r \<noteq> ''''" "run_commit_phase r = ''VERIFIED''"
    using select_one_SomeD [OF r(1)] by (auto simp: run_row_in [OF k])
  have f: "run_id (succeeded_run now s) = run_id s" for s by (simp add: succeeded_run_def)
  note U = run_row_update [OF k q(1) f, where q = ?q]
  have same: "find_run i d' = find_run i (d\<lparr>runs := runs d'\<rparr>)" for i by (simp add: find_run_def)
  show thesis
    by (rule that [OF q r(2,3) d'(1)]) (use U q d'' in \<open>simp_all add: same\<close>)
qed

text \<open>
  C19. A run succeeds only with its publication: completing a commit requires a COMMITTING run with a saved
  intent whose storage publication was verified; it makes exactly this run SUCCEEDED, keeping the identity
  of its commit, and in the same transaction queues the catalog registration that its settings ask for
  (authenticated by the commit id, which is the digest of the manifest in the intent) or none when they ask for none.
  A second completion is rejected.
\<close>

theorem success_registers_verified_commit:
  assumes k: "keyed run_id (runs d)" and hash: "\<And>x. length (sha256 E x) = 64" and ok: "CompleteRunCommit E rid now d = Inr ((), d')"
  shows "\<exists>r config. find_run rid d = Some r \<and> run_status r = COMMITTING \<and> run_commit_id r \<noteq> '''' \<and> run_commit_phase r = ''VERIFIED''
    \<and> find_run rid d' = Some (succeeded_run now r) \<and> (\<forall>i s. i \<noteq> rid \<and> find_run i d = Some s \<longrightarrow> find_run i d' = Some s)
    \<and> decryptRunRegistrationConfig E rid (run_regcfg r) = Inr config
    \<and> (case wants_registration E config of
         None \<Rightarrow> registrations d' = registrations d
       | Some c \<Rightarrow> (\<forall>g \<in> set (registrations d). reg_run g \<noteq> rid \<and> reg_id g \<noteq> stableRegistrationID E [rid, target_key E c]) \<longrightarrow>
           (\<exists>g key m. registrations d' = registrations d @ [g] \<and> reg_run g = rid \<and> reg_dataset g = run_dataset r
              \<and> reg_commit g = run_commit_id r \<and> reg_status g = R_PENDING \<and> reg_manifest_key g = key
              \<and> parse_intent E (run_commit_intent r) = Some (key, m) \<and> sha256 E m = run_commit_id r))
    \<and> CompleteRunCommit E rid later d' = Inl (commit_precondition rid)"
  using k ok
proof (cases rule: complete_commitE)
  case (1 r config d1)
  have "case wants_registration E config of
         None \<Rightarrow> registrations d' = registrations d
       | Some c \<Rightarrow> (\<forall>g \<in> set (registrations d). reg_run g \<noteq> rid \<and> reg_id g \<noteq> stableRegistrationID E [rid, target_key E c]) \<longrightarrow>
           (\<exists>g key m. registrations d' = registrations d @ [g] \<and> reg_run g = rid \<and> reg_dataset g = run_dataset r
              \<and> reg_commit g = run_commit_id r \<and> reg_status g = R_PENDING \<and> reg_manifest_key g = key
              \<and> parse_intent E (run_commit_intent r) = Some (key, m) \<and> sha256 E m = run_commit_id r)"
  proof (cases "wants_registration E config")
    case None
    then show ?thesis using ensure_none [OF 1(6)] 1(7) by simp
  next
    case (Some c)
    have "\<exists>g key m. registrations d1 = registrations d @ [g] \<and> reg_run g = rid \<and> reg_dataset g = run_dataset r
        \<and> reg_commit g = run_commit_id r \<and> reg_status g = R_PENDING \<and> reg_manifest_key g = key
        \<and> parse_intent E (run_commit_intent r) = Some (key, m) \<and> sha256 E m = run_commit_id r"
      if "\<forall>g \<in> set (registrations d). reg_run g \<noteq> rid \<and> reg_id g \<noteq> stableRegistrationID E [rid, target_key E c]"
      using that by (auto simp: new_registration_def intro: ensure_creates [OF 1(6) Some hash])
    then show ?thesis using Some 1(7) by simp
  qed
  moreover have "CompleteRunCommit E rid later d' = Inl (commit_precondition rid)"
  proof -
    have "run_status s \<noteq> COMMITTING" if "s \<in> set (runs d')" "run_id s = rid" for s
      using that 1(9) run_row_in [OF 1(8), of rid s] by (auto simp: succeeded_run_def)
    then have "select_one (\<lambda>r. run_id r = rid \<and> run_status r = COMMITTING \<and> run_commit_id r \<noteq> '''' \<and> run_commit_phase r = ''VERIFIED'') (runs d') = None"
      by (auto simp: select_one_NoneD)
    then show ?thesis by (simp add: CompleteRunCommit_def)
  qed
  ultimately show ?thesis using 1(1-5,9,10) by blast
qed

text \<open>A failure recorded for a COMMITTING run changes its row as follows, and nothing else of the runs.\<close>

lemma failure_row:
  assumes k: "keyed run_id (runs d)" and r: "find_run rid d = Some r" and c: "run_status r = COMMITTING"
    and o: "commit_failure_outcome (commit_policy_defaults pol) retryable operator (run_rec_attempts r + 1) now = (rstatus, status, next)"
  obtains d' r' where "RecordCommitReconciliationFailure rid cls msg retryable operator now pol d = Inr ((), d')"
    "keyed run_id (runs d')" "find_run rid d' = Some r'" "run_status r' = status" "run_rec_status r' = rstatus" "run_rec_next r' = next"
    "run_rec_attempts r' = run_rec_attempts r + 1" "run_commit_id r' = run_commit_id r" "run_commit_intent r' = run_commit_intent r"
    "run_finished r' = (if status = FAILED then Some now else None)" "run_operator r' = operator" "run_error r' = Some msg"
proof -
  let ?f = "\<lambda>s. s\<lparr>run_status := status, run_finished := (if status = FAILED then Some now else None),
    run_error := Some msg, run_fclass := cls, run_fphase := (if status = FAILED then ''commit'' else ''''), run_rec_status := rstatus,
    run_rec_attempts := run_rec_attempts r + 1, run_rec_next := next, run_operator := operator,
    run_commit_phase := (if status = FAILED then ''FAILED'' else ''RETRY_REQUIRED'')\<rparr>"
  let ?q = "\<lambda>s. run_status s = COMMITTING"
  have "run_id (?f s) = run_id s" for s by simp
  note U = run_row_update [OF k r this, where q = ?q]
  obtain d' where d': "RecordCommitReconciliationFailure rid cls msg retryable operator now pol d = Inr ((), d')"
      "runs d' = update_where (\<lambda>s. run_id s = rid \<and> ?q s) ?f (runs d)"
    using r c o U(3) by (simp add: RecordCommitReconciliationFailure_def Let_def)
  have "find_run rid d' = find_run rid (d\<lparr>runs := runs d'\<rparr>)" by (simp add: find_run_def)
  then have "find_run rid d' = Some (?f r)" using U(1) c unfolding d'(2) by simp
  then show thesis using that [OF d'(1) _ , of "?f r"] U(2) unfolding d'(2) by simp
qed

lemma not_listed:
  assumes "keyed run_id (runs d)" "find_run rid d = Some r"
  shows "rid \<in> set (ListCommittingRunIDsAt u d) \<longleftrightarrow> commit_eligible u r"
proof
  assume "rid \<in> set (ListCommittingRunIDsAt u d)"
  then obtain s where "s \<in> set (runs d)" "run_id s = rid" "commit_eligible u s" by (auto simp: ListCommittingRunIDsAt_def)
  then show "commit_eligible u r" using assms run_row_in [OF assms(1), of rid s] by simp
next
  assume "commit_eligible u r"
  then show "rid \<in> set (ListCommittingRunIDsAt u d)"
    using assms by (force simp: ListCommittingRunIDsAt_def run_row_in [OF assms(1)])
qed

text \<open>
  A failed commit is retried or ends: recording a failure of a COMMITTING run always succeeds and counts
  it. When the failure is transient and attempts are left, the run stays COMMITTING with its intent and is
  listed for another try exactly from the end of the backoff, which is the base doubled for every earlier
  failure up to the maximum; otherwise the run is FAILED and is never listed again.
\<close>

lemma commit_failure_is_retried_or_final:
  assumes k: "keyed run_id (runs d)" and r: "find_run rid d = Some r" and c: "run_status r = COMMITTING" and n: "0 \<le> run_rec_attempts r"
    and pol: "p = commit_policy_defaults pol" "cp_base p < cp_bmax p" "cp_bmax p \<le> 2 ^ 62"
  shows "\<exists>d' r'. RecordCommitReconciliationFailure rid cls msg retryable operator now pol d = Inr ((), d') \<and> find_run rid d' = Some r'
    \<and> run_rec_attempts r' = run_rec_attempts r + 1 \<and> run_commit_id r' = run_commit_id r \<and> run_commit_intent r' = run_commit_intent r
    \<and> (if retryable \<and> \<not> operator \<and> run_rec_attempts r + 1 < cp_max p
       then run_status r' = COMMITTING \<and> (\<forall>u. rid \<in> set (ListCommittingRunIDsAt u d') \<longleftrightarrow>
              now + min (cp_bmax p) (cp_base p * 2 ^ nat (run_rec_attempts r)) \<le> u)
       else run_status r' = FAILED \<and> run_operator r' = operator \<and> run_finished r' = Some now
         \<and> (\<forall>u. rid \<notin> set (ListCommittingRunIDsAt u d')))"
proof -
  have pos: "0 < cp_base p" by (simp add: pol(1) commit_policy_defaults_def)
  obtain rs st nx where o: "commit_failure_outcome p retryable operator (run_rec_attempts r + 1) now = (rs, st, nx)"
    by (cases "commit_failure_outcome p retryable operator (run_rec_attempts r + 1) now")
  have dbl: "doubling (nat (run_rec_attempts r)) (cp_base p) (cp_bmax p) = min (cp_bmax p) (cp_base p * 2 ^ nat (run_rec_attempts r))"
    by (rule doubling_eq [OF pos pol(2,3)])
  obtain d' r' where F: "RecordCommitReconciliationFailure rid cls msg retryable operator now pol d = Inr ((), d')"
    "keyed run_id (runs d')" "find_run rid d' = Some r'" "run_status r' = st" "run_rec_status r' = rs" "run_rec_next r' = nx"
    "run_rec_attempts r' = run_rec_attempts r + 1" "run_commit_id r' = run_commit_id r" "run_commit_intent r' = run_commit_intent r"
    "run_finished r' = (if st = FAILED then Some now else None)" "run_operator r' = operator"
    using failure_row [OF k r c o [unfolded pol(1)]] by metis
  show ?thesis
    using F(1,3-11) o dbl
    by (intro exI [of _ d'] exI [of _ r'])
       (auto simp: not_listed [OF F(2,3)] commit_failure_outcome_def commit_eligible_def split: if_splits option.splits)
qed

text \<open>The failures of the commit of one run, in order.\<close>

type_synonym commit_failure = "string \<times> string \<times> bool \<times> bool \<times> time"

fun record_failures :: "string \<Rightarrow> commit_policy \<Rightarrow> commit_failure list \<Rightarrow> db \<Rightarrow> db res" where
  "record_failures rid pol [] d = Inr d"
| "record_failures rid pol ((cls, msg, retryable, operator, now) # fs) d =
     rbind (RecordCommitReconciliationFailure rid cls msg retryable operator now pol d) (\<lambda>(_, d1). record_failures rid pol fs d1)"

lemma record_failures_done:
  assumes "find_run rid d = Some r" "run_status r \<noteq> COMMITTING"
  shows "record_failures rid pol fs d = Inr d"
  using assms by (induction fs) (auto simp: RecordCommitReconciliationFailure_def)

text \<open>
  C22. Retrying a commit ends: however the failures are classified, at most as many of them as the policy
  allows attempts can be recorded before the run has left COMMITTING for good; none of the recordings fails,
  and the run is never listed for a commit again.
\<close>

theorem commit_retries_end:
  assumes "keyed run_id (runs d)" "find_run rid d = Some r" "run_status r = COMMITTING" "0 \<le> run_rec_attempts r" "fs \<noteq> []"
    and "cp_max (commit_policy_defaults pol) \<le> run_rec_attempts r + int (length fs)"
  shows "\<exists>d' r'. record_failures rid pol fs d = Inr d' \<and> find_run rid d' = Some r' \<and> run_status r' = FAILED
    \<and> (\<forall>u. rid \<notin> set (ListCommittingRunIDsAt u d'))"
  using assms
proof (induction fs arbitrary: d r)
  case (Cons f fs)
  obtain cls msg retryable operator now where f: "f = (cls, msg, retryable, operator, now)" by (cases f)
  let ?p = "commit_policy_defaults pol"
  obtain rs st nx where o: "commit_failure_outcome ?p retryable operator (run_rec_attempts r + 1) now = (rs, st, nx)"
    by (cases "commit_failure_outcome ?p retryable operator (run_rec_attempts r + 1) now")
  obtain d1 r1 where F: "RecordCommitReconciliationFailure rid cls msg retryable operator now pol d = Inr ((), d1)"
    "keyed run_id (runs d1)" "find_run rid d1 = Some r1" "run_status r1 = st" "run_rec_attempts r1 = run_rec_attempts r + 1"
    using failure_row [OF Cons.prems(1-3) o] by metis
  show ?case
  proof (cases "st = COMMITTING")
    case True
    then have "run_rec_attempts r + 1 < cp_max ?p" using o by (auto simp: commit_failure_outcome_def split: if_splits)
    then show ?thesis using Cons.IH [OF F(2,3)] True F f Cons.prems(4,6) by (cases fs) auto
  next
    case False
    then have "st = FAILED" using o by (auto simp: commit_failure_outcome_def split: if_splits)
    then show ?thesis using record_failures_done [OF F(3)] F f
      by (intro exI [of _ d1] exI [of _ r1]) (simp add: not_listed [OF F(2,3)] commit_eligible_def)
  qed
qed simp

section \<open>Witnesses\<close>

definition committing_run :: run where
  "committing_run = sample_run\<lparr>run_status := COMMITTING, run_commit_phase := ''PREPARING''\<rparr>"

definition committing_db :: db where
  "committing_db = sample_db\<lparr>runs := [committing_run]\<rparr>"

text \<open>A verified commit whose settings enable registration; the hash is constant and the intent its own manifest.\<close>

definition hex_env :: env where
  "hex_env = sample_env\<lparr>sha256 := (\<lambda>s. replicate 64 CHR ''0''),
     parse_regcfg := (\<lambda>s. Some \<lparr>cfg_enabled = True, cfg_engine = '''', cfg_table = ''ns.t'', cfg_uri = ''u''\<rparr>),
     parse_intent := (\<lambda>s. Some (''key'', s)), parse_manifest := (\<lambda>s. Some \<lparr>mf_schema = 2, mf_run = s, mf_artifacts = [s]\<rparr>)\<rparr>"

definition verified_db :: db where
  "verified_db = sample_db\<lparr>runs := [committing_run\<lparr>run_regcfg := ''enc:v1:cfg'', run_commit_id := replicate 64 CHR ''0'',
     run_commit_intent := ''r1'', run_commit_phase := ''VERIFIED''\<rparr>]\<rparr>"

lemma committing_facts: "keyed run_id (runs committing_db)" "find_run ''r1'' committing_db = Some committing_run"
  "run_status committing_run = COMMITTING" "run_rec_attempts committing_run = 0"
  by (simp_all add: committing_db_def committing_run_def sample_run_def keyed_def find_run_def select_one_def)

theorem commit_claim_is_exclusive_witness:
  "\<exists>d1. ClaimCommittingRun ''r1'' ''k1'' 5 10 committing_db = Inr (True, d1) \<and> ClaimCommittingRun ''r1'' ''k2'' 14 10 d1 = Inr (False, d1)"
proof -
  have "fst (case ClaimCommittingRun ''r1'' ''k1'' 5 10 committing_db of Inr x \<Rightarrow> x)" by code_simp
  then obtain d1 where d1: "ClaimCommittingRun ''r1'' ''k1'' 5 10 committing_db = Inr (True, d1)"
    by (simp add: ClaimCommittingRun_def Let_def)
  have "''k1'' \<noteq> ''''" "(14::int) < 5 + 10" by simp_all
  from commit_claim_is_exclusive [OF committing_facts(1) d1 this(1) rtranclp.rtrancl_refl this(2)] d1 show ?thesis by blast
qed

theorem commit_intent_is_immutable_witness:
  "\<exists>d1 e. SaveCommitIntent ''r1'' ''c'' ''i'' committing_db = Inr ((), d1) \<and> SaveCommitIntent ''r1'' ''c'' ''j'' d1 = Inl e"
proof -
  have "\<not> isl (SaveCommitIntent ''r1'' ''c'' ''i'' committing_db)" by code_simp
  then obtain d1 where d1: "SaveCommitIntent ''r1'' ''c'' ''i'' committing_db = Inr ((), d1)"
    by (cases "SaveCommitIntent ''r1'' ''c'' ''i'' committing_db") auto
  have ne: "''c'' \<noteq> ''''" "(''c'', ''j'') \<noteq> (''c'', ''i'')" by simp_all
  have i: "(\<forall>c i. (c, i) \<noteq> (''c'', ''i'') \<longrightarrow> (\<exists>e. SaveCommitIntent ''r1'' c i d1 = Inl e))"
    using commit_intent_is_immutable [OF committing_facts(1) d1 ne(1) rtranclp.rtrancl_refl] by (elim exE conjE)
  obtain e where "SaveCommitIntent ''r1'' ''c'' ''j'' d1 = Inl e" using i [rule_format, OF ne(2)] by (elim exE)
  then show ?thesis using d1 by (intro exI conjI)
qed

theorem success_registers_verified_commit_witness:
  "\<exists>d1 g. CompleteRunCommit hex_env ''r1'' 7 verified_db = Inr ((), d1) \<and> registrations d1 = [g] \<and> reg_run g = ''r1''
    \<and> reg_status g = R_PENDING \<and> CompleteRunCommit hex_env ''r1'' 8 d1 = Inl (commit_precondition ''r1'')"
proof -
  have k: "keyed run_id (runs verified_db)" by (simp add: verified_db_def keyed_def)
  have h: "length (sha256 hex_env x) = 64" for x by (simp add: hex_env_def)
  have "\<not> isl (CompleteRunCommit hex_env ''r1'' 7 verified_db)" by code_simp
  then obtain d1 where d1: "CompleteRunCommit hex_env ''r1'' 7 verified_db = Inr ((), d1)"
    by (cases "CompleteRunCommit hex_env ''r1'' 7 verified_db") auto
  have none: "registrations verified_db = []" by (simp add: verified_db_def sample_db_def)
  have "(case find_run ''r1'' verified_db of None \<Rightarrow> False | Some r \<Rightarrow>
      (case decryptRunRegistrationConfig hex_env ''r1'' (run_regcfg r) of Inl _ \<Rightarrow> False | Inr config \<Rightarrow> wants_registration hex_env config \<noteq> None))"
    by code_simp
  then have want: "\<exists>c. wants_registration hex_env config = Some c" if "decryptRunRegistrationConfig hex_env ''r1'' (run_regcfg r) = Inr config"
      "find_run ''r1'' verified_db = Some r" for r config using that by auto
  from success_registers_verified_commit [OF k h d1, of 8] d1 want show ?thesis unfolding none
    by (fastforce split: option.splits)
qed

definition commit_policy_sample :: commit_policy where
  "commit_policy_sample = \<lparr>cp_max = 2, cp_base = 1, cp_bmax = 8\<rparr>"

theorem commit_retries_end_witness:
  "\<exists>d1 r1. record_failures ''r1'' commit_policy_sample [(''X'', ''m'', True, False, 5), (''X'', ''m'', True, False, 9)] committing_db = Inr d1
    \<and> find_run ''r1'' d1 = Some r1 \<and> run_status r1 = FAILED"
  using commit_retries_end [OF committing_facts(1-3), of "[(''X'', ''m'', True, False, 5), (''X'', ''m'', True, False, 9)]" commit_policy_sample]
  by (auto simp: committing_facts commit_policy_sample_def commit_policy_defaults_def)

end
