(* ===== verification/ControlPlane.thy ===== *)
theory ControlPlane
  imports TaskLeases RunLife Commit
begin

text \<open>
  The control plane as one system. Planner, admission, scheduler, workers, sweepers, operators and committers act
  on the same store through the operations of \<open>Attempts\<close>, \<open>Runs\<close> and \<open>Commit\<close>, in any order and with any
  clock readings; each operation is one transaction. The invariants of the components hold of the system.
\<close>

section \<open>Rows of runs\<close>

text \<open>A step that keeps the rows of runs and starts no activity.\<close>

definition calmer_row :: "run \<Rightarrow> run \<Rightarrow> bool" where
  "calmer_row r s \<longleftrightarrow> run_id s = run_id r \<and> run_dataset s = run_dataset r \<and> (run_active s \<longrightarrow> run_active r)"

abbreviation calmer :: "run list \<Rightarrow> run list \<Rightarrow> bool" where
  "calmer \<equiv> list_all2 calmer_row"

lemma calmer_update [simp]: "calmer xs (update_where p f xs) \<longleftrightarrow> (\<forall>r \<in> set xs. p r \<longrightarrow> calmer_row r (f r))"
  by (auto simp: update_where_def list_all2_map2 list_all2_same calmer_row_def)

lemma calmer_refl [simp]: "calmer xs xs"
  by (simp add: list_all2_same calmer_row_def)

lemma calmer_trans: "calmer xs ys \<Longrightarrow> calmer ys zs \<Longrightarrow> calmer xs zs"
  by (rule list_all2_trans [of calmer_row calmer_row calmer_row xs ys zs]) (auto simp: calmer_row_def)

lemma calmer_ids: "calmer xs ys \<Longrightarrow> map run_id ys = map run_id xs"
  by (induction rule: list_all2_induct) (auto simp: calmer_row_def)

lemma calmer_conflict: "calmer xs ys \<Longrightarrow> calmer_row x y \<Longrightarrow> list_all (\<lambda>r. \<not> run_conflict x r) xs \<Longrightarrow> list_all (\<lambda>r. \<not> run_conflict y r) ys"
  by (induction rule: list_all2_induct) (auto simp: calmer_row_def run_conflict_def)

lemma calmer_unique: "calmer xs ys \<Longrightarrow> runs_unique xs \<Longrightarrow> runs_unique ys"
  unfolding runs_unique_def by (induction rule: list_all2_induct) (auto intro: calmer_conflict)

section \<open>The invariant\<close>

definition plane_inv :: "db \<Rightarrow> bool" where
  "plane_inv d \<longleftrightarrow> lease_inv d \<and> runs_unique (runs d)"

text \<open>Steps outside leases and tasks.\<close>

definition quiet :: "db \<Rightarrow> db \<Rightarrow> bool" where
  "quiet d d' \<longleftrightarrow> tasks d' = tasks d \<and> attempts d' = attempts d \<and> calmer (runs d) (runs d')"

lemma quiet_inv: "plane_inv d \<Longrightarrow> quiet d d' \<Longrightarrow> plane_inv d'"
  unfolding plane_inv_def quiet_def
  using lease_inv_cong [of d d' id id] calmer_ids calmer_unique by auto

lemma calmer_inv: "plane_inv d \<Longrightarrow> lease_inv d' \<Longrightarrow> calmer (runs d) (runs d') \<Longrightarrow> plane_inv d'"
  unfolding plane_inv_def using calmer_unique by blast

section \<open>Operations\<close>

lemma commit_ops_quiet:
  "SaveCommitIntent rid cid intent d = Inr ((), d') \<Longrightarrow> quiet d d'"
  "SetCommitPhase rid ph d = Inr ((), d') \<Longrightarrow> quiet d d'"
  "ClaimCommittingRun rid token now lease d = Inr (b, d') \<Longrightarrow> quiet d d'"
  "RenewCommitClaim rid token now lease d = Inr ((), d') \<Longrightarrow> quiet d d'"
  "ReleaseCommitClaim rid token d = Inr ((), d') \<Longrightarrow> quiet d d'"
  "RecordRunFailure rid cls phase d = Inr ((), d') \<Longrightarrow> quiet d d'"
  by (auto simp: quiet_def calmer_row_def run_active_def SaveCommitIntent_def SetCommitPhase_def ClaimCommittingRun_def RenewCommitClaim_def
      ReleaseCommitClaim_def RecordRunFailure_def Let_def split: if_splits)

lemma ensure_frame: "ensureRegistrationTx E rid ds cid cfg it now d = Inr d' \<Longrightarrow> tasks d' = tasks d \<and> attempts d' = attempts d \<and> runs d' = runs d"
  by (erule ensureE) simp_all

lemma complete_commit_quiet:
  assumes "CompleteRunCommit E rid now d = Inr ((), d')"
  shows "quiet d d'"
  using assms by (auto simp: CompleteRunCommit_def Let_def quiet_def calmer_row_def run_active_def succeeded_run_def dest!: ensure_frame split: if_splits)

lemma commit_failure_quiet:
  assumes "RecordCommitReconciliationFailure rid cls msg retryable operator now pol d = Inr ((), d')"
  shows "quiet d d'"
  using assms by (auto simp: RecordCommitReconciliationFailure_def Let_def quiet_def calmer_row_def run_active_def split: if_splits prod.splits)

lemma admit_one_quiet: "quiet d (snd (admit_one now i (k, d)))"
  by (simp add: admit_one_def Let_def quiet_def calmer_row_def run_active_def admit_where_def admitted_run_def)

lemma quiet_refl: "quiet d d"
  by (simp add: quiet_def)

lemma quiet_trans: "quiet a b \<Longrightarrow> quiet b c \<Longrightarrow> quiet a c"
  using calmer_trans by (auto simp: quiet_def)

lemma admit_quiet:
  assumes "AdmitPendingRuns cap now d = Inr (n, d')"
  shows "quiet d d'"
proof -
  have f: "quiet d (snd (fold (admit_one now) ids (k, d)))" for ids k d
  proof (induction ids arbitrary: k d)
    case (Cons i ids)
    show ?case using quiet_trans [OF admit_one_quiet [of d now i k]] Cons [of "snd (admit_one now i (k, d))" "fst (admit_one now i (k, d))"] by simp
  qed (simp add: quiet_refl)
  show ?thesis using assms f [of d "map run_id (take (nat (cap - int (active_runs d))) (admission_queue d))" 0]
    by (auto simp: AdmitPendingRuns_def Let_def quiet_refl split: if_splits)
qed

lemma abandoned_quiet:
  assumes "FailAbandonedPlanningRuns now d = Inr (ids, d')"
  shows "quiet d d'"
proof -
  have f: "quiet d (fold (fail_planning now) ids d)" for ids d
  proof (induction ids arbitrary: d)
    case (Cons i ids)
    have "quiet d (fail_planning now i d)" by (simp add: fail_planning_def quiet_def calmer_row_def run_active_def)
    then show ?case using Cons [of "fail_planning now i d"] by (auto intro: quiet_trans)
  qed (simp add: quiet_refl)
  show ?thesis using assms f by (auto simp: FailAbandonedPlanningRuns_def Let_def)
qed

lemma admit_tx_quiet: "admitRunTx cap rid d = Inr (b, d') \<Longrightarrow> quiet d d'"
  by (auto simp: admitRunTx_def quiet_def calmer_row_def run_active_def admit_where_def admitted_run_def split: if_splits)

lemma create_run_inv:
  assumes inv: "plane_inv d" and ok: "CreateRun enc r d = Inr ((), d')"
  shows "plane_inv d'"
proof -
  obtain row where row: "\<not> list_ex (\<lambda>s. run_id row = run_id s) (runs d)" "\<not> list_ex (run_conflict row) (runs d)" "d' = d\<lparr>runs := runs d @ [row]\<rparr>"
    using ok by (cases enc) (auto simp: CreateRun_def Let_def split: if_splits)
  have u: "runs_unique (runs d')" using inv row run_conflict_sym by (auto simp: plane_inv_def runs_unique_def pairwise_append_one list_ex_iff)
  then show ?thesis using inv runs_unique_keyed [OF u] row(3) by (simp add: plane_inv_def lease_inv_def)
qed

lemma status_inv:
  assumes inv: "plane_inv d" and ok: "UpdateRunStatus rid st fin err now d = Inr ((), d')"
  shows "plane_inv d'"
proof -
  obtain f rs where rs: "update_unique runs_unique (\<lambda>r. run_id r = rid) f (runs d) = Inr rs" "d' = d\<lparr>runs := rs\<rparr>"
    using ok by (auto simp: UpdateRunStatus_def updateRunStatusTx_def split: if_splits)
  have u: "runs_unique rs" by (rule update_unique_InrD(2) [OF rs(1)])
  then show ?thesis using inv runs_unique_keyed [OF u] rs(2) by (simp add: plane_inv_def lease_inv_def)
qed

lemma insert_tasks_rows:
  assumes "insertTasksTx ts rows = Inr rows'" "keyed task_id rows"
  shows "keyed task_id rows' \<and> (\<exists>new. rows' = rows @ new \<and> set new \<subseteq> new_task ` set ts)"
  using assms
proof (induction ts arbitrary: rows)
  case (Cons t ts)
  have i: "insertTasksTx ts (rows @ [new_task t]) = Inr rows'" "\<forall>u \<in> set rows. \<not> task_conflict (new_task t) u"
    using Cons.prems(1) by (cases "insert_row task_conflict (new_task t) rows"; auto)+
  have "keyed task_id (rows @ [new_task t])" using Cons.prems(2) i(2) by (force simp: keyed_def task_conflict_def)
  from Cons.IH [OF i(1) this] show ?case by auto
qed auto

text \<open>The planners insert tasks that wait for assignment.\<close>

lemma insert_tasks_lease:
  assumes inv: "lease_inv d" and ok: "insertTasksTx ts (tasks d) = Inr rows" and pending: "\<And>t. t \<in> set ts \<Longrightarrow> ti_status t = PENDING"
  shows "lease_inv (d\<lparr>tasks := rows\<rparr>)"
proof -
  obtain new where new: "keyed task_id rows" "rows = tasks d @ new" "set new \<subseteq> new_task ` set ts"
    using insert_tasks_rows [OF ok lease_invD(1) [OF inv]] by blast
  have "task_ok (attempts d) t" if "t \<in> set new" for t using that new(3) pending by (auto simp: task_ok_def new_task_def)
  then show ?thesis using inv new(1,2) by (auto simp: lease_inv_def attempt_ok_def)
qed

lemma start_run_inv:
  assumes inv: "plane_inv d" and ok: "StartRunWithTasks cap snap rid ts d = Inr (b, d')" and pending: "\<And>t. t \<in> set ts \<Longrightarrow> ti_status t = PENDING"
  shows "plane_inv d'"
proof -
  obtain rows where rows: "insertTasksTx ts (tasks d) = Inr rows" "admitRunTx cap rid (d\<lparr>tasks := rows\<rparr>) = Inr (b, d')"
    using ok by (cases snap; cases "insertTasksTx ts (tasks d)") (auto simp: StartRunWithTasks_def split: if_splits)
  have "plane_inv (d\<lparr>tasks := rows\<rparr>)" using insert_tasks_lease [OF _ rows(1) pending] inv by (simp add: plane_inv_def)
  then show ?thesis by (rule quiet_inv [OF _ admit_tx_quiet [OF rows(2)]])
qed

lemma fail_run_calmer: "calmer rs (fail_run_retry_limit now rid rs)"
  by (simp add: fail_run_retry_limit_def calmer_row_def run_active_def)

lemma expire_calmer:
  assumes "ExpireTaskAttempts E now pol d = Inr (n, d')"
  shows "calmer (runs d) (runs d')"
proof -
  have one: "calmer (runs d) (runs (snd (expire_item E now p y (k, d))))" for p y k d
    by (cases y) (simp add: expire_item_def Let_def fail_run_calmer)
  have "calmer (runs d) (runs (snd (fold (expire_item E now p) ys (k, d))))" for p ys k d
  proof (induction ys arbitrary: k d)
    case (Cons y ys)
    show ?case using calmer_trans [OF one [of d p y k]] Cons [of "snd (expire_item E now p y (k, d))" "fst (expire_item E now p y (k, d))"] by simp
  qed simp
  then show ?thesis using assms by (auto simp: ExpireTaskAttempts_def Let_def) (metis snd_conv)
qed

lemma lease_ops_calmer:
  "RenewTaskLease boot tid aid token worker now dur d = Inr (dl, d') \<Longrightarrow> calmer (runs d) (runs d')"
  "UpdateTaskProgressFencedAt boot tid aid token worker r br bw now d = Inr (u, d') \<Longrightarrow> calmer (runs d) (runs d')"
  by (auto simp: RenewTaskLease_def UpdateTaskProgressFencedAt_def Let_def split: if_splits)

lemma assign_calmer:
  assumes "lease_inv d" "AssignNextPendingTaskInPool E boot worker pool now pol idFn tokenFn d = Inr (r, d')"
  shows "calmer (runs d) (runs d')"
  using assms by (cases rule: assign_cases) simp_all

lemma abandon_calmer:
  assumes "AbandonTaskAttemptWithPolicy E tid aid worker reason now pol d = Inr (u, d')"
  shows "calmer (runs d) (runs d')"
  using assms by (cases rule: abandon_cases) (auto simp: fail_run_calmer split: if_splits)

lemma cancel_calmer:
  assumes "CancelRun E ret rid reason now d = Inr (out, d')"
  shows "calmer (runs d) (runs d')"
  using assms by (cases rule: cancel_cases) (simp_all add: calmer_row_def run_active_def)

lemma finalize_calmer:
  assumes "TryFinalizeRun rid now d = Inr (out, d')"
  shows "calmer (runs d) (runs d')"
  using assms by (cases rule: finalize_cases) (auto simp: calmer_row_def run_active_def)

end
