(* ===== verification/RegistrationSafety.thy ===== *)
theory RegistrationSafety
  imports RegistrationOrder
begin

text \<open>
  The properties of catalog registration that rest on the invariants of \<open>RegistrationOrder\<close>: the order
  of publication, the ownership of a registration, what a claim takes, what happens to an external
  commit of unknown outcome, and the sealed retry settings.
\<close>

section \<open>Order and ownership\<close>

lemma line_order:
  assumes "reg_inv d" "r \<in> set (registrations d)" "s \<in> set (registrations d)" "same_line s r" "reg_seq s < reg_seq r"
    "reg_status r \<in> {R_REGISTERING, R_RECONCILING, R_REGISTERED, R_QUARANTINED}"
  shows "reg_status s = R_REGISTERED"
proof -
  have "0 < reg_tries r" using reg_invD(5) [OF assms(1,2)] assms(6) unfolding reg_ok_def by blast
  then show ?thesis using reg_invD(2) [OF assms(1)] assms(2-5) unfolding line_inv_def by blast
qed

text \<open>
  C12. Registrations of one dataset and catalog target enter the catalog in commit order: in every state
  reachable from an empty registry, when a registration is registered, in work, ambiguous or
  quarantined, every earlier one of the same dataset and target is REGISTERED, and two different ones
  are never in work or ambiguous at the same time.
\<close>

theorem catalog_order_is_commit_order:
  assumes "no_registrations d0" "reg_step\<^sup>*\<^sup>* d0 d" "r \<in> set (registrations d)" "s \<in> set (registrations d)" "same_line s r"
  shows "(reg_seq s < reg_seq r \<and> reg_status r \<in> {R_REGISTERING, R_RECONCILING, R_REGISTERED, R_QUARANTINED}
            \<longrightarrow> reg_status s = R_REGISTERED)
    \<and> (reg_status r \<in> {R_REGISTERING, R_RECONCILING} \<and> reg_status s \<in> {R_REGISTERING, R_RECONCILING} \<longrightarrow> s = r)"
proof -
  have inv: "reg_inv d" by (rule registration.inv_reachable [OF assms(1,2)])
  have sym: "same_line r s" using assms(5) by (simp add: same_line_def)
  have "s = r" if w: "reg_status r \<in> {R_REGISTERING, R_RECONCILING}" "reg_status s \<in> {R_REGISTERING, R_RECONCILING}"
  proof -
    have "\<not> reg_seq s < reg_seq r" using line_order [OF inv assms(3-5)] w by auto
    moreover have "\<not> reg_seq r < reg_seq s" using line_order [OF inv assms(4,3) sym] w by auto
    ultimately have "reg_seq s = reg_seq r" by simp
    then have "reg_id s = reg_id r" using reg_invD(2) [OF inv] assms(3-5) unfolding line_inv_def by blast
    then show ?thesis by (rule registration_unique [OF inv assms(4,3)])
  qed
  then show ?thesis using line_order [OF inv assms(3-5)] by blast
qed

text \<open>
  A registration is REGISTERING exactly while one live attempt holds it: in every reachable state a
  REGISTERING registration has exactly one ACTIVE attempt, the one it names, and every ACTIVE attempt
  belongs to a REGISTERING registration that names it.
\<close>

lemma registration_has_one_live_attempt:
  assumes "no_registrations d0" "reg_step\<^sup>*\<^sup>* d0 d" "r \<in> set (registrations d)"
  shows "(reg_status r = R_REGISTERING
      \<longleftrightarrow> (\<exists>!a. a \<in> set (reg_attempts d) \<and> rat_reg a = reg_id r \<and> rat_status a = RA_ACTIVE))
    \<and> (\<forall>a \<in> set (reg_attempts d). rat_reg a = reg_id r \<and> rat_status a = RA_ACTIVE \<longrightarrow> reg_cur r = Some (rat_id a))"
proof -
  have inv: "reg_inv d" by (rule registration.inv_reachable [OF assms(1,2)])
  note b = reg_invD(1) [OF inv]
  have cur: "reg_cur r = Some (rat_id a)" if "a \<in> set (reg_attempts d)" "rat_reg a = reg_id r" "rat_live a" for a
    using bound_live_cur [OF b that(1,3) assms(3)] that(2) by simp
  have ok: "reg_cur r \<noteq> None \<longleftrightarrow> reg_status r = R_REGISTERING" using reg_invD(5) [OF inv assms(3)] by (simp add: reg_ok_def)
  have "\<exists>a. a \<in> set (reg_attempts d) \<and> rat_reg a = reg_id r \<and> rat_live a" if h: "reg_status r = R_REGISTERING"
  proof -
    obtain i where "reg_cur r = Some i" using ok h by auto
    then show ?thesis using boundD(4) [OF b assms(3)] by blast
  qed
  moreover have "a = c" if "a \<in> set (reg_attempts d) \<and> rat_reg a = reg_id r \<and> rat_live a"
    "c \<in> set (reg_attempts d) \<and> rat_reg c = reg_id r \<and> rat_live c" for a c
    using bound_one_live [OF b, of a c] that by simp
  ultimately show ?thesis using cur ok by blast
qed

section \<open>A concrete registry\<close>

text \<open>
  An environment whose hash pads to 64 characters, whose settings enable registration and whose intent
  is its own manifest; a succeeded run is registered and claimed.
\<close>

definition reg_env :: env where
  "reg_env = sample_env\<lparr>sha256 := (\<lambda>s. take 64 (s @ replicate 64 CHR ''0'')),
     parse_regcfg := (\<lambda>s. Some \<lparr>cfg_enabled = True, cfg_engine = '''', cfg_table = ''ns.t'', cfg_uri = ''u''\<rparr>),
     parse_intent := (\<lambda>s. Some (''key'', s)), parse_manifest := (\<lambda>s. Some \<lparr>mf_schema = 2, mf_run = s, mf_artifacts = [s]\<rparr>)\<rparr>"

definition reg_policy0 :: reg_policy where
  "reg_policy0 = \<lparr>rp_lease = 30, rp_max = 3, rp_base = 2, rp_bmax = 10\<rparr>"

definition created :: "string \<Rightarrow> db \<Rightarrow> db" where
  "created rid d = (case ensureRegistrationTx reg_env rid ''ds'' (sha256 reg_env rid) ''cfg'' rid 0 d of Inl _ \<Rightarrow> d | Inr d1 \<Rightarrow> d1)"

definition queued_regs :: db where
  "queued_regs = created ''r2'' (created ''r1'' sample_db)"

definition claimed_regs :: db where
  "claimed_regs = state_after (ClaimRegistration reg_env 1 reg_policy0 (Inr ''tok'') queued_regs) queued_regs"

definition start_first :: "db \<Rightarrow> db" where
  "start_first d = (let a = hd (reg_attempts d) in
     state_after (AdvanceRegistrationPhase (rat_reg a) (rat_id a) ''tok'' PREPARED EXTERNAL_COMMIT_STARTED 2 d) d)"

definition started_regs :: db where
  "started_regs = start_first claimed_regs"

definition reg_view :: "db \<Rightarrow> reg_status list \<times> int list \<times> bool \<times> reg_phase list \<times> bool" where
  "reg_view d = (map reg_status (registrations d), map reg_seq (registrations d),
     same_line (registrations d ! 0) (registrations d ! 1), map rat_phase (reg_attempts d),
     list_all (\<lambda>a. owns_registration (reg_id (registrations d ! 0)) (rat_id a) ''tok'' a) (reg_attempts d))"

lemma created_step: "reg_step\<^sup>*\<^sup>* d (created rid d)"
  unfolding created_def by (auto intro: reg_step.create split: sum.splits)

lemma state_after_step:
  assumes "\<And>x d'. m = Inr (x, d') \<Longrightarrow> reg_step d d'"
  shows "reg_step\<^sup>*\<^sup>* d (state_after m d)"
  using assms by (cases m) (auto simp: state_after_def)

lemma registry_reachable:
  "no_registrations sample_db" "reg_step\<^sup>*\<^sup>* sample_db queued_regs" "reg_step\<^sup>*\<^sup>* sample_db claimed_regs"
  "reg_step\<^sup>*\<^sup>* sample_db started_regs"
proof -
  show "no_registrations sample_db" by (simp add: no_registrations_def sample_db_def)
  show q: "reg_step\<^sup>*\<^sup>* sample_db queued_regs"
    unfolding queued_regs_def by (rule rtranclp_trans [OF created_step created_step])
  show c: "reg_step\<^sup>*\<^sup>* sample_db claimed_regs"
    unfolding claimed_regs_def by (rule rtranclp_trans [OF q state_after_step]) (rule reg_step.claim)
  show "reg_step\<^sup>*\<^sup>* sample_db started_regs"
    unfolding started_regs_def start_first_def Let_def by (rule rtranclp_trans [OF c state_after_step]) (rule reg_step.advance)
qed


lemma registry_values:
  "reg_view claimed_regs = ([R_REGISTERING, R_PENDING], [1, 2], True, [PREPARED], True)"
  "reg_view started_regs = ([R_REGISTERING, R_PENDING], [1, 2], True, [EXTERNAL_COMMIT_STARTED], True)"
  by code_simp+

lemma claimed_two: obtains g h where "registrations claimed_regs = [g, h]" "reg_status g = R_REGISTERING"
    "reg_status h = R_PENDING" "reg_seq g < reg_seq h" "same_line g h"
  using registry_values(1) unfolding reg_view_def by (cases "registrations claimed_regs"; cases "tl (registrations claimed_regs)") auto

theorem catalog_order_is_commit_order_witness:
  "\<exists>g h. g \<in> set (registrations claimed_regs) \<and> h \<in> set (registrations claimed_regs) \<and> same_line g h \<and> reg_seq g < reg_seq h
     \<and> reg_status g = R_REGISTERING \<and> reg_status h \<notin> {R_REGISTERING, R_RECONCILING, R_REGISTERED, R_QUARANTINED}"
proof -
  obtain g h where gh: "registrations claimed_regs = [g, h]" "reg_status g = R_REGISTERING" "reg_seq g < reg_seq h" "same_line g h"
    by (rule claimed_two)
  then have "g \<in> set (registrations claimed_regs)" "h \<in> set (registrations claimed_regs)" by auto
  with catalog_order_is_commit_order [OF registry_reachable(1,3) this(2,1) gh(4)] gh show ?thesis by auto
qed

section \<open>Claims\<close>

lemma earlier_open_empty:
  "earlier_open rs r = [] \<longleftrightarrow> (\<forall>s \<in> set rs. same_line s r \<and> reg_seq s < reg_seq r \<longrightarrow> reg_status s = R_REGISTERED)"
  by (auto simp: earlier_open_def filter_empty_conv)

text \<open>
  A granted claim takes the first claimable registration in sequence order, one whose earlier
  registrations are all REGISTERED, marks exactly that registration REGISTERING under a new attempt,
  and the attempt is a fresh PREPARED one with an unexpired lease. A claim that grants nothing found
  nothing claimable, or failed the first claimable registration because its attempts are spent.
\<close>

lemma claim_takes_head_of_line:
  assumes "reg_inv d" "ClaimRegistration E now p tokenFn d = Inr (x, d')"
  shows "case x of
      Some (g, a) \<Rightarrow> (\<exists>r \<in> set (registrations d). reg_id r = reg_id g \<and> reg_claimable (registrations d) now r
        \<and> (\<forall>s \<in> set (registrations d). same_line s r \<and> reg_seq s < reg_seq r \<longrightarrow> reg_status s = R_REGISTERED)
        \<and> (\<forall>s \<in> set (registrations d). reg_claimable (registrations d) now s \<longrightarrow> reg_seq r \<le> reg_seq s)
        \<and> registrations d' = map (\<lambda>s. if s = r then s\<lparr>reg_status := R_REGISTERING, reg_tries := reg_tries r + 1,
              reg_cur := Some (rat_id a), reg_next := None, reg_updated := now\<rparr> else s) (registrations d)
        \<and> reg_attempts d' = reg_attempts d @ [a] \<and> rat_reg a = reg_id r \<and> rat_phase a = PREPARED \<and> rat_status a = RA_ACTIVE
        \<and> rat_deadline a > now \<and> (\<forall>b \<in> set (reg_attempts d). rat_id b \<noteq> rat_id a \<and> rat_token b \<noteq> rat_token a))
    | None \<Rightarrow> reg_attempts d' = reg_attempts d
        \<and> ((\<forall>r \<in> set (registrations d). \<not> reg_claimable (registrations d) now r)
           \<or> (\<exists>r \<in> set (registrations d). reg_claimable (registrations d) now r
                \<and> reg_tries r \<ge> (if rp_max p \<le> 0 then 3 else rp_max p) + reg_budget r
                \<and> (\<exists>s \<in> set (registrations d'). reg_id s = reg_id r \<and> reg_status s = R_FAILED)))"
  using assms(2)
proof (cases rule: claimE)
  case 1
  then show ?thesis by simp
next
  case (2 r)
  have "\<exists>s \<in> set (registrations d'). reg_id s = reg_id r \<and> reg_status s = R_FAILED"
    by (rule bexI [of _ "r\<lparr>reg_status := R_FAILED, reg_eclass := ''RETRY_LIMIT_EXHAUSTED'', reg_updated := now\<rparr>"])
      (use 2(2) in \<open>auto simp: 2(5) intro: update_where_hitI\<close>)
  then show ?thesis using 2 by auto
next
  case (3 r rs)
  have "rows_affected (\<lambda>s. reg_id s = reg_id r \<and> reg_status s \<in> {R_PENDING, R_RETRY_REQUIRED} \<and> reg_cur s = None) (registrations d) = 1"
    by (rule keyed_rows_affected_one [OF reg_invD(3) [OF assms(1)] 3(2)]) (use claimable_idle [OF assms(1) 3(2,5)] in auto)
  then show ?thesis using 3(4) by simp
next
  case (4 r a g)
  note row = claimable_row [OF assms(1) 4(2,3)]
  have only: "s \<in> set (registrations d) \<Longrightarrow> reg_id s = reg_id r \<longleftrightarrow> s = r" for s using registration_unique [OF assms(1) _ 4(2)] by blast
  have "registrations d' = map (\<lambda>s. if s = r then s\<lparr>reg_status := R_REGISTERING, reg_tries := reg_tries r + 1,
      reg_cur := Some (rat_id a), reg_next := None, reg_updated := now\<rparr> else s) (registrations d)"
    unfolding 4(5) update_where_def using row only by (intro map_cong) auto
  moreover have "\<forall>s \<in> set (registrations d). reg_claimable (registrations d) now s \<longrightarrow> reg_seq r \<le> reg_seq s"
    using 4(4) by (force simp: less_eq_prod_def)
  moreover have "\<forall>s \<in> set (registrations d). same_line s r \<and> reg_seq s < reg_seq r \<longrightarrow> reg_status s = R_REGISTERED"
    using claimable_idle(3) [OF assms(1) 4(2,3)] by (simp add: earlier_open_empty)
  moreover have "\<forall>b \<in> set (reg_attempts d). rat_id b \<noteq> rat_id a \<and> rat_token b \<noteq> rat_token a"
    using 4(9) by (auto simp: reg_attempt_conflict_def)
  ultimately show ?thesis unfolding 4(1) using 4 by auto
qed

section \<open>External commits of unknown outcome\<close>




definition fail_first :: "db \<Rightarrow> (unit \<times> db) res" where
  "fail_first d = (let a = hd (reg_attempts d)
     in FailRegistrationAttempt reg_env (rat_reg a) (rat_id a) (rat_token a) ''TIMEOUT'' ''m'' True False 3 reg_policy0 d)"



text \<open>Steps other than a decision keep an ambiguous registration ambiguous.\<close>

definition keeps_ambiguous :: "db \<Rightarrow> db \<Rightarrow> bool" where
  "keeps_ambiguous d d' \<longleftrightarrow> (\<forall>r \<in> set (registrations d). reg_status r = R_RECONCILING
     \<longrightarrow> (\<exists>r' \<in> set (registrations d'). reg_id r' = reg_id r \<and> reg_status r' = R_RECONCILING))"

lemma keeps_refl: "registrations d' = registrations d \<Longrightarrow> keeps_ambiguous d d'"
  by (auto simp: keeps_ambiguous_def)

lemma keeps_trans: "keeps_ambiguous a b \<Longrightarrow> keeps_ambiguous b c \<Longrightarrow> keeps_ambiguous a c"
  unfolding keeps_ambiguous_def by metis

lemma keeps_update:
  assumes "registrations d' = update_where p f (registrations d)"
    and "\<And>r. r \<in> set (registrations d) \<Longrightarrow> p r \<Longrightarrow> reg_status r = R_RECONCILING \<Longrightarrow> reg_id (f r) = reg_id r \<and> reg_status (f r) = R_RECONCILING"
  shows "keeps_ambiguous d d'"
  unfolding keeps_ambiguous_def
proof (intro ballI impI)
  fix r assume r: "r \<in> set (registrations d)" "reg_status r = R_RECONCILING"
  have "(if p r then f r else r) \<in> set (registrations d')" unfolding assms(1) by (rule in_update_whereI [OF r(1)])
  then show "\<exists>r' \<in> set (registrations d'). reg_id r' = reg_id r \<and> reg_status r' = R_RECONCILING"
    using assms(2) [OF r(1)] r(2) by (cases "p r") auto
qed

lemma keeps_bookkeeping:
  assumes "registrations d' = update_where p f (registrations d)"
    and "\<And>r. same_identity (f r) r \<and> reg_tries (f r) = reg_tries r \<and> reg_cur (f r) = reg_cur r \<and> reg_status (f r) = reg_status r"
  shows "keeps_ambiguous d d'"
  by (rule keeps_update [OF assms(1)]) (use assms(2) in \<open>auto simp: same_identity_def\<close>)

lemma keeps_foldM:
  assumes "foldM f xs s = Inr t" "\<And>x s t. f x s = Inr t \<Longrightarrow> keeps_ambiguous (snd s) (snd t)"
  shows "keeps_ambiguous (snd s) (snd t)"
  by (rule foldM_inv [OF assms(1), where P = "\<lambda>u. keeps_ambiguous (snd s) (snd u)"]) (auto intro: keeps_refl keeps_trans assms(2))

lemma ensure_keeps: "ensureRegistrationTx E rid ds cid config intent now d = Inr d' \<Longrightarrow> keeps_ambiguous d d'"
  by (erule ensureE) (auto simp: keeps_ambiguous_def)

lemma expire_item_keeps_ambiguous:
  assumes "expire_registration_item E now p x s = Inr t" "\<And>r. r \<in> set (registrations (snd s)) \<Longrightarrow> reg_ok r"
  shows "keeps_ambiguous (snd s) (snd t)"
proof -
  obtain a n k c k' c' where x: "x = (a, n)" "s = (k, c)" "t = (k', c')" by (metis surj_pair)
  show ?thesis
    using assms(1) [unfolded x]
  proof (cases rule: expire_itemE)
    case (1 h)
    show ?thesis unfolding x snd_conv
      by (rule keeps_update [OF 1(2)]) (use assms(2) x in \<open>fastforce simp: reg_ok_def\<close>)
  qed
qed

lemma expire_keeps:
  assumes inv: "reg_inv d" and e: "ExpireRegistrationAttempts E now p d = Inr (k, d')"
  shows "keeps_ambiguous d d'"
proof -
  let ?P = "\<lambda>s. keeps_ambiguous d (snd s) \<and> (\<forall>r \<in> set (registrations (snd s)). reg_ok r)"
  have "?P (k, d')"
  proof (rule foldM_inv [OF e [unfolded ExpireRegistrationAttempts_def], of ?P])
    show "?P (0, d)" using reg_invD(5) [OF inv] by (auto intro: keeps_refl)
    fix x s t assume s: "?P s" and e: "expire_registration_item E now p x s = Inr t"
    have "reg_ok r" if rt: "r \<in> set (registrations (snd t))" for r
    proof -
      obtain a n q c q' c' where x: "x = (a, n)" "s = (q, c)" "t = (q', c')" by (metis surj_pair)
      show ?thesis
        using e [unfolded x]
      proof (cases rule: expire_itemE)
        case (1 h)
        obtain r0 where r0: "r0 \<in> set (registrations c)"
          "r = (if reg_id r0 = rat_reg a \<and> reg_cur r0 = Some (rat_id a)
            then settle_registration (expire_outcome (rat_phase a) n now p) ''registration lease expired'' now r0 else r0)"
          using rt unfolding x snd_conv 1(2) by (rule in_update_whereE)
        then have "reg_ok r0" using s x by simp
        then show ?thesis using r0(2) expire_outcome_range(1) [of "rat_phase a" n now p] by (auto simp: reg_ok_def)
      qed
    qed
    then show "?P t" using s expire_item_keeps_ambiguous [OF e] keeps_trans by blast
  qed
  then show ?thesis by simp
qed

lemma claim_keeps: "reg_inv d \<Longrightarrow> ClaimRegistration E now p tokenFn d = Inr (x, d') \<Longrightarrow> keeps_ambiguous d d'"
proof (erule claimE, goal_cases)
  case 1
  then show ?case by (simp add: keeps_refl)
next
  case (2 r)
  have only: "s = r" if "s \<in> set (registrations d)" "reg_id s = reg_id r" for s by (rule registration_unique [OF 2(1) that(1) 2(3) that(2)])
  have rs: "registrations d' = update_where (\<lambda>s. reg_id s = reg_id r)
      (\<lambda>s. s\<lparr>reg_status := R_FAILED, reg_eclass := ''RETRY_LIMIT_EXHAUSTED'', reg_updated := now\<rparr>) (registrations d)"
    unfolding 2(6) by simp
  show ?case
    by (rule keeps_update [OF rs]) (use claimable_idle(2) [OF 2(1,3,4)] in \<open>auto dest!: only\<close>)
next
  case (3 r rs)
  have "rows_affected (\<lambda>s. reg_id s = reg_id r \<and> reg_status s \<in> {R_PENDING, R_RETRY_REQUIRED} \<and> reg_cur s = None) (registrations d) = 1"
    by (rule keyed_rows_affected_one [OF reg_invD(3) [OF 3(1)] 3(3)]) (use claimable_idle [OF 3(1,3,6)] in auto)
  then show ?case using 3(5) by simp
next
  case (4 r a g)
  show ?case by (rule keeps_update [OF 4(6)]) auto
qed

lemma cancel_keeps:
  assumes inv: "reg_inv d" and e: "CancelRegistration E gid now d = Inr (x, d')"
  shows "keeps_ambiguous d d'"
  using e
proof (cases rule: cancelE)
  case (1 st)
  show ?thesis by (rule keeps_update [OF 1(1)]) (use 1(3) in auto)
next
  case (2 r aid)
  show ?thesis
    using cancel_registeringE [OF inv 2]
  proof cases
    case (1 p f q h)
    show ?thesis by (rule keeps_update [OF 1(1)]) (use 1(3) reg_cur_registering [OF inv] in fastforce)
  qed
qed

lemma receipt_keeps: "persist_receipt E from extra t msg gid aid token receipt now d = Inr (x, d') \<Longrightarrow> keeps_ambiguous d d'"
  by (erule persist_receiptE, rule keeps_update [of _ "\<lambda>r. reg_id r = gid \<and> reg_cur r = Some aid \<and> reg_status r = R_REGISTERING \<and> extra r"]) auto

lemma history_keeps:
  assumes "ReconcileHistoricalRegistrations E now d = Inr (hs, d')"
  shows "keeps_ambiguous d d'"
proof -
  have "keeps_ambiguous (snd s) (snd t)" if i: "classify_run E now v s = Inr t" for v s t
  proof -
    obtain out c where sc: "s = (out, c)" by fastforce
    have new: "keeps_ambiguous c c'" if "classify_new E now v c = Inr (h, c')" for h c'
      using that by (auto simp: classify_new_def Let_def split: if_splits option.splits sum.splits intro: ensure_keeps keeps_refl)
    have ev: "keeps_ambiguous c (add_event e c') = keeps_ambiguous c c'" for e c' by (simp add: keeps_ambiguous_def)
    show ?thesis using i new unfolding classify_run_def sc by (auto simp: ev keeps_refl split: option.splits prod.splits)
  qed
  from keeps_foldM [OF assms [unfolded ReconcileHistoricalRegistrations_def] this] show ?thesis by simp
qed

lemma rec_expire_keeps:
  assumes "ExpireReconciliationAttempts E now bo mx d = Inr (k, d')"
  shows "keeps_ambiguous d d'"
proof -
  have "keeps_ambiguous (snd s) (snd t)" if i: "expire_reconciliation_item E now bo mx a s = Inr t" for a s t
  proof -
    obtain f where "registrations (snd t) = update_where (\<lambda>r. reg_id r = rec_reg a \<and> reg_rec_cur r = Some (rec_id a)) f (registrations (snd s))"
      "\<And>r. same_identity (f r) r \<and> reg_tries (f r) = reg_tries r \<and> reg_cur (f r) = reg_cur r \<and> reg_status (f r) = reg_status r"
      using i unfolding expire_reconciliation_item_def Let_def
      by (cases s) (fastforce simp: same_identity_def split: if_splits elim!: reg_event_InrE)
    then show ?thesis by (rule keeps_bookkeeping)
  qed
  from keeps_foldM [OF assms [unfolded ExpireReconciliationAttempts_def] this] show ?thesis by simp
qed

lemma rec_cancel_keeps: "CancelReconciliation E gid now d = Inr (u, d') \<Longrightarrow> keeps_ambiguous d d'"
  unfolding CancelReconciliation_def Let_def
  by (auto intro!: keeps_update [of _ "\<lambda>r. reg_id r = gid \<and> reg_status r = R_RECONCILING"] split: if_splits elim!: reg_event_InrE)

lemma observe_keeps: "RetryReconciliationObservation E gid aid token cls msg now bo mx d = Inr (u, d') \<Longrightarrow> keeps_ambiguous d d'"
  unfolding RetryReconciliationObservation_def Let_def
  by (auto intro!: keeps_update [of _ "\<lambda>r. reg_id r = gid \<and> reg_rec_cur r = Some aid"])

lemma step_keeps:
  assumes inv: "reg_inv d" and step: "reg_step d d'"
  shows "keeps_ambiguous d d' \<or> (\<exists>E gid aid token out ob now mx u. ApplyReconciliationDecision E gid aid token out ob now mx d = Inr (u, d'))"
  using step
proof cases
  case (requeue E rid ov now x)
  from requeue have "keeps_ambiguous d d'"
  proof (cases rule: requeueE)
    case (1 p f)
    show ?thesis by (rule keeps_update [OF 1(1)]) (use 1(3) in force)
  qed
  then show ?thesis ..
next
  case (complete E gid aid token now u)
  from complete have "keeps_ambiguous d d'"
  proof (cases rule: completeE)
    case (1 a r)
    show ?thesis by (rule keeps_update [OF 1(1)]) auto
  qed
  then show ?thesis ..
next
  case (fail E gid aid token cls msg re df now p u)
  from fail have "keeps_ambiguous d d'"
  proof (cases rule: failE)
    case (1 a r)
    show ?thesis by (rule keeps_update [OF 1(1)]) (use reg_cur_registering [OF inv] in fastforce)
  qed
  then show ?thesis ..
next
  case (inspect E now lease tokenFn z)
  then have "keeps_ambiguous d d'" by (cases rule: claim_reconciliationE) (auto intro: keeps_refl keeps_bookkeeping)
  then show ?thesis ..
next
  case receipt
  then show ?thesis unfolding PersistCatalogReceipt_def by (blast intro: receipt_keeps)
next
  case no_op
  then show ?thesis unfolding PersistCatalogNoOpReceipt_def by (auto intro: receipt_keeps split: option.splits if_splits)
next
  case advance
  then have "registrations d' = registrations d" by (auto simp: AdvanceRegistrationPhase_def Let_def split: if_splits)
  then show ?thesis by (intro disjI1 keeps_refl)
next
  case renew
  then have "registrations d' = registrations d" by (auto simp: RenewRegistrationLease_def Let_def split: if_splits)
  then show ?thesis by (intro disjI1 keeps_refl)
next
  case rec_renew
  then have "registrations d' = registrations d" by (auto simp: RenewReconciliationLease_def Let_def split: if_splits)
  then show ?thesis by (intro disjI1 keeps_refl)
qed (blast intro: keeps_refl ensure_keeps claim_keeps [OF inv] expire_keeps [OF inv] cancel_keeps [OF inv] history_keeps
    rec_expire_keeps rec_cancel_keeps observe_keeps)+

text \<open>
  C14. An ambiguous registration is never retried on a guess: whichever operation runs, a RECONCILING
  registration stays RECONCILING, or a decision on recorded evidence moves it, either to QUARANTINED,
  or back to the queue with an outcome that proves the commit present or absent, where every proof of
  absence counts against the limit of ambiguous cycles.
\<close>

theorem ambiguity_resolved_only_by_proof:
  assumes inv: "reg_inv d" and step: "reg_step d d'"
    and r: "r \<in> set (registrations d)" "reg_status r = R_RECONCILING"
    and r': "r' \<in> set (registrations d')" "reg_id r' = reg_id r"
  shows "reg_status r' = R_RECONCILING \<or> reg_status r' = R_QUARANTINED
    \<or> (reg_status r' = R_RETRY_REQUIRED
       \<and> (reg_rec_outcome r' = ''EXACTLY_COMMITTED'' \<and> reg_ambiguity r' = reg_ambiguity r
          \<or> reg_rec_outcome r' \<in> {''DEFINITELY_NOT_COMMITTED'', ''TABLE_NOT_FOUND''} \<and> reg_ambiguity r' = reg_ambiguity r + 1))"
  using step_keeps [OF inv step]
proof (elim disjE exE)
  assume "keeps_ambiguous d d'"
  then show ?thesis
    using r r' registration_unique [OF registration.inv_step [OF inv step] r'(1)] unfolding keeps_ambiguous_def by metis
next
  fix E gid aid token out ob now mx u assume "ApplyReconciliationDecision E gid aid token out ob now mx d = Inr (u, d')"
  then show ?thesis
  proof (cases rule: apply_decisionE)
    case (1 g f)
    obtain r0 where r0: "r0 \<in> set (registrations d)" "r' = (if reg_id r0 = gid \<and> reg_rec_cur r0 = Some aid then f r0 else r0)"
      using r'(1) unfolding 1(6) by (rule in_update_whereE)
    have "r0 = r" using registration_unique [OF inv r0(1) r(1)] r0(2) r'(2) 1(9) [of r0] by (auto simp: same_identity_def split: if_splits)
    moreover have "r = g" if "reg_id r = gid" using registration_unique [OF inv r(1) 1(1)] that 1(2) by simp
    ultimately show ?thesis
      using r0(2) 1(9) [of g] r(2) by (auto simp: reconciliation_decision_def Let_def split: if_splits)
  qed
qed

text \<open>The registry after the failed external commit, while it is inspected.\<close>

definition inspect_first :: "db \<Rightarrow> db" where
  "inspect_first d = (let d1 = state_after (fail_first d) d in state_after (ClaimReconciliation reg_env 4 30 (Inr ''rt'') d1) d1)"

definition inspected_regs :: db where
  "inspected_regs = inspect_first started_regs"

definition decide_first :: "string \<Rightarrow> string \<Rightarrow> db \<Rightarrow> (unit \<times> db) res" where
  "decide_first token out d = (let a = hd (rec_attempts d) in ApplyReconciliationDecision reg_env (rec_reg a) (rec_id a) token out
     \<lparr>ob_digest = ''d'', ob_start = ''s'', ob_end = ''s'', ob_snapshot = '''', ob_receipt = '''', ob_matched = 0, ob_expected = 1\<rparr> 5 3 d)"

lemma inspected_reachable: "reg_step\<^sup>*\<^sup>* sample_db inspected_regs"
proof -
  have f: "reg_step\<^sup>*\<^sup>* started_regs (state_after (fail_first started_regs) started_regs)"
    by (rule state_after_step) (auto simp: fail_first_def Let_def intro: reg_step.fail)
  have "reg_step\<^sup>*\<^sup>* d (state_after (ClaimReconciliation reg_env 4 30 (Inr ''rt'') d) d)" for d
    by (rule state_after_step) (rule reg_step.inspect)
  then show ?thesis
    unfolding inspected_regs_def inspect_first_def Let_def
    using registry_reachable(4) f by (meson rtranclp_trans)
qed

lemmas inspected_inv = registration.inv_reachable [OF registry_reachable(1) inspected_reachable]

definition rec_view :: "db \<Rightarrow> (reg_status \<times> bool) list \<times> (rat_status \<times> string) list" where
  "rec_view d = (map (\<lambda>r. (reg_status r, reg_rec_cur r = Some (rec_id (hd (rec_attempts d))) \<and> reg_id r = rec_reg (hd (rec_attempts d))))
     (registrations d), map (\<lambda>a. (rec_status a, rec_token a)) (rec_attempts d))"

lemma inspected_values: "rec_view inspected_regs = ([(R_RECONCILING, True), (R_PENDING, False)], [(RA_ACTIVE, ''rt'')])"
  by code_simp

theorem ambiguity_resolved_only_by_proof_witness:
  "\<exists>d' r r'. decide_first ''rt'' ''TABLE_NOT_FOUND'' inspected_regs = Inr ((), d') \<and> r \<in> set (registrations inspected_regs)
     \<and> r' \<in> set (registrations d') \<and> reg_id r' = reg_id r \<and> reg_status r = R_RECONCILING
     \<and> (reg_status r' \<in> {R_RECONCILING, R_QUARANTINED, R_RETRY_REQUIRED})"
proof -
  have "(case decide_first ''rt'' ''TABLE_NOT_FOUND'' inspected_regs of Inr _ \<Rightarrow> True | _ \<Rightarrow> False)" by code_simp
  then obtain d' where f: "decide_first ''rt'' ''TABLE_NOT_FOUND'' inspected_regs = Inr ((), d')" by (auto split: sum.splits)
  then have step: "reg_step inspected_regs d'" by (auto simp: decide_first_def Let_def intro: reg_step.decide)
  obtain r rest where r: "registrations inspected_regs = r # rest" "reg_status r = R_RECONCILING"
    using inspected_values by (cases "registrations inspected_regs") (auto simp: rec_view_def)
  obtain p g where rs: "registrations d' = update_where p g (registrations inspected_regs)" "\<And>s. reg_id (g s) = reg_id s"
    using f unfolding decide_first_def Let_def by (auto elim!: apply_decisionE simp: same_identity_def)
  then have r': "(if p r then g r else r) \<in> set (registrations d')" "reg_id (if p r then g r else r) = reg_id r"
    using r(1) by auto
  from ambiguity_resolved_only_by_proof [OF inspected_inv step _ r(2) r'] r(1) show ?thesis
    using f r r' by (intro exI [of _ d'] exI [of _ r] exI [of _ "if p r then g r else r"]) auto
qed

section \<open>The token of a reconciliation decision\<close>

text \<open>
  C15. The fencing token of a reconciliation attempt is not enforced when its decision is applied: for the
  current attempt of an inspected registration the answer does not depend on the token, and with a
  token that is not the attempt's the registration is decided while its attempt stays ACTIVE, where
  the sweep can no longer expire it.
\<close>

theorem decision_token_is_not_enforced:
  assumes inv: "keyed rec_id (rec_attempts d)"
    and a: "a \<in> set (rec_attempts d)" "rec_status a = RA_ACTIVE" "token \<noteq> rec_token a"
    and e: "ApplyReconciliationDecision E gid (rec_id a) (rec_token a) out ob now mx d = Inr (u, d1)"
  shows "\<exists>d2. ApplyReconciliationDecision E gid (rec_id a) token out ob now mx d = Inr (u, d2)
    \<and> registrations d2 = registrations d1 \<and> rec_attempts d2 = rec_attempts d \<and> a \<in> set (rec_attempts d2)
    \<and> (keyed reg_id (registrations d) \<and> rec_reg a = gid \<longrightarrow> \<not> list_ex (inspecting (rec_reg a) (rec_id a)) (registrations d2))"
proof -
  obtain d2 where d2: "ApplyReconciliationDecision E gid (rec_id a) token out ob now mx d = Inr (u, d2)"
    using e unfolding ApplyReconciliationDecision_def Let_def by (auto split: if_splits)
  have miss: "\<not> (rec_id b = rec_id a \<and> rec_token b = token \<and> rec_status b = RA_ACTIVE)" if "b \<in> set (rec_attempts d)" for b
    using keyed_unique [OF inv that a(1)] a(3) by auto
  have same: "registrations d2 = registrations d1"
    using e d2 unfolding ApplyReconciliationDecision_def Let_def by (auto split: if_splits)
  from d2 show ?thesis
  proof (cases rule: apply_decisionE)
    case (1 g f)
    have "rec_attempts d2 = rec_attempts d" unfolding 1(8) by (rule update_where_none) (use miss in blast)
    moreover have "\<not> list_ex (inspecting (rec_reg a) (rec_id a)) (registrations d2)" if k: "keyed reg_id (registrations d)" "rec_reg a = gid"
      unfolding 1(6) list_ex_iff
    proof
      assume "\<exists>x \<in> set (update_where (\<lambda>r. reg_id r = gid \<and> reg_rec_cur r = Some (rec_id a)) f (registrations d)). inspecting (rec_reg a) (rec_id a) x"
      then obtain r where r: "r \<in> set (registrations d)"
        "inspecting gid (rec_id a) (if reg_id r = gid \<and> reg_rec_cur r = Some (rec_id a) then f r else r)"
        using k(2) by (auto simp: in_update_where)
      then show False using 1(9) [of r] by (auto simp: inspecting_def split: if_splits)
    qed
    ultimately show ?thesis using d2 same a(1) by metis
  qed
qed

theorem decision_token_is_not_enforced_witness:
  "\<exists>d2 a. decide_first ''forged'' ''CONFLICTING_COMMIT'' inspected_regs = Inr ((), d2)
     \<and> a \<in> set (rec_attempts d2) \<and> rec_status a = RA_ACTIVE \<and> rec_token a \<noteq> ''forged''"
proof -
  obtain a where a: "rec_attempts inspected_regs = [a]" "rec_status a = RA_ACTIVE" "rec_token a = ''rt''"
    using inspected_values by (cases "rec_attempts inspected_regs") (auto simp: rec_view_def)
  have "(case decide_first ''rt'' ''CONFLICTING_COMMIT'' inspected_regs of Inr _ \<Rightarrow> True | _ \<Rightarrow> False)" by code_simp
  then obtain d1 where f: "decide_first ''rt'' ''CONFLICTING_COMMIT'' inspected_regs = Inr ((), d1)" by (auto split: sum.splits)
  have k: "keyed rec_id (rec_attempts inspected_regs)" "a \<in> set (rec_attempts inspected_regs)" "''forged'' \<noteq> rec_token a"
    using a by (auto simp: keyed_def)
  from decision_token_is_not_enforced [OF k(1,2) a(2) k(3), unfolded a(3), OF f [unfolded decide_first_def Let_def a(1) list.sel]]
  obtain d2 where "decide_first ''forged'' ''CONFLICTING_COMMIT'' inspected_regs = Inr ((), d2)" "a \<in> set (rec_attempts d2)"
    unfolding decide_first_def Let_def a(1) list.sel by metis
  then show ?thesis using a(2) k(3) by metis
qed

section \<open>Sealed settings\<close>

lemma trim_space_empty: "trim_space s = '''' \<longleftrightarrow> (\<forall>c \<in> set s. is_space c)"
proof -
  have "trim_space s = '''' \<longleftrightarrow> (\<forall>c \<in> set (dropWhile is_space s). is_space c)"
    by (simp add: trim_space_def dropWhile_eq_Nil_conv)
  also have "\<dots> \<longleftrightarrow> (\<forall>c \<in> set s. is_space c)"
    by (metis dropWhile_eq_Nil_conv hd_dropWhile hd_in_set set_dropWhileD)
  finally show ?thesis .
qed

text \<open>
  A document sealed for a column is opened again: if opening inverts sealing under the same
  associated data, then whatever \<open>encryptStoredJSON\<close> stores, \<open>decryptStoredJSON\<close> returns it, an empty
  document stays empty, and a stored text without the format's prefix is refused, never trusted.
\<close>

lemma sealed_settings_round_trip:
  assumes "\<And>aad p blob. seal E aad p = Some blob \<Longrightarrow> unseal E aad blob = Some p"
  shows "(encryptStoredJSON E aad p = Inr stored \<longrightarrow> decryptStoredJSON E aad stored = Inr p)
    \<and> (trim_space txt \<noteq> '''' \<and> \<not> has_prefix txt encryptedRegistrationConfigPrefix \<longrightarrow> (\<exists>e. decryptStoredJSON E aad txt = Inl e))"
proof -
  have "trim_space (encryptedRegistrationConfigPrefix @ b) \<noteq> ''''" for b
    by (simp add: trim_space_empty encryptedRegistrationConfigPrefix_def is_space_def)
  moreover have "has_prefix (encryptedRegistrationConfigPrefix @ b) encryptedRegistrationConfigPrefix" for b
    by (simp add: has_prefix_def)
  moreover have "trim_space '''' = ''''" by (simp add: trim_space_empty)
  ultimately show ?thesis
    using assms by (auto simp: encryptStoredJSON_def decryptStoredJSON_def split: if_splits)
qed

end
