(* ===== verification/Leadership.thy ===== *)
theory Leadership
  imports Attempts Leases Samples
begin

text \<open>
  The leadership of the master (\<open>internal/db/leadership.go\<close>): one row holds the current instance, its
  epoch and the deadline of its lease in milliseconds of the database's clock; every takeover raises the
  epoch. A master that leads installs triggers on its connection that reject every write to the fenced
  tables once its lease is gone. The controller is the loop that renews the lease.
\<close>

section \<open>The lease\<close>

text \<open>\<open>Duration.Milliseconds\<close> truncates towards zero.\<close>

definition milliseconds :: "duration \<Rightarrow> int" where
  "milliseconds x = (if x < 0 then - ((- x) div 1000000) else x div 1000000)"

definition log_leader :: "lead_event \<Rightarrow> db \<Rightarrow> db" where
  "log_leader e d = d\<lparr>leader_log := insert_or_ignore (\<lambda>a b. le_id a = le_id b) e (leader_log d)\<rparr>"

definition AcquireLeadership :: "string \<Rightarrow> duration \<Rightarrow> string \<Rightarrow> int \<Rightarrow> int \<Rightarrow> db \<Rightarrow> ((int \<times> int) \<times> db) res" where
  "AcquireLeadership inst lease body now later d =
    (if trim_space inst = '''' \<or> lease \<le> 0 then Inl (ErrMsg ''instance id and positive leadership lease are required'')
     else let l = leader d in
       if ld_active l \<and> ld_deadline_ms l > now then Inl ErrLeadershipHeld
       else let epoch = ld_epoch l + 1;
                deadline = now + milliseconds lease;
                eventType = (if epoch > 1 then ''MASTER_TAKEOVER'' else ''MASTER_LEADERSHIP_ACQUIRED'')
         in Inr ((epoch, deadline), log_leader
             \<lparr>le_id = ''leadership-'' @ eventType @ ''-'' @ show_int epoch, le_instance = inst, le_epoch = epoch, le_type = eventType,
              le_at = later, le_deadline = deadline, le_metadata = body\<rparr>
             (d\<lparr>leader := l\<lparr>ld_instance := inst, ld_epoch := epoch, ld_active := True, ld_deadline_ms := deadline,
                  ld_acquired_ms := now, ld_renewed_ms := now, ld_released_ms := 0, ld_metadata := body\<rparr>\<rparr>)))"

text \<open>The guard shared by renewal, assertion and the triggers of the fence.\<close>

definition leads :: "string \<Rightarrow> int \<Rightarrow> int \<Rightarrow> db \<Rightarrow> bool" where
  "leads inst epoch now d \<longleftrightarrow> ld_active (leader d) \<and> ld_instance (leader d) = inst \<and> ld_epoch (leader d) = epoch
     \<and> ld_deadline_ms (leader d) > now"

definition RenewLeadership :: "string \<Rightarrow> int \<Rightarrow> duration \<Rightarrow> int \<Rightarrow> db \<Rightarrow> (int \<times> db) res" where
  "RenewLeadership inst epoch lease now d =
    (if leads inst epoch now d
     then Inr (now + milliseconds lease,
       d\<lparr>leader := (leader d)\<lparr>ld_deadline_ms := now + milliseconds lease, ld_renewed_ms := now\<rparr>\<rparr>)
     else Inl ErrNotLeader)"

definition ReleaseLeadership :: "string \<Rightarrow> int \<Rightarrow> int \<Rightarrow> int \<Rightarrow> db \<Rightarrow> (bool \<times> db) res" where
  "ReleaseLeadership inst epoch now later d =
    (let l = leader d in
     if ld_active l \<and> ld_instance l = inst \<and> ld_epoch l = epoch
     then Inr (True, log_leader
        \<lparr>le_id = ''leadership-release-'' @ show_int epoch, le_instance = inst, le_epoch = epoch, le_type = ''MASTER_LEADERSHIP_RELEASED'',
         le_at = later, le_deadline = 0, le_metadata = ''{}''\<rparr>
        (d\<lparr>leader := l\<lparr>ld_active := False, ld_deadline_ms := 0, ld_released_ms := now\<rparr>\<rparr>))
     else Inr (False, d))"

definition AssertLeadership :: "string \<Rightarrow> int \<Rightarrow> int \<Rightarrow> db \<Rightarrow> unit res" where
  "AssertLeadership inst epoch now d = guard_or (leads inst epoch now d) ErrNotLeader"

definition RecordLeadershipEvent :: "string \<Rightarrow> int \<Rightarrow> string \<Rightarrow> string \<Rightarrow> int \<Rightarrow> db \<Rightarrow> db" where
  "RecordLeadershipEvent inst epoch eventType body now d = log_leader
     \<lparr>le_id = ''leadership-'' @ to_lower eventType @ ''-'' @ inst @ ''-'' @ show_int epoch, le_instance = inst, le_epoch = epoch,
      le_type = eventType, le_at = now, le_deadline = 0, le_metadata = body\<rparr> d"

section \<open>The fence\<close>

text \<open>
  The modelled tables of \<open>fencedTables\<close>. The triggers abort a statement that writes a row of one of them
  while the lease is gone, and with it the transaction; a transaction is modelled by its effect, so the
  fence rejects it when a fenced table would change.
\<close>

definition fencedTables ::
  "db \<Rightarrow> job list \<times> run list \<times> task list \<times> event list \<times> attempt list \<times> artifact_row list \<times> registration list
    \<times> reg_attempt list \<times> rec_attempt list \<times> multipart list \<times> candidate list \<times> cleanup_attempt list" where
  "fencedTables d = (jobs d, runs d, tasks d, events d, attempts d, artifacts d, registrations d, reg_attempts d, rec_attempts d,
     multiparts d, candidates d, cleanup_attempts d)"

definition ActivateLeadershipFence :: "string \<Rightarrow> int \<Rightarrow> int \<Rightarrow> db \<Rightarrow> (string \<times> int) res" where
  "ActivateLeadershipFence inst epoch now d = rbind (AssertLeadership inst epoch now d) (\<lambda>_. Inr (inst, epoch))"

definition fenced :: "string \<times> int \<Rightarrow> int \<Rightarrow> (db \<Rightarrow> ('a \<times> db) res) \<Rightarrow> db \<Rightarrow> ('a \<times> db) res" where
  "fenced f now op d = rbind (op d) (\<lambda>(x, d').
     if fencedTables d' = fencedTables d \<or> leads (fst f) (snd f) now d then Inr (x, d') else Inl ErrStaleMaster)"

section \<open>The controller\<close>

record controller =
  ct_instance :: string
  ct_epoch :: int
  ct_lease :: duration
  ct_interval :: duration
  ct_state :: string
  ct_ready :: bool
  ct_deadline :: int
  ct_renewal :: int
  ct_working :: bool

definition NewLeadershipController :: "string \<Rightarrow> int \<Rightarrow> int \<Rightarrow> duration \<Rightarrow> duration \<Rightarrow> controller res" where
  "NewLeadershipController inst epoch deadline dur interval =
    (if interval \<le> 0 \<or> dur \<le> interval
     then Inl (ErrMsg ''leadership renewal interval must be positive and shorter than lease duration'')
     else Inr \<lparr>ct_instance = inst, ct_epoch = epoch, ct_lease = dur, ct_interval = interval, ct_state = ''STARTING'',
               ct_ready = False, ct_deadline = deadline, ct_renewal = 0, ct_working = True\<rparr>)"

definition SetReady :: "bool \<Rightarrow> controller \<Rightarrow> controller" where
  "SetReady ready c = (let c1 = c\<lparr>ct_ready := ready\<rparr> in if ready then c1\<lparr>ct_state := ''LEADER''\<rparr> else c1)"

definition AssertController :: "int \<Rightarrow> controller \<Rightarrow> db \<Rightarrow> unit res" where
  "AssertController now c d =
    (if \<not> ct_ready c \<or> ct_state c \<noteq> ''LEADER'' then Inl ErrNotLeader else AssertLeadership (ct_instance c) (ct_epoch c) now d)"

text \<open>
  One turn of the renewal loop: \<open>now\<close> is the database's clock, \<open>wall\<close> the process's. A failed renewal ends
  the loop and cancels the work of the master.
\<close>

definition renewal_tick :: "int \<Rightarrow> int \<Rightarrow> controller \<Rightarrow> db \<Rightarrow> controller \<times> db" where
  \<open>renewal_tick now wall c d =
    (if \<not> ct_working c then (c, d)
     else case RenewLeadership (ct_instance c) (ct_epoch c) (ct_lease c) now d of
       Inl _ \<Rightarrow> (c\<lparr>ct_state := ''LOST'', ct_ready := False, ct_working := False\<rparr>,
         RecordLeadershipEvent (ct_instance c) (ct_epoch c) ''MASTER_LEADERSHIP_LOST'' ''{"reason":"renewal_failed"}'' now d)
     | Inr (deadline, d1) \<Rightarrow> (c\<lparr>ct_deadline := deadline, ct_renewal := wall\<rparr>, d1))\<close>

definition StopController :: "int \<Rightarrow> int \<Rightarrow> controller \<Rightarrow> db \<Rightarrow> controller \<times> db" where
  "StopController now later c d =
    (let c1 = (SetReady False c)\<lparr>ct_state := ''SHUTTING_DOWN'', ct_working := False\<rparr>
     in case ReleaseLeadership (ct_instance c) (ct_epoch c) now later d of
          Inl _ \<Rightarrow> (c1, d) | Inr (_, d1) \<Rightarrow> (c1, d1))"

section \<open>Leadership is an exclusive lease\<close>

definition lead_holds :: "string \<times> int \<Rightarrow> int \<Rightarrow> db \<Rightarrow> bool" where
  "lead_holds h now d = leads (fst h) (snd h) now d"

text \<open>A request names the instance, the lease, the metadata and the clock of the history entry.\<close>

type_synonym lead_request = "string \<times> duration \<times> string \<times> int"

definition lead_acquire :: "lead_request \<Rightarrow> int \<Rightarrow> db \<Rightarrow> ((string \<times> int) \<times> db) option" where
  "lead_acquire q now d = (case q of (inst, lease, body, later) \<Rightarrow>
     (case AcquireLeadership inst lease body now later d of Inl _ \<Rightarrow> None | Inr ((epoch, _), d') \<Rightarrow> Some ((inst, epoch), d')))"

definition lead_renew :: "lead_request \<Rightarrow> string \<times> int \<Rightarrow> int \<Rightarrow> db \<Rightarrow> db option" where
  "lead_renew q h now d = (case q of (_, lease, _, _) \<Rightarrow>
     (case RenewLeadership (fst h) (snd h) lease now d of Inl _ \<Rightarrow> None | Inr (_, d') \<Rightarrow> Some d'))"

definition lead_release :: "string \<times> int \<Rightarrow> int \<times> int \<Rightarrow> db \<Rightarrow> db" where
  "lead_release h r d = (case ReleaseLeadership (fst h) (snd h) (fst r) (snd r) d of Inl _ \<Rightarrow> d | Inr (_, d') \<Rightarrow> d')"

definition lead_lasting :: "lead_request \<Rightarrow> bool" where
  "lead_lasting q \<longleftrightarrow> fst (snd q) \<ge> 1000000"

lemma leader_log_leader [simp]: "leader (log_leader e d) = leader d" "fencedTables (log_leader e d) = fencedTables d"
  by (simp_all add: log_leader_def fencedTables_def)

lemmas lead_op_defs = lead_acquire_def lead_renew_def lead_release_def AcquireLeadership_def RenewLeadership_def ReleaseLeadership_def

interpretation mastership: exclusive_lease lead_holds lead_acquire lead_renew lead_release "\<lambda>_. True" lead_lasting
proof
  fix h k :: "string \<times> int" and q :: lead_request and t u and r :: "int \<times> int" and s s' :: db
  show "lead_holds h t s \<Longrightarrow> lead_holds k t s \<Longrightarrow> h = k" by (cases h; cases k) (simp add: lead_holds_def leads_def)
  show "lead_holds h t s \<Longrightarrow> u \<le> t \<Longrightarrow> lead_holds h u s" by (simp add: lead_holds_def leads_def)
  show "lead_acquire q t s = Some (h, s') \<Longrightarrow> \<not> lead_holds k t s"
    by (auto simp: lead_op_defs Let_def lead_holds_def leads_def split: prod.splits if_splits)
  show "lead_acquire q t s = Some (h, s') \<Longrightarrow> lead_lasting q \<Longrightarrow> lead_holds h t s'"
    by (auto simp: lead_op_defs Let_def lead_holds_def leads_def lead_lasting_def milliseconds_def split: prod.splits if_splits)
  show "lead_acquire q t s = Some (h, s') \<Longrightarrow> lead_holds k u s' \<Longrightarrow> k = h"
    by (cases k) (auto simp: lead_op_defs Let_def lead_holds_def leads_def split: prod.splits if_splits)
  show "lead_renew q h t s = Some s' \<Longrightarrow> True \<Longrightarrow> lead_holds h t s"
    by (auto simp: lead_op_defs Let_def lead_holds_def split: prod.splits if_splits)
  show "lead_renew q h t s = Some s' \<Longrightarrow> True \<Longrightarrow> lead_lasting q \<Longrightarrow> lead_holds h t s'"
    by (auto simp: lead_op_defs Let_def lead_holds_def leads_def lead_lasting_def milliseconds_def split: prod.splits if_splits)
  show "lead_renew q h t s = Some s' \<Longrightarrow> lead_holds k u s' \<Longrightarrow> k = h"
    by (cases k) (auto simp: lead_op_defs Let_def lead_holds_def leads_def split: prod.splits if_splits)
  show "lead_holds k t (lead_release h r s) \<longleftrightarrow> lead_holds k t s \<and> k \<noteq> h"
    by (cases h; cases k) (auto simp: lead_op_defs Let_def lead_holds_def leads_def)
qed

section \<open>Properties\<close>

text \<open>What the rest of the system may do to the leadership row up to an instant, the holder \<open>h\<close> apart.\<close>

inductive rival_step :: "string \<times> int \<Rightarrow> int \<Rightarrow> db \<Rightarrow> db \<Rightarrow> bool" for h t where
  acquire: "u \<le> t \<Longrightarrow> AcquireLeadership i lease body u later d = Inr (x, d') \<Longrightarrow> rival_step h t d d'"
| renew: "u \<le> t \<Longrightarrow> (i, e) \<noteq> h \<Longrightarrow> RenewLeadership i e lease u d = Inr (y, d') \<Longrightarrow> rival_step h t d d'"
| release: "(i, e) \<noteq> h \<Longrightarrow> ReleaseLeadership i e u later d = Inr (b, d') \<Longrightarrow> rival_step h t d d'"
| elsewhere: "leader d' = leader d \<Longrightarrow> rival_step h t d d'"

lemma rival_is_other: "rival_step h t d d' \<Longrightarrow> mastership.others h t d d'"
proof (induction rule: rival_step.induct)
  case (acquire u i lease body later d x d')
  then have "lead_acquire (i, lease, body, later) u d = Some ((i, fst x), d')" by (cases x) (simp add: lead_acquire_def)
  then show ?case using acquire(1) by (rule mastership.others.acquired [rotated])
next
  case (renew u i e lease d y d')
  then have "lead_renew ([], lease, [], 0) (i, e) u d = Some d'" by (simp add: lead_renew_def)
  then show ?case using renew(1,2) by (intro mastership.others.renewed TrueI)
next
  case (release i e u later d b d')
  then have "d' = lead_release (i, e) (u, later) d" by (simp add: lead_release_def)
  then show ?case using release(1) by (intro mastership.others.released)
next
  case (elsewhere d' d)
  then show ?case by (intro mastership.others.elsewhere) (simp add: lead_holds_def leads_def)
qed

lemma rivals_are_others: "(rival_step h t)\<^sup>*\<^sup>* d d' \<Longrightarrow> (mastership.others h t)\<^sup>*\<^sup>* d d'"
  by (induction rule: rtranclp_induct) (auto intro: rival_is_other rtranclp.rtrancl_into_rtrancl)

text \<open>
  C16. A master that acquires the leadership keeps it until the deadline of its lease, whatever other
  instances do in the meantime: its assertion succeeds, no other instance or epoch passes one, and every
  attempt to acquire the lease is refused.
\<close>

theorem leader_keeps_lease:
  assumes a: "AcquireLeadership inst lease body now later d = Inr ((epoch, deadline), d1)"
    and rivals: "(rival_step (inst, epoch) t)\<^sup>*\<^sup>* d1 d2" and t: "t < deadline"
  shows "AssertLeadership inst epoch t d2 = Inr ()
    \<and> (\<forall>i e. AssertLeadership i e t d2 = Inr () \<longrightarrow> i = inst \<and> e = epoch)
    \<and> (\<forall>i l b u w. trim_space i \<noteq> '''' \<and> 0 < l \<and> u \<le> t \<longrightarrow> AcquireLeadership i l b u w d2 = Inl ErrLeadershipHeld)"
proof -
  have "lead_holds (inst, epoch) t d1"
    using a t by (auto simp: AcquireLeadership_def Let_def lead_holds_def leads_def split: if_splits)
  then have h: "lead_holds (inst, epoch) t d2" by (rule mastership.undisturbed [OF rivals_are_others [OF rivals]])
  have 1: "AssertLeadership inst epoch t d2 = Inr ()" using h by (simp add: AssertLeadership_def lead_holds_def guard_or_def)
  have 2: "i = inst \<and> e = epoch" if as: "AssertLeadership i e t d2 = Inr ()" for i e
  proof -
    have "lead_holds (i, e) t d2" using as by (simp add: AssertLeadership_def lead_holds_def guard_or_def split: if_splits)
    from mastership.unique [OF h this] show ?thesis by simp
  qed
  have 3: "AcquireLeadership i l b u w d2 = Inl ErrLeadershipHeld" if u: "trim_space i \<noteq> ''''" "0 < l" "u \<le> t" for i l b u w
    using u h by (simp add: AcquireLeadership_def Let_def lead_holds_def leads_def)
  from 1 2 3 show ?thesis by blast
qed

text \<open>Every step of the system; only leadership operations touch the leadership row.\<close>

inductive lead_step :: "db \<Rightarrow> db \<Rightarrow> bool" where
  acquire: "AcquireLeadership i lease body u later d = Inr (x, d') \<Longrightarrow> lead_step d d'"
| renew: "RenewLeadership i e lease u d = Inr (y, d') \<Longrightarrow> lead_step d d'"
| release: "ReleaseLeadership i e u later d = Inr (b, d') \<Longrightarrow> lead_step d d'"
| elsewhere: "leader d' = leader d \<Longrightarrow> lead_step d d'"

inductive_cases lead_stepE: "lead_step d d'"

lemma lead_step_epoch: "lead_step d d' \<Longrightarrow> ld_epoch (leader d) \<le> ld_epoch (leader d')"
  by (erule lead_stepE)
    (auto simp: AcquireLeadership_def RenewLeadership_def ReleaseLeadership_def Let_def split: if_splits)

lemma lead_steps_epoch: "lead_step\<^sup>*\<^sup>* d d' \<Longrightarrow> ld_epoch (leader d) \<le> ld_epoch (leader d')"
  by (induction rule: rtranclp_induct) (auto dest: lead_step_epoch)

text \<open>
  C17. A deposed master stays deposed: a successful acquisition gives an epoch never used before, and once
  the epoch has moved on, an older epoch can never again be asserted or renewed, and through its fence no
  transaction, whatever it tries, changes a fenced table.
\<close>

theorem deposed_master_is_fenced_forever:
  assumes a: "AcquireLeadership inst lease body now later d = Inr ((epoch, deadline), d1)"
    and old: "e \<le> ld_epoch (leader d)" and steps: "lead_step\<^sup>*\<^sup>* d1 d2"
  shows "e < epoch \<and> AssertLeadership i e t d2 = Inl ErrNotLeader \<and> RenewLeadership i e l t d2 = Inl ErrNotLeader
    \<and> (case fenced (i, e) t (op :: db \<Rightarrow> ('a \<times> db) res) d2 of Inl _ \<Rightarrow> True | Inr (x, d3) \<Rightarrow> fencedTables d3 = fencedTables d2)"
proof -
  have ep: "epoch = ld_epoch (leader d) + 1" "ld_epoch (leader d1) = epoch"
    using a by (auto simp: AcquireLeadership_def Let_def split: if_splits)
  then have "e < ld_epoch (leader d2)" using lead_steps_epoch [OF steps] old by simp
  then have n: "\<not> leads i e t d2" by (simp add: leads_def)
  then show ?thesis using ep(1) old
    by (auto simp: AssertLeadership_def RenewLeadership_def fenced_def guard_or_def rbind_def split: sum.splits)
qed

text \<open>
  The controller never claims leadership it does not have: whenever its assertion succeeds, the
  instance holds the unexpired lease of its epoch in the database, and after a failed renewal the
  assertion fails until the process marks itself ready again.
\<close>

lemma controller_asserts_only_the_lease:
  "(AssertController now c d = Inr () \<longrightarrow> leads (ct_instance c) (ct_epoch c) now d \<and> ct_ready c)
   \<and> (ct_working c \<and> \<not> leads (ct_instance c) (ct_epoch c) now d
      \<longrightarrow> (case renewal_tick now wall c d of (c', d') \<Rightarrow>
            (\<forall>t d2. AssertController t c' d2 = Inl ErrNotLeader) \<and> \<not> ct_working c' \<and> renewal_tick t2 w2 c' d' = (c', d')))
   \<and> (ct_working c \<and> leads (ct_instance c) (ct_epoch c) now d
      \<longrightarrow> (case renewal_tick now wall c d of (c', d') \<Rightarrow>
            ct_deadline c' = ld_deadline_ms (leader d') \<and> (milliseconds (ct_lease c) > 0 \<longrightarrow> leads (ct_instance c) (ct_epoch c) now d')))"
  by (auto simp: AssertController_def AssertLeadership_def renewal_tick_def RenewLeadership_def leads_def guard_or_def
      split: if_splits)

theorem leader_keeps_lease_witness:
  "\<exists>d1. AcquireLeadership ''m2'' 5000000000 ''{}'' 200 201 sample_db = Inr ((2, 5200), d1) \<and> AssertLeadership ''m2'' 2 5199 d1 = Inr ()"
proof -
  have "(case AcquireLeadership ''m2'' 5000000000 ''{}'' 200 201 sample_db of Inr ((e, x), _) \<Rightarrow> e = 2 \<and> x = 5200 | _ \<Rightarrow> False)" by code_simp
  then obtain d1 where d1: "AcquireLeadership ''m2'' 5000000000 ''{}'' 200 201 sample_db = Inr ((2, 5200), d1)"
    by (auto split: sum.splits prod.splits)
  have "(5199::int) < 5200" by simp
  from leader_keeps_lease [OF d1 rtranclp.rtrancl_refl this] d1 show ?thesis by blast
qed

theorem deposed_master_is_fenced_forever_witness:
  "\<exists>d1. AcquireLeadership ''m2'' 5000000000 ''{}'' 200 201 sample_db = Inr ((2, 5200), d1) \<and> AssertLeadership ''m'' 1 50 d1 = Inl ErrNotLeader"
proof -
  have "(case AcquireLeadership ''m2'' 5000000000 ''{}'' 200 201 sample_db of Inr ((e, x), _) \<Rightarrow> e = 2 \<and> x = 5200 | _ \<Rightarrow> False)" by code_simp
  then obtain d1 where d1: "AcquireLeadership ''m2'' 5000000000 ''{}'' 200 201 sample_db = Inr ((2, 5200), d1)"
    by (auto split: sum.splits prod.splits)
  have "1 \<le> ld_epoch (leader sample_db)" by (simp add: sample_db_def)
  from deposed_master_is_fenced_forever [OF d1 this rtranclp.rtrancl_refl] d1 show ?thesis by blast
qed

end
