(* ===== verification/UploadCapacity.thy ===== *)
theory UploadCapacity
  imports Leadership
begin

text \<open>
  The global upload slots (\<open>internal/db/upload_capacity.go\<close>): a worker uploads only under a lease granted
  by the master, of which at most \<open>limit\<close> are live at any instant. A lease belongs to a task attempt and
  is renewed by asking for it again; expired leases are reclaimed by the next request of anyone.
\<close>

section \<open>Operations\<close>

record UploadCapacityLease =
  uc_id :: string
  uc_task :: string
  uc_attempt :: string
  uc_worker :: string
  uc_token :: string
  uc_deadline :: "time option"

definition ul_conflict :: "upload_lease \<Rightarrow> upload_lease \<Rightarrow> bool" where
  "ul_conflict a b \<longleftrightarrow> ul_id a = ul_id b \<or> ul_attempt a = ul_attempt b \<or> ul_token a = ul_token b"

definition capacity_ttl :: "duration \<Rightarrow> duration" where
  "capacity_ttl ttl = (if ttl \<le> 0 then 120 * second else ttl)"

definition capacity_limit :: "int \<Rightarrow> int" where
  "capacity_limit limit = (if limit \<le> 0 then 1 else limit)"

text \<open>The reclaim of expired grants that opens the transaction.\<close>

definition reclaim_capacity :: "time \<Rightarrow> upload_lease list \<Rightarrow> upload_lease list" where
  "reclaim_capacity now = update_where (\<lambda>l. ul_status l = L_ACTIVE \<and> ul_deadline l \<le> now)
     (\<lambda>l. l\<lparr>ul_status := L_EXPIRED, ul_updated := now\<rparr>)"

text \<open>The ownership query: the caller's attempt is the live current attempt of a running task.\<close>

definition capacity_owner :: "string \<Rightarrow> string \<Rightarrow> string \<Rightarrow> string \<Rightarrow> string \<Rightarrow> time \<Rightarrow> db \<Rightarrow> bool" where
  "capacity_owner boot tid aid token worker now d \<longleftrightarrow>
     list_ex (\<lambda>a. att_id a = aid \<and> att_task a = tid \<and> att_worker a = worker \<and> att_boot a = boot \<and> att_token a = token
       \<and> att_status a = ACTIVE \<and> att_deadline a > now
       \<and> list_ex (\<lambda>t. task_id t = att_task a \<and> task_status t = RUNNING \<and> task_cur t = Some (att_id a)) (tasks d)) (attempts d)"

definition live_leases :: "time \<Rightarrow> upload_lease list \<Rightarrow> upload_lease list" where
  "live_leases now ls = filter (\<lambda>l. ul_status l = L_ACTIVE \<and> ul_deadline l > now) ls"

definition lease_view :: "upload_lease option \<Rightarrow> UploadCapacityLease" where
  "lease_view r = (case r of
      None \<Rightarrow> \<lparr>uc_id = '''', uc_task = '''', uc_attempt = '''', uc_worker = '''', uc_token = '''', uc_deadline = None\<rparr>
    | Some l \<Rightarrow> \<lparr>uc_id = ul_id l, uc_task = ul_task l, uc_attempt = ul_attempt l, uc_worker = ul_worker l, uc_token = ul_token l,
                uc_deadline = Some (ul_deadline l)\<rparr>)"

definition AcquireUploadCapacity ::
  "string \<Rightarrow> string \<Rightarrow> string \<Rightarrow> string \<Rightarrow> string \<Rightarrow> time \<Rightarrow> duration \<Rightarrow> int \<Rightarrow> string res \<Rightarrow> string res \<Rightarrow> db
    \<Rightarrow> ((UploadCapacityLease \<times> bool) \<times> db) res" where
  "AcquireUploadCapacity boot tid aid token worker now ttl limit idFn tokenFn d =
    (let deadline = now + capacity_ttl ttl;
         ls = reclaim_capacity now (upload_leases d);
         row = select_one (\<lambda>l. ul_attempt l = aid) ls;
         out = lease_view row
     in if \<not> capacity_owner boot tid aid token worker now d then Inl ErrUploadCapacityFenced
     else if (case row of None \<Rightarrow> False | Some l \<Rightarrow> ul_status l = L_ACTIVE \<and> ul_task l = tid \<and> ul_worker l = worker)
     then Inr ((out\<lparr>uc_deadline := Some deadline\<rparr>, True),
       d\<lparr>upload_leases := update_where (\<lambda>l. ul_id l = uc_id out \<and> ul_status l = L_ACTIVE)
           (\<lambda>l. l\<lparr>ul_deadline := deadline, ul_updated := now\<rparr>) ls\<rparr>)
     else if int (length (live_leases now ls)) \<ge> capacity_limit limit then Inr ((out, False), d\<lparr>upload_leases := ls\<rparr>)
     else rbind idFn (\<lambda>lid. rbind tokenFn (\<lambda>ltoken.
       rbind (if uc_attempt out = ''''
          then insert_row ul_conflict \<lparr>ul_id = lid, ul_task = tid, ul_attempt = aid, ul_worker = worker, ul_token = ltoken,
                 ul_status = L_ACTIVE, ul_deadline = deadline, ul_updated = now, ul_released = None\<rparr> ls
          else update_unique (pairwise ul_conflict) (\<lambda>l. ul_attempt l = aid)
                 (\<lambda>l. l\<lparr>ul_id := lid, ul_task := tid, ul_worker := worker, ul_token := ltoken, ul_status := L_ACTIVE,
                        ul_deadline := deadline, ul_updated := now, ul_released := None\<rparr>) ls) (\<lambda>ls'.
       Inr ((\<lparr>uc_id = lid, uc_task = tid, uc_attempt = aid, uc_worker = worker, uc_token = ltoken, uc_deadline = Some deadline\<rparr>, True),
            d\<lparr>upload_leases := ls'\<rparr>)))))"

definition ReleaseUploadCapacity ::
  "string \<Rightarrow> string \<Rightarrow> string \<Rightarrow> string \<Rightarrow> string \<Rightarrow> string \<Rightarrow> time \<Rightarrow> db \<Rightarrow> (unit \<times> db) res" where
  "ReleaseUploadCapacity boot tid aid worker lid ltoken now d =
    (let p = (\<lambda>l. ul_id l = trim_space lid \<and> ul_task l = tid \<and> ul_attempt l = aid \<and> ul_worker l = worker \<and> ul_token l = ltoken)
     in if rows_affected p (upload_leases d) \<noteq> 1 then Inl ErrUploadCapacityFenced
        else Inr ((), d\<lparr>upload_leases := update_where p
          (\<lambda>l. l\<lparr>ul_status := (if ul_status l = L_ACTIVE then L_RELEASED else ul_status l), ul_updated := now,
                 ul_released := (if ul_status l = L_ACTIVE then Some now else ul_released l)\<rparr>) (upload_leases d)\<rparr>))"

definition IsUploadCapacityFenced :: "err \<Rightarrow> bool" where
  "IsUploadCapacityFenced e \<longleftrightarrow> e = ErrUploadCapacityFenced"

section \<open>The specification: a counting semaphore with deadlines\<close>

text \<open>
  What the slots promise, without rows, tokens or statuses: the live grants by attempt with their
  deadlines. A grant that expired is gone at the next request; a holder is always renewed, anyone else is
  admitted while there is room.
\<close>

type_synonym semaphore = "string \<rightharpoonup> time"

definition sem_expire :: "time \<Rightarrow> semaphore \<Rightarrow> semaphore" where
  "sem_expire now m = (\<lambda>k. case m k of None \<Rightarrow> None | Some t \<Rightarrow> if t > now then Some t else None)"

definition sem_acquire :: "int \<Rightarrow> string \<Rightarrow> time \<Rightarrow> time \<Rightarrow> semaphore \<Rightarrow> bool \<times> semaphore" where
  "sem_acquire limit k now deadline m = (let m' = sem_expire now m in
     if m' k \<noteq> None \<or> int (card (dom m')) < limit then (True, m'(k \<mapsto> deadline)) else (False, m'))"

definition sem_release :: "string \<Rightarrow> semaphore \<Rightarrow> semaphore" where
  "sem_release k m = m(k := None)"

text \<open>The grants a table holds.\<close>

definition slots :: "upload_lease list \<Rightarrow> semaphore" where
  "slots ls = map_of (map (\<lambda>l. (ul_attempt l, ul_deadline l)) (filter (\<lambda>l. ul_status l = L_ACTIVE) ls))"

lemma pairwise_ul: "pairwise ul_conflict ls \<longleftrightarrow> keyed ul_id ls \<and> keyed ul_attempt ls \<and> keyed ul_token ls"
  unfolding keyed_def by (induction ls) (auto simp: list_all_iff ul_conflict_def)

lemma slots_iff:
  assumes "keyed ul_attempt ls"
  shows "slots ls k = Some t \<longleftrightarrow> (\<exists>l \<in> set ls. ul_status l = L_ACTIVE \<and> ul_attempt l = k \<and> ul_deadline l = t)"
proof -
  have "distinct (map fst (map (\<lambda>l. (ul_attempt l, ul_deadline l)) (filter (\<lambda>l. ul_status l = L_ACTIVE) ls)))"
    using assms by (simp add: keyed_def comp_def distinct_map_filter)
  then show ?thesis by (auto simp: slots_def map_of_eq_Some_iff)
qed

lemma slots_eqI:
  assumes "keyed ul_attempt ls"
    and "\<And>k t. m k = Some t \<longleftrightarrow> (\<exists>l \<in> set ls. ul_status l = L_ACTIVE \<and> ul_attempt l = k \<and> ul_deadline l = t)"
  shows "slots ls = m"
proof
  fix k
  have "slots ls k = Some t \<longleftrightarrow> m k = Some t" for t using assms by (simp add: slots_iff)
  then show "slots ls k = m k" by (cases "m k"; cases "slots ls k") auto
qed

lemma card_slots:
  assumes "keyed ul_attempt ls"
  shows "card (dom (slots ls)) = length (filter (\<lambda>l. ul_status l = L_ACTIVE) ls)"
proof -
  let ?a = "map ul_attempt (filter (\<lambda>l. ul_status l = L_ACTIVE) ls)"
  have "dom (slots ls) = set ?a" by (auto simp: slots_def dom_map_of_conv_image_fst image_image)
  moreover have "distinct ?a" using assms by (simp add: keyed_def distinct_map_filter)
  ultimately show ?thesis by (metis distinct_card length_map)
qed

lemma sem_expire_iff: "sem_expire now m k = Some t \<longleftrightarrow> m k = Some t \<and> now < t"
  by (auto simp: sem_expire_def split: option.splits)

lemma finite_slots [simp]: "finite (dom (slots ls))"
  by (simp add: slots_def finite_dom_map_of)

section \<open>The invariant of the table\<close>

text \<open>The keys are unique and a lease names the task and the worker of its attempt.\<close>

definition capacity_inv :: "db \<Rightarrow> bool" where
  "capacity_inv d \<longleftrightarrow> pairwise ul_conflict (upload_leases d) \<and> keyed att_id (attempts d)
     \<and> (\<forall>l \<in> set (upload_leases d). \<exists>a \<in> set (attempts d).
          att_id a = ul_attempt l \<and> att_task a = ul_task l \<and> att_worker a = ul_worker l)"

lemma reclaim_keys:
  "keyed ul_id (reclaim_capacity now ls) = keyed ul_id ls" "keyed ul_attempt (reclaim_capacity now ls) = keyed ul_attempt ls"
  "keyed ul_token (reclaim_capacity now ls) = keyed ul_token ls"
  by (simp_all add: reclaim_capacity_def keyed_def update_where_key)

lemma in_reclaim:
  "l \<in> set (reclaim_capacity now ls) \<Longrightarrow> \<exists>l0 \<in> set ls. ul_attempt l = ul_attempt l0 \<and> ul_task l = ul_task l0 \<and> ul_worker l = ul_worker l0
     \<and> (ul_status l = L_ACTIVE \<longrightarrow> l = l0 \<and> now < ul_deadline l)"
  unfolding reclaim_capacity_def by (erule in_update_whereE) (force split: if_splits)+

lemma reclaim_live: "live_leases now (reclaim_capacity now ls) = filter (\<lambda>l. ul_status l = L_ACTIVE) (reclaim_capacity now ls)"
  unfolding live_leases_def using in_reclaim [of _ now ls] by (intro filter_cong) auto

lemma slots_reclaim:
  assumes "keyed ul_attempt ls"
  shows "slots (reclaim_capacity now ls) = sem_expire now (slots ls)"
proof (rule slots_eqI)
  show "keyed ul_attempt (reclaim_capacity now ls)" using assms by (simp add: reclaim_keys)
  fix k t
  have "(\<exists>l \<in> set (reclaim_capacity now ls). ul_status l = L_ACTIVE \<and> ul_attempt l = k \<and> ul_deadline l = t)
    \<longleftrightarrow> (\<exists>l \<in> set ls. ul_status l = L_ACTIVE \<and> ul_attempt l = k \<and> ul_deadline l = t \<and> now < t)"
    unfolding reclaim_capacity_def update_where_def by force
  then show "sem_expire now (slots ls) k = Some t \<longleftrightarrow>
      (\<exists>l \<in> set (reclaim_capacity now ls). ul_status l = L_ACTIVE \<and> ul_attempt l = k \<and> ul_deadline l = t)"
    by (auto simp: sem_expire_iff slots_iff [OF assms])
qed

section \<open>The operations refine the specification\<close>

text \<open>A table \<open>ls'\<close> that differs from \<open>ls\<close> in the row of one attempt, which holds an active lease \<open>l\<close>.\<close>

definition grants :: "upload_lease list \<Rightarrow> upload_lease \<Rightarrow> upload_lease list \<Rightarrow> bool" where
  "grants ls l ls' \<longleftrightarrow> pairwise ul_conflict ls' \<and> l \<in> set ls' \<and> ul_status l = L_ACTIVE
     \<and> (\<forall>k \<in> set ls'. ul_attempt k \<noteq> ul_attempt l \<longrightarrow> k \<in> set ls) \<and> (\<forall>k \<in> set ls. ul_attempt k \<noteq> ul_attempt l \<longrightarrow> k \<in> set ls')"

lemma grants_slots:
  assumes g: "grants ls l ls'" and keys: "keyed ul_attempt ls"
  shows "slots ls' = (slots ls)(ul_attempt l \<mapsto> ul_deadline l)"
proof (rule slots_eqI)
  show k': "keyed ul_attempt ls'" using g by (simp add: grants_def pairwise_ul)
  fix j u
  show "((slots ls)(ul_attempt l \<mapsto> ul_deadline l)) j = Some u \<longleftrightarrow>
    (\<exists>k \<in> set ls'. ul_status k = L_ACTIVE \<and> ul_attempt k = j \<and> ul_deadline k = u)"
  proof (cases "j = ul_attempt l")
    case True
    have "k = l" if "k \<in> set ls'" "ul_attempt k = ul_attempt l" for k
      using keyed_unique [OF k' that(1)] g that(2) by (simp add: grants_def)
    then show ?thesis using True g by (auto simp: grants_def)
  next
    case False
    then show ?thesis using g by (auto simp: grants_def slots_iff [OF keys])
  qed
qed

text \<open>An update of the rows with one key leaves the rows with other keys.\<close>

lemma update_where_other_keys:
  assumes "\<And>r. key (f r) = key r" "\<And>r. r \<in> set xs \<Longrightarrow> p r \<Longrightarrow> key r = k" "key x \<noteq> k"
  shows "x \<in> set (update_where p f xs) \<longleftrightarrow> x \<in> set xs"
proof
  assume "x \<in> set (update_where p f xs)"
  then obtain r where r: "r \<in> set xs" "x = (if p r then f r else r)" by (auto elim: in_update_whereE)
  then show "x \<in> set xs" using assms(2) [OF r(1)] assms(1) [of r] assms(3) by (auto split: if_splits)
qed (use assms in \<open>auto intro: update_where_keepI\<close>)

lemma grants_renewal:
  assumes "pairwise ul_conflict ls" "l \<in> set ls" "ul_status l = L_ACTIVE"
  shows "grants ls (l\<lparr>ul_deadline := t, ul_updated := now\<rparr>)
    (update_where (\<lambda>k. ul_id k = ul_id l \<and> ul_status k = L_ACTIVE) (\<lambda>k. k\<lparr>ul_deadline := t, ul_updated := now\<rparr>) ls)"
    (is "grants ls (?f l) (update_where ?p ?f ls)")
proof -
  have only: "k = l" if "k \<in> set ls" "ul_id k = ul_id l" for k
    using keyed_unique [of ul_id ls k l] assms that by (simp add: pairwise_ul)
  have "?f l \<in> set (update_where ?p ?f ls)" by (rule update_where_hitI) (use assms in auto)
  moreover have "pairwise ul_conflict (update_where ?p ?f ls)"
    using assms(1) by (simp add: pairwise_ul keyed_update_where)
  moreover have "k \<in> set (update_where ?p ?f ls) \<longleftrightarrow> k \<in> set ls" if "ul_attempt k \<noteq> ul_attempt l" for k
    by (rule update_where_other_keys [where key = ul_attempt and k = "ul_attempt l"]) (use only that in auto)
  ultimately show ?thesis using assms(3) by (auto simp: grants_def)
qed

lemma grants_insert:
  assumes "pairwise ul_conflict ls" "insert_row ul_conflict l ls = Inr ls'" "ul_status l = L_ACTIVE"
  shows "grants ls l ls'"
proof -
  have i: "ls' = ls @ [l]" "\<And>k. k \<in> set ls \<Longrightarrow> \<not> ul_conflict l k" using assms(2) by (auto simp: list_ex_iff)
  then have "pairwise ul_conflict ls'"
    using assms(1) unfolding pairwise_ul i(1) by (intro conjI keyed_append) (auto simp: ul_conflict_def)
  then show ?thesis using i assms(3) by (auto simp: grants_def)
qed

lemma grants_regrant:
  assumes "update_unique (pairwise ul_conflict) (\<lambda>l. ul_attempt l = k) f ls = Inr ls'" "l \<in> set ls" "ul_attempt l = k"
    "ul_status (f l) = L_ACTIVE" "\<And>l. ul_attempt (f l) = ul_attempt l"
  shows "grants ls (f l) ls'"
proof -
  have u: "ls' = update_where (\<lambda>l. ul_attempt l = k) f ls" "pairwise ul_conflict ls'"
    using update_unique_InrD [OF assms(1)] by auto
  have "f l \<in> set ls'" unfolding u(1) using assms(2,3) by (rule update_where_hitI)
  moreover have "j \<in> set ls' \<longleftrightarrow> j \<in> set ls" if "ul_attempt j \<noteq> k" for j
    unfolding u(1) by (rule update_where_other_keys [where key = ul_attempt and k = k]) (use assms(5) that in auto)
  ultimately show ?thesis using u(2) assms(3-5) by (auto simp: grants_def)
qed

text \<open>A lease of an attempt that the caller owns carries the caller's task and worker.\<close>

lemma lease_of_owner:
  assumes inv: "capacity_inv d" and own: "capacity_owner boot tid aid token worker now d"
    and l: "l \<in> set (reclaim_capacity t (upload_leases d))" "ul_attempt l = aid"
  shows "ul_task l = tid \<and> ul_worker l = worker"
proof -
  obtain a where a: "a \<in> set (attempts d)" "att_id a = aid" "att_task a = tid" "att_worker a = worker"
    using own by (auto simp: capacity_owner_def list_ex_iff)
  obtain b where b: "b \<in> set (attempts d)" "att_id b = aid" "att_task b = ul_task l" "att_worker b = ul_worker l"
    using in_reclaim [OF l(1)] l(2) inv unfolding capacity_inv_def by force
  have "b = a" using keyed_unique [of att_id "attempts d" b a] inv a b by (auto simp: capacity_inv_def)
  then show ?thesis using a b by simp
qed

lemma owner_holds_slot:
  assumes inv: "capacity_inv d" and own: "capacity_owner boot tid aid token worker now d"
  defines "ls \<equiv> reclaim_capacity now (upload_leases d)"
  shows "(case select_one (\<lambda>l. ul_attempt l = aid) ls of None \<Rightarrow> False
          | Some l \<Rightarrow> ul_status l = L_ACTIVE \<and> ul_task l = tid \<and> ul_worker l = worker) \<longleftrightarrow> slots ls aid \<noteq> None" (is "?mine \<longleftrightarrow> _")
proof
  have k: "keyed ul_attempt ls" using inv by (simp add: ls_def reclaim_keys capacity_inv_def pairwise_ul)
  show "slots ls aid \<noteq> None" if m: ?mine
  proof -
    obtain l where "select_one (\<lambda>l. ul_attempt l = aid) ls = Some l" "ul_status l = L_ACTIVE" using m by (auto split: option.splits)
    then have "slots ls aid = Some (ul_deadline l)" unfolding slots_iff [OF k] by auto
    then show ?thesis by simp
  qed
  assume "slots ls aid \<noteq> None"
  then obtain t where "slots ls aid = Some t" by auto
  then obtain l where l: "l \<in> set ls" "ul_status l = L_ACTIVE" "ul_attempt l = aid" unfolding slots_iff [OF k] by auto
  have "select_one (\<lambda>l. ul_attempt l = aid) ls = Some l" by (rule keyed_select_one [OF k l(1)]) (simp_all add: l)
  then show ?mine using l lease_of_owner [OF inv own, of l now] by (simp add: ls_def)
qed

text \<open>The effect of a request that is not rejected: a grant recorded in the row \<open>l\<close>, or a refusal.\<close>

lemma acquire_cases:
  assumes inv: "capacity_inv d"
    and ok: "AcquireUploadCapacity boot tid aid token worker now ttl limit idFn tokenFn d = Inr ((out, got), d')"
  defines "ls \<equiv> reclaim_capacity now (upload_leases d)"
  obtains (granted) l ls' where "got" "d' = d\<lparr>upload_leases := ls'\<rparr>" "grants ls l ls'" "out = lease_view (Some l)"
      "ul_attempt l = aid" "ul_deadline l = now + capacity_ttl ttl" "ul_task l = tid" "ul_worker l = worker"
      "slots ls aid \<noteq> None \<or> int (card (dom (slots ls))) < capacity_limit limit"
    | (refused) "\<not> got" "d' = d\<lparr>upload_leases := ls\<rparr>" "slots ls aid = None" "int (card (dom (slots ls))) \<ge> capacity_limit limit"
proof -
  let ?row = "select_one (\<lambda>l. ul_attempt l = aid) ls"
  have pw: "pairwise ul_conflict ls" and keys: "keyed ul_attempt ls"
    using inv by (simp_all add: ls_def reclaim_keys capacity_inv_def pairwise_ul)
  have own: "capacity_owner boot tid aid token worker now d"
    using ok by (auto simp: AcquireUploadCapacity_def Let_def split: if_splits)
  note mine = owner_holds_slot [OF inv own, folded ls_def]
  have card: "int (card (dom (slots ls))) = int (length (live_leases now ls))"
    using card_slots [OF keys] by (simp add: ls_def reclaim_live)
  note ok' = ok [unfolded AcquireUploadCapacity_def Let_def, folded ls_def, unfolded mine, folded card]
  consider "slots ls aid \<noteq> None" | "slots ls aid = None" "int (card (dom (slots ls))) \<ge> capacity_limit limit"
    | "slots ls aid = None" "int (card (dom (slots ls))) < capacity_limit limit" by linarith
  then show thesis
  proof cases
    case 1
    then obtain l where l: "?row = Some l" "ul_status l = L_ACTIVE" "ul_task l = tid" "ul_worker l = worker"
      unfolding mine [symmetric] by (auto split: option.splits)
    then have m: "l \<in> set ls" "ul_attempt l = aid" by auto
    show thesis
      by (rule granted [OF _ _ grants_renewal [OF pw m(1) l(2)]]) (use ok' own 1 l m in \<open>auto simp: lease_view_def\<close>)
  next
    case 2
    then show thesis using ok' own by (intro refused) auto
  next
    case 3
    let ?new = "\<lambda>lid lt. \<lparr>ul_id = lid, ul_task = tid, ul_attempt = aid, ul_worker = worker, ul_token = lt,
       ul_status = L_ACTIVE, ul_deadline = now + capacity_ttl ttl, ul_updated = now, ul_released = None\<rparr>"
    let ?g = "\<lambda>lid lt l. l\<lparr>ul_id := lid, ul_task := tid, ul_worker := worker, ul_token := lt, ul_status := L_ACTIVE,
        ul_deadline := now + capacity_ttl ttl, ul_updated := now, ul_released := None\<rparr>"
    obtain lid lt ls' where e: "got" "d' = d\<lparr>upload_leases := ls'\<rparr>" "out = lease_view (Some (?new lid lt))"
        "(if uc_attempt (lease_view ?row) = '''' then insert_row ul_conflict (?new lid lt) ls
          else update_unique (pairwise ul_conflict) (\<lambda>l. ul_attempt l = aid) (?g lid lt) ls) = Inr ls'"
      using ok' own 3 by (auto simp: lease_view_def)
    show thesis
    proof (cases "uc_attempt (lease_view ?row) = ''''")
      case True
      have "grants ls (?new lid lt) ls'" by (rule grants_insert [OF pw]) (use e(4) True in simp_all)
      then show thesis using e 3 by (intro granted [of ls' "?new lid lt"]) simp_all
    next
      case False
      then obtain l where l: "?row = Some l" by (auto simp: lease_view_def split: option.splits)
      have "grants ls (?g lid lt l) ls'"
        by (rule grants_regrant [of aid]) (use e(4) False l in \<open>auto dest: select_one_SomeD\<close>)
      then show thesis using e 3 select_one_SomeD [OF l] by (intro granted [of ls' "?g lid lt l"]) (simp_all add: lease_view_def)
    qed
  qed
qed

lemma capacity_inv_frame:
  assumes "capacity_inv d" "upload_leases d' = upload_leases d" "keyed att_id (attempts d')"
    and "\<And>a. a \<in> set (attempts d) \<Longrightarrow> \<exists>b \<in> set (attempts d'). att_id b = att_id a \<and> att_task b = att_task a \<and> att_worker b = att_worker a"
  shows "capacity_inv d'"
  using assms unfolding capacity_inv_def by (metis (no_types, lifting))

lemma reclaim_inv: "capacity_inv d \<Longrightarrow> capacity_inv (d\<lparr>upload_leases := reclaim_capacity now (upload_leases d)\<rparr>)"
  unfolding capacity_inv_def by (fastforce simp: pairwise_ul reclaim_keys dest!: in_reclaim)

lemma acquire_capacity_inv:
  assumes inv: "capacity_inv d"
    and ok: "AcquireUploadCapacity boot tid aid token worker now ttl limit idFn tokenFn d = Inr ((out, got), d')"
  shows "capacity_inv d'"
  using inv ok
proof (cases rule: acquire_cases)
  case (granted l ls')
  have own: "capacity_owner boot tid aid token worker now d"
    using ok by (auto simp: AcquireUploadCapacity_def Let_def split: if_splits)
  have "\<exists>a \<in> set (attempts d). att_id a = ul_attempt k \<and> att_task a = ul_task k \<and> att_worker a = ul_worker k" if k: "k \<in> set ls'" for k
  proof (cases "ul_attempt k = aid")
    case True
    then have "k = l" using keyed_unique [of ul_attempt ls' k l] granted(3,5) k by (simp add: grants_def pairwise_ul)
    then show ?thesis using own granted(5,7,8) by (auto simp: capacity_owner_def list_ex_iff)
  next
    case False
    then have "k \<in> set (reclaim_capacity now (upload_leases d))" using granted(3,5) k by (auto simp: grants_def)
    then show ?thesis using reclaim_inv [OF inv, of now] by (simp add: capacity_inv_def)
  qed
  then show ?thesis using inv granted(2,3) by (simp add: capacity_inv_def grants_def)
qed (use reclaim_inv [OF inv] in simp)

lemma release_capacity_cases:
  assumes inv: "capacity_inv d" and ok: "ReleaseUploadCapacity boot tid aid worker lid ltoken now d = Inr ((), d')"
  obtains l where "l \<in> set (upload_leases d)" "ul_attempt l = aid" "ul_token l = ltoken"
    "d' = d\<lparr>upload_leases := update_where (\<lambda>k. k = l)
       (\<lambda>l. l\<lparr>ul_status := (if ul_status l = L_ACTIVE then L_RELEASED else ul_status l), ul_updated := now,
              ul_released := (if ul_status l = L_ACTIVE then Some now else ul_released l)\<rparr>) (upload_leases d)\<rparr>"
proof -
  let ?p = "\<lambda>l. ul_id l = trim_space lid \<and> ul_task l = tid \<and> ul_attempt l = aid \<and> ul_worker l = worker \<and> ul_token l = ltoken"
  have one: "rows_affected ?p (upload_leases d) = 1" using ok by (auto simp: ReleaseUploadCapacity_def Let_def split: if_splits)
  then obtain l where l: "l \<in> set (upload_leases d)" "?p l" using rows_affected_oneD [OF one] by blast
  have "?p k \<longleftrightarrow> k = l" if "k \<in> set (upload_leases d)" for k
    using keyed_unique [of ul_id "upload_leases d" k l] inv that l by (auto simp: capacity_inv_def pairwise_ul)
  note u = update_where_cong [of "upload_leases d" ?p "\<lambda>k. k = l", OF this]
  show thesis by (rule that [OF l(1)]) (use l ok one u in \<open>simp_all add: ReleaseUploadCapacity_def Let_def\<close>)
qed

lemma release_capacity_inv:
  assumes inv: "capacity_inv d" and ok: "ReleaseUploadCapacity boot tid aid worker lid ltoken now d = Inr ((), d')"
  shows "capacity_inv d'"
  using inv ok
proof (cases rule: release_capacity_cases)
  case (1 l)
  then show ?thesis using inv unfolding capacity_inv_def 1(4)
    by (auto simp: pairwise_ul keyed_update_where elim!: in_update_whereE)
qed

lemma release_slots:
  assumes inv: "capacity_inv d" and ok: "ReleaseUploadCapacity boot tid aid worker lid ltoken now d = Inr ((), d')"
  shows "slots (upload_leases d') = sem_release aid (slots (upload_leases d))"
  using inv ok
proof (cases rule: release_capacity_cases)
  case (1 l)
  have k: "keyed ul_attempt (upload_leases d)" using inv by (simp add: capacity_inv_def pairwise_ul)
  have only: "k = l" if "k \<in> set (upload_leases d)" "ul_attempt k = aid" for k
    using keyed_unique [OF k that(1) 1(1)] 1(2) that(2) by simp
  have "sem_release aid (slots (upload_leases d)) j = Some t \<longleftrightarrow>
    (\<exists>l \<in> set (upload_leases d'). ul_status l = L_ACTIVE \<and> ul_attempt l = j \<and> ul_deadline l = t)" for j t
  proof (cases "j = aid")
    case True
    have "ul_status m \<noteq> L_ACTIVE" if m: "m \<in> set (upload_leases d')" "ul_attempt m = aid" for m
      using m(1) unfolding 1(4) by (auto elim!: in_update_whereE split: if_splits) (use only m(2) in blast)
    then show ?thesis using True by (auto simp: sem_release_def)
  next
    case False
    have "m \<in> set (upload_leases d') \<longleftrightarrow> m \<in> set (upload_leases d)" if "ul_attempt m = j" for m
      unfolding 1(4) by simp (rule update_where_other_keys [where key = ul_attempt and k = aid], use 1(2) that False in auto)
    then show ?thesis using False by (auto simp: sem_release_def slots_iff [OF k])
  qed
  moreover have "keyed ul_attempt (upload_leases d')" using k by (simp add: 1(4) keyed_update_where)
  ultimately show ?thesis by (intro slots_eqI) simp_all
qed

lemma acquire_slots:
  assumes inv: "capacity_inv d"
    and ok: "AcquireUploadCapacity boot tid aid token worker now ttl limit idFn tokenFn d = Inr ((out, got), d')"
  shows "(got, slots (upload_leases d')) = sem_acquire (capacity_limit limit) aid now (now + capacity_ttl ttl) (slots (upload_leases d))"
proof -
  have k: "keyed ul_attempt (upload_leases d)" using inv by (simp add: capacity_inv_def pairwise_ul)
  note e = slots_reclaim [OF k, of now]
  from inv ok show ?thesis
  proof (cases rule: acquire_cases)
    case (granted l ls')
    have "slots ls' = (sem_expire now (slots (upload_leases d)))(aid \<mapsto> now + capacity_ttl ttl)"
      using grants_slots [OF granted(3)] k granted(5,6) by (simp add: reclaim_keys e)
    then show ?thesis using granted(1,2,9) by (auto simp: sem_acquire_def Let_def e)
  qed (auto simp: sem_acquire_def Let_def e)
qed

text \<open>The specification keeps to its limit.\<close>

lemma finite_sem_expire: "finite (dom m) \<Longrightarrow> finite (dom (sem_expire now m)) \<and> card (dom (sem_expire now m)) \<le> card (dom m)"
proof -
  assume f: "finite (dom m)"
  have "dom (sem_expire now m) \<subseteq> dom m" by (auto simp: sem_expire_def split: option.splits if_splits)
  then show ?thesis using f by (meson card_mono finite_subset)
qed

lemma sem_acquire_limit:
  assumes "finite (dom m)" "int (card (dom m)) \<le> limit" "sem_acquire limit k now t m = (got, m')"
  shows "int (card (dom m')) \<le> limit"
proof -
  let ?e = "sem_expire now m"
  have e: "finite (dom ?e)" "int (card (dom ?e)) \<le> limit" using finite_sem_expire [OF assms(1), of now] assms(2) by auto
  show ?thesis
  proof (cases "?e k")
    case None
    then show ?thesis using assms(3) e by (auto simp: sem_acquire_def Let_def card_insert_if split: if_splits)
  next
    case (Some u)
    then have "m' = ?e(k \<mapsto> t)" using assms(3) by (simp add: sem_acquire_def Let_def)
    then have "dom m' = dom ?e" using Some by (simp add: insert_absorb domI)
    then show ?thesis using e by simp
  qed
qed

lemma sem_release_limit: "finite (dom m) \<Longrightarrow> int (card (dom m)) \<le> limit \<Longrightarrow> int (card (dom (sem_release k m))) \<le> limit"
  using card_Diff1_le [of "dom m" k] by (simp add: sem_release_def)

section \<open>The slots over time\<close>

text \<open>
  Requests and releases of any workers at any clock readings, and every other step of the system, which
  keeps the slots and may add attempts or change them but not their identity.
\<close>

inductive capacity_step :: "int \<Rightarrow> db \<Rightarrow> db \<Rightarrow> bool" for limit where
  acquire: "AcquireUploadCapacity boot tid aid token worker now ttl limit idFn tokenFn d = Inr ((out, got), d') \<Longrightarrow> capacity_step limit d d'"
| release: "ReleaseUploadCapacity boot tid aid worker lid ltoken now d = Inr ((), d') \<Longrightarrow> capacity_step limit d d'"
| elsewhere: "upload_leases d' = upload_leases d \<Longrightarrow> keyed att_id (attempts d')
    \<Longrightarrow> (\<And>a. a \<in> set (attempts d) \<Longrightarrow> \<exists>b \<in> set (attempts d'). att_id b = att_id a \<and> att_task b = att_task a \<and> att_worker b = att_worker a)
    \<Longrightarrow> capacity_step limit d d'"

definition no_leases :: "db \<Rightarrow> bool" where
  "no_leases d \<longleftrightarrow> upload_leases d = [] \<and> keyed att_id (attempts d)"

definition within_limit :: "int \<Rightarrow> db \<Rightarrow> bool" where
  "within_limit limit d \<longleftrightarrow> capacity_inv d \<and> int (card (dom (slots (upload_leases d)))) \<le> capacity_limit limit"

interpretation capacity: transition_system no_leases "capacity_step limit" "within_limit limit" for limit
proof
  fix s t
  show "no_leases s \<Longrightarrow> within_limit limit s" by (simp add: no_leases_def within_limit_def capacity_inv_def slots_def capacity_limit_def)
  assume inv: "within_limit limit s" and st: "capacity_step limit s t"
  note I = inv [unfolded within_limit_def]
  from st show "within_limit limit t"
  proof cases
    case (acquire boot tid aid token worker now ttl idFn tokenFn out got)
    then show ?thesis
      using sem_acquire_limit [OF finite_slots _ acquire_slots [OF _ acquire, symmetric]] acquire_capacity_inv [OF _ acquire] I
      by (simp add: within_limit_def)
  next
    case (release boot tid aid worker lid ltoken now)
    then show ?thesis
      using sem_release_limit [OF finite_slots] release_slots [OF _ release] release_capacity_inv [OF _ release] I
      by (simp add: within_limit_def)
  next
    case elsewhere
    then show ?thesis using capacity_inv_frame [of s t] I by (auto simp: within_limit_def)
  qed
qed

section \<open>Properties\<close>

text \<open>
  C18. The upload slots implement a counting semaphore with deadlines: on the live grants, a request that
  is not rejected behaves as \<open>sem_acquire\<close> (expired grants are gone, a holder is renewed even when all
  slots are taken, anyone else is admitted only below the limit) and a release as \<open>sem_release\<close>; both keep
  the invariant of the table.
\<close>

theorem upload_capacity_refines_semaphore:
  assumes "capacity_inv d"
  shows "(AcquireUploadCapacity boot tid aid token worker now ttl limit idFn tokenFn d = Inr ((out, got), d') \<longrightarrow>
      capacity_inv d' \<and> (got, slots (upload_leases d'))
        = sem_acquire (capacity_limit limit) aid now (now + capacity_ttl ttl) (slots (upload_leases d)))
    \<and> (ReleaseUploadCapacity boot tid aid worker lid ltoken now d = Inr ((), d'') \<longrightarrow>
      capacity_inv d'' \<and> slots (upload_leases d'') = sem_release aid (slots (upload_leases d)))"
  by (intro conjI impI) (erule acquire_capacity_inv [OF assms] acquire_slots [OF assms] release_capacity_inv [OF assms] release_slots [OF assms])+

text \<open>
  There are never more live uploads than slots: after any sequence of requests and releases from an
  empty table, with clocks that may run backwards and any other activity in between, at most \<open>limit\<close>
  leases (one when the limit is not positive) are unexpired at any instant, and no attempt has two.
\<close>

lemma upload_slots_never_exceed_limit:
  assumes "no_leases d0" "(capacity_step limit)\<^sup>*\<^sup>* d0 d"
  shows "int (length (live_leases t (upload_leases d))) \<le> capacity_limit limit \<and> distinct (map ul_attempt (upload_leases d))"
proof -
  have w: "within_limit limit d" by (rule capacity.inv_reachable [OF assms])
  then have k: "keyed ul_attempt (upload_leases d)" by (simp add: within_limit_def capacity_inv_def pairwise_ul)
  have "length (live_leases t (upload_leases d)) \<le> length (filter (\<lambda>l. ul_status l = L_ACTIVE) (upload_leases d))"
    unfolding live_leases_def filter_filter [symmetric] by (rule length_filter_le)
  then show ?thesis using w card_slots [OF k] k by (simp add: within_limit_def keyed_def)
qed

text \<open>
  A slot is given only to a live worker: a request is rejected with \<open>ErrUploadCapacityFenced\<close>, which
  \<open>IsUploadCapacityFenced\<close> recognises, unless the caller presents the identity and token of the ACTIVE,
  unexpired current attempt of a RUNNING task; a release is rejected with the same error unless the
  lease carries exactly the presented identity and token. A granted lease names the caller and lasts
  for the configured time.
\<close>

lemma upload_slot_only_for_live_owner:
  assumes "capacity_inv d"
  shows "(\<not> capacity_owner boot tid aid token worker now d \<longrightarrow>
      (case AcquireUploadCapacity boot tid aid token worker now ttl limit idFn tokenFn d of Inl e \<Rightarrow> IsUploadCapacityFenced e | Inr _ \<Rightarrow> False))
    \<and> (AcquireUploadCapacity boot tid aid token worker now ttl limit idFn tokenFn d = Inr ((out, True), d') \<longrightarrow>
       capacity_owner boot tid aid token worker now d \<and> uc_attempt out = aid \<and> uc_task out = tid \<and> uc_worker out = worker
       \<and> slots (upload_leases d') aid = Some (now + capacity_ttl ttl) \<and> uc_deadline out = Some (now + capacity_ttl ttl))
    \<and> ((\<forall>l \<in> set (upload_leases d). ul_id l = trim_space lid \<and> ul_task l = tid \<and> ul_attempt l = aid \<and> ul_worker l = worker \<longrightarrow> ul_token l \<noteq> ltoken) \<longrightarrow>
       ReleaseUploadCapacity boot tid aid worker lid ltoken now d = Inl ErrUploadCapacityFenced)"
    (is "?A \<and> (?ok \<longrightarrow> ?B) \<and> (?none \<longrightarrow> ?C)")
proof (intro conjI impI)
  show ?C if ?none
  proof -
    have "rows_affected (\<lambda>l. ul_id l = trim_space lid \<and> ul_task l = tid \<and> ul_attempt l = aid \<and> ul_worker l = worker \<and> ul_token l = ltoken)
      (upload_leases d) = 0" using that by (auto simp: sql_simps)
    then show ?thesis by (simp add: ReleaseUploadCapacity_def)
  qed
  assume ok: ?ok
  show "capacity_owner boot tid aid token worker now d"
    using ok by (auto simp: AcquireUploadCapacity_def Let_def split: if_splits)
  from assms ok obtain l where "out = lease_view (Some l)" "ul_attempt l = aid" "ul_deadline l = now + capacity_ttl ttl"
      "ul_task l = tid" "ul_worker l = worker" by (cases rule: acquire_cases) auto
  then show "uc_attempt out = aid" "uc_task out = tid" "uc_worker out = worker" "uc_deadline out = Some (now + capacity_ttl ttl)"
    by (simp_all add: lease_view_def)
  show "slots (upload_leases d') aid = Some (now + capacity_ttl ttl)"
    using acquire_slots [OF assms ok] by (auto simp: sem_acquire_def Let_def split: if_splits)
qed (simp add: AcquireUploadCapacity_def Let_def IsUploadCapacityFenced_def)

text \<open>
  The upload slots are outside the fence: \<open>fencedTables\<close> does not list their table, so a master
  whose lease is gone, or that never had one, grants and releases slots as the leader does.
\<close>

lemma upload_capacity_is_not_fenced:
  "fenced f t (AcquireUploadCapacity boot tid aid token worker now ttl limit idFn tokenFn) d
     = AcquireUploadCapacity boot tid aid token worker now ttl limit idFn tokenFn d
   \<and> fenced f t (ReleaseUploadCapacity boot tid aid worker lid ltoken now) d
     = ReleaseUploadCapacity boot tid aid worker lid ltoken now d"
proof -
  have "fencedTables d' = fencedTables d"
    if "AcquireUploadCapacity boot tid aid token worker now ttl limit idFn tokenFn d = Inr (x, d')" for x d'
    using that by (auto simp: AcquireUploadCapacity_def Let_def fencedTables_def split: if_splits)
  moreover have "fencedTables d' = fencedTables d"
    if "ReleaseUploadCapacity boot tid aid worker lid ltoken now d = Inr (x, d')" for x d'
    using that by (auto simp: ReleaseUploadCapacity_def Let_def fencedTables_def split: if_splits)
  ultimately show ?thesis
    by (auto simp: fenced_def rbind_def split: sum.splits prod.splits)
qed

section \<open>Witnesses\<close>

text \<open>Two running tasks and their attempts.\<close>

definition uploader :: "string \<Rightarrow> string \<Rightarrow> attempt" where
  "uploader tid aid = \<lparr>att_id = aid, att_task = tid, att_number = 1, att_worker = ''w'', att_boot = ''b'', att_token = ''tok-'' @ aid,
     att_status = ACTIVE, att_assigned = 0, att_deadline = 100, att_renewed = 0, att_started = None, att_finished = None, att_fclass = '''',
     att_fmsg = None, att_digest = '''', att_updated = 0, att_epoch = None\<rparr>"

definition uploading_db :: db where
  "uploading_db = sample_db\<lparr>
     tasks := [(sample_task ''t1'' 0)\<lparr>task_status := RUNNING, task_cur := Some ''a1''\<rparr>, (sample_task ''t2'' 1)\<lparr>task_status := RUNNING, task_cur := Some ''a2''\<rparr>],
     attempts := [uploader ''t1'' ''a1'', uploader ''t2'' ''a2'']\<rparr>"

definition request_slot :: "string \<Rightarrow> string \<Rightarrow> time \<Rightarrow> string \<Rightarrow> db \<Rightarrow> ((UploadCapacityLease \<times> bool) \<times> db) res" where
  "request_slot tid aid now lid d = AcquireUploadCapacity ''b'' tid aid (''tok-'' @ aid) ''w'' now 10 1 (Inr lid) (Inr (''s-'' @ lid)) d"

lemma uploading_inv: "no_leases uploading_db" "capacity_inv uploading_db"
  by (simp_all add: no_leases_def capacity_inv_def uploading_db_def sample_db_def uploader_def keyed_def)

lemma first_slot: "\<exists>out d1. request_slot ''t1'' ''a1'' 5 ''l1'' uploading_db = Inr ((out, True), d1)
    \<and> slots (upload_leases d1) = [''a1'' \<mapsto> 15]"
proof -
  have "(case request_slot ''t1'' ''a1'' 5 ''l1'' uploading_db of Inr ((_, g), d1) \<Rightarrow> g
      \<and> map (\<lambda>l. (ul_attempt l, ul_deadline l)) (filter (\<lambda>l. ul_status l = L_ACTIVE) (upload_leases d1)) = [(''a1'', 15)] | _ \<Rightarrow> False)"
    by code_simp
  then show ?thesis by (auto simp: slots_def split: sum.splits prod.splits)
qed

theorem upload_capacity_refines_semaphore_witness:
  "\<exists>out d1. request_slot ''t1'' ''a1'' 5 ''l1'' uploading_db = Inr ((out, True), d1) \<and> slots (upload_leases d1) = [''a1'' \<mapsto> 15]
     \<and> capacity_inv d1"
proof -
  obtain out d1 where r: "request_slot ''t1'' ''a1'' 5 ''l1'' uploading_db = Inr ((out, True), d1)"
      "slots (upload_leases d1) = [''a1'' \<mapsto> 15]" using first_slot by blast
  then have "capacity_inv d1"
    using upload_capacity_refines_semaphore [OF uploading_inv(2)] unfolding request_slot_def by blast
  then show ?thesis using r by blast
qed

end
