(* ===== verification/Redaction.thy ===== *)
theory Redaction
  imports Runs
begin

text \<open>
  Error summaries of runs are shown to clients; \<open>RedactCredentials\<close> removes the passwords of URLs from
  them. The theory shows that no password survives.
\<close>

section \<open>Redaction of credentials\<close>

abbreviation user_char :: "char \<Rightarrow> bool" where
  "user_char c \<equiv> \<not> (c = CHR ''/'' \<or> re_space c \<or> c = CHR '':'' \<or> c = CHR ''@'')"

abbreviation pass_char :: "char \<Rightarrow> bool" where
  "pass_char c \<equiv> \<not> (c = CHR ''@'' \<or> re_space c)"

text \<open>A URL with credentials at the start of a text: user, password and what follows.\<close>

definition credential_url :: "string \<Rightarrow> string \<Rightarrow> string \<Rightarrow> string \<Rightarrow> bool" where
  "credential_url s user pw rest \<longleftrightarrow> s = ''://'' @ user @ '':'' @ pw @ ''@'' @ rest
     \<and> (\<forall>c \<in> set user. user_char c) \<and> (\<forall>c \<in> set pw. pass_char c)"

lemma re_space_facts [simp]:
  "\<not> re_space (CHR ''/'')" "\<not> re_space (CHR '':'')" "\<not> re_space (CHR ''*'')" "\<not> re_space (CHR ''@'')"
  by (simp_all add: re_space_def)

lemma takeWhile_drop: "takeWhile p xs @ drop (length (takeWhile p xs)) xs = xs"
  by (induction xs) auto

lemma url_credentials_iff: "url_credentials s = Some (u, rest) \<longleftrightarrow> (\<exists>pw. credential_url s u pw rest)"
proof
  assume h: "url_credentials s = Some (u, rest)"
  let ?s1 = "drop 3 s"
  have pre: "take 3 s = ''://''" and u: "u = takeWhile user_char ?s1"
    using h by (auto simp: url_credentials_def has_prefix_def eval_nat_numeral Let_def split: if_splits list.splits)
  obtain s3 where s3: "drop (length u) ?s1 = CHR '':'' # s3" and d: "dropWhile pass_char s3 = CHR ''@'' # rest"
    using h unfolding u by (auto simp: url_credentials_def Let_def split: if_splits list.splits)
  have "?s1 = u @ drop (length u) ?s1" unfolding u by (rule takeWhile_drop [symmetric])
  then have "?s1 = u @ CHR '':'' # s3" using s3 by simp
  moreover have s3': "s3 = takeWhile pass_char s3 @ CHR ''@'' # rest" using d takeWhile_dropWhile_id [of pass_char s3] by simp
  ultimately have "?s1 = u @ '':'' @ takeWhile pass_char s3 @ ''@'' @ rest" by simp
  then have "s = ''://'' @ u @ '':'' @ takeWhile pass_char s3 @ ''@'' @ rest"
    using append_take_drop_id [of 3 s] unfolding pre by simp
  moreover have "\<forall>c \<in> set u. user_char c" unfolding u using set_takeWhileD [of _ user_char ?s1] by blast
  moreover have "\<forall>c \<in> set (takeWhile pass_char s3). pass_char c" using set_takeWhileD [of _ pass_char s3] by blast
  ultimately show "\<exists>pw. credential_url s u pw rest" unfolding credential_url_def by blast
next
  assume "\<exists>pw. credential_url s u pw rest"
  then obtain pw where s: "s = ''://'' @ u @ '':'' @ pw @ ''@'' @ rest"
    and u: "\<forall>c \<in> set u. user_char c" and pw: "\<forall>c \<in> set pw. pass_char c"
    by (auto simp: credential_url_def)
  have "takeWhile user_char (u @ CHR '':'' # x) = u" for x using u by (simp add: takeWhile_append2)
  moreover have "dropWhile pass_char (pw @ CHR ''@'' # rest) = CHR ''@'' # rest" using pw by (simp add: dropWhile_append2)
  ultimately show "url_credentials s = Some (u, rest)"
    by (simp add: url_credentials_def has_prefix_def s Let_def)
qed

lemma url_credentials_colon: "c \<noteq> CHR '':'' \<Longrightarrow> url_credentials (c # s) = None"
  by (simp add: url_credentials_def has_prefix_def)

lemma redact_match:
  "url_credentials s = Some (u, rest) \<Longrightarrow> RedactCredentials s = ''://'' @ u @ '':***@'' @ RedactCredentials rest"
  by (simp add: RedactCredentials.simps [of s])

lemma redact_skip_one: "url_credentials (c # s) = None \<Longrightarrow> RedactCredentials (c # s) = c # RedactCredentials s"
  by (simp add: RedactCredentials.simps [of "c # s"])

lemma redact_Nil [simp]: "RedactCredentials [] = []"
  by (simp add: RedactCredentials.simps [of "[]"] url_credentials_def has_prefix_def)

lemma redact_uncolon:
  assumes "RedactCredentials s = x @ w" "CHR '':'' \<notin> set x"
  shows "\<exists>v. s = x @ v \<and> RedactCredentials v = w"
  using assms
proof (induction x arbitrary: s)
  case (Cons a x)
  have "url_credentials s = None"
    using Cons.prems redact_match [of s] by (cases "url_credentials s") auto
  then obtain s' where "s = a # s'" "RedactCredentials s' = x @ w"
    using Cons.prems(1) redact_skip_one by (cases s) auto
  then show ?case using Cons.IH Cons.prems(2) by auto
qed simp

lemma redact_unpass:
  assumes "RedactCredentials s = pw @ CHR ''@'' # rest" "\<forall>c \<in> set pw. pass_char c"
  shows "\<exists>pw' rest'. s = pw' @ CHR ''@'' # rest' \<and> (\<forall>c \<in> set pw'. pass_char c)"
  using assms
proof (induction pw arbitrary: s)
  case Nil
  have "url_credentials s = None"
    using Nil redact_match [of s] by (cases "url_credentials s") auto
  then obtain s' where "s = CHR ''@'' # s'" using Nil redact_skip_one by (cases s) auto
  then show ?case by (intro exI [of _ "[]"] exI [of _ s']) simp
next
  case (Cons a pw)
  show ?case
  proof (cases "url_credentials s")
    case None
    then obtain s' where s': "s = a # s'" "RedactCredentials s' = pw @ CHR ''@'' # rest"
      using Cons.prems(1) redact_skip_one by (cases s) auto
    obtain pw' rest' where "s' = pw' @ CHR ''@'' # rest'" "\<forall>c \<in> set pw'. pass_char c"
      using Cons.IH [OF s'(2)] Cons.prems(2) by auto
    then have "s = (a # pw') @ CHR ''@'' # rest' \<and> (\<forall>c \<in> set (a # pw'). pass_char c)" using s'(1) Cons.prems(2) by simp
    then show ?thesis by blast
  next
    case (Some ur)
    then obtain u r p where "credential_url s u p r" using url_credentials_iff [of s "fst ur" "snd ur"] by auto
    then have "s = (''://'' @ u @ '':'' @ p) @ CHR ''@'' # r \<and> (\<forall>c \<in> set (''://'' @ u @ '':'' @ p). pass_char c)"
      by (auto simp: credential_url_def)
    then show ?thesis by blast
  qed
qed

lemma redact_no_new_match:
  assumes none: "url_credentials (c # s) = None"
  shows "url_credentials (c # RedactCredentials s) = None"
proof (rule ccontr)
  assume "\<not> ?thesis"
  then obtain ur where "url_credentials (c # RedactCredentials s) = Some ur" by auto
  then obtain u rest pw where m: "credential_url (c # RedactCredentials s) u pw rest"
    using url_credentials_iff [of _ "fst ur" "snd ur"] by auto
  then have c: "c = CHR '':''" and r: "RedactCredentials s = (''//'' @ u) @ '':'' @ pw @ ''@'' @ rest"
    and u: "\<forall>c \<in> set u. user_char c" and pw: "\<forall>c \<in> set pw. pass_char c" by (auto simp: credential_url_def)
  have "CHR '':'' \<notin> set (''//'' @ u)" using u by auto
  then obtain v where v: "s = ''//'' @ u @ v" "RedactCredentials v = CHR '':'' # pw @ CHR ''@'' # rest"
    using redact_uncolon [OF r] by auto
  have "\<exists>pw' rest'. v = CHR '':'' # pw' @ CHR ''@'' # rest' \<and> (\<forall>c \<in> set pw'. pass_char c)"
  proof (cases "url_credentials v")
    case None
    then obtain v' where v': "v = CHR '':'' # v'" "RedactCredentials v' = pw @ CHR ''@'' # rest"
      using v(2) redact_skip_one by (cases v) auto
    then show ?thesis using redact_unpass [OF v'(2) pw] by auto
  next
    case (Some ur)
    then obtain u2 r2 p2 where "credential_url v u2 p2 r2" using url_credentials_iff [of v "fst ur" "snd ur"] by auto
    then have "v = CHR '':'' # (''//'' @ u2 @ '':'' @ p2) @ CHR ''@'' # r2 \<and> (\<forall>c \<in> set (''//'' @ u2 @ '':'' @ p2). pass_char c)"
      by (auto simp: credential_url_def)
    then show ?thesis by blast
  qed
  then obtain pw' rest' where "credential_url (c # s) u pw' rest'"
    using u c v(1) by (auto simp: credential_url_def)
  then show False using none url_credentials_iff by (metis option.distinct(1))
qed

text \<open>Every URL with credentials that starts somewhere in the text has its password replaced.\<close>

fun redacted :: "string \<Rightarrow> bool" where
  "redacted [] = True"
| "redacted (c # s) = ((\<forall>u pw rest. credential_url (c # s) u pw rest \<longrightarrow> pw = ''***'') \<and> redacted s)"

lemma redacted_append: "redacted (x @ s) \<Longrightarrow> redacted s"
  by (induction x) auto

lemma credential_url_colon: "credential_url (c # s) u pw rest \<Longrightarrow> c = CHR '':'' \<and> take 2 s = ''//''"
  by (auto simp: credential_url_def)

lemma redacted_skip: "CHR '':'' \<notin> set x \<Longrightarrow> redacted s \<Longrightarrow> redacted (x @ s)"
  by (induction x) (auto dest: credential_url_colon)

lemma credential_url_unique:
  assumes "credential_url s u pw rest" "credential_url s u' pw' rest'"
  shows "pw = pw'"
proof -
  have t: "takeWhile user_char (v @ CHR '':'' # x) = v" if "\<forall>c \<in> set v. user_char c" for v x
    using that by (simp add: takeWhile_append2)
  have eq: "u @ CHR '':'' # pw @ CHR ''@'' # rest = u' @ CHR '':'' # pw' @ CHR ''@'' # rest'"
    and u: "\<forall>c \<in> set u. user_char c" "\<forall>c \<in> set u'. user_char c"
    and p: "\<forall>c \<in> set pw. pass_char c" "\<forall>c \<in> set pw'. pass_char c"
    using assms by (auto simp: credential_url_def)
  have "u = u'"
    using t [OF u(1), of "pw @ CHR ''@'' # rest"] t [OF u(2), of "pw' @ CHR ''@'' # rest'"] unfolding eq by (rule trans [OF sym])
  then have "pw @ CHR ''@'' # rest = pw' @ CHR ''@'' # rest'" using eq by simp
  moreover have "takeWhile pass_char (v @ CHR ''@'' # x) = v" if "\<forall>c \<in> set v. pass_char c" for v x
    using that by (simp add: takeWhile_append2)
  ultimately show ?thesis using p by metis
qed

lemma redact_redacted: "redacted (RedactCredentials s)"
proof (induction s rule: RedactCredentials.induct)
  case (1 s)
  show ?case
  proof (cases "url_credentials s")
    case (Some x)
    obtain u rest where x: "x = (u, rest)" by (cases x)
    have u: "\<forall>c \<in> set u. user_char c" using Some x url_credentials_iff [of s u rest] by (auto simp: credential_url_def)
    have IH: "redacted (RedactCredentials rest)" using 1(2) Some x by blast
    let ?o = "''://'' @ u @ '':***@'' @ RedactCredentials rest"
    have "credential_url ?o u ''***'' (RedactCredentials rest)"
      using u by (simp add: credential_url_def)
    then have "\<forall>u' pw rest'. credential_url ?o u' pw rest' \<longrightarrow> pw = ''***''" using credential_url_unique by blast
    moreover have "redacted (''//'' @ u @ '':***@'' @ RedactCredentials rest)"
    proof -
      have "redacted (''***@'' @ RedactCredentials rest)" by (rule redacted_skip) (use IH in auto)
      then have "redacted ('':***@'' @ RedactCredentials rest)" by (auto dest: credential_url_colon)
      then have "redacted ((''//'' @ u) @ '':***@'' @ RedactCredentials rest)" by (rule redacted_skip [rotated]) (use u in auto)
      then show ?thesis by simp
    qed
    ultimately have "redacted ?o" by simp
    then show ?thesis using redact_match Some x by simp
  next
    case None
    show ?thesis
    proof (cases s)
      case (Cons c s')
      have "redacted (RedactCredentials s')" using 1(1) None Cons by blast
      moreover have "url_credentials (c # RedactCredentials s') = None" using redact_no_new_match None Cons by simp
      ultimately show ?thesis using redact_skip_one None Cons url_credentials_iff by (metis option.distinct(1) redacted.simps(2))
    qed simp
  qed
qed

text \<open>
  C11. No password survives redaction: wherever a URL with credentials occurs in the redacted text, its
  password is the placeholder.
\<close>

theorem no_password_survives_redaction:
  assumes "RedactCredentials msg = before @ ''://'' @ user @ '':'' @ pw @ ''@'' @ rest"
    and "\<forall>c \<in> set user. user_char c" "\<forall>c \<in> set pw. pass_char c"
  shows "pw = ''***''"
proof -
  have "redacted (before @ ''://'' @ user @ '':'' @ pw @ ''@'' @ rest)" using redact_redacted [of msg] assms(1) by simp
  then have "redacted (''://'' @ user @ '':'' @ pw @ ''@'' @ rest)" by (rule redacted_append)
  moreover have "credential_url (''://'' @ user @ '':'' @ pw @ ''@'' @ rest) user pw rest"
    using assms(2,3) by (simp add: credential_url_def)
  ultimately show ?thesis by auto
qed

theorem no_password_survives_redaction_witness:
  "RedactCredentials ''x pg://bob:s3cret@h/db'' = ''x pg://bob:***@h/db''"
proof -
  have "RedactCredentials ''x pg://bob:s3cret@h/db'' = ''x pg'' @ ''://'' @ ''bob'' @ '':'' @ ''***'' @ ''@'' @ ''h/db''"
    by code_simp
  moreover have "''***'' = ''***''"
    by (rule no_password_survives_redaction [OF calculation]) (simp_all add: re_space_def)
  ultimately show ?thesis by simp
qed

end
