(* ===== verification/Cursors.thy ===== *)
theory Cursors
  imports Complex_Main Timestamps
begin

text \<open>
  Cursor values (\<open>internal/connectors/source.go\<close>): an incremental job reads its source in the order of a
  cursor column, whose values travel as texts with a domain that says how to compare them. This theory
  models the domains, the comparison, the successor, the discrete values of a range and its split into
  parts, with the parsing of integers (\<open>strconv\<close>) and of the date layouts (\<open>time.Parse\<close>) they use. The
  parser of decimals, \<open>(*big.Rat).SetString\<close>, is a parameter \<open>rat_of\<close>.
\<close>

section \<open>Domains\<close>

datatype cursor_domain =
    CursorDomainUnknown | CursorDomainInt64 | CursorDomainUInt64 | CursorDomainDecimal | CursorDomainDate
  | CursorDomainTimestamp | CursorDomainString | CursorDomainUUID

definition NormalizeCursorDomain :: "string \<Rightarrow> cursor_domain" where
  "NormalizeCursorDomain raw =
    (let s = to_lower (trim_space raw) in
     if s = ''int64'' then CursorDomainInt64
     else if s = ''uint64'' then CursorDomainUInt64
     else if s = ''decimal'' then CursorDomainDecimal
     else if s = ''date'' then CursorDomainDate
     else if s \<in> {''timestamp'', ''datetime'', ''datetime2'', ''timestamptz''} then CursorDomainTimestamp
     else if s = ''string'' then CursorDomainString
     else if s = ''uuid'' then CursorDomainUUID
     else CursorDomainUnknown)"

definition SupportsCursorRangeSplit :: "string \<Rightarrow> bool" where
  "SupportsCursorRangeSplit domain \<longleftrightarrow> NormalizeCursorDomain domain
     \<in> {CursorDomainInt64, CursorDomainUInt64, CursorDomainDate, CursorDomainTimestamp}"

section \<open>Integers\<close>

text \<open>\<open>strconv.ParseUint(s, 10, 64)\<close>.\<close>

definition ParseUint :: "string \<Rightarrow> int option" where
  "ParseUint s = (if s = '''' \<or> \<not> list_all is_digit s then None
     else if digits_val s < 2 ^ 64 then Some (digits_val s) else None)"

definition parseInt64 :: "string \<Rightarrow> int option" where
  "parseInt64 v = ParseInt (trim_space v)"

definition parseUint64 :: "string \<Rightarrow> int option" where
  "parseUint64 v = ParseUint (trim_space v)"

section \<open>Dates and times\<close>

text \<open>
  \<open>time.Parse\<close> on the layouts of the source, element by element: the year takes four digits, month, day,
  minute and second two, the hour one or two; a blank matches one or more blanks; a fraction may follow
  the seconds whether or not the layout has one, and its digits past the ninth are dropped.
\<close>

type_synonym 'a parser = "string \<Rightarrow> ('a \<times> string) option"

definition parse_year :: "int parser" where
  "parse_year s = (if length s < 4 \<or> \<not> list_all is_digit (take 4 s) then None else Some (digits_val (take 4 s), drop 4 s))"

definition getnum :: "bool \<Rightarrow> int parser" where
  "getnum fixed s = (case s of
      [] \<Rightarrow> None
    | c # r \<Rightarrow> if \<not> is_digit c then None
        else if r \<noteq> [] \<and> is_digit (hd r) then Some (10 * digit_val c + digit_val (hd r), tl r)
        else if fixed then None else Some (digit_val c, r))"

definition number_below :: "bool \<Rightarrow> int \<Rightarrow> int parser" where
  "number_below fixed n s = Option.bind (getnum fixed s) (\<lambda>(v, r). if v < n then Some (v, r) else None)"

definition literal :: "char \<Rightarrow> string \<Rightarrow> string option" where
  "literal c s = (if s \<noteq> [] \<and> hd s = c then Some (tl s) else None)"

definition blanks :: "string \<Rightarrow> string option" where
  "blanks s = (if s \<noteq> [] \<and> hd s \<noteq> CHR '' '' then None else Some (dropWhile (\<lambda>c. c = CHR '' '') s))"

definition nanoseconds :: "string \<Rightarrow> int" where
  "nanoseconds ds = digits_val (take 9 ds) * 10 ^ (9 - length (take 9 ds))"

definition parse_fraction :: "string \<Rightarrow> int \<times> string" where
  "parse_fraction s = (if length s < 2 \<or> hd s \<notin> {CHR ''.'', CHR '',''} \<or> \<not> is_digit (s ! 1) then (0, s)
     else (nanoseconds (takeWhile is_digit (tl s)), dropWhile is_digit (tl s)))"

definition parse_offset :: "int parser" where
  "parse_offset s = (if length s < 6 \<or> s ! 3 \<noteq> CHR '':'' \<or> hd s \<notin> {CHR ''+'', CHR ''-''} then None
     else Option.bind (getnum True (take 2 (drop 1 s))) (\<lambda>(h, _). Option.bind (getnum True (take 2 (drop 4 s))) (\<lambda>(m, _).
       if h > 24 \<or> m > 60 then None
       else Some ((if hd s = CHR ''-'' then - 1 else 1) * (h * 60 + m) * 60, drop 6 s))))"

definition parse_zulu :: "int parser" where
  "parse_zulu s = (if s \<noteq> [] \<and> hd s = CHR ''Z'' then Some (0, tl s) else parse_offset s)"

definition days_in :: "int \<Rightarrow> int \<Rightarrow> int" where
  "days_in y m = (if m = 12 then 31 else month_starts (is_leap y) ! nat m - month_starts (is_leap y) ! nat (m - 1))"

definition days_of_civil :: "int \<Rightarrow> int \<Rightarrow> int \<Rightarrow> int" where
  "days_of_civil y m dd = year_start y + month_starts (is_leap y) ! nat (m - 1) + dd - 1"

text \<open>The day of \<open>2006-01-02\<close> and the nanoseconds of \<open>15:04:05\<close> with a fraction.\<close>

definition parse_day :: "int parser" where
  "parse_day s = Option.bind (parse_year s) (\<lambda>(y, s1). Option.bind (literal CHR ''-'' s1) (\<lambda>s2.
     Option.bind (number_below True 13 s2) (\<lambda>(m, s3). Option.bind (literal CHR ''-'' s3) (\<lambda>s4.
     Option.bind (getnum True s4) (\<lambda>(dd, s5).
       if 1 \<le> m \<and> 1 \<le> dd \<and> dd \<le> days_in y m then Some (days_of_civil y m dd, s5) else None)))))"

definition parse_clock :: "int parser" where
  "parse_clock s = Option.bind (number_below False 24 s) (\<lambda>(h, s1). Option.bind (literal CHR '':'' s1) (\<lambda>s2.
     Option.bind (number_below True 60 s2) (\<lambda>(m, s3). Option.bind (literal CHR '':'' s3) (\<lambda>s4.
     Option.bind (number_below True 60 s4) (\<lambda>(sec, s5). case parse_fraction s5 of (ns, s6) \<Rightarrow>
       Some ((h * 3600 + m * 60 + sec) * second + ns, s6))))))"

definition finish :: "(time \<times> string) option \<Rightarrow> time option" where
  "finish r = (case r of Some (t, []) \<Rightarrow> Some t | _ \<Rightarrow> None)"

definition instant_of :: "int \<Rightarrow> int \<Rightarrow> int \<Rightarrow> time" where
  "instant_of day clock offset = (day * 86400 - offset) * second + clock"

text \<open>The layouts \<open>2006-01-02\<close>, \<open>RFC3339Nano\<close>, \<open>2006-01-02 15:04:05.999999999 -07:00\<close> and \<open>2006-01-02 15:04:05\<close>.\<close>

definition layout_date :: "string \<Rightarrow> time option" where
  "layout_date s = finish (Option.bind (parse_day s) (\<lambda>(day, r). Some (instant_of day 0 0, r)))"

definition layout_rfc3339 :: "string \<Rightarrow> time option" where
  "layout_rfc3339 s = finish (Option.bind (parse_day s) (\<lambda>(day, s1). Option.bind (literal CHR ''T'' s1) (\<lambda>s2.
     Option.bind (parse_clock s2) (\<lambda>(clock, s3). Option.bind (parse_zulu s3) (\<lambda>(off, s4). Some (instant_of day clock off, s4))))))"

definition layout_offset :: "string \<Rightarrow> time option" where
  "layout_offset s = finish (Option.bind (parse_day s) (\<lambda>(day, s1). Option.bind (blanks s1) (\<lambda>s2.
     Option.bind (parse_clock s2) (\<lambda>(clock, s3). Option.bind (blanks s3) (\<lambda>s4.
     Option.bind (parse_offset s4) (\<lambda>(off, s5). Some (instant_of day clock off, s5)))))))"

definition layout_clock :: "string \<Rightarrow> time option" where
  "layout_clock s = finish (Option.bind (parse_day s) (\<lambda>(day, s1). Option.bind (blanks s1) (\<lambda>s2.
     Option.bind (parse_clock s2) (\<lambda>(clock, s3). Some (instant_of day clock 0, s3)))))"

fun first_layout :: "(string \<Rightarrow> time option) list \<Rightarrow> string \<Rightarrow> time option" where
  "first_layout [] v = None"
| "first_layout (f # fs) v = (case f v of Some t \<Rightarrow> Some t | None \<Rightarrow> first_layout fs v)"

definition parseDateValue :: "string \<Rightarrow> time option" where
  "parseDateValue v = (let w = trim_space v in if w = '''' then None
     else map_option (\<lambda>t. t div (86400 * second) * (86400 * second))
       (first_layout [layout_date, layout_rfc3339, layout_offset, layout_clock, layout_clock] w))"

definition parseTimestampValue :: "string \<Rightarrow> time option" where
  "parseTimestampValue v = (let w = trim_space v in if w = '''' then None
     else first_layout [layout_rfc3339, layout_offset, layout_clock, layout_clock, layout_date] w)"

text \<open>The texts of \<open>Format("2006-01-02")\<close> and \<open>Format(time.RFC3339Nano)\<close> in UTC.\<close>

definition format_day :: "int \<Rightarrow> string" where
  "format_day day = (case civil day of (y, m, dd) \<Rightarrow> year_text y @ ''-'' @ pad 2 m @ ''-'' @ pad 2 dd)"

definition format_date :: "time \<Rightarrow> string" where
  "format_date t = format_day (t div (86400 * second))"

definition fraction_text :: "int \<Rightarrow> string" where
  "fraction_text ns = (if ns = 0 then '''' else CHR ''.'' # rev (dropWhile (\<lambda>c. c = CHR ''0'') (rev (pad 9 ns))))"

definition format_rfc3339 :: "time \<Rightarrow> string" where
  "format_rfc3339 t = (let sod = t div second mod 86400 in
     format_date t @ ''T'' @ pad 2 (sod div 3600) @ '':'' @ pad 2 (sod div 60 mod 60) @ '':'' @ pad 2 (sod mod 60)
       @ fraction_text (t mod second) @ ''Z'')"

section \<open>Comparison\<close>

definition three_way :: "'a::linorder \<Rightarrow> 'a \<Rightarrow> int" where
  "three_way a b = (if a < b then - 1 else if a > b then 1 else 0)"

lemma three_way_simps [simp]:
  "three_way a b > 0 \<longleftrightarrow> a > b" "three_way a b \<le> 0 \<longleftrightarrow> a \<le> b" "three_way a b \<ge> 0 \<longleftrightarrow> a \<ge> b" "three_way a b < 0 \<longleftrightarrow> a < b"
  "three_way a b = 0 \<longleftrightarrow> a = b"
  by (auto simp: three_way_def)

definition both :: "('a::linorder) option \<Rightarrow> 'a option \<Rightarrow> int \<Rightarrow> int" where
  "both a b fallback = (case (a, b) of (Some x, Some y) \<Rightarrow> three_way x y | _ \<Rightarrow> fallback)"

definition CompareCursorValues :: "(string \<Rightarrow> rat option) \<Rightarrow> string \<Rightarrow> string \<Rightarrow> string \<Rightarrow> int" where
  "CompareCursorValues rat_of domain a0 b0 =
    (let a = trim_space a0; b = trim_space b0; txt = three_way a b
     in case NormalizeCursorDomain domain of
        CursorDomainInt64 \<Rightarrow> both (parseInt64 a) (parseInt64 b) txt
      | CursorDomainUInt64 \<Rightarrow> both (parseUint64 a) (parseUint64 b) txt
      | CursorDomainDate \<Rightarrow> both (parseDateValue a) (parseDateValue b) txt
      | CursorDomainTimestamp \<Rightarrow> both (parseTimestampValue a) (parseTimestampValue b) txt
      | CursorDomainDecimal \<Rightarrow> both (if a = '''' then None else rat_of a) (if b = '''' then None else rat_of b) txt
      | _ \<Rightarrow> txt)"

definition CursorSuccessor :: "string \<Rightarrow> string \<Rightarrow> string option" where
  "CursorSuccessor domain text = (case NormalizeCursorDomain domain of
      CursorDomainInt64 \<Rightarrow> Option.bind (parseInt64 text) (\<lambda>v. if v = 2 ^ 63 - 1 then None else Some (show_int (v + 1)))
    | CursorDomainUInt64 \<Rightarrow> Option.bind (parseUint64 text) (\<lambda>v. if v = 2 ^ 64 - 1 then None else Some (show_int (v + 1)))
    | CursorDomainDate \<Rightarrow> map_option (\<lambda>t. format_date (t + 86400 * second)) (parseDateValue text)
    | CursorDomainTimestamp \<Rightarrow> map_option (\<lambda>t. format_rfc3339 (t + 1)) (parseTimestampValue text)
    | CursorDomainUnknown \<Rightarrow> None
    | _ \<Rightarrow> Some text)"

section \<open>Discrete ranges\<close>

text \<open>
  The positions of a range: integers, days and nanoseconds. \<open>UnixNano\<close> is a 64-bit number and wraps for
  instants outside the years 1677 to 2262.
\<close>

definition parseDiscreteCursor :: "string \<Rightarrow> string \<Rightarrow> int res" where
  "parseDiscreteCursor domain text = (case NormalizeCursorDomain domain of
      CursorDomainInt64 \<Rightarrow> of_row (ErrMsg ''parse int64 cursor'') (parseInt64 (trim_space text))
    | CursorDomainUInt64 \<Rightarrow> of_row (ErrMsg ''parse uint64 cursor'') (parseUint64 (trim_space text))
    | CursorDomainDate \<Rightarrow> of_row (ErrMsg ''parse date cursor'') (map_option (\<lambda>t. t div second div 86400) (parseDateValue (trim_space text)))
    | CursorDomainTimestamp \<Rightarrow> of_row (ErrMsg ''parse timestamp cursor'') (map_option wrap64 (parseTimestampValue (trim_space text)))
    | _ \<Rightarrow> Inl (ErrMsg ''cursor domain is not discrete''))"

definition is_int64 :: "int \<Rightarrow> bool" where
  "is_int64 v \<longleftrightarrow> - (2 ^ 63) \<le> v \<and> v < 2 ^ 63"

definition formatDiscreteCursor :: "string \<Rightarrow> int \<Rightarrow> string res" where
  "formatDiscreteCursor domain v = (case NormalizeCursorDomain domain of
      CursorDomainInt64 \<Rightarrow> if is_int64 v then Inr (show_int v) else Inl (ErrMsg ''int64 cursor overflow'')
    | CursorDomainUInt64 \<Rightarrow> if 0 \<le> v \<and> v < 2 ^ 64 then Inr (show_int v) else Inl (ErrMsg ''uint64 cursor overflow'')
    | CursorDomainDate \<Rightarrow> if is_int64 v then Inr (format_day (wrap64 (v * 86400) div 86400)) else Inl (ErrMsg ''date cursor overflow'')
    | CursorDomainTimestamp \<Rightarrow> if is_int64 v then Inr (format_rfc3339 v) else Inl (ErrMsg ''timestamp cursor overflow'')
    | _ \<Rightarrow> Inl (ErrMsg ''cursor domain is not discrete''))"

text \<open>
  The loop of \<open>SplitCursorRange\<close>: \<open>n\<close> iterations are left, \<open>idx\<close> is the loop counter, \<open>cur\<close> the start of the next part.
\<close>

fun split_loop :: "string \<Rightarrow> int \<Rightarrow> int \<Rightarrow> int \<Rightarrow> nat \<Rightarrow> int \<Rightarrow> int \<Rightarrow> string list res" where
  "split_loop domain stop base remainder 0 idx cur = Inr []"
| "split_loop domain stop base remainder (Suc n) idx cur =
    (let upper = cur + (base + (if idx < remainder then 1 else 0)) - 1
     in if upper \<ge> stop then Inr []
     else rbind (formatDiscreteCursor domain upper) (\<lambda>enc.
       if upper + 1 > stop then Inr [enc]
       else rbind (split_loop domain stop base remainder n (idx + 1) (upper + 1)) (\<lambda>rest. Inr (enc # rest))))"

definition SplitCursorRange :: "string \<Rightarrow> string \<Rightarrow> string \<Rightarrow> int \<Rightarrow> string list res" where
  "SplitCursorRange domain startInclusive endInclusive parts =
    (if \<not> SupportsCursorRangeSplit domain then Inr [trim_space endInclusive]
     else rbind (parseDiscreteCursor domain startInclusive) (\<lambda>start.
       rbind (parseDiscreteCursor domain endInclusive) (\<lambda>stop.
       if start > stop then Inl (ErrMsg ''range start is after end'')
       else if parts \<le> 1 then Inr [trim_space endInclusive]
       else let width = stop - start + 1; base = width div parts; remainder = width mod parts
         in if width \<le> 0 then Inr [trim_space endInclusive]
         else rbind (split_loop domain stop (if base \<le> 0 then 1 else base) remainder (nat (parts - 1)) 0 start) (\<lambda>out.
           Inr (out @ [trim_space endInclusive])))))"

definition CursorSpanUnits :: "string \<Rightarrow> string \<Rightarrow> string \<Rightarrow> int option" where
  "CursorSpanUnits domain lowerExclusive upperInclusive =
    (if \<not> SupportsCursorRangeSplit domain then None
     else case parseDiscreteCursor domain upperInclusive of
        Inl _ \<Rightarrow> None
      | Inr upper \<Rightarrow>
        (case (if trim_space lowerExclusive \<noteq> '''' then parseDiscreteCursor domain lowerExclusive else Inr (upper - 1)) of
           Inl _ \<Rightarrow> None
         | Inr lower \<Rightarrow> if is_int64 (upper - lower) then Some (upper - lower) else None))"

definition ClosedCursorSpanUnits :: "string \<Rightarrow> string \<Rightarrow> string \<Rightarrow> int option" where
  "ClosedCursorSpanUnits domain startInclusive endInclusive =
    (if \<not> SupportsCursorRangeSplit domain then None
     else case (parseDiscreteCursor domain startInclusive, parseDiscreteCursor domain endInclusive) of
        (Inr start, Inr stop) \<Rightarrow>
          if start > stop then None else if is_int64 (stop - start + 1) then Some (stop - start + 1) else None
      | _ \<Rightarrow> None)"

section \<open>Lookback\<close>

text \<open>\<open>parse_duration\<close> is \<open>time.ParseDuration\<close>, in nanoseconds.\<close>

definition CursorLookbackStart :: "(string \<Rightarrow> duration option) \<Rightarrow> string \<Rightarrow> string \<Rightarrow> string \<Rightarrow> string res" where
  "CursorLookbackStart parse_duration domain hwm lookback0 =
    (let lookback = trim_space lookback0; bad = (\<lambda>s. Inl (ErrMsg (''cursor_lookback '' @ s))) in
     case NormalizeCursorDomain domain of
       CursorDomainInt64 \<Rightarrow> (case (ParseInt lookback, parseInt64 hwm) of
           (Some n, Some v) \<Rightarrow> if n \<le> 0 then bad ''for an integer cursor must be a positive integer''
             else if v < - (2 ^ 63) + n then Inr (show_int (- (2 ^ 63))) else Inr (show_int (v - n))
         | _ \<Rightarrow> bad ''for an integer cursor must be a positive integer'')
     | CursorDomainUInt64 \<Rightarrow> (case (ParseUint lookback, parseUint64 hwm) of
           (Some n, Some v) \<Rightarrow> if n = 0 then bad ''for an integer cursor must be a positive integer''
             else if v < n then Inr ''0'' else Inr (show_int (v - n))
         | _ \<Rightarrow> bad ''for an integer cursor must be a positive integer'')
     | CursorDomainDate \<Rightarrow> (case parse_duration lookback of
           None \<Rightarrow> bad ''must be a positive duration''
         | Some d \<Rightarrow> if d \<le> 0 then bad ''must be a positive duration''
             else (case parseDateValue hwm of None \<Rightarrow> Inl (ErrMsg ''invalid date high-water mark'') | Some t \<Rightarrow> Inr (format_date (t - d))))
     | CursorDomainTimestamp \<Rightarrow> (case parse_duration lookback of
           None \<Rightarrow> bad ''must be a positive duration''
         | Some d \<Rightarrow> if d \<le> 0 then bad ''must be a positive duration''
             else (case parseTimestampValue hwm of None \<Rightarrow> Inl (ErrMsg ''invalid timestamp high-water mark'') | Some t \<Rightarrow> Inr (format_rfc3339 (t - d))))
     | _ \<Rightarrow> bad ''is not supported'')"

text \<open>The text of a normalized domain.\<close>

fun domain_text :: "cursor_domain \<Rightarrow> string" where
  "domain_text CursorDomainUnknown = ''''"
| "domain_text CursorDomainInt64 = ''int64''"
| "domain_text CursorDomainUInt64 = ''uint64''"
| "domain_text CursorDomainDecimal = ''decimal''"
| "domain_text CursorDomainDate = ''date''"
| "domain_text CursorDomainTimestamp = ''timestamp''"
| "domain_text CursorDomainString = ''string''"
| "domain_text CursorDomainUUID = ''uuid''"

lemma normalize_domain_text [simp]: "NormalizeCursorDomain (domain_text d) = d"
proof (cases d)
qed (simp_all only: domain_text.simps, code_simp+)

end
