(* ===== verification/HwmBoundary.thy ===== *)
theory HwmBoundary
  imports Cursors "HOL-Library.Multiset"
begin

text \<open>
  The boundary at the high-water mark (\<open>internal/hwmboundary\<close>, \<open>internal/planner/hwm_boundary.go\<close> and the
  commit of the mark in \<open>internal/grpc/commit_run.go\<close>). A run reads rows from the mark on and drops those
  at the mark that an earlier run exported, which the dataset state lists by their hash. A Go map from
  hashes to counts is an association list with distinct keys; the hash of a row (\<open>RowHash\<close>, a truncated
  SHA-256) is a parameter.
\<close>

section \<open>Boundaries\<close>

type_synonym tally = "(string \<times> int) list"

definition tally_get :: "tally \<Rightarrow> string \<Rightarrow> int" where
  "tally_get t h = (case map_of t h of None \<Rightarrow> 0 | Some n \<Rightarrow> n)"

definition tally_add :: "string \<Rightarrow> int \<Rightarrow> tally \<Rightarrow> tally" where
  "tally_add h n t = AList.update h (tally_get t h + n) t"

definition MaxRowHashes :: int where
  "MaxRowHashes = 10000"

record boundary =
  bd_cursor :: string
  bd_hashes :: tally
  bd_overflow :: bool

record skip =
  sk_cursor :: string
  sk_hashes :: tally
  sk_seed :: bool

definition seed_skip :: "string \<Rightarrow> skip" where
  "seed_skip hwm = \<lparr>sk_cursor = hwm, sk_hashes = [], sk_seed = True\<rparr>"

definition PlanSkip :: "(string \<Rightarrow> rat option) \<Rightarrow> string \<Rightarrow> string \<Rightarrow> boundary option \<Rightarrow> skip option \<times> bool \<times> string" where
  "PlanSkip rat_of domain hwm state = (case state of
      None \<Rightarrow> (Some (seed_skip hwm), False, ''dataset state has no HWM boundary; seeding it from rows at the HWM'')
    | Some b \<Rightarrow>
      if trim_space (bd_cursor b) = '''' then (Some (seed_skip hwm), False, ''dataset state has no HWM boundary; seeding it from rows at the HWM'')
      else if CompareCursorValues rat_of domain (bd_cursor b) hwm \<noteq> 0
      then (Some (seed_skip hwm), False, ''stored HWM boundary belongs to another cursor value; seeding it from rows at the HWM'')
      else if bd_overflow b
      then (None, True, ''more rows share the HWM value than the boundary can hold; resuming strictly after the HWM, rows committed later with the same cursor value may be missed'')
      else if bd_hashes b = [] then (Some (seed_skip hwm), False, ''stored HWM boundary is empty; seeding it from rows at the HWM'')
      else (Some \<lparr>sk_cursor = hwm, sk_hashes = bd_hashes b, sk_seed = False\<rparr>, False, ''resuming at the HWM and dropping rows already exported''))"

text \<open>The merge of the tasks' boundaries: \<open>None\<close> as soon as one task has not tracked its own.\<close>

fun merge_reported ::
  "(string \<Rightarrow> rat option) \<Rightarrow> string \<Rightarrow> string \<Rightarrow> boundary option list \<Rightarrow> tally \<times> bool \<times> bool \<Rightarrow> (tally \<times> bool \<times> bool) option" where
  "merge_reported rat_of domain hwm [] acc = Some acc"
| "merge_reported rat_of domain hwm (None # bs) acc = None"
| "merge_reported rat_of domain hwm (Some b # bs) (merged, contributed, overflow) =
    (if trim_space (bd_cursor b) = '''' \<or> CompareCursorValues rat_of domain (bd_cursor b) hwm \<noteq> 0
     then merge_reported rat_of domain hwm bs (merged, contributed, overflow)
     else merge_reported rat_of domain hwm bs (fold (\<lambda>(h, n). tally_add h n) (bd_hashes b) merged, True, overflow \<or> bd_overflow b))"

definition ForState :: "(string \<Rightarrow> rat option) \<Rightarrow> string \<Rightarrow> string \<Rightarrow> boundary option \<Rightarrow> boundary option list \<Rightarrow> boundary option" where
  "ForState rat_of domain hwm existing reported =
    (if trim_space hwm = '''' \<or> NormalizeCursorDomain domain = CursorDomainUnknown then None
     else case merge_reported rat_of domain hwm reported ([], False, False) of
       None \<Rightarrow> None
     | Some (merged, contributed, overflow) \<Rightarrow>
       if \<not> contributed
       then (case existing of Some e \<Rightarrow> if CompareCursorValues rat_of domain (bd_cursor e) hwm = 0 then Some e else None | None \<Rightarrow> None)
       else if overflow \<or> int (length merged) > MaxRowHashes then Some \<lparr>bd_cursor = hwm, bd_hashes = [], bd_overflow = True\<rparr>
       else Some \<lparr>bd_cursor = hwm, bd_hashes = merged, bd_overflow = False\<rparr>)"

section \<open>The tracker of a task\<close>

record tracker =
  tr_domain :: string
  tr_skip :: "skip option"
  tr_remaining :: tally
  tr_limit :: int
  tr_max :: string
  tr_atMax :: tally
  tr_overflow :: bool

definition newTrackerWithLimit :: "string \<Rightarrow> skip option \<Rightarrow> int \<Rightarrow> tracker" where
  "newTrackerWithLimit domain skip limit = \<lparr>tr_domain = domain_text (NormalizeCursorDomain domain), tr_skip = skip,
     tr_remaining = (case skip of None \<Rightarrow> [] | Some s \<Rightarrow> if sk_seed s then [] else sk_hashes s),
     tr_limit = limit, tr_max = '''', tr_atMax = [], tr_overflow = False\<rparr>"

definition NewTracker :: "string \<Rightarrow> skip option \<Rightarrow> tracker" where
  "NewTracker domain skip = newTrackerWithLimit domain skip MaxRowHashes"

text \<open>The end of \<open>observe\<close>: the row is at the largest cursor value read.\<close>

definition add_at_max :: "string \<Rightarrow> string \<Rightarrow> tracker \<Rightarrow> tracker" where
  "add_at_max cursor h t0 =
    (let t = t0\<lparr>tr_max := cursor\<rparr> in
     if tr_overflow t then t
     else if map_of (tr_atMax t) h = None \<and> int (length (tr_atMax t)) \<ge> tr_limit t then t\<lparr>tr_atMax := [], tr_overflow := True\<rparr>
     else t\<lparr>tr_atMax := tally_add h 1 (tr_atMax t)\<rparr>)"

definition observe :: "(string \<Rightarrow> rat option) \<Rightarrow> string \<Rightarrow> string \<Rightarrow> tracker \<Rightarrow> tracker" where
  "observe rat_of cursor h t =
    (let c = (if tr_max t \<noteq> '''' then CompareCursorValues rat_of (tr_domain t) cursor (tr_max t) else 0) in
     if c < 0 then t
     else add_at_max cursor h (if c > 0 then t\<lparr>tr_atMax := [], tr_overflow := False\<rparr> else t))"

text \<open>Whether the skip set drops a row, and the skip set left after it.\<close>

definition skip_row :: "(string \<Rightarrow> rat option) \<Rightarrow> string \<Rightarrow> string \<Rightarrow> tracker \<Rightarrow> bool \<times> tracker" where
  "skip_row rat_of cursor h t = (case tr_skip t of
      None \<Rightarrow> (False, t)
    | Some s \<Rightarrow>
      if CompareCursorValues rat_of (tr_domain t) cursor (sk_cursor s) \<noteq> 0 then (False, t)
      else if sk_seed s then (True, t)
      else if tally_get (tr_remaining t) h > 0 then (True, t\<lparr>tr_remaining := tally_add h (- 1) (tr_remaining t)\<rparr>)
      else (False, t))"

definition Keep :: "(string \<Rightarrow> rat option) \<Rightarrow> ('r \<Rightarrow> string) \<Rightarrow> string option \<Rightarrow> 'r \<Rightarrow> tracker \<Rightarrow> bool \<times> tracker" where
  "Keep rat_of RowHash cursor vals t = (case cursor of
      None \<Rightarrow> (True, t)
    | Some c \<Rightarrow> (case skip_row rat_of c (RowHash vals) t of (dropped, t1) \<Rightarrow> (\<not> dropped, observe rat_of c (RowHash vals) t1)))"

definition Boundary :: "tracker \<Rightarrow> boundary" where
  "Boundary t = (if tr_overflow t then \<lparr>bd_cursor = tr_max t, bd_hashes = [], bd_overflow = True\<rparr>
     else \<lparr>bd_cursor = tr_max t, bd_hashes = tr_atMax t, bd_overflow = False\<rparr>)"

text \<open>
  The row loop of a task (\<open>RowsToRecordBatchesEngineFiltered\<close> of \<open>internal/arrowio\<close>): the rows that are
  written and the largest cursor value among them; \<open>cur\<close> is the encoded cursor of a row. The batches the
  kept rows are appended to, and the errors of appending, are left out.
\<close>

fun extract_rows ::
  "(string \<Rightarrow> rat option) \<Rightarrow> ('r \<Rightarrow> string) \<Rightarrow> ('r \<Rightarrow> string option) \<Rightarrow> string \<Rightarrow> 'r list \<Rightarrow> tracker \<Rightarrow> string \<Rightarrow> 'r list \<times> string \<times> tracker" where
  "extract_rows rat_of RowHash cur domain [] t mx = ([], mx, t)"
| "extract_rows rat_of RowHash cur domain (r # rs) t mx = (case Keep rat_of RowHash (cur r) r t of (keep, t1) \<Rightarrow>
     if \<not> keep then extract_rows rat_of RowHash cur domain rs t1 mx
     else (case extract_rows rat_of RowHash cur domain rs t1
             (case cur r of None \<Rightarrow> mx | Some c \<Rightarrow> if mx = '''' \<or> CompareCursorValues rat_of domain mx c < 0 then c else mx) of
           (ks, m, t2) \<Rightarrow> (r # ks, m, t2)))"

text \<open>
  The master accepts a reported boundary only if it is within the limit, names a cursor value for its
  hashes and counts every hash at least once.
\<close>

definition encodeReportedHWMBoundary :: "boundary \<Rightarrow> boundary res" where
  "encodeReportedHWMBoundary b =
    (if int (length (bd_hashes b)) > MaxRowHashes then Inl (ErrMsg ''hwm_boundary lists too many rows'')
     else if bd_hashes b \<noteq> [] \<and> (bd_overflow b \<or> trim_space (bd_cursor b) = '''')
     then Inl (ErrMsg ''hwm_boundary row hashes require a cursor value and no overflow'')
     else if list_ex (\<lambda>(h, n). trim_space h = '''' \<or> n \<le> 0) (bd_hashes b) then Inl (ErrMsg ''hwm_boundary row hash has invalid count'')
     else Inr b)"

section \<open>Planning and committing the mark\<close>

record hwmResume =
  hr_lower :: string
  hr_exclusive :: bool
  hr_skip :: "skip option"
  hr_level :: string
  hr_reason :: string

definition no_resume :: hwmResume where
  "no_resume = \<lparr>hr_lower = '''', hr_exclusive = False, hr_skip = None, hr_level = '''', hr_reason = ''''\<rparr>"

definition planHWMResume ::
  "(string \<Rightarrow> rat option) \<Rightarrow> (string \<Rightarrow> duration option) \<Rightarrow> string \<Rightarrow> string \<Rightarrow> string \<Rightarrow> boundary option \<Rightarrow> hwmResume res" where
  "planHWMResume rat_of parse_duration domain fromHWM0 lookback state =
    (let fromHWM = trim_space fromHWM0 in
     if fromHWM = '''' then Inr no_resume
     else if trim_space lookback \<noteq> ''''
     then rbind (CursorLookbackStart parse_duration domain fromHWM lookback) (\<lambda>start.
       Inr (no_resume\<lparr>hr_lower := start, hr_level := ''INFO'', hr_reason := ''cursor lookback applied''\<rparr>))
     else if NormalizeCursorDomain domain = CursorDomainUnknown then Inr (no_resume\<lparr>hr_lower := fromHWM, hr_exclusive := True\<rparr>)
     else case PlanSkip rat_of domain fromHWM state of (skip, exclusive, reason) \<Rightarrow>
       if exclusive then Inr \<lparr>hr_lower = fromHWM, hr_exclusive = True, hr_skip = None, hr_level = ''WARN'', hr_reason = reason\<rparr>
       else Inr \<lparr>hr_lower = fromHWM, hr_exclusive = False, hr_skip = skip, hr_level = ''INFO'', hr_reason = reason\<rparr>)"

text \<open>Only the first task, whose range starts at the mark, gets the skip set; the task type is abstract here.\<close>

definition withHWMBoundarySpec :: "'t list \<Rightarrow> skip option \<Rightarrow> ('t \<times> skip option) list" where
  "withHWMBoundarySpec tasks skip = map (\<lambda>(i, task). (task, if i = 0 then skip else None)) (enumerate 0 tasks)"

text \<open>The scans of a run: every task reads its rows through a tracker of its own.\<close>

definition scan_tasks ::
  "(string \<Rightarrow> rat option) \<Rightarrow> ('r \<Rightarrow> string) \<Rightarrow> ('r \<Rightarrow> string option) \<Rightarrow> string \<Rightarrow> 'r list list \<Rightarrow> skip option \<Rightarrow> ('r list \<times> string \<times> tracker) list" where
  "scan_tasks rat_of RowHash cur domain inputs skip =
     map (\<lambda>(rows, sk). extract_rows rat_of RowHash cur domain rows (NewTracker domain sk) '''') (withHWMBoundarySpec inputs skip)"

text \<open>\<open>deriveMaxCursor\<close> over the \<open>max_hwm\<close> texts of the run's objects, and the mark the commit stores.\<close>

definition deriveMaxCursor :: "(string \<Rightarrow> rat option) \<Rightarrow> string \<Rightarrow> string list \<Rightarrow> string" where
  "deriveMaxCursor rat_of domain mvs =
     trim_space (fold (\<lambda>mv mx. if mv = '''' then mx else if mx = '''' \<or> CompareCursorValues rat_of domain mx mv < 0 then mv else mx) mvs '''')"

definition committed_hwm :: "(string \<Rightarrow> rat option) \<Rightarrow> string \<Rightarrow> string \<Rightarrow> string list \<Rightarrow> string" where
  "committed_hwm rat_of domain existing mvs =
    (let runMax = deriveMaxCursor rat_of domain mvs in
     if trim_space runMax \<noteq> '''' \<and> (trim_space existing = '''' \<or> NormalizeCursorDomain domain = CursorDomainUnknown
          \<or> CompareCursorValues rat_of domain runMax existing > 0)
     then runMax else existing)"

end
