(* ===== verification/CursorTexts.thy ===== *)
theory CursorTexts
  imports Cursors
begin

text \<open>
  Printing and parsing of cursor values are inverse: the lemmas on digits, calendar days and clock times
  behind \<open>formatDiscreteCursor\<close> and \<open>parseDiscreteCursor\<close>.
\<close>

section \<open>Digits\<close>

lemma digit_char_digit: "n < 10 \<Longrightarrow> is_digit (digit_char n) \<and> digit_val (digit_char n) = int n \<and> \<not> is_space (digit_char n)"
proof -
  have "\<forall>n \<in> {0..<10}. is_digit (digit_char n) \<and> digit_val (digit_char n) = int n \<and> \<not> is_space (digit_char n)" by code_simp
  then show "n < 10 \<Longrightarrow> is_digit (digit_char n) \<and> digit_val (digit_char n) = int n \<and> \<not> is_space (digit_char n)" by simp
qed

lemma digits_val_snoc [simp]: "digits_val (ds @ [c]) = 10 * digits_val ds + digit_val c"
  by (simp add: digits_val_def)

lemma digits_val_Nil [simp]: "digits_val [] = 0"
  by (simp add: digits_val_def)

lemma show_nat_digits: "show_nat n \<noteq> [] \<and> list_all is_digit (show_nat n) \<and> digits_val (show_nat n) = int n"
proof (induction n rule: less_induct)
  case (less n)
  show ?case
  proof (cases "n < 10")
    case True
    then show ?thesis using digit_char_digit [OF True] by (simp add: show_nat.simps [of n] digits_val_def)
  next
    case False
    then have "n div 10 < n" by simp
    then show ?thesis using less [of "n div 10"] False digit_char_digit [of "n mod 10"]
      by (simp add: show_nat.simps [of n] zmod_int zdiv_int)
  qed
qed

lemma digit_not_sign: "is_digit c \<Longrightarrow> c \<noteq> CHR ''-'' \<and> c \<noteq> CHR ''+'' \<and> \<not> is_space c"
  by (auto simp: is_digit_def is_space_def)

lemma ParseUint_show: "0 \<le> v \<Longrightarrow> v < 2 ^ 64 \<Longrightarrow> ParseUint (show_int v) = Some v"
  using show_nat_digits [of "nat v"] by (simp add: ParseUint_def show_int_def)

lemma ParseInt_show: "is_int64 v \<Longrightarrow> ParseInt (show_int v) = Some v"
proof (cases "v < 0")
  case True
  then show "is_int64 v \<Longrightarrow> ?thesis" using show_nat_digits [of "nat (- v)"] by (simp add: ParseInt_def show_int_def is_int64_def)
next
  case False
  have "hd (show_nat (nat v)) \<noteq> CHR ''-''" "hd (show_nat (nat v)) \<noteq> CHR ''+''"
    using show_nat_digits [of "nat v"] digit_not_sign by (metis hd_in_set list_all_iff)+
  then show "is_int64 v \<Longrightarrow> ?thesis" using False show_nat_digits [of "nat v"] by (simp add: ParseInt_def show_int_def is_int64_def)
qed

lemma trim_space_id: "(\<And>c. c \<in> set s \<Longrightarrow> \<not> is_space c) \<Longrightarrow> trim_space s = s"
proof -
  assume n: "\<And>c. c \<in> set s \<Longrightarrow> \<not> is_space c"
  have "dropWhile is_space xs = xs" if "\<And>c. c \<in> set xs \<Longrightarrow> \<not> is_space c" for xs using that by (cases xs) auto
  from this [of s] this [of "rev s"] show ?thesis using n by (simp add: trim_space_def)
qed

lemma show_int_no_space: "c \<in> set (show_int v) \<Longrightarrow> \<not> is_space c"
  using show_nat_digits [of "nat v"] show_nat_digits [of "nat (- v)"] digit_not_sign
  by (auto simp: show_int_def list_all_iff is_space_def split: if_splits)

lemma show_int_text [simp]: "trim_space (show_int v) = show_int v" "show_int v \<noteq> []"
  using trim_space_id [of "show_int v"] show_int_no_space show_nat_digits by (auto simp: show_int_def)

section \<open>Fixed-width numbers\<close>

lemma pad_digits: "list_all is_digit (pad w n)"
  by (induction w arbitrary: n) (use digit_char_digit in \<open>auto simp: nat_less_iff\<close>)

lemma pad_val:
  assumes "0 \<le> n" "n < 10 ^ w"
  shows "digits_val (pad w n) = n"
  using assms
proof (induction w arbitrary: n)
  case (Suc w)
  have "digits_val (pad w (n div 10)) = n div 10" using Suc.prems by (intro Suc.IH) auto
  moreover have "digit_val (digit_char (nat (n mod 10))) = n mod 10"
    using digit_char_digit [of "nat (n mod 10)"] by (simp add: nat_less_iff)
  ultimately show ?case by simp
qed simp

lemma parse_year_pad: "0 \<le> y \<Longrightarrow> y < 10000 \<Longrightarrow> parse_year (pad 4 y @ r) = Some (y, r)"
  using pad_val [of y 4] pad_digits [of 4 y] by (simp add: parse_year_def)

lemma getnum_pad: "0 \<le> m \<Longrightarrow> m < 100 \<Longrightarrow> getnum f (pad 2 m @ r) = Some (m, r)"
proof -
  assume m: "0 \<le> m" "m < 100"
  obtain a b where ab: "pad 2 m = [a, b]" by (auto simp: numeral_2_eq_2)
  have "is_digit a" "is_digit b" using pad_digits [of 2 m] by (simp_all add: ab)
  moreover have "10 * digit_val a + digit_val b = m" using pad_val [of m 2] m by (simp add: ab digits_val_def)
  ultimately show ?thesis by (simp add: getnum_def ab)
qed

lemma number_below_pad: "0 \<le> m \<Longrightarrow> m < n \<Longrightarrow> n \<le> 100 \<Longrightarrow> number_below f n (pad 2 m @ r) = Some (m, r)"
  by (simp add: number_below_def getnum_pad)

lemma literal_Cons [simp]: "literal c (c # r) = Some r"
  by (simp add: literal_def)

section \<open>Days\<close>

text \<open>The month table is inverted on every day of the year.\<close>

definition month_day_ok :: "bool \<Rightarrow> int \<Rightarrow> bool" where
  "month_day_ok leap i = (case month_day leap i of (m, dd) \<Rightarrow> 1 \<le> m \<and> m \<le> 12 \<and> 1 \<le> dd
       \<and> month_starts leap ! nat (m - 1) + dd - 1 = i
       \<and> (i < (if leap then 366 else 365) \<longrightarrow>
            dd \<le> (if m = 12 then 31 else month_starts leap ! nat m - month_starts leap ! nat (m - 1))))"

lemma month_day_ok: "0 \<le> i \<Longrightarrow> i \<le> 365 \<Longrightarrow> month_day_ok leap i"
proof -
  have "list_all (\<lambda>leap. list_all (month_day_ok leap) [0..365]) [True, False]" by code_simp
  then have "\<forall>leap. \<forall>i \<in> {0..365}. month_day_ok leap i" by (auto simp: list_all_iff all_bool_eq)
  then show "0 \<le> i \<Longrightarrow> i \<le> 365 \<Longrightarrow> month_day_ok leap i" by simp
qed

lemma civil_inverse:
  assumes "civil day = (y, m, dd)"
  shows "1 \<le> m" "m \<le> 12" "1 \<le> dd" "dd \<le> days_in y m" "days_of_civil y m dd = day"
proof -
  have y: "y = year_of day" and md: "month_day (is_leap y) (day - year_start y) = (m, dd)"
    using assms by (auto simp: civil_def Let_def)
  let ?i = "day - year_start y"
  have i: "0 \<le> ?i" "?i \<le> 365" "?i < (if is_leap y then 366 else 365)"
    using doy_bounds [of day] year_of_bounds [of day] year_start_step [of y] y by (auto split: if_splits)
  have ok: "month_day_ok (is_leap y) ?i" by (rule month_day_ok [OF i(1,2)])
  then show "1 \<le> m" "m \<le> 12" "1 \<le> dd" "dd \<le> days_in y m" "days_of_civil y m dd = day"
    using i(3) by (simp_all add: month_day_ok_def md days_in_def days_of_civil_def)
qed

definition four_digit_day :: "int \<Rightarrow> bool" where
  "four_digit_day day \<longleftrightarrow> 0 \<le> fst (civil day) \<and> fst (civil day) < 10000"

lemma parse_day_format: "four_digit_day day \<Longrightarrow> parse_day (format_day day @ r) = Some (day, r)"
proof -
  assume f: "four_digit_day day"
  obtain y m dd where c: "civil day = (y, m, dd)" by (cases "civil day")
  note I = civil_inverse [OF c]
  have y: "0 \<le> y" "y < 10000" using f c by (auto simp: four_digit_day_def)
  have "days_in y m \<le> 31"
  proof -
    have "nat m \<in> set [1..<13]" using I(1,2) by auto
    then show ?thesis using I(1,2) by (auto simp: days_in_def month_starts_def upt_rec nth_Cons' split: if_splits)
  qed
  then have "dd < 100" using I(4) by simp
  then show ?thesis
    using I by (simp add: parse_day_def format_day_def c year_text_pad y parse_year_pad number_below_pad getnum_pad)
qed

section \<open>Clock times\<close>

lemma digits_val_zeros: "digits_val (ds @ replicate k CHR ''0'') = digits_val ds * 10 ^ k"
proof (induction k)
  case (Suc k)
  have "ds @ replicate (Suc k) CHR ''0'' = (ds @ replicate k CHR ''0'') @ [CHR ''0'']" by (simp add: replicate_append_same)
  then have "digits_val (ds @ replicate (Suc k) CHR ''0'') = 10 * digits_val (ds @ replicate k CHR ''0'') + digit_val CHR ''0''"
    by (simp only: digits_val_snoc)
  moreover have "digit_val CHR ''0'' = 0" by (simp add: digit_val_def)
  ultimately show ?case using Suc by simp
qed simp

lemma strip_zeros:
  obtains k where "s = rev (dropWhile (\<lambda>c. c = CHR ''0'') (rev s)) @ replicate k CHR ''0''"
proof -
  let ?t = "takeWhile (\<lambda>c. c = CHR ''0'') (rev s)"
  have "\<forall>c \<in> set ?t. c = CHR ''0''" by (auto dest: set_takeWhileD)
  then have "rev ?t = replicate (length ?t) CHR ''0''" by (metis replicate_length_same rev_replicate)
  moreover have "s = rev (dropWhile (\<lambda>c. c = CHR ''0'') (rev s)) @ rev ?t"
    by (metis rev_append rev_rev_ident takeWhile_dropWhile_id)
  ultimately show thesis using that by metis
qed

lemma takeWhile_digits: "list_all is_digit ds \<Longrightarrow> takeWhile is_digit (ds @ CHR ''Z'' # r) = ds"
  "list_all is_digit ds \<Longrightarrow> dropWhile is_digit (ds @ CHR ''Z'' # r) = CHR ''Z'' # r"
  by (induction ds) (auto simp: is_digit_def)

lemma parse_fraction_text:
  assumes "0 \<le> ns" "ns < second"
  shows "parse_fraction (fraction_text ns @ CHR ''Z'' # r) = (ns, CHR ''Z'' # r)"
proof (cases "ns = 0")
  case True
  then show ?thesis by (simp add: parse_fraction_def fraction_text_def)
next
  case False
  define ds where "ds = rev (dropWhile (\<lambda>c. c = CHR ''0'') (rev (pad 9 ns)))"
  obtain k where k: "pad 9 ns = ds @ replicate k CHR ''0''" using strip_zeros [of "pad 9 ns"] unfolding ds_def by blast
  have dig: "list_all is_digit ds" using pad_digits [of 9 ns] by (simp add: k)
  have len: "length ds + k = 9" using arg_cong [OF k, of length] by simp
  have v: "digits_val ds * 10 ^ k = ns" using pad_val [of ns 9] assms by (simp add: k digits_val_zeros)
  then have ne: "ds \<noteq> []" using False by auto
  have "take 9 ds = ds" "9 - length ds = k" using len by simp_all
  then have n: "nanoseconds ds = ns" unfolding nanoseconds_def using v by simp
  have hd: "is_digit (ds ! 0)" using dig ne by (cases ds) simp_all
  have "fraction_text ns = CHR ''.'' # ds" using False by (simp add: fraction_text_def ds_def)
  then show ?thesis
    using ne hd by (simp add: parse_fraction_def takeWhile_digits [OF dig] n nth_append)
qed

lemma parse_clock_pads:
  assumes "0 \<le> h" "h < 24" "0 \<le> m" "m < 60" "0 \<le> sec" "sec < 60" "0 \<le> ns" "ns < second"
  shows "parse_clock (pad 2 h @ CHR '':'' # pad 2 m @ CHR '':'' # pad 2 sec @ fraction_text ns @ CHR ''Z'' # r)
    = Some ((h * 3600 + m * 60 + sec) * second + ns, CHR ''Z'' # r)"
  using assms by (simp add: parse_clock_def number_below_pad parse_fraction_text)

lemma parse_clock_format:
  assumes "0 \<le> sod" "sod < 86400" "0 \<le> ns" "ns < second"
  shows "parse_clock (pad 2 (sod div 3600) @ CHR '':'' # pad 2 (sod div 60 mod 60) @ CHR '':'' # pad 2 (sod mod 60)
      @ fraction_text ns @ CHR ''Z'' # r) = Some (sod * second + ns, CHR ''Z'' # r)"
proof -
  have "sod div 3600 \<le> 86399 div 3600" by (rule zdiv_mono1) (use assms(2) in simp_all)
  then have b: "0 \<le> sod div 3600" "sod div 3600 < 24" "0 \<le> sod div 60 mod 60" "sod div 60 mod 60 < 60" "0 \<le> sod mod 60" "sod mod 60 < 60"
    using assms(1) by (simp_all add: pos_imp_zdiv_nonneg_iff)
  have "sod div 3600 = sod div 60 div 60" by (simp add: zdiv_zmult2_eq [symmetric])
  then have "sod div 3600 * 3600 + sod div 60 mod 60 * 60 + sod mod 60 = sod"
    using mult_div_mod_eq [of 60 sod] mult_div_mod_eq [of 60 "sod div 60"] by linarith
  then show ?thesis using parse_clock_pads [OF b assms(3,4), of r] by (simp only:)
qed

section \<open>Round trips\<close>

lemma layout_date_format: "four_digit_day day \<Longrightarrow> layout_date (format_day day) = Some (day * 86400 * second)"
  using parse_day_format [of day "[]"] by (simp add: layout_date_def instant_of_def finish_def)

lemma layout_rfc3339_format:
  assumes "four_digit_day (t div (86400 * second))"
  shows "layout_rfc3339 (format_rfc3339 t) = Some t"
proof -
  define day sod ns where "day = t div (86400 * second)" and "sod = t div second mod 86400" and "ns = t mod second"
  have d: "day = t div second div 86400" by (simp add: day_def zdiv_zmult2_eq [symmetric])
  have b: "0 \<le> sod" "sod < 86400" "0 \<le> ns" "ns < second" by (simp_all add: sod_def ns_def)
  define q where "q = t div second"
  have "q = day * 86400 + sod" "t = q * second + ns" by (simp_all add: d sod_def ns_def q_def)
  then have t: "(day * 86400) * second + (sod * second + ns) = t" by simp
  have "format_rfc3339 t = format_day day @ CHR ''T'' # pad 2 (sod div 3600) @ CHR '':'' # pad 2 (sod div 60 mod 60)
      @ CHR '':'' # pad 2 (sod mod 60) @ fraction_text ns @ CHR ''Z'' # []"
    by (simp add: format_rfc3339_def format_date_def Let_def day_def sod_def ns_def)
  then show ?thesis
    using parse_day_format [OF assms [folded day_def]] parse_clock_format [OF b, of "[]"] t
    by (simp add: layout_rfc3339_def parse_zulu_def finish_def instant_of_def)
qed

lemma pad_no_space: "c \<in> set (pad w n) \<Longrightarrow> \<not> is_space c"
  using pad_digits [of w n] digit_not_sign by (auto simp: list_all_iff)

lemma separators: "\<not> is_space CHR ''-''" "\<not> is_space CHR '':''" "\<not> is_space CHR ''T''" "\<not> is_space CHR ''Z''" "\<not> is_space CHR ''.''"
  by (simp_all add: is_space_def)

lemma format_day_no_space:
  assumes "four_digit_day day" "c \<in> set (format_day day)"
  shows "\<not> is_space c"
proof -
  obtain y m dd where cv: "civil day = (y, m, dd)" by (cases "civil day")
  then have "c \<in> set (pad 4 y) \<or> c \<in> set (pad 2 m) \<or> c \<in> set (pad 2 dd) \<or> c = CHR ''-''"
    using assms by (auto simp: format_day_def four_digit_day_def year_text_pad)
  then show ?thesis using pad_no_space separators by blast
qed

lemma clock_no_space:
  assumes "c \<in> set (d @ ''T'' @ pad 2 h @ '':'' @ pad 2 m @ '':'' @ pad 2 sec @ fraction_text ns @ ''Z'')" "c \<notin> set d"
  shows "\<not> is_space c"
proof -
  have f: "set (fraction_text ns) \<subseteq> insert CHR ''.'' (set (pad 9 ns))" by (auto simp: fraction_text_def dest: set_dropWhileD)
  have "c \<in> set (pad 2 h) \<or> c \<in> set (pad 2 m) \<or> c \<in> set (pad 2 sec) \<or> c \<in> set (pad 9 ns) \<or> c = CHR '':'' \<or> c = CHR ''T'' \<or> c = CHR ''Z'' \<or> c = CHR ''.''"
    using assms f by auto
  then show ?thesis using pad_no_space separators by blast
qed

lemma format_rfc3339_no_space:
  assumes "four_digit_day (t div (86400 * second))" "c \<in> set (format_rfc3339 t)"
  shows "\<not> is_space c"
proof (cases "c \<in> set (format_day (t div (86400 * second)))")
  case True
  then show ?thesis by (rule format_day_no_space [OF assms(1)])
next
  case False
  then show ?thesis using assms(2) clock_no_space unfolding format_rfc3339_def format_date_def Let_def by metis
qed

lemma format_day_Nil: "format_day day \<noteq> []"
  by (simp add: format_day_def split: prod.splits)

lemma parseDate_format: "four_digit_day day \<Longrightarrow> parseDateValue (format_day day) = Some (day * 86400 * second)"
  using trim_space_id [of "format_day day", OF format_day_no_space]
  by (simp add: parseDateValue_def Let_def layout_date_format format_day_Nil)

lemma parseTimestamp_format: "four_digit_day (t div (86400 * second)) \<Longrightarrow> parseTimestampValue (format_rfc3339 t) = Some t"
  using trim_space_id [of "format_rfc3339 t", OF format_rfc3339_no_space]
  by (simp add: parseTimestampValue_def Let_def layout_rfc3339_format) (simp add: format_rfc3339_def Let_def)

end
