(* ===== verification/RangeTasks.thy ===== *)
theory RangeTasks
  imports CursorTexts
begin

text \<open>
  The split of an incremental read into range tasks (\<open>buildOrderedCursorRangeTasks\<close> of
  \<open>internal/planner/autotune.go\<close>) over the discrete cursor ranges of \<open>Cursors\<close>: every row of the window
  belongs to exactly one task.
\<close>

section \<open>Tasks\<close>

text \<open>The bounds of a partition spec; the other fields are copied from the job.\<close>

record range_spec =
  rs_lower :: string
  rs_lower_exclusive :: bool
  rs_upper :: string
  rs_upper_inclusive :: bool
  rs_part :: int

definition partitionSpecSQLCursorRange :: "string \<Rightarrow> bool \<Rightarrow> string \<Rightarrow> bool \<Rightarrow> int \<Rightarrow> range_spec" where
  "partitionSpecSQLCursorRange lower lowerExclusive upper upperInclusive part =
     \<lparr>rs_lower = trim_space lower, rs_lower_exclusive = lowerExclusive, rs_upper = trim_space upper,
      rs_upper_inclusive = upperInclusive, rs_part = part\<rparr>"

fun range_specs :: "string \<Rightarrow> bool \<Rightarrow> int \<Rightarrow> string list \<Rightarrow> range_spec list" where
  "range_specs lower excl idx [] = []"
| "range_specs lower excl idx (upper # us) = partitionSpecSQLCursorRange lower excl upper True idx # range_specs upper True (idx + 1) us"

text \<open>
  The number of tasks: as planned, or one per chunk; \<open>ceil_div\<close> stands for the rounding of the quotient
  in floating-point arithmetic.
\<close>

definition planned_tasks :: "(int \<Rightarrow> int \<Rightarrow> int) \<Rightarrow> string \<Rightarrow> string \<Rightarrow> string \<Rightarrow> int \<Rightarrow> int \<Rightarrow> int" where
  "planned_tasks ceil_div domain start maxValue planned chunk =
    (let n = (if planned > 0 then planned
              else if chunk > 0 then (case ClosedCursorSpanUnits domain start maxValue of
                 None \<Rightarrow> 1 | Some units \<Rightarrow> if units > 0 then ceil_div units chunk else 1)
              else 1)
     in if n < 1 then 1 else n)"

definition range_start :: "string \<Rightarrow> string \<Rightarrow> bool \<Rightarrow> string \<Rightarrow> string option" where
  "range_start domain lower excl minValue =
    (if lower = '''' then Some minValue else if excl then CursorSuccessor domain lower else Some lower)"

definition buildOrderedCursorRangeTasks ::
  "(string \<Rightarrow> rat option) \<Rightarrow> (int \<Rightarrow> int \<Rightarrow> int) \<Rightarrow> int \<Rightarrow> string \<Rightarrow> string \<Rightarrow> bool \<Rightarrow> string \<Rightarrow> string \<Rightarrow> int \<Rightarrow> int \<Rightarrow> range_spec list res" where
  "buildOrderedCursorRangeTasks rat_of ceil_div baseIndex domain lower0 excl minStat maxStat planned chunk =
    (let maxValue = trim_space maxStat; minValue = trim_space minStat; lower = trim_space lower0 in
     if maxValue = '''' \<or> minValue = '''' then Inr []
     else case range_start domain lower excl minValue of
        None \<Rightarrow> Inr []
      | Some start \<Rightarrow>
        if start = '''' \<or> CompareCursorValues rat_of domain start maxValue > 0 then Inr []
        else rbind (SplitCursorRange domain start maxValue (planned_tasks ceil_div domain start maxValue planned chunk)) (\<lambda>uppers.
          Inr (range_specs lower excl baseIndex uppers)))"

text \<open>The rows a task reads: the source compares the cursor column as the domain says.\<close>

definition reads :: "(string \<Rightarrow> rat option) \<Rightarrow> string \<Rightarrow> string \<Rightarrow> range_spec \<Rightarrow> bool" where
  "reads rat_of domain c s \<longleftrightarrow>
     (rs_lower s = '''' \<or> (if rs_lower_exclusive s then CompareCursorValues rat_of domain c (rs_lower s) > 0
                           else CompareCursorValues rat_of domain c (rs_lower s) \<ge> 0))
   \<and> (if rs_upper_inclusive s then CompareCursorValues rat_of domain c (rs_upper s) \<le> 0
      else CompareCursorValues rat_of domain c (rs_upper s) < 0)"

section \<open>Keys of cursor values\<close>

text \<open>The number a valid text of a discrete domain stands for, by which it is compared.\<close>

definition cursor_key :: "string \<Rightarrow> string \<Rightarrow> int option" where
  "cursor_key domain s = (case NormalizeCursorDomain domain of
      CursorDomainInt64 \<Rightarrow> parseInt64 (trim_space s)
    | CursorDomainUInt64 \<Rightarrow> parseUint64 (trim_space s)
    | CursorDomainDate \<Rightarrow> parseDateValue (trim_space s)
    | CursorDomainTimestamp \<Rightarrow> parseTimestampValue (trim_space s)
    | _ \<Rightarrow> None)"

definition cursor_unit :: "string \<Rightarrow> int" where
  "cursor_unit domain = (if NormalizeCursorDomain domain = CursorDomainDate then 86400 * second else 1)"

text \<open>Instants that \<open>UnixNano\<close> can represent and days with a four-digit year.\<close>

definition fits :: "string \<Rightarrow> int \<Rightarrow> bool" where
  "fits domain k = (case NormalizeCursorDomain domain of
      CursorDomainDate \<Rightarrow> four_digit_day (k div (86400 * second))
    | CursorDomainTimestamp \<Rightarrow> is_int64 k
    | _ \<Rightarrow> True)"

lemma compare_keys:
  assumes "cursor_key domain a = Some x" "cursor_key domain b = Some y"
  shows "CompareCursorValues rat_of domain a b = three_way x y"
  using assms by (auto simp: cursor_key_def CompareCursorValues_def both_def Let_def split: cursor_domain.splits)

lemma cursor_key_trim [simp]: "cursor_key domain (trim_space s) = cursor_key domain s"
  by (simp add: cursor_key_def trim_space_idem split: cursor_domain.splits)

lemma compare_trim [simp]: "CompareCursorValues rat_of domain a (trim_space b) = CompareCursorValues rat_of domain a b"
  by (simp add: CompareCursorValues_def trim_space_idem)

section \<open>The calendar in range\<close>

lemma year_of_ge: "year_start a \<le> day \<Longrightarrow> a \<le> year_of day"
proof (rule ccontr)
  assume a: "year_start a \<le> day" "\<not> a \<le> year_of day"
  have "year_start (year_of day + 1) \<le> year_start a"
    using year_start_mono [of "year_of day + 1" a] a(2) by (cases "year_of day + 1 = a") auto
  then show False using year_of_bounds(2) [of day] a(1) by simp
qed

lemma year_of_less: "day < year_start b \<Longrightarrow> year_of day < b"
proof (rule ccontr)
  assume b: "day < year_start b" "\<not> year_of day < b"
  then have "year_start b \<le> year_start (year_of day)" using year_start_mono [of b "year_of day"] by (cases "b = year_of day") auto
  then show False using year_of_bounds(1) [of day] b(1) by simp
qed

lemma four_digit_day_iff: "four_digit_day day \<longleftrightarrow> - 719528 \<le> day \<and> day < 2932897"
proof -
  have e: "year_start 0 = - 719528" "year_start 10000 = 2932897" by (simp_all add: year_start_def)
  have "0 \<le> year_of day \<longleftrightarrow> - 719528 \<le> day"
    using year_of_ge [of 0 day] year_of_less [of day 0] e by (metis linorder_not_less)
  moreover have "year_of day < 10000 \<longleftrightarrow> day < 2932897"
    using year_of_less [of day 10000] year_of_ge [of 10000 day] e by (metis linorder_not_less)
  ultimately show ?thesis by (simp add: four_digit_day_def civil_def Let_def)
qed

lemma int64_four_digit: "is_int64 t \<Longrightarrow> four_digit_day (t div (86400 * second))"
proof -
  assume t: "is_int64 t"
  have "- (2 ^ 63) div (86400 * second) \<le> t div (86400 * second)" "t div (86400 * second) \<le> 2 ^ 63 div (86400 * second)"
    by (rule zdiv_mono1; use t in \<open>simp add: is_int64_def\<close>)+
  then show ?thesis by (simp add: four_digit_day_iff)
qed

lemma discrete_key:
  assumes "parseDiscreteCursor domain s = Inr v"
  obtains k where "cursor_key domain s = Some k" "fits domain k \<Longrightarrow> k = v * cursor_unit domain"
proof (cases "NormalizeCursorDomain domain")
  case CursorDomainDate
  then obtain t where t: "parseDateValue (trim_space s) = Some t" "v = t div second div 86400"
    using assms by (auto simp: parseDiscreteCursor_def)
  have "\<exists>q. t = q * (86400 * second)" using t(1) by (auto simp: parseDateValue_def Let_def split: if_splits)
  then have "t = v * (86400 * second)" using t(2) by (auto simp: zdiv_zmult2_eq [symmetric])
  then show thesis using that [of t] t(1) CursorDomainDate by (simp add: cursor_key_def cursor_unit_def)
next
  case CursorDomainTimestamp
  then obtain t where t: "parseTimestampValue (trim_space s) = Some t" "v = wrap64 t"
    using assms by (auto simp: parseDiscreteCursor_def)
  then show thesis using that [of t] CursorDomainTimestamp wrap64_id [of t]
    by (simp add: cursor_key_def cursor_unit_def fits_def is_int64_def)
qed (use assms that in \<open>auto simp: parseDiscreteCursor_def cursor_key_def cursor_unit_def fits_def\<close>)

lemma format_key:
  assumes f: "formatDiscreteCursor domain v = Inr u" and fits: "fits domain (v * cursor_unit domain)"
  shows "cursor_key domain u = Some (v * cursor_unit domain) \<and> u \<noteq> '''' \<and> trim_space u = u"
proof (cases "NormalizeCursorDomain domain")
  case CursorDomainDate
  then have d: "four_digit_day v" using fits by (simp add: fits_def cursor_unit_def)
  then have "wrap64 (v * 86400) div 86400 = v" using wrap64_id [of "v * 86400"] by (simp add: four_digit_day_iff)
  then have u: "u = format_day v" using f CursorDomainDate by (simp add: formatDiscreteCursor_def split: if_splits)
  have "trim_space u = u" unfolding u using trim_space_id format_day_no_space [OF d] by blast
  then show ?thesis using parseDate_format [OF d] CursorDomainDate format_day_Nil [of v] by (simp add: cursor_key_def cursor_unit_def u)
next
  case CursorDomainTimestamp
  then have d: "four_digit_day (v div (86400 * second))" and u: "u = format_rfc3339 v"
    using f fits int64_four_digit by (simp_all add: fits_def cursor_unit_def formatDiscreteCursor_def split: if_splits)
  have "trim_space u = u" unfolding u using trim_space_id format_rfc3339_no_space [OF d] by blast
  then show ?thesis using parseTimestamp_format [OF d] CursorDomainTimestamp
    by (simp add: cursor_key_def cursor_unit_def u) (simp add: format_rfc3339_def Let_def)
qed (use f in \<open>auto simp: formatDiscreteCursor_def cursor_key_def cursor_unit_def parseInt64_def parseUint64_def
      ParseInt_show ParseUint_show split: if_splits\<close>)

section \<open>The split\<close>

lemma split_loop_values:
  assumes "split_loop domain stop base remainder n idx cur = Inr us" "1 \<le> base"
  shows "\<exists>vs. list_all2 (\<lambda>v u. formatDiscreteCursor domain v = Inr u) vs us \<and> sorted_wrt (<) vs
    \<and> (\<forall>v \<in> set vs. cur \<le> v \<and> v < stop) \<and> length us \<le> n"
  using assms
proof (induction n arbitrary: idx cur us)
  case (Suc n)
  define upper where "upper = cur + (base + (if idx < remainder then 1 else 0)) - 1"
  have ge: "cur \<le> upper" using Suc.prems(2) by (simp add: upper_def)
  show ?case
  proof (cases "upper \<ge> stop")
    case True
    then show ?thesis using Suc.prems(1) by (auto simp: upper_def [symmetric] Let_def)
  next
    case False
    then obtain enc rest where enc: "formatDiscreteCursor domain upper = Inr enc" "us = enc # rest"
        and r: "split_loop domain stop base remainder n (idx + 1) (upper + 1) = Inr rest"
      using Suc.prems(1) unfolding split_loop.simps upper_def [symmetric] Let_def by (auto split: if_splits)
    obtain vs where "list_all2 (\<lambda>v u. formatDiscreteCursor domain v = Inr u) vs rest" "sorted_wrt (<) vs"
        "\<forall>v \<in> set vs. upper + 1 \<le> v \<and> v < stop" "length rest \<le> n" using Suc.IH [OF r Suc.prems(2)] by blast
    then show ?thesis using enc False ge by (intro exI [of _ "upper # vs"]) auto
  qed
qed auto

text \<open>The keys of the uppers of a split: increasing, not below the start, and ending with the end.\<close>

lemma split_keys:
  assumes sp: "SplitCursorRange domain start stop parts = Inr us" "SupportsCursorRangeSplit domain"
    and k: "cursor_key domain start = Some ks" "fits domain ks" "cursor_key domain stop = Some ke" "fits domain ke"
  shows "\<exists>keys. list_all2 (\<lambda>u x. cursor_key domain u = Some x \<and> u \<noteq> '''') (butlast us) keys \<and> sorted_wrt (<) (keys @ [ke])
    \<and> (\<forall>x \<in> set keys. ks \<le> x) \<and> ks \<le> ke \<and> us \<noteq> [] \<and> last us = trim_space stop \<and> int (length us) \<le> max 1 parts"
proof -
  let ?c = "cursor_unit domain"
  have c: "0 < ?c" by (simp add: cursor_unit_def)
  obtain s e where se: "parseDiscreteCursor domain start = Inr s" "parseDiscreteCursor domain stop = Inr e" "s \<le> e"
    using sp by (auto simp: SplitCursorRange_def split: if_splits)
  have keys: "ks = s * ?c" "ke = e * ?c" using discrete_key [OF se(1)] discrete_key [OF se(2)] k by (metis option.inject)+
  have le: "ks \<le> ke" using se(3) c by (simp add: keys mult_right_mono)
  have mid: "fits domain (v * ?c)" if "s \<le> v" "v < e" for v
    using k(2,4) that unfolding keys by (auto simp: fits_def cursor_unit_def four_digit_day_iff is_int64_def split: cursor_domain.splits)
  consider "us = [trim_space stop]"
    | out where "us = out @ [trim_space stop]" "1 < parts"
      "split_loop domain e (if (e - s + 1) div parts \<le> 0 then 1 else (e - s + 1) div parts) ((e - s + 1) mod parts) (nat (parts - 1)) 0 s = Inr out"
    using sp se by (auto simp: SplitCursorRange_def Let_def split: if_splits)
  then show ?thesis
  proof cases
    case 1
    then show ?thesis using le by (intro exI [of _ "[]"]) auto
  next
    case (2 out)
    let ?b = "if (e - s + 1) div parts \<le> 0 then 1 else (e - s + 1) div parts"
    have "1 \<le> ?b" by auto
    then obtain vs where vs: "list_all2 (\<lambda>v u. formatDiscreteCursor domain v = Inr u) vs out" "sorted_wrt (<) vs"
        "\<forall>v \<in> set vs. s \<le> v \<and> v < e" "length out \<le> nat (parts - 1)" using split_loop_values [OF 2(3)] by blast
    have f: "list_all2 (\<lambda>u x. cursor_key domain u = Some x \<and> u \<noteq> '''') out (map (\<lambda>v. v * ?c) vs)"
    proof -
      have "cursor_key domain (out ! i) = Some (vs ! i * ?c) \<and> out ! i \<noteq> ''''" if i: "i < length vs" for i
        using format_key [of domain "vs ! i" "out ! i"] list_all2_nthD [OF vs(1) i] mid [of "vs ! i"] vs(3) i by auto
      then show ?thesis using list_all2_lengthD [OF vs(1)] by (auto simp: list_all2_conv_all_nth)
    qed
    have "sorted_wrt (<) (map (\<lambda>v. v * ?c) vs @ [ke])" "\<forall>x \<in> set (map (\<lambda>v. v * ?c) vs). ks \<le> x"
      using vs(2,3) c by (auto simp: sorted_wrt_append sorted_wrt_map keys)
    then show ?thesis using f le 2(1,2) vs(4) by (intro exI [of _ "map (\<lambda>v. v * ?c) vs"]) auto
  qed
qed

section \<open>Every row belongs to one task\<close>

lemma tasks_count:
  assumes "list_all2 (\<lambda>u x. cursor_key domain u = Some x \<and> trim_space u \<noteq> '''') us keys" "sorted_wrt (<) keys" "us \<noteq> []"
    and c: "cursor_key domain c = Some kc"
    and lower: "trim_space lower \<noteq> '''' \<Longrightarrow> cursor_key domain lower = Some kl \<and> (\<forall>x \<in> set keys. kl \<le> x)"
  shows "length (filter (reads rat_of domain c) (range_specs lower excl idx us)) =
    (if (trim_space lower = '''' \<or> (if excl then kl < kc else kl \<le> kc)) \<and> kc \<le> last keys then 1 else 0)"
  using assms(1-3) lower
proof (induction us arbitrary: lower excl idx keys kl)
  case (Cons u us)
  obtain x keys' where keys: "keys = x # keys'" using Cons.prems(1) by (cases keys) auto
  have u: "cursor_key domain u = Some x" "trim_space u \<noteq> ''''" using Cons.prems(1) by (auto simp: keys)
  let ?low = "trim_space lower = '''' \<or> (if excl then kl < kc else kl \<le> kc)"
  have cu: "CompareCursorValues rat_of domain c (trim_space u) = three_way kc x"
    using compare_keys [OF c u(1)] by simp
  have cl: "trim_space lower \<noteq> '''' \<Longrightarrow> CompareCursorValues rat_of domain c (trim_space lower) = three_way kc kl"
    using compare_keys [OF c] Cons.prems(4) by simp
  have head: "reads rat_of domain c (partitionSpecSQLCursorRange lower excl u True idx) \<longleftrightarrow> ?low \<and> kc \<le> x"
    using cl cu unfolding reads_def partitionSpecSQLCursorRange_def by (cases "trim_space lower = ''''") simp_all
  show ?case
  proof (cases "us = []")
    case True
    then show ?thesis using Cons.prems(1) head by (auto simp: keys)
  next
    case False
    have p: "list_all2 (\<lambda>u x. cursor_key domain u = Some x \<and> trim_space u \<noteq> '''') us keys'" "sorted_wrt (<) keys'"
      "\<forall>y \<in> set keys'. x \<le> y" using Cons.prems(1,2) by (auto simp: keys)
    have ne: "keys' \<noteq> []" using p(1) False by auto
    have tail: "length (filter (reads rat_of domain c) (range_specs u True (idx + 1) us)) = (if x < kc \<and> kc \<le> last keys' then 1 else 0)"
      using Cons.IH [OF p(1,2) False, of u x True "idx + 1"] u p(3) by simp
    have "x < last keys'" using Cons.prems(2) ne by (auto simp: keys)
    moreover have "x < kc \<Longrightarrow> ?low" using Cons.prems(4) by (cases "trim_space lower = ''''") (auto simp: keys)
    ultimately show ?thesis using head tail ne by (auto simp: keys)
  qed
qed simp

text \<open>The first position of the window, as a key: the source minimum, the lower bound or its successor.\<close>

definition window_start :: "string \<Rightarrow> string \<Rightarrow> bool \<Rightarrow> string \<Rightarrow> int option" where
  "window_start domain lower excl minStat = (if trim_space lower = '''' then cursor_key domain minStat
     else map_option (\<lambda>k. if excl then k + cursor_unit domain else k) (cursor_key domain lower))"

lemma date_key_multiple: "parseDateValue s = Some t \<Longrightarrow> (t + 86400 * second) div (86400 * second) * (86400 * second) = t + 86400 * second"
  by (auto simp: parseDateValue_def Let_def split: if_splits)

lemma successor_key:
  assumes s: "CursorSuccessor domain lower = Some start" and k: "cursor_key domain lower = Some kl" and f: "fits domain (kl + cursor_unit domain)"
  shows "cursor_key domain start = Some (kl + cursor_unit domain)"
proof (cases "NormalizeCursorDomain domain")
  case CursorDomainDate
  then have t: "parseDateValue lower = Some kl" "start = format_date (kl + 86400 * second)"
    using s k by (auto simp: CursorSuccessor_def cursor_key_def parseDateValue_def trim_space_idem)
  let ?d = "(kl + 86400 * second) div (86400 * second)"
  have d: "four_digit_day ?d" using f CursorDomainDate by (simp add: fits_def cursor_unit_def)
  have "trim_space start = start" unfolding t(2) format_date_def using trim_space_id format_day_no_space [OF d] by blast
  then show ?thesis using parseDate_format [OF d] date_key_multiple [OF t(1)] CursorDomainDate
    by (simp add: cursor_key_def cursor_unit_def t(2) format_date_def)
next
  case CursorDomainTimestamp
  then have t: "start = format_rfc3339 (kl + 1)" using s k by (auto simp: CursorSuccessor_def cursor_key_def parseTimestampValue_def trim_space_idem)
  have d: "four_digit_day ((kl + 1) div (86400 * second))"
    using f CursorDomainTimestamp int64_four_digit by (simp add: fits_def cursor_unit_def)
  have "trim_space start = start" unfolding t using trim_space_id format_rfc3339_no_space [OF d] by blast
  then show ?thesis using parseTimestamp_format [OF d] CursorDomainTimestamp by (simp add: cursor_key_def cursor_unit_def t)
next
  case CursorDomainInt64
  then have t: "start = show_int (kl + 1)" "kl \<noteq> 2 ^ 63 - 1" "ParseInt (trim_space lower) = Some kl"
    using s k by (auto simp: CursorSuccessor_def cursor_key_def parseInt64_def trim_space_idem split: if_splits)
  then have "is_int64 (kl + 1)" by (auto simp: ParseInt_def Let_def is_int64_def split: if_splits)
  then show ?thesis using CursorDomainInt64 by (simp add: cursor_key_def cursor_unit_def t(1) parseInt64_def ParseInt_show)
next
  case CursorDomainUInt64
  then have t: "start = show_int (kl + 1)" "kl \<noteq> 2 ^ 64 - 1" "ParseUint (trim_space lower) = Some kl"
    using s k by (auto simp: CursorSuccessor_def cursor_key_def parseUint64_def trim_space_idem split: if_splits)
  have "0 \<le> digits_val ds" if "list_all is_digit ds" for ds
    using that by (induction ds rule: rev_induct) (auto simp: is_digit_def digit_val_def)
  then have "0 \<le> kl + 1" "kl + 1 < 2 ^ 64" using t(2,3) by (auto simp: ParseUint_def split: if_splits)
  then show ?thesis using CursorDomainUInt64 by (simp add: cursor_key_def cursor_unit_def t(1) parseUint64_def ParseUint_show)
qed (use k in \<open>simp_all add: cursor_key_def\<close>)

lemma range_specs_parts: "map rs_part (range_specs lower excl idx us) = [idx..idx + int (length us) - 1]"
proof (induction us arbitrary: lower excl idx)
  case (Cons u us)
  have "idx # [idx + 1..idx + int (length (u # us)) - 1] = [idx..idx + int (length (u # us)) - 1]"
    by (subst (2) upto_rec1) simp_all
  then show ?case using Cons [of u True "idx + 1"] by (simp add: partitionSpecSQLCursorRange_def algebra_simps)
qed simp

section \<open>Properties\<close>

text \<open>
  Printing and parsing of range positions are inverse: for integers of the domain, for days of the
  years 0000 to 9999 and for every instant of 64-bit nanoseconds, the text of a position parses to the
  position again.
\<close>

lemma discrete_cursor_round_trip:
  assumes "formatDiscreteCursor domain v = Inr s" "fits domain (v * cursor_unit domain)"
  shows "parseDiscreteCursor domain s = Inr v"
proof -
  have k: "cursor_key domain s = Some (v * cursor_unit domain)" using format_key [OF assms] by simp
  show ?thesis
  proof (cases "NormalizeCursorDomain domain")
    case CursorDomainTimestamp
    then show ?thesis using k assms(2) wrap64_id [of v]
      by (simp add: parseDiscreteCursor_def cursor_key_def cursor_unit_def fits_def is_int64_def)
  qed (use k assms(1) in \<open>auto simp: parseDiscreteCursor_def cursor_key_def cursor_unit_def formatDiscreteCursor_def\<close>)
qed

text \<open>
  C31. An incremental read neither loses nor repeats a row: when the window of a discrete cursor is split
  into tasks, every cursor value of the window (after or from the lower bound, up to the maximum) is read
  by exactly one task and every value outside by none; the tasks are numbered consecutively and there are
  at most as many as planned.
\<close>

theorem range_tasks_partition_the_window:
  assumes b: "buildOrderedCursorRangeTasks rat_of ceil_div baseIndex domain lower excl minStat maxStat planned chunk = Inr specs" "specs \<noteq> []"
    and dom: "SupportsCursorRangeSplit domain"
    and w: "window_start domain lower excl minStat = Some ks" "fits domain ks" "cursor_key domain maxStat = Some ke" "fits domain ke"
    and c: "cursor_key domain c = Some kc"
  shows "length (filter (reads rat_of domain c) specs) =
      (if (trim_space lower = '''' \<or> (if excl then CompareCursorValues rat_of domain c lower > 0 else CompareCursorValues rat_of domain c lower \<ge> 0))
          \<and> CompareCursorValues rat_of domain c maxStat \<le> 0 then 1 else 0)
    \<and> map rs_part specs = [baseIndex..baseIndex + int (length specs) - 1]
    \<and> (0 < planned \<longrightarrow> int (length specs) \<le> planned)"
proof -
  let ?lower = "trim_space lower" and ?max = "trim_space maxStat"
  obtain start us where st: "range_start domain ?lower excl (trim_space minStat) = Some start" "?max \<noteq> ''''" "specs = range_specs ?lower excl baseIndex us"
      "SplitCursorRange domain start ?max (planned_tasks ceil_div domain start ?max planned chunk) = Inr us"
    using b by (auto simp: buildOrderedCursorRangeTasks_def Let_def split: if_splits option.splits)
  define kl where "kl = (if ?lower = '''' then 0 else the (cursor_key domain lower))"
  have kl: "?lower \<noteq> '''' \<Longrightarrow> cursor_key domain lower = Some kl \<and> kl \<le> ks"
    using w(1) by (auto simp: kl_def window_start_def cursor_unit_def)
  have ks: "cursor_key domain start = Some ks"
    using st(1) w(1,2) successor_key [of domain ?lower start] by (auto simp: range_start_def window_start_def split: if_splits)
  have ke: "cursor_key domain ?max = Some ke" using w(3) by simp
  obtain keys where K: "list_all2 (\<lambda>u x. cursor_key domain u = Some x \<and> u \<noteq> '''') (butlast us) keys" "sorted_wrt (<) (keys @ [ke])"
      "\<forall>x \<in> set keys. ks \<le> x" "ks \<le> ke" "us \<noteq> []" "last us = trim_space ?max" "int (length us) \<le> max 1 (planned_tasks ceil_div domain start ?max planned chunk)"
    using split_keys [OF st(4) dom ks w(2) ke w(4)] by blast
  have us: "us = butlast us @ [?max]" using K(5,6) by (metis append_butlast_last_id trim_space_idem)
  have "list_all2 (\<lambda>u x. cursor_key domain u = Some x \<and> trim_space u \<noteq> '''') (butlast us) keys"
    using K(1) by (rule list_all2_mono) (auto simp: cursor_key_def parseInt64_def ParseInt_def parseUint64_def ParseUint_def
      parseDateValue_def parseTimestampValue_def trim_space_idem split: cursor_domain.splits)
  then have la: "list_all2 (\<lambda>u x. cursor_key domain u = Some x \<and> trim_space u \<noteq> '''') us (keys @ [ke])"
    using ke st(2) by (subst us) (simp add: list_all2_appendI trim_space_idem)
  have lo: "trim_space ?lower \<noteq> '''' \<Longrightarrow> cursor_key domain ?lower = Some kl \<and> (\<forall>x \<in> set (keys @ [ke]). kl \<le> x)"
    using kl K(3,4) by (auto simp: trim_space_idem)
  have cmp: "CompareCursorValues rat_of domain c maxStat = three_way kc ke"
    "?lower \<noteq> '''' \<Longrightarrow> CompareCursorValues rat_of domain c lower = three_way kc kl"
    using compare_keys [OF c w(3)] compare_keys [OF c] kl by auto
  have "length (filter (reads rat_of domain c) specs) =
      (if (trim_space lower = '''' \<or> (if excl then CompareCursorValues rat_of domain c lower > 0 else CompareCursorValues rat_of domain c lower \<ge> 0))
          \<and> CompareCursorValues rat_of domain c maxStat \<le> 0 then 1 else 0)"
    using tasks_count [OF la K(2,5) c lo, of rat_of excl baseIndex] cmp st(3)
    by (cases "?lower = ''''") (simp_all add: trim_space_idem trim_space_def [of "[]"])
  moreover have "length specs = length us" using arg_cong [OF range_specs_parts [of ?lower excl baseIndex us], of length] st(3) by simp
  moreover have "0 < planned \<Longrightarrow> planned_tasks ceil_div domain start ?max planned chunk = planned" by (simp add: planned_tasks_def)
  ultimately show ?thesis using K(7) range_specs_parts [of ?lower excl baseIndex us] st(3) by auto
qed

text \<open>
  The split of a timestamp range fails beyond 64-bit nanoseconds: for a source whose largest
  timestamp is the year 9999, a common sentinel, \<open>UnixNano\<close> wraps and the split reports that the range
  starts after its end, although the start compares as smaller; the plan of the run fails with it.
\<close>

lemma far_timestamps_break_the_split:
  "CompareCursorValues rat_of ''timestamp'' ''2020-01-01T00:00:00Z'' ''9999-12-31T00:00:00Z'' < 0
   \<and> SplitCursorRange ''timestamp'' ''2020-01-01T00:00:00Z'' ''9999-12-31T00:00:00Z'' parts = Inl (ErrMsg ''range start is after end'')
   \<and> buildOrderedCursorRangeTasks rat_of ceil_div 1 ''timestamp'' '''' False ''2020-01-01T00:00:00Z'' ''9999-12-31T00:00:00Z'' planned chunk
       = Inl (ErrMsg ''range start is after end'')"
proof -
  let ?a = "''2020-01-01T00:00:00Z''" and ?b = "''9999-12-31T00:00:00Z''"
  have n: "NormalizeCursorDomain ''timestamp'' = CursorDomainTimestamp" by code_simp
  have t: "trim_space ?a = ?a" "trim_space ?b = ?b" "trim_space '''' = ''''" by code_simp+
  have p: "parseTimestampValue ?a = Some 1577836800000000000" "parseTimestampValue ?b = Some 253402214400000000000" by code_simp+
  have c: "CompareCursorValues rat_of ''timestamp'' ?a ?b = - 1"
    by (simp add: CompareCursorValues_def n t p both_def three_way_def)
  have s: "SplitCursorRange ''timestamp'' ?a ?b parts = Inl (ErrMsg ''range start is after end'')" for parts
    by (simp add: SplitCursorRange_def SupportsCursorRangeSplit_def parseDiscreteCursor_def n t p wrap64_def)
  show ?thesis
    unfolding buildOrderedCursorRangeTasks_def Let_def t range_start_def by (simp add: c s)
qed

section \<open>Witnesses\<close>

theorem range_tasks_partition_the_window_witness:
  "\<exists>specs. buildOrderedCursorRangeTasks (\<lambda>_. None) (\<lambda>a b. 1) 1 ''date'' ''2024-02-27'' True ''2024-01-01'' ''2024-03-05'' 3 0 = Inr specs
     \<and> length specs = 3 \<and> length (filter (reads (\<lambda>_. None) ''date'' ''2024-03-01'') specs) = 1"
proof -
  let ?b = "buildOrderedCursorRangeTasks (\<lambda>_. None) (\<lambda>a b. 1) 1 ''date'' ''2024-02-27'' True ''2024-01-01'' ''2024-03-05'' 3 0"
  have "(case ?b of Inl _ \<Rightarrow> False | Inr specs \<Rightarrow> length specs = 3)" by code_simp
  then obtain specs where b: "?b = Inr specs" "length specs = 3" by (auto split: sum.splits)
  have ne: "specs \<noteq> []" using b(2) by auto
  have h: "SupportsCursorRangeSplit ''date''" "window_start ''date'' ''2024-02-27'' True ''2024-01-01'' = Some 1709078400000000000"
    "fits ''date'' 1709078400000000000" "cursor_key ''date'' ''2024-03-05'' = Some 1709596800000000000" "fits ''date'' 1709596800000000000"
    "cursor_key ''date'' ''2024-03-01'' = Some 1709251200000000000" "cursor_key ''date'' ''2024-02-27'' = Some 1708992000000000000" by code_simp+
  have cmp: "CompareCursorValues (\<lambda>_. None) ''date'' ''2024-03-01'' ''2024-02-27'' > 0" "CompareCursorValues (\<lambda>_. None) ''date'' ''2024-03-01'' ''2024-03-05'' \<le> 0"
    by (simp_all add: compare_keys [OF h(6,7)] compare_keys [OF h(6,4)])
  show ?thesis using range_tasks_partition_the_window [OF b(1) ne h(1-6)] cmp b by auto
qed

end
