(* ===== verification/HwmExport.thy ===== *)
theory HwmExport
  imports HwmBoundary RangeTasks
begin

text \<open>
  Incremental runs export every row exactly once. The proof is over any comparison of cursor values that
  is given by a key; the interpretations provide the key for the discrete domains and for texts.
\<close>

section \<open>Tallies\<close>

definition tally_of :: "tally \<Rightarrow> string list \<Rightarrow> bool" where
  "tally_of t hs \<longleftrightarrow> distinct (map fst t) \<and> fst ` set t = set hs \<and> (\<forall>h. tally_get t h = int (count_list hs h))"

lemma tally_of_Nil: "tally_of [] []"
  by (simp add: tally_of_def tally_get_def)

lemma tally_get_add: "tally_get (tally_add h n t) k = tally_get t k + (if k = h then n else 0)"
  by (simp add: tally_get_def tally_add_def update_conv')

lemma tally_add_keys: "distinct (map fst t) \<Longrightarrow> distinct (map fst (tally_add h n t))" "fst ` set (tally_add h n t) = insert h (fst ` set t)"
  by (simp_all add: tally_add_def distinct_update dom_update)

lemma tally_add_snoc: "tally_of t hs \<Longrightarrow> tally_of (tally_add h 1 t) (hs @ [h])"
  by (auto simp: tally_of_def tally_get_add tally_add_keys)

lemma tally_length: "tally_of t hs \<Longrightarrow> length t = card (set hs)"
  unfolding tally_of_def by (metis distinct_card length_map list.set_map)

lemma tally_seen: "tally_of t hs \<Longrightarrow> map_of t h = None \<longleftrightarrow> h \<notin> set hs"
  unfolding tally_of_def by (simp add: map_of_eq_None_iff)

lemma tally_merge:
  assumes "tally_of a xs" "tally_of b ys"
  shows "tally_of (fold (\<lambda>(h, n). tally_add h n) b a) (xs @ ys)"
proof -
  have g: "tally_get (fold (\<lambda>(h, n). tally_add h n) c a) k = tally_get a k + (case map_of c k of None \<Rightarrow> 0 | Some n \<Rightarrow> n)"
    if "distinct (map fst c)" for c k using that
  proof (induction c arbitrary: a)
    case (Cons x c)
    obtain h n where x: "x = (h, n)" by (cases x)
    have "map_of c h = None" using Cons.prems by (simp add: x map_of_eq_None_iff)
    then show ?case using Cons.IH [of "tally_add h n a"] Cons.prems by (auto simp: x tally_get_add)
  qed simp
  have k: "fst ` set (fold (\<lambda>(h, n). tally_add h n) c a) = fst ` set a \<union> fst ` set c" for c
    by (induction c arbitrary: a) (simp_all add: tally_add_keys(2) split_beta insert_commute)
  have d: "distinct (map fst (fold (\<lambda>(h, n). tally_add h n) c a))" if "distinct (map fst a)" for a c :: tally
    using that by (induction c arbitrary: a) (auto simp: tally_add_keys)
  show ?thesis using assms g [of b] k [of b] d [of a b] unfolding tally_of_def by (auto simp: tally_get_def)
qed

lemma tally_of_cong:
  assumes "mset xs = mset ys"
  shows "tally_of t xs = tally_of t ys"
proof -
  have "count_list xs h = count_list ys h" for h using count_mset [of xs h] count_mset [of ys h] assms by simp
  then show ?thesis using mset_eq_setD [OF assms] by (simp add: tally_of_def)
qed

lemma count_hashes: "inj_on hash U \<Longrightarrow> set rs \<subseteq> U \<Longrightarrow> r \<in> U \<Longrightarrow> count_list (map hash rs) (hash r) = count (mset rs) r"
  by (induction rs) (auto dest: inj_onD)

lemma tally_positive:
  assumes "tally_of t hs" "(h, n) \<in> set t"
  shows "h \<in> set hs \<and> 0 < n"
proof -
  have "tally_get t h = n" using assms by (simp add: tally_of_def tally_get_def)
  moreover have h: "h \<in> set hs" using assms by (force simp: tally_of_def)
  ultimately have "n = int (count_list hs h)" using assms(1) by (simp add: tally_of_def)
  then show ?thesis using h count_list_0_iff [of hs h] by simp
qed

section \<open>Comparison by key\<close>

lemma compare_domain_text [simp]: "CompareCursorValues rat_of (domain_text (NormalizeCursorDomain domain)) = CompareCursorValues rat_of domain"
  by (simp add: CompareCursorValues_def fun_eq_iff)

text \<open>The rows at a key, and the boundary that describes the rows of a dataset at its mark.\<close>

definition at_key :: "(string \<Rightarrow> 'k) \<Rightarrow> ('r \<Rightarrow> string) \<Rightarrow> 'k \<Rightarrow> 'r list \<Rightarrow> 'r list" where
  "at_key key cur k rs = filter (\<lambda>r. key (cur r) = k) rs"

definition describes :: "(string \<Rightarrow> 'k::linorder) \<Rightarrow> ('r \<Rightarrow> string) \<Rightarrow> ('r \<Rightarrow> string) \<Rightarrow> 'r list \<Rightarrow> string \<Rightarrow> boundary \<Rightarrow> bool" where
  "describes key hash cur rows hwm b \<longleftrightarrow> bd_cursor b = hwm
     \<and> (bd_overflow b \<longleftrightarrow> MaxRowHashes < int (card (set (map hash (at_key key cur (key hwm) rows)))))
     \<and> (\<not> bd_overflow b \<longrightarrow> tally_of (bd_hashes b) (map hash (at_key key cur (key hwm) rows)))"

definition marks :: "(string \<Rightarrow> 'k::linorder) \<Rightarrow> ('r \<Rightarrow> string) \<Rightarrow> 'r list \<Rightarrow> string \<Rightarrow> bool" where
  "marks key cur rows hwm \<longleftrightarrow> at_key key cur (key hwm) rows \<noteq> [] \<and> (\<forall>r \<in> set rows. key (cur r) \<le> key hwm)"

lemma at_key_simps [simp]: "at_key key cur k [] = []" "at_key key cur k (xs @ ys) = at_key key cur k xs @ at_key key cur k ys"
  "at_key key cur k (r # rs) = (if key (cur r) = k then r # at_key key cur k rs else at_key key cur k rs)"
  by (simp_all add: at_key_def)

lemma at_key_concat: "at_key key cur k (concat xss) = concat (map (at_key key cur k) xss)"
  by (induction xss) simp_all

lemma at_key_Nil_iff: "at_key key cur k rs = [] \<longleftrightarrow> (\<forall>r \<in> set rs. key (cur r) \<noteq> k)"
  by (simp add: at_key_def filter_empty_conv)

lemma mset_at_key: "mset (at_key key cur k rs) = filter_mset (\<lambda>r. key (cur r) = k) (mset rs)"
  by (simp add: at_key_def)

lemma describes_cong: "mset (at_key key cur (key hwm) xs) = mset (at_key key cur (key hwm) ys) \<Longrightarrow> describes key hash cur xs hwm b = describes key hash cur ys hwm b"
  using tally_of_cong [of "map hash (at_key key cur (key hwm) xs)" "map hash (at_key key cur (key hwm) ys)" "bd_hashes b"]
    mset_eq_setD [of "at_key key cur (key hwm) xs" "at_key key cur (key hwm) ys"]
  by (simp add: describes_def)

lemma marks_cong: "mset xs = mset ys \<Longrightarrow> marks key cur xs hwm = marks key cur ys hwm"
  using mset_eq_setD [of xs ys] by (simp add: marks_def at_key_Nil_iff)

text \<open>
  The state between two runs: nothing exported and no mark, or a mark at the largest cursor exported and a
  boundary that describes the rows exported there.
\<close>

definition settled :: "(string \<Rightarrow> 'k::linorder) \<Rightarrow> (string \<Rightarrow> bool) \<Rightarrow> ('r \<Rightarrow> string) \<Rightarrow> ('r \<Rightarrow> string) \<Rightarrow> 'r list \<Rightarrow> string \<Rightarrow> boundary option \<Rightarrow> bool" where
  "settled key valid hash cur rows hwm state \<longleftrightarrow> (if rows = [] then hwm = ''''
     else valid hwm \<and> trim_space hwm = hwm \<and> marks key cur rows hwm \<and> (\<exists>b. state = Some b \<and> describes key hash cur rows hwm b))"

text \<open>The rows a run reads: those the lower bound of its plan admits.\<close>

definition readable :: "(string \<Rightarrow> 'k::linorder) \<Rightarrow> ('r \<Rightarrow> string) \<Rightarrow> hwmResume \<Rightarrow> 'r \<Rightarrow> bool" where
  "readable key cur plan r \<longleftrightarrow> hr_lower plan = '''' \<or> (if hr_exclusive plan then key (hr_lower plan) < key (cur r) else key (hr_lower plan) \<le> key (cur r))"

text \<open>The marks the objects of a run carry: a task that keeps a row writes an object, with the largest cursor it kept.\<close>

definition object_marks :: "('r list \<times> string \<times> tracker) list \<Rightarrow> string list" where
  "object_marks results = map (\<lambda>(ks, m, t). m) (filter (\<lambda>(ks, m, t). ks \<noteq> []) results)"

definition reported_boundaries :: "('r list \<times> string \<times> tracker) list \<Rightarrow> boundary option list" where
  "reported_boundaries results = map (\<lambda>(ks, m, t). Some (Boundary t)) results"

locale cursor_order =
  fixes rat_of :: "string \<Rightarrow> rat option"
    and domain :: string
    and key :: "string \<Rightarrow> 'k::linorder"
    and valid :: "string \<Rightarrow> bool"
  assumes compare_key: "valid a \<Longrightarrow> valid b \<Longrightarrow> CompareCursorValues rat_of domain a b = three_way (key a) (key b)"
    and valid_text: "valid a \<Longrightarrow> trim_space a \<noteq> ''''"
    and key_trim: "valid a \<Longrightarrow> valid (trim_space a) \<and> key (trim_space a) = key a"
    and known: "valid a \<Longrightarrow> NormalizeCursorDomain domain \<noteq> CursorDomainUnknown"
begin

lemma valid_ne: "valid a \<Longrightarrow> a \<noteq> ''''"
  using valid_text [of a] by (auto simp: trim_space_def)

text \<open>What a tracker has observed after reading some rows.\<close>

definition observed :: "('r \<Rightarrow> string) \<Rightarrow> ('r \<Rightarrow> string) \<Rightarrow> 'r list \<Rightarrow> tracker \<Rightarrow> bool" where
  "observed hash cur rs t \<longleftrightarrow> tr_domain t = domain_text (NormalizeCursorDomain domain) \<and>
    (if rs = [] then tr_max t = '''' \<and> tr_atMax t = [] \<and> \<not> tr_overflow t
     else valid (tr_max t) \<and> (\<forall>r \<in> set rs. key (cur r) \<le> key (tr_max t)) \<and> at_key key cur (key (tr_max t)) rs \<noteq> []
       \<and> (tr_overflow t \<longleftrightarrow> tr_limit t < int (card (set (map hash (at_key key cur (key (tr_max t)) rs)))))
       \<and> (\<not> tr_overflow t \<longrightarrow> tally_of (tr_atMax t) (map hash (at_key key cur (key (tr_max t)) rs))))"

lemma add_at_max_spec:
  assumes "tr_overflow t \<longleftrightarrow> tr_limit t < int (card (set hs))" "\<not> tr_overflow t \<Longrightarrow> tally_of (tr_atMax t) hs"
  shows "tr_max (add_at_max c h t) = c" "tr_limit (add_at_max c h t) = tr_limit t" "tr_domain (add_at_max c h t) = tr_domain t"
    "tr_overflow (add_at_max c h t) \<longleftrightarrow> tr_limit t < int (card (set (hs @ [h])))"
    "\<not> tr_overflow (add_at_max c h t) \<Longrightarrow> tally_of (tr_atMax (add_at_max c h t)) (hs @ [h])"
proof -
  show "tr_max (add_at_max c h t) = c" "tr_limit (add_at_max c h t) = tr_limit t" "tr_domain (add_at_max c h t) = tr_domain t"
    by (simp_all add: add_at_max_def Let_def)
  show "tr_overflow (add_at_max c h t) \<longleftrightarrow> tr_limit t < int (card (set (hs @ [h])))"
  proof (cases "tr_overflow t")
    case True
    then show ?thesis using assms(1) by (auto simp: add_at_max_def Let_def card_insert_if)
  next
    case False
    note T = assms(2) [OF False]
    show ?thesis using False assms(1) tally_seen [OF T, of h] tally_length [OF T]
      by (auto simp: add_at_max_def Let_def card_insert_if)
  qed
  show "tally_of (tr_atMax (add_at_max c h t)) (hs @ [h])" if "\<not> tr_overflow (add_at_max c h t)"
    using that tally_add_snoc [OF assms(2)] by (auto simp: add_at_max_def Let_def split: if_splits)
qed

lemma observed_at_max:
  assumes "tr_overflow t \<longleftrightarrow> tr_limit t < int (card (set hs))" "\<not> tr_overflow t \<Longrightarrow> tally_of (tr_atMax t) hs"
    and "tr_domain t = domain_text (NormalizeCursorDomain domain)" "valid c" "rs \<noteq> []" "\<forall>r \<in> set rs. key (cur r) \<le> key c"
    and "map hash (at_key key cur (key c) rs) = hs @ [h]"
  shows "observed hash cur rs (add_at_max c h t) \<and> tr_limit (add_at_max c h t) = tr_limit t"
proof -
  note S = add_at_max_spec [OF assms(1,2), of c h]
  have ne: "at_key key cur (key c) rs \<noteq> []" using assms(7) by auto
  have e: "tr_max (add_at_max c h t) = c" "tr_limit (add_at_max c h t) = tr_limit t" "tr_domain (add_at_max c h t) = tr_domain t"
    by (simp_all add: add_at_max_def Let_def)
  show ?thesis unfolding observed_def e assms(7) by (intro conjI) (use S(4,5) ne assms(3-6) in simp_all)
qed

lemma observed_step:
  assumes o: "observed hash cur rs t" and v: "valid (cur r)" and l: "0 \<le> tr_limit t"
  shows "observed hash cur (rs @ [r]) (observe rat_of (cur r) (hash r) t) \<and> tr_limit (observe rat_of (cur r) (hash r) t) = tr_limit t"
proof -
  have dom: "tr_domain t = domain_text (NormalizeCursorDomain domain)" using o by (simp add: observed_def)
  show ?thesis
  proof (cases "rs = []")
    case True
    have s: "tr_max t = ''''" "tr_atMax t = []" "\<not> tr_overflow t" using o True by (auto simp: observed_def)
    then have "observe rat_of (cur r) (hash r) t = add_at_max (cur r) (hash r) t" by (simp add: observe_def)
    then show ?thesis
      using observed_at_max [of t "[]" "cur r" "rs @ [r]" cur hash "hash r"] s dom v True l tally_of_Nil by (simp add: at_key_def)
  next
    case False
    have m: "valid (tr_max t)" "\<forall>r \<in> set rs. key (cur r) \<le> key (tr_max t)"
      and ov: "tr_overflow t \<longleftrightarrow> tr_limit t < int (card (set (map hash (at_key key cur (key (tr_max t)) rs))))"
      and ta: "\<not> tr_overflow t \<Longrightarrow> tally_of (tr_atMax t) (map hash (at_key key cur (key (tr_max t)) rs))"
      using o False by (auto simp: observed_def)
    have c: "CompareCursorValues rat_of (tr_domain t) (cur r) (tr_max t) = three_way (key (cur r)) (key (tr_max t))"
      using compare_key [OF v m(1)] by (simp add: dom)
    note ne = valid_ne [OF m(1)]
    consider "key (cur r) < key (tr_max t)" | "key (cur r) = key (tr_max t)" | "key (tr_max t) < key (cur r)" by force
    then show ?thesis
    proof cases
      case 1
      then have "at_key key cur (key (tr_max t)) (rs @ [r]) = at_key key cur (key (tr_max t)) rs" "observe rat_of (cur r) (hash r) t = t"
        by (simp_all add: at_key_def observe_def c ne)
      then show ?thesis using 1 o False by (auto simp: observed_def)
    next
      case 2
      have e: "observe rat_of (cur r) (hash r) t = add_at_max (cur r) (hash r) t" using 2 by (simp add: observe_def c ne)
      show ?thesis unfolding e
        by (rule observed_at_max [OF ov ta dom v]) (use 2 m(2) in \<open>auto simp: at_key_def\<close>)
    next
      case 3
      let ?t = "t\<lparr>tr_atMax := [], tr_overflow := False\<rparr>"
      have e: "observe rat_of (cur r) (hash r) t = add_at_max (cur r) (hash r) ?t" using 3 by (simp add: observe_def c ne)
      have "\<forall>x \<in> set rs. key (cur x) \<noteq> key (cur r)" using m(2) 3 by force
      then have "map hash (at_key key cur (key (cur r)) (rs @ [r])) = [] @ [hash r]" by (simp add: at_key_def filter_empty_conv)
      moreover have "\<forall>x \<in> set (rs @ [r]). key (cur x) \<le> key (cur r)" using m(2) 3 by auto
      ultimately show ?thesis unfolding e
        using observed_at_max [of ?t "[]" "cur r" "rs @ [r]" cur hash "hash r"] l dom v tally_of_Nil by simp
    qed
  qed
qed

text \<open>The row loop keeps the observation of everything it has read, dropped rows included.\<close>

lemma skip_row_frame:
  assumes "skip_row rat_of c h t = (d, t1)"
  shows "observed hash cur rs t1 = observed hash cur rs t" "tr_limit t1 = tr_limit t" "tr_skip t1 = tr_skip t" "tr_domain t1 = tr_domain t"
  using assms by (auto simp: skip_row_def observed_def split: option.splits if_splits)

lemma observe_frame: "tr_skip (observe rat_of c h t) = tr_skip t" "tr_domain (observe rat_of c h t) = tr_domain t"
  "tr_remaining (observe rat_of c h t) = tr_remaining t"
  by (simp_all add: observe_def add_at_max_def Let_def)

lemma extract_rows_Cons:
  assumes "skip_row rat_of (cur r) (hash r) t = (d, t1)"
    and "extract_rows rat_of hash (\<lambda>r. Some (cur r)) domain (r # rs) t mx = (ks, m, t')"
  obtains mx' ks' where "extract_rows rat_of hash (\<lambda>r. Some (cur r)) domain rs (observe rat_of (cur r) (hash r) t1) mx' = (ks', m, t')"
    "ks = (if d then ks' else r # ks')"
    "mx' = (if d then mx else if mx = '''' \<or> CompareCursorValues rat_of domain mx (cur r) < 0 then cur r else mx)"
  using assms by (auto simp: Keep_def split: prod.splits if_splits)

lemma extract_observed:
  assumes "extract_rows rat_of hash (\<lambda>r. Some (cur r)) domain rs t mx = (ks, m, t')"
    and "observed hash cur rs0 t" "0 \<le> tr_limit t" "\<forall>r \<in> set rs. valid (cur r)"
  shows "observed hash cur (rs0 @ rs) t' \<and> tr_limit t' = tr_limit t"
  using assms
proof (induction rs arbitrary: t mx ks m rs0)
  case (Cons r rs)
  obtain d t1 where s: "skip_row rat_of (cur r) (hash r) t = (d, t1)" by force
  note F = skip_row_frame [OF s]
  obtain mx' ks' where e: "extract_rows rat_of hash (\<lambda>r. Some (cur r)) domain rs (observe rat_of (cur r) (hash r) t1) mx' = (ks', m, t')"
    using extract_rows_Cons [OF s Cons.prems(1)] by metis
  have o: "observed hash cur (rs0 @ [r]) (observe rat_of (cur r) (hash r) t1)" "tr_limit (observe rat_of (cur r) (hash r) t1) = tr_limit t"
    using observed_step [of hash cur rs0 t1 r] Cons.prems(2-4) F(1) [of hash cur rs0] F(2) by simp_all
  show ?case using Cons.IH [OF e o(1)] Cons.prems(3,4) o(2) by simp
qed simp

text \<open>The skip set takes out of the rows at the mark exactly the multiset it stands for.\<close>

lemma extract_skip:
  assumes "extract_rows rat_of hash (\<lambda>r. Some (cur r)) domain rs t mx = (ks, m, t')"
    and "tr_skip t = Some sk" "\<not> sk_seed sk" "valid (sk_cursor sk)" "tr_domain t = domain_text (NormalizeCursorDomain domain)"
    and "inj_on hash U" "set rs \<subseteq> U" "\<forall>r \<in> U. tally_get (tr_remaining t) (hash r) = int (count R r)"
    and "\<forall>r \<in> set rs. valid (cur r)"
  shows "mset ks = mset (filter (\<lambda>r. key (cur r) \<noteq> key (sk_cursor sk)) rs) + (mset (at_key key cur (key (sk_cursor sk)) rs) - R)"
  using assms
proof (induction rs arbitrary: t mx ks m R)
  case Nil
  then show ?case by (simp add: at_key_def)
next
  case (Cons r rs)
  have v: "valid (cur r)" and rU: "r \<in> U" using Cons.prems(7,9) by simp_all
  have c: "CompareCursorValues rat_of (tr_domain t) (cur r) (sk_cursor sk) = three_way (key (cur r)) (key (sk_cursor sk))"
    using compare_key [OF v Cons.prems(4)] Cons.prems(5) by simp
  obtain d t1 where s: "skip_row rat_of (cur r) (hash r) t = (d, t1)" by force
  note F = skip_row_frame [OF s]
  obtain mx' ks' where e: "extract_rows rat_of hash (\<lambda>r. Some (cur r)) domain rs (observe rat_of (cur r) (hash r) t1) mx' = (ks', m, t')"
    and ks: "ks = (if d then ks' else r # ks')"
    using extract_rows_Cons [OF s Cons.prems(1)] by metis
  have IH: "mset ks' = mset (filter (\<lambda>r. key (cur r) \<noteq> key (sk_cursor sk)) rs) + (mset (at_key key cur (key (sk_cursor sk)) rs) - R')"
    if "\<forall>r \<in> U. tally_get (tr_remaining t1) (hash r) = int (count R' r)" for R'
    by (rule Cons.IH [OF e]) (use Cons.prems that F in \<open>simp_all add: observe_frame\<close>)
  show ?case
  proof (cases "key (cur r) = key (sk_cursor sk)")
    case False
    have "\<not> d" "t1 = t" using s False by (auto simp: skip_row_def Cons.prems(2) c three_way_simps)
    then show ?thesis using IH [of R] Cons.prems(8) ks False by (simp add: at_key_def)
  next
    case True
    show ?thesis
    proof (cases "r \<in># R")
      case False
      have "\<not> d" "t1 = t" using s True False Cons.prems(3,8) rU
        by (auto simp: skip_row_def Cons.prems(2) c three_way_simps not_in_iff)
      then show ?thesis using IH [of R] Cons.prems(8) ks True False by (simp add: at_key_def diff_add_mset_swap)
    next
      case mem: True
      have d: "d" "t1 = t\<lparr>tr_remaining := tally_add (hash r) (- 1) (tr_remaining t)\<rparr>" using s True mem Cons.prems(3,8) rU
        by (auto simp: skip_row_def Cons.prems(2) c three_way_simps)
      obtain R' where R: "R = add_mset r R'" using mem by (metis insert_DiffM)
      have "\<forall>x \<in> U. tally_get (tr_remaining t1) (hash x) = int (count R' x)"
        using Cons.prems(6,8) rU by (auto simp: d(2) tally_get_add R dest: inj_onD)
      from IH [OF this] show ?thesis using d(1) ks True by (simp add: at_key_def R)
    qed
  qed
qed

text \<open>Without a skip set, or when no row is at its mark, every row is kept.\<close>

lemma extract_all:
  assumes "extract_rows rat_of hash (\<lambda>r. Some (cur r)) domain rs t mx = (ks, m, t')" "tr_skip t = None"
  shows "ks = rs"
  using assms
proof (induction rs arbitrary: t mx ks m)
  case (Cons r rs)
  have s: "skip_row rat_of (cur r) (hash r) t = (False, t)" using Cons.prems(2) by (simp add: skip_row_def)
  obtain mx' ks' where e: "extract_rows rat_of hash (\<lambda>r. Some (cur r)) domain rs (observe rat_of (cur r) (hash r) t) mx' = (ks', m, t')"
    "ks = r # ks'" using extract_rows_Cons [OF s Cons.prems(1)] by metis
  show ?case using Cons.IH [OF e(1)] e(2) Cons.prems(2) by (simp add: observe_frame)
qed simp

section \<open>The mark\<close>

definition top_of :: "('r \<Rightarrow> string) \<Rightarrow> 'r list \<Rightarrow> string \<Rightarrow> bool" where
  "top_of cur rs m \<longleftrightarrow> (if rs = [] then m = '''' else valid m \<and> marks key cur rs m)"

lemma extract_top:
  assumes "extract_rows rat_of hash (\<lambda>r. Some (cur r)) domain rs t mx = (ks, m, t')"
    and "top_of cur ks0 mx" "\<forall>r \<in> set rs. valid (cur r)"
  shows "top_of cur (ks0 @ ks) m"
  using assms
proof (induction rs arbitrary: t mx ks m ks0)
  case (Cons r rs)
  obtain d t1 where s: "skip_row rat_of (cur r) (hash r) t = (d, t1)" by force
  obtain mx' ks' where e: "extract_rows rat_of hash (\<lambda>r. Some (cur r)) domain rs (observe rat_of (cur r) (hash r) t1) mx' = (ks', m, t')"
    and ks: "ks = (if d then ks' else r # ks')"
    and mx: "mx' = (if d then mx else if mx = '''' \<or> CompareCursorValues rat_of domain mx (cur r) < 0 then cur r else mx)"
    by (rule extract_rows_Cons [OF s Cons.prems(1)])
  have v: "valid (cur r)" using Cons.prems(3) by simp
  show ?case
  proof (cases d)
    case True
    then show ?thesis using Cons.IH [OF e, of ks0] Cons.prems(2,3) ks mx by simp
  next
    case False
    have "top_of cur (ks0 @ [r]) mx'"
    proof (cases "ks0 = []")
      case True
      then show ?thesis using Cons.prems(2) False mx v by (simp add: top_of_def marks_def)
    next
      case ne: False
      have vm: "valid mx" "marks key cur ks0 mx" using Cons.prems(2) ne by (auto simp: top_of_def)
      then have "mx' = (if key mx < key (cur r) then cur r else mx)" using False mx valid_ne [OF vm(1)] compare_key [OF vm(1) v] by simp
      then show ?thesis using vm v ne by (auto simp: top_of_def marks_def)
    qed
    then show ?thesis using Cons.IH [OF e, of "ks0 @ [r]"] Cons.prems(3) ks False by simp
  qed
qed simp

lemma fold_top:
  assumes "top_of (\<lambda>m. m) ms mx" "\<forall>m \<in> set mvs. valid m"
  shows "top_of (\<lambda>m. m) (ms @ mvs) (fold (\<lambda>mv mx. if mv = '''' then mx else if mx = '''' \<or> CompareCursorValues rat_of domain mx mv < 0 then mv else mx) mvs mx)"
  using assms
proof (induction mvs arbitrary: ms mx)
  case (Cons v mvs)
  have v: "valid v" "v \<noteq> ''''" using Cons.prems(2) valid_ne by auto
  have "top_of (\<lambda>m. m) (ms @ [v]) (if mx = '''' \<or> CompareCursorValues rat_of domain mx v < 0 then v else mx)"
  proof (cases "ms = []")
    case False
    have m: "valid mx" "marks key (\<lambda>m. m) ms mx" using Cons.prems(1) False by (auto simp: top_of_def)
    show ?thesis using m v(1) False valid_ne [OF m(1)] compare_key [OF m(1) v(1)] by (auto simp: top_of_def marks_def)
  qed (use Cons.prems(1) v in \<open>simp add: top_of_def marks_def\<close>)
  from Cons.IH [OF this] Cons.prems(2) v(2) show ?case by simp
qed simp

lemma top_trim: "top_of cur ms m \<Longrightarrow> top_of cur ms (trim_space m)"
  using key_trim [of m] by (simp add: top_of_def marks_def trim_space_def split: if_splits)

lemma committed_hwm_top:
  assumes "existing = '''' \<or> valid existing" "\<forall>m \<in> set mvs. valid m"
  shows "top_of (\<lambda>m. m) ((if existing = '''' then [] else [existing]) @ mvs) (committed_hwm rat_of domain existing mvs)"
proof -
  define mx where "mx = deriveMaxCursor rat_of domain mvs"
  have T: "top_of (\<lambda>m. m) mvs mx"
    unfolding mx_def deriveMaxCursor_def by (rule top_trim, rule fold_top [of "[]", simplified]) (simp_all add: top_of_def assms(2))
  have mx: "mx = '''' \<longleftrightarrow> mvs = []" "mvs \<noteq> [] \<Longrightarrow> valid mx" "trim_space mx = '''' \<longleftrightarrow> mvs = []"
    using T valid_ne valid_text by (auto simp: top_of_def trim_space_def split: if_splits)
  show ?thesis
  proof (cases "existing = ''''")
    case True
    then show ?thesis using T mx by (auto simp: committed_hwm_def Let_def mx_def [symmetric] trim_space_def top_of_def split: if_splits)
  next
    case False
    then have e: "valid existing" "trim_space existing \<noteq> ''''" using assms(1) valid_text by auto
    show ?thesis
    proof (cases "mvs = []")
      case True
      then show ?thesis using e False by (simp add: committed_hwm_def deriveMaxCursor_def Let_def top_of_def marks_def trim_space_def)
    next
      case ne: False
      have "committed_hwm rat_of domain existing mvs = (if key existing < key mx then mx else existing)"
        using e known [OF e(1)] mx ne compare_key [OF mx(2) [OF ne] e(1)] by (simp add: committed_hwm_def Let_def mx_def [symmetric])
      then show ?thesis using e T ne False by (auto simp: top_of_def marks_def)
    qed
  qed
qed

section \<open>The merge of the tasks' boundaries\<close>

lemma merge_reported_spec:
  assumes "list_all2 (\<lambda>rs t. observed hash cur rs t \<and> tr_limit t = MaxRowHashes) inputs ts" "valid hwm"
    and "\<forall>rs \<in> set inputs. \<forall>r \<in> set rs. key (cur r) \<le> key hwm" "\<not> ov \<Longrightarrow> tally_of merged (map hash A)"
    and "ov \<Longrightarrow> MaxRowHashes < int (card (set (map hash (A @ at_key key cur (key hwm) (concat inputs)))))" "con \<longleftrightarrow> A \<noteq> []"
  shows "\<exists>merged' ov'. merge_reported rat_of domain hwm (map (\<lambda>t. Some (Boundary t)) ts) (merged, con, ov)
      = Some (merged', A @ at_key key cur (key hwm) (concat inputs) \<noteq> [], ov')
    \<and> (ov' \<longrightarrow> MaxRowHashes < int (card (set (map hash (A @ at_key key cur (key hwm) (concat inputs))))))
    \<and> (\<not> ov' \<longrightarrow> tally_of merged' (map hash (A @ at_key key cur (key hwm) (concat inputs))))"
  using assms
proof (induction inputs ts arbitrary: A merged con ov rule: list_all2_induct)
  case Nil
  then show ?case by simp
next
  case (Cons rs inputs t ts)
  have o: "observed hash cur rs t" "tr_limit t = MaxRowHashes" using Cons.hyps(1) by auto
  have le: "\<forall>r \<in> set rs. key (cur r) \<le> key hwm" "\<forall>rs \<in> set inputs. \<forall>r \<in> set rs. key (cur r) \<le> key hwm" using Cons.prems(2) by auto
  have bc: "bd_cursor (Boundary t) = tr_max t" by (simp add: Boundary_def)
  show ?case
  proof (cases "at_key key cur (key hwm) rs = []")
    case True
    have "trim_space (bd_cursor (Boundary t)) = '''' \<or> CompareCursorValues rat_of domain (bd_cursor (Boundary t)) hwm \<noteq> 0"
    proof (cases "rs = []")
      case False
      then have m: "valid (tr_max t)" "at_key key cur (key (tr_max t)) rs \<noteq> []" using o(1) by (auto simp: observed_def)
      then have "key (tr_max t) \<noteq> key hwm" using True by metis
      then show ?thesis using compare_key [OF m(1) Cons.prems(1)] by (simp add: bc)
    qed (use o(1) in \<open>simp add: bc observed_def trim_space_def\<close>)
    then show ?thesis using Cons.IH [of ov merged A con] Cons.prems le(2) True by simp
  next
    case False
    then have ne: "rs \<noteq> []" by auto
    have m: "valid (tr_max t)" "\<forall>r \<in> set rs. key (cur r) \<le> key (tr_max t)" "at_key key cur (key (tr_max t)) rs \<noteq> []"
      and ovt: "tr_overflow t \<longleftrightarrow> MaxRowHashes < int (card (set (map hash (at_key key cur (key (tr_max t)) rs))))"
      and ta: "\<not> tr_overflow t \<Longrightarrow> tally_of (tr_atMax t) (map hash (at_key key cur (key (tr_max t)) rs))"
      using o ne by (auto simp: observed_def)
    have k: "key (tr_max t) = key hwm" using False m le(1) unfolding at_key_Nil_iff by (metis order.antisym)
    have g: "trim_space (bd_cursor (Boundary t)) \<noteq> ''''" "CompareCursorValues rat_of domain (bd_cursor (Boundary t)) hwm = 0"
      using valid_text [OF m(1)] compare_key [OF m(1) Cons.prems(1)] k by (simp_all add: bc)
    let ?m = "fold (\<lambda>(h, n). tally_add h n) (bd_hashes (Boundary t)) merged" and ?A = "A @ at_key key cur (key hwm) rs"
    have step: "merge_reported rat_of domain hwm (map (\<lambda>t. Some (Boundary t)) (t # ts)) (merged, con, ov)
      = merge_reported rat_of domain hwm (map (\<lambda>t. Some (Boundary t)) ts) (?m, True, ov \<or> bd_overflow (Boundary t))"
      using g by simp
    have bo: "bd_overflow (Boundary t) = tr_overflow t" by (simp add: Boundary_def)
    have A1: "tally_of ?m (map hash ?A)" if "\<not> (ov \<or> bd_overflow (Boundary t))"
    proof -
      have n: "\<not> ov" "\<not> tr_overflow t" using that bo by auto
      then have "bd_hashes (Boundary t) = tr_atMax t" by (simp add: Boundary_def)
      then show ?thesis using tally_merge [OF Cons.prems(3) [OF n(1)] ta [OF n(2)]] by (simp add: k)
    qed
    have A2: "MaxRowHashes < int (card (set (map hash (?A @ at_key key cur (key hwm) (concat inputs)))))" if "ov \<or> bd_overflow (Boundary t)"
    proof (cases ov)
      case True
      then show ?thesis using Cons.prems(4) by simp
    next
      case False
      then have "MaxRowHashes < int (card (set (map hash (at_key key cur (key hwm) rs))))" using that ovt by (simp add: bo k)
      also have "\<dots> \<le> int (card (set (map hash (?A @ at_key key cur (key hwm) (concat inputs)))))"
        by (intro zle_int [THEN iffD2] card_mono) auto
      finally show ?thesis .
    qed
    show ?thesis unfolding step
      using Cons.IH [of "ov \<or> bd_overflow (Boundary t)" ?m ?A True]
        Cons.prems(1) le(2) A1 A2 False by simp
  qed
qed

lemma ForState_describes:
  assumes "list_all2 (\<lambda>rs t. observed hash cur rs t \<and> tr_limit t = MaxRowHashes) inputs ts" "valid hwm"
    and "marks key cur (concat inputs) hwm"
  obtains b where "ForState rat_of domain hwm existing (map (\<lambda>t. Some (Boundary t)) ts) = Some b"
    "describes key hash cur (concat inputs) hwm b"
proof -
  obtain merged ov where m: "merge_reported rat_of domain hwm (map (\<lambda>t. Some (Boundary t)) ts) ([], False, False)
      = Some (merged, at_key key cur (key hwm) (concat inputs) \<noteq> [], ov)"
    and ov: "ov \<Longrightarrow> MaxRowHashes < int (card (set (map hash (at_key key cur (key hwm) (concat inputs)))))"
    and ta: "\<not> ov \<Longrightarrow> tally_of merged (map hash (at_key key cur (key hwm) (concat inputs)))"
    using merge_reported_spec [OF assms(1,2), of False "[]" "[]" False] assms(3) tally_of_Nil by (auto simp: marks_def)
  have len: "\<not> ov \<Longrightarrow> length merged = card (set (map hash (at_key key cur (key hwm) (concat inputs))))" using tally_length [OF ta] .
  let ?b = "if ov \<or> int (length merged) > MaxRowHashes then \<lparr>bd_cursor = hwm, bd_hashes = [], bd_overflow = True\<rparr>
        else \<lparr>bd_cursor = hwm, bd_hashes = merged, bd_overflow = False\<rparr>"
  show thesis
  proof (rule that)
    show "ForState rat_of domain hwm existing (map (\<lambda>t. Some (Boundary t)) ts) = Some ?b"
      using assms(3) m valid_text [OF assms(2)] known [OF assms(2)] by (simp add: ForState_def marks_def)
    show "describes key hash cur (concat inputs) hwm ?b"
      using ov ta len by (cases ov) (simp_all add: describes_def)
  qed
qed

section \<open>The scans of a run\<close>

lemma fresh_tracker: "observed hash cur [] (NewTracker domain sk)" "tr_limit (NewTracker domain sk) = MaxRowHashes" "0 \<le> tr_limit (NewTracker domain sk)"
  "tr_skip (NewTracker domain sk) = sk" "tr_domain (NewTracker domain sk) = domain_text (NormalizeCursorDomain domain)"
  by (simp_all add: NewTracker_def newTrackerWithLimit_def observed_def MaxRowHashes_def)

lemma scan_tracks:
  assumes "\<forall>r \<in> set rs. valid (cur r)" "extract_rows rat_of hash (\<lambda>r. Some (cur r)) domain rs (NewTracker domain sk) '''' = (ks, m, t)"
  shows "observed hash cur rs t \<and> tr_limit t = MaxRowHashes \<and> top_of cur ks m"
  using extract_observed [OF assms(2) fresh_tracker(1) fresh_tracker(3)] extract_top [OF assms(2), of "[]"] assms(1) fresh_tracker(2) [of sk]
  by (simp add: top_of_def)

lemma withHWMBoundarySpec_simps [simp]: "withHWMBoundarySpec [] sk = []"
  "withHWMBoundarySpec (t # ts) sk = (t, sk) # map (\<lambda>t. (t, None)) ts"
proof -
  have "map (\<lambda>(i, task). (task, if i = 0 then sk else None)) (enumerate (Suc n) xs) = map (\<lambda>t. (t, None)) xs" for xs :: "'t list" and n
    by (induction xs arbitrary: n) simp_all
  then show "withHWMBoundarySpec (t # ts) sk = (t, sk) # map (\<lambda>t. (t, None)) ts" by (simp add: withHWMBoundarySpec_def)
qed (simp add: withHWMBoundarySpec_def)

lemma scan_tasks_Cons: "scan_tasks rat_of hash cs domain (rs # inputs) sk =
    extract_rows rat_of hash cs domain rs (NewTracker domain sk) '''' # map (\<lambda>rs. extract_rows rat_of hash cs domain rs (NewTracker domain None) '''') inputs"
  by (simp add: scan_tasks_def)

lemma scan_tasks_track:
  assumes "\<forall>rs \<in> set inputs. \<forall>r \<in> set rs. valid (cur r)"
  shows "list_all2 (\<lambda>rs (ks, m, t). observed hash cur rs t \<and> tr_limit t = MaxRowHashes \<and> top_of cur ks m)
    inputs (scan_tasks rat_of hash (\<lambda>r. Some (cur r)) domain inputs sk)"
proof -
  have one: "case extract_rows rat_of hash (\<lambda>r. Some (cur r)) domain rs (NewTracker domain sk) '''' of (ks, m, t) \<Rightarrow>
      observed hash cur rs t \<and> tr_limit t = MaxRowHashes \<and> top_of cur ks m" if "rs \<in> set inputs" for rs sk
    using scan_tracks [of rs cur hash sk] assms that by (auto split: prod.splits)
  show ?thesis
  proof (cases inputs)
    case (Cons rs rest)
    have "list_all2 (\<lambda>rs (ks, m, t). observed hash cur rs t \<and> tr_limit t = MaxRowHashes \<and> top_of cur ks m) rest
        (map (\<lambda>rs. extract_rows rat_of hash (\<lambda>r. Some (cur r)) domain rs (NewTracker domain None) '''') rest)"
      unfolding list_all2_map2 by (rule list.rel_refl_strong) (use one Cons in simp)
    then show ?thesis using one [of rs sk] by (simp add: Cons scan_tasks_Cons)
  qed (simp add: scan_tasks_def)
qed

lemma scan_rest: "concat (map fst (map (\<lambda>rs. extract_rows rat_of hash (\<lambda>r. Some (cur r)) domain rs (NewTracker domain None) '''') inputs)) = concat inputs"
proof (induction inputs)
  case (Cons rs inputs)
  obtain ks m t where e: "extract_rows rat_of hash (\<lambda>r. Some (cur r)) domain rs (NewTracker domain None) '''' = (ks, m, t)" by (metis prod_cases3)
  show ?case using Cons.IH extract_all [OF e] by (simp add: e fresh_tracker)
qed simp

text \<open>Without a mark everything is kept; with one, the described rows are taken out and nothing else.\<close>

lemma scan_fresh: "concat (map fst (scan_tasks rat_of hash (\<lambda>r. Some (cur r)) domain inputs None)) = concat inputs"
proof (cases inputs)
  case (Cons rs rest)
  then show ?thesis using scan_rest [of hash cur inputs] by (simp add: scan_tasks_Cons)
qed (simp add: scan_tasks_def)

lemma scan_resume:
  assumes "valid hwm" "describes key hash cur D hwm b" "\<not> bd_overflow b" "inj_on hash U" "set D \<subseteq> U" "set (concat inputs) \<subseteq> U"
    and "\<forall>rs \<in> set inputs. \<forall>r \<in> set rs. valid (cur r)" "\<forall>rs \<in> set (tl inputs). at_key key cur (key hwm) rs = []"
    and "mset (at_key key cur (key hwm) D) \<subseteq># mset (concat inputs)" "sk_cursor sk = hwm" "\<not> sk_seed sk" "sk_hashes sk = bd_hashes b" "inputs \<noteq> []"
  shows "mset (concat (map fst (scan_tasks rat_of hash (\<lambda>r. Some (cur r)) domain inputs (Some sk)))) + mset (at_key key cur (key hwm) D) = mset (concat inputs)"
proof -
  obtain rs rest where i: "inputs = rs # rest" using assms(13) by (cases inputs) auto
  let ?R = "mset (at_key key cur (key hwm) D)"
  obtain ks m t where e: "extract_rows rat_of hash (\<lambda>r. Some (cur r)) domain rs (NewTracker domain (Some sk)) '''' = (ks, m, t)" by (metis prod_cases3)
  have "set (at_key key cur (key hwm) D) \<subseteq> U" using assms(5) by (auto simp: at_key_def)
  then have "tally_get (bd_hashes b) (hash r) = int (count ?R r)" if "r \<in> U" for r
    using assms(2,3) count_hashes [OF assms(4) _ that] by (simp add: describes_def tally_of_def)
  then have ks: "mset ks = mset (filter (\<lambda>r. key (cur r) \<noteq> key hwm) rs) + (mset (at_key key cur (key hwm) rs) - ?R)"
    using extract_skip [OF e, of sk U ?R] assms(1,4,6,7,10-12) fresh_tracker
    by (simp add: i NewTracker_def newTrackerWithLimit_def)
  have rest: "at_key key cur (key hwm) (concat rest) = []" using assms(8) by (simp add: i at_key_concat)
  have "?R = filter_mset (\<lambda>r. key (cur r) = key hwm) ?R" by (simp add: at_key_def filter_filter_mset)
  also have "\<dots> \<subseteq># filter_mset (\<lambda>r. key (cur r) = key hwm) (mset (concat inputs))" by (rule multiset_filter_mono [OF assms(9)])
  also have "\<dots> = mset (at_key key cur (key hwm) rs)" using rest by (simp add: i mset_at_key [symmetric])
  finally have le: "?R \<subseteq># mset (at_key key cur (key hwm) rs)" .
  have "mset rs = mset (at_key key cur (key hwm) rs) + mset (filter (\<lambda>r. key (cur r) \<noteq> key hwm) rs)"
    using multiset_partition [of "mset rs" "\<lambda>r. key (cur r) = key hwm"] by (simp add: at_key_def)
  moreover obtain X where "mset (at_key key cur (key hwm) rs) = ?R + X" using subset_mset.add_diff_inverse [OF le] by metis
  ultimately have "mset ks + ?R = mset rs" unfolding ks by (simp add: ac_simps)
  moreover have "concat (map fst (scan_tasks rat_of hash (\<lambda>r. Some (cur r)) domain inputs (Some sk))) = ks @ concat rest"
    using scan_rest [of hash cur rest] by (simp add: i scan_tasks_Cons e)
  ultimately show ?thesis by (simp add: i add.assoc add.commute)
qed

text \<open>The rows of the source split at the mark: those below it are exported already.\<close>

lemma split_at_mark:
  assumes "mset D \<subseteq># mset S" "\<forall>r \<in># mset S - mset D. k \<le> key (cur r)" "\<forall>r \<in> set D. key (cur r) \<le> k"
  shows "mset D + mset (filter (\<lambda>r. k \<le> key (cur r)) S) = mset S + mset (at_key key cur k D)"
proof -
  obtain N where N: "mset S = mset D + N" using assms(1) by (metis subset_mset.add_diff_inverse)
  have "filter_mset (\<lambda>r. key (cur r) < k) N = filter_mset (\<lambda>_. False) N" using assms(2) N by (intro filter_mset_cong) (auto simp: not_less)
  then have lt: "filter_mset (\<lambda>r. key (cur r) < k) (mset S) = filter_mset (\<lambda>r. key (cur r) < k) (mset D)" by (simp add: N)
  have "(\<lambda>r. \<not> k \<le> key (cur r)) = (\<lambda>r. key (cur r) < k)" by auto
  then have S: "mset S = filter_mset (\<lambda>r. k \<le> key (cur r)) (mset S) + filter_mset (\<lambda>r. key (cur r) < k) (mset S)"
    using multiset_partition [of "mset S" "\<lambda>r. k \<le> key (cur r)"] by simp
  have "filter_mset (\<lambda>r. \<not> key (cur r) = k) (mset D) = filter_mset (\<lambda>r. key (cur r) < k) (mset D)"
    using assms(3) by (intro filter_mset_cong) (auto simp: less_le)
  then have D: "mset D = mset (at_key key cur k D) + filter_mset (\<lambda>r. key (cur r) < k) (mset D)"
    using multiset_partition [of "mset D" "\<lambda>r. key (cur r) = k"] by (simp add: mset_at_key)
  have "mset D + filter_mset (\<lambda>r. k \<le> key (cur r)) (mset S) = mset (at_key key cur k D) + filter_mset (\<lambda>r. key (cur r) < k) (mset S) + filter_mset (\<lambda>r. k \<le> key (cur r)) (mset S)"
    using D lt by metis
  then show ?thesis using S by (metis add.assoc add.commute mset_filter)
qed

text \<open>What the plan of a run hands to its tasks.\<close>

lemma resume_fresh: "planHWMResume rat_of parse_duration domain '''' '''' state = Inr no_resume"
  by (simp add: planHWMResume_def trim_space_def)

lemma resume_at_mark:
  assumes "valid hwm" "trim_space hwm = hwm" "describes key hash cur D hwm b" "\<not> bd_overflow b" "at_key key cur (key hwm) D \<noteq> []"
  obtains reason where "planHWMResume rat_of parse_duration domain hwm '''' (Some b) =
    Inr \<lparr>hr_lower = hwm, hr_exclusive = False, hr_skip = Some \<lparr>sk_cursor = hwm, sk_hashes = bd_hashes b, sk_seed = False\<rparr>, hr_level = ''INFO'', hr_reason = reason\<rparr>"
proof -
  have "bd_hashes b \<noteq> []" "bd_cursor b = hwm" using assms(3-5) by (auto simp: describes_def tally_of_def)
  then have p: "\<exists>reason. PlanSkip rat_of domain hwm (Some b) = (Some \<lparr>sk_cursor = hwm, sk_hashes = bd_hashes b, sk_seed = False\<rparr>, False, reason)"
    using assms(4) valid_text [OF assms(1)] compare_key [OF assms(1) assms(1)] by (simp add: PlanSkip_def)
  have "trim_space '''' = ''''" by (simp add: trim_space_def)
  then show thesis using that p assms(2) valid_ne [OF assms(1)] known [OF assms(1)] by (auto simp: planHWMResume_def)
qed

section \<open>Exactly once\<close>

lemma commit_settles:
  assumes results: "list_all2 (\<lambda>rs (ks, m, t). observed hash cur rs t \<and> tr_limit t = MaxRowHashes \<and> top_of cur ks m) inputs results"
    and all: "mset (D @ concat (map fst results)) = mset S" and S: "S \<noteq> []"
    and hwm: "if D = [] then hwm = '''' else valid hwm \<and> trim_space hwm = hwm \<and> marks key cur D hwm"
    and read: "mset (concat inputs) = mset (filter (\<lambda>r. hwm = '''' \<or> key hwm \<le> key (cur r)) S)"
    and mvs: "set mvs = set (object_marks results)"
  shows "settled key valid hash cur S (committed_hwm rat_of domain hwm mvs)
    (ForState rat_of domain (committed_hwm rat_of domain hwm mvs) state (reported_boundaries results))"
proof -
  let ?h = "committed_hwm rat_of domain hwm mvs" and ?kept = "concat (map fst results)"
  have tops: "top_of cur ks m" if "(ks, m, t) \<in> set results" for ks m t
    using results that by (fastforce simp: in_set_conv_nth list_all2_conv_all_nth)
  have mv: "valid m \<and> (\<exists>r \<in> set ?kept. key (cur r) = key m)" if m: "m \<in> set mvs" for m
  proof -
    obtain ks t where k: "(ks, m, t) \<in> set results" "ks \<noteq> []" using m by (auto simp: mvs object_marks_def)
    then show ?thesis using tops [OF k(1)] by (auto simp: top_of_def marks_def at_key_Nil_iff intro!: bexI [of _ "(ks, m, t)"])
  qed
  have kept_le: "\<exists>m \<in> set mvs. key (cur r) \<le> key m" if r: "r \<in> set ?kept" for r
  proof -
    obtain ks m t where k: "(ks, m, t) \<in> set results" "r \<in> set ks" using r by auto
    then have "m \<in> set mvs" by (force simp: mvs object_marks_def)
    then show ?thesis using tops [OF k(1)] k(2) by (auto simp: top_of_def marks_def split: if_splits)
  qed
  have T: "top_of (\<lambda>m. m) ((if hwm = '''' then [] else [hwm]) @ mvs) ?h"
    by (rule committed_hwm_top) (use hwm mv in \<open>auto split: if_splits\<close>)
  have setS: "set S = set D \<union> set ?kept" using mset_eq_setD [OF all] by simp
  have D: "hwm = '''' \<longleftrightarrow> D = []" using hwm valid_ne by (auto split: if_splits)
  have "mvs \<noteq> []" if "D = []" using S setS that kept_le by (metis empty_iff list.set(1) neq_Nil_conv list.set_intros(1) Un_empty_left)
  then have vh: "valid ?h" and top: "marks key (\<lambda>m. m) ((if hwm = '''' then [] else [hwm]) @ mvs) ?h" using T D by (auto simp: top_of_def split: if_splits)
  have le: "key (cur r) \<le> key ?h" if "r \<in> set S" for r
    using that hwm top kept_le D unfolding setS by (fastforce simp: marks_def split: if_splits intro: order.trans)
  have ex: "\<exists>r \<in> set S. key (cur r) = key ?h"
    using hwm top mv D unfolding setS by (fastforce simp: marks_def at_key_Nil_iff split: if_splits)
  have mS: "marks key cur S ?h" using le ex by (auto simp: marks_def at_key_Nil_iff)
  have ge: "hwm = '''' \<or> key hwm \<le> key ?h" using top by (auto simp: marks_def split: if_splits)
  have at: "mset (at_key key cur (key ?h) (concat inputs)) = mset (at_key key cur (key ?h) S)"
    unfolding mset_at_key read using ge by (auto simp: filter_filter_mset intro!: filter_mset_cong)
  have "set (concat inputs) \<subseteq> set S" using mset_eq_setD [OF read] by auto
  then have mi: "marks key cur (concat inputs) ?h" using le at mS by (auto simp: marks_def)
  have "list_all2 (\<lambda>rs t. observed hash cur rs t \<and> tr_limit t = MaxRowHashes) inputs (map (\<lambda>(ks, m, t). t) results)"
    using results by (auto simp: list_all2_map2 elim!: list_all2_mono)
  from ForState_describes [OF this vh mi, where existing = state] obtain b
    where b: "ForState rat_of domain ?h state (map (\<lambda>t. Some (Boundary t)) (map (\<lambda>(ks, m, t). t) results)) = Some b" "describes key hash cur (concat inputs) ?h b"
    by blast
  have "map (\<lambda>t. Some (Boundary t)) (map (\<lambda>(ks, m, t). t) results) = reported_boundaries results" by (auto simp: reported_boundaries_def)
  moreover have "trim_space ?h = ?h" 
  proof -
    have "trim_space (deriveMaxCursor rat_of domain mvs) = deriveMaxCursor rat_of domain mvs" by (simp add: deriveMaxCursor_def trim_space_idem)
    moreover have "trim_space hwm = hwm" using hwm by (cases "D = []") (simp_all add: trim_space_def)
    ultimately show ?thesis by (simp add: committed_hwm_def Let_def)
  qed
  ultimately show ?thesis using S vh mS b describes_cong [OF at] by (simp add: settled_def)
qed

lemma settled_cong:
  assumes m: "mset xs = mset ys"
  shows "settled key valid hash cur xs hwm state = settled key valid hash cur ys hwm state"
proof -
  have "xs = [] \<longleftrightarrow> ys = []" using m by (metis mset_zero_iff)
  moreover have "mset (at_key key cur (key hwm) xs) = mset (at_key key cur (key hwm) ys)" using m by (simp add: mset_at_key)
  ultimately show ?thesis using marks_cong [OF m, of key cur hwm] describes_cong [of key cur hwm xs ys hash] by (simp add: settled_def)
qed

text \<open>
  A run that starts in a settled state and has not overflowed exports what the dataset lacks, each row once,
  and its commit leaves the dataset settled for the next run.
\<close>

lemma run_exports_once:
  assumes st: "settled key valid hash cur D hwm state" "\<forall>b. state = Some b \<longrightarrow> \<not> bd_overflow b"
    and grow: "mset D \<subseteq># mset S" "\<forall>r \<in># mset S - mset D. hwm = '''' \<or> key hwm \<le> key (cur r)"
    and rows: "\<forall>r \<in> set S. valid (cur r)" "inj_on hash (set S)"
    and plan: "planHWMResume rat_of parse_duration domain hwm '''' state = Inr plan"
    and read: "mset (concat inputs) = mset (filter (readable key cur plan) S)"
    and first: "\<forall>rs \<in> set (tl inputs). \<forall>r \<in> set rs. hwm = '''' \<or> key (cur r) \<noteq> key hwm"
    and results: "results = scan_tasks rat_of hash (\<lambda>r. Some (cur r)) domain inputs (hr_skip plan)"
    and mvs: "set mvs = set (object_marks results)"
  shows "mset (D @ concat (map fst results)) = mset S \<and> settled key valid hash cur (D @ concat (map fst results))
    (committed_hwm rat_of domain hwm mvs) (ForState rat_of domain (committed_hwm rat_of domain hwm mvs) state (reported_boundaries results))"
proof -
  have inS: "set (concat inputs) \<subseteq> set S" using mset_eq_setD [OF read] by auto
  then have vi: "\<forall>rs \<in> set inputs. \<forall>r \<in> set rs. valid (cur r)" using rows(1) by auto
  have dS: "set D \<subseteq> set S" using set_mset_mono [OF grow(1)] by simp
  have hwm: "if D = [] then hwm = '''' else valid hwm \<and> trim_space hwm = hwm \<and> marks key cur D hwm" using st(1) by (auto simp: settled_def)
  have both: "mset (D @ concat (map fst results)) = mset S \<and> mset (concat inputs) = mset (filter (\<lambda>r. hwm = '''' \<or> key hwm \<le> key (cur r)) S)"
  proof (cases "D = []")
    case True
    then have h: "hwm = ''''" using hwm by simp
    then have p: "plan = no_resume" using plan resume_fresh [of parse_duration state] by simp
    then have i: "mset (concat inputs) = mset S" using read by (simp add: readable_def no_resume_def)
    moreover have "concat (map fst results) = concat inputs" using scan_fresh [of hash cur inputs] by (simp add: results p no_resume_def)
    ultimately show ?thesis using True h by simp
  next
    case False
    obtain b where b: "state = Some b" "describes key hash cur D hwm b" using st(1) False by (auto simp: settled_def)
    have v: "valid hwm" "trim_space hwm = hwm" "marks key cur D hwm" using hwm False by auto
    obtain reason where pl: "plan = \<lparr>hr_lower = hwm, hr_exclusive = False, hr_skip = Some \<lparr>sk_cursor = hwm, sk_hashes = bd_hashes b, sk_seed = False\<rparr>, hr_level = ''INFO'', hr_reason = reason\<rparr>"
      using resume_at_mark [OF v(1,2) b(2), of parse_duration] st(2) v(3) plan b(1) by (auto simp: marks_def)
    note ne = valid_ne [OF v(1)]
    have read': "mset (concat inputs) = mset (filter (\<lambda>r. key hwm \<le> key (cur r)) S)" using read ne by (simp add: pl readable_def)
    have all: "mset D + mset (concat inputs) = mset S + mset (at_key key cur (key hwm) D)"
      unfolding read' by (rule split_at_mark) (use grow v(3) ne in \<open>auto simp: marks_def\<close>)
    have sub: "mset (at_key key cur (key hwm) D) \<subseteq># mset (concat inputs)"
    proof -
      have "mset (at_key key cur (key hwm) D) = filter_mset (\<lambda>r. key (cur r) = key hwm) (mset D)" by (simp add: mset_at_key)
      also have "\<dots> \<subseteq># filter_mset (\<lambda>r. key hwm \<le> key (cur r)) (mset S)"
        by (rule filter_mset_mono_strong [OF grow(1)]) simp
      finally show ?thesis by (simp add: read')
    qed
    have "inputs \<noteq> []" using sub v(3) by (auto simp: marks_def)
    then have "mset (concat (map fst results)) + mset (at_key key cur (key hwm) D) = mset (concat inputs)"
      unfolding results pl
      by (simp, intro scan_resume [OF v(1) b(2) _ rows(2) dS inS vi _ sub]) (use first st(2) b(1) ne in \<open>auto simp: at_key_Nil_iff\<close>)
    with all have "mset D + (mset (concat (map fst results)) + mset (at_key key cur (key hwm) D)) = mset S + mset (at_key key cur (key hwm) D)" by simp
    then have "mset D + mset (concat (map fst results)) = mset S" by (metis add.assoc add_right_cancel)
    then show ?thesis using read' ne by simp
  qed
  show ?thesis
  proof (cases "S = []")
    case True
    then have "D = []" "concat (map fst results) = []" using both by simp_all
    moreover from this have "object_marks results = []" by (auto simp: object_marks_def filter_empty_conv)
    then have "mvs = []" using mvs by simp
    ultimately show ?thesis using both hwm by (simp add: settled_def committed_hwm_def deriveMaxCursor_def trim_space_def)
  next
    case False
    show ?thesis using both settled_cong [of "D @ concat (map fst results)" S]
      commit_settles [OF _ conjunct1 [OF both] False hwm conjunct2 [OF both] mvs] scan_tasks_track [OF vi]
      unfolding results by simp
  qed
qed

text \<open>The master accepts the boundary of every scan; the digest of a row is not blank.\<close>

lemma report_accepted:
  assumes "observed hash cur rs t" "tr_limit t = MaxRowHashes" "\<And>r. trim_space (hash r) \<noteq> ''''"
  shows "encodeReportedHWMBoundary (Boundary t) = Inr (Boundary t)"
proof (cases "tr_overflow t \<or> rs = []")
  case True
  then show ?thesis using assms(1) by (auto simp: encodeReportedHWMBoundary_def Boundary_def observed_def MaxRowHashes_def)
next
  case False
  let ?hs = "map hash (at_key key cur (key (tr_max t)) rs)"
  have v: "valid (tr_max t)" and ta: "tally_of (tr_atMax t) ?hs" and c: "\<not> MaxRowHashes < int (card (set ?hs))"
    using assms(1,2) False by (auto simp: observed_def)
  have "\<not> list_ex (\<lambda>(h, n). trim_space h = '''' \<or> n \<le> 0) (tr_atMax t)"
    using tally_positive [OF ta] assms(3) by (fastforce simp: list_ex_iff)
  then show ?thesis using False valid_text [OF v] tally_length [OF ta] c by (simp add: encodeReportedHWMBoundary_def Boundary_def)
qed

end

section \<open>The orders of the cursor domains\<close>

lemma blank_unparsed: "cursor_key domain '''' = None"
proof -
  have "parseInt64 '''' = None" "parseUint64 '''' = None" "parseDateValue '''' = None" "parseTimestampValue '''' = None" "trim_space '''' = ''''"
    by (simp_all add: parseInt64_def parseUint64_def parseDateValue_def parseTimestampValue_def ParseInt_def ParseUint_def trim_space_def)
  then show ?thesis by (simp add: cursor_key_def split: cursor_domain.splits)
qed

text \<open>Integers, dates and timestamps are ordered by their position, decimals by their value, texts and UUIDs by their trimmed text.\<close>

interpretation discrete: cursor_order rat_of domain "\<lambda>s. the (cursor_key domain s)" "\<lambda>s. cursor_key domain s \<noteq> None"
  for rat_of domain
proof
  fix a b
  show "CompareCursorValues rat_of domain a b = three_way (the (cursor_key domain a)) (the (cursor_key domain b))"
    if "cursor_key domain a \<noteq> None" "cursor_key domain b \<noteq> None"
    using that compare_keys [of domain a _ b _ rat_of] by auto
  assume a: "cursor_key domain a \<noteq> None"
  then show "trim_space a \<noteq> ''''" using cursor_key_trim [of domain a] blank_unparsed [of domain] by metis
  show "cursor_key domain (trim_space a) \<noteq> None \<and> the (cursor_key domain (trim_space a)) = the (cursor_key domain a)" using a by simp
  show "NormalizeCursorDomain domain \<noteq> CursorDomainUnknown" using a by (auto simp: cursor_key_def)
qed

interpretation decimal: cursor_order rat_of domain "\<lambda>s. the (rat_of (trim_space s))"
  "\<lambda>s. NormalizeCursorDomain domain = CursorDomainDecimal \<and> trim_space s \<noteq> '''' \<and> rat_of (trim_space s) \<noteq> None"
  for rat_of domain
  by unfold_locales (auto simp: CompareCursorValues_def both_def Let_def trim_space_idem)

interpretation textual: cursor_order rat_of domain trim_space "\<lambda>s. NormalizeCursorDomain domain \<in> {CursorDomainString, CursorDomainUUID} \<and> trim_space s \<noteq> ''''"
  for rat_of domain
  by unfold_locales (auto simp: CompareCursorValues_def both_def Let_def trim_space_idem)

section \<open>Properties\<close>

text \<open>
  C32. Exactly once. A dataset holds the rows \<open>D\<close>, its state has the mark and the boundary that describe
  them, and the boundary has not overflowed. The source has meanwhile grown to \<open>S\<close> by rows at or after
  the mark. The tasks of the next run together read the rows its plan admits, and only the first reads rows
  at the mark. Then the rows that the run keeps complete the dataset to \<open>S\<close> as a multiset: none of the late
  rows with the cursor of the mark is lost and none is exported twice; and the state that the commit
  derives describes the new dataset, so that the next run starts the same way. The digest of rows is
  assumed to be collision-free on the rows of the source.
\<close>

theorem incremental_run_exports_once:
  fixes domain :: string
  defines "key \<equiv> \<lambda>s. the (cursor_key domain s)" and "valid \<equiv> \<lambda>s. cursor_key domain s \<noteq> None"
  assumes "settled key valid RowHash cur D hwm state" "\<forall>b. state = Some b \<longrightarrow> \<not> bd_overflow b"
    and "mset D \<subseteq># mset S" "\<forall>r \<in># mset S - mset D. hwm = '''' \<or> key hwm \<le> key (cur r)"
    and "\<forall>r \<in> set S. valid (cur r)" "inj_on RowHash (set S)"
    and "planHWMResume rat_of parse_duration domain hwm '''' state = Inr plan"
    and "mset (concat inputs) = mset (filter (readable key cur plan) S)"
    and "\<forall>rs \<in> set (tl inputs). \<forall>r \<in> set rs. hwm = '''' \<or> key (cur r) \<noteq> key hwm"
    and "results = scan_tasks rat_of RowHash (\<lambda>r. Some (cur r)) domain inputs (hr_skip plan)"
    and "set mvs = set (object_marks results)"
  shows "mset (D @ concat (map fst results)) = mset S \<and> settled key valid RowHash cur (D @ concat (map fst results))
    (committed_hwm rat_of domain hwm mvs) (ForState rat_of domain (committed_hwm rat_of domain hwm mvs) state (reported_boundaries results))"
  using assms(3-) unfolding key_def valid_def by (rule discrete.run_exports_once)

text \<open>
  A row with the cursor 5 is exported; a late row with the cursor 5 and a newer one appear. The next run,
  with two tasks, exports exactly these two.
\<close>

lemma incremental_run_exports_once_witness:
  "mset ([(''5'', ''a'')] @ concat (map fst (scan_tasks (\<lambda>_. None) (\<lambda>(c, v). c @ v) (\<lambda>r. Some (fst r)) ''int64''
       [[(''5'', ''b''), (''5'', ''a'')], [(''7'', ''c'')]] (Some \<lparr>sk_cursor = ''5'', sk_hashes = [(''5a'', 1)], sk_seed = False\<rparr>))))
     = mset [(''5'', ''a''), (''5'', ''b''), (''7'', ''c'')]"
proof -
  let ?S = "[(''5'', ''a''), (''5'', ''b''), (''7'', ''c'')]" and ?b = "\<lparr>bd_cursor = ''5'', bd_hashes = [(''5a'', 1)], bd_overflow = False\<rparr>"
  let ?sk = "Some \<lparr>sk_cursor = ''5'', sk_hashes = [(''5a'', 1)], sk_seed = False\<rparr>"
  let ?in = "[[(''5'', ''b''), (''5'', ''a'')], [(''7'', ''c'')]]"
  have k: "cursor_key ''int64'' ''5'' = Some 5" "cursor_key ''int64'' ''7'' = Some 7" "trim_space ''5'' = ''5''" by code_simp+
  have plan: "\<exists>reason. planHWMResume (\<lambda>_. None) (\<lambda>_. None) ''int64'' ''5'' '''' (Some ?b) =
      Inr \<lparr>hr_lower = ''5'', hr_exclusive = False, hr_skip = ?sk, hr_level = ''INFO'', hr_reason = reason\<rparr>"
    by (rule exI, code_simp)
  then obtain reason where p: "planHWMResume (\<lambda>_. None) (\<lambda>_. None) ''int64'' ''5'' '''' (Some ?b) =
      Inr \<lparr>hr_lower = ''5'', hr_exclusive = False, hr_skip = ?sk, hr_level = ''INFO'', hr_reason = reason\<rparr>" by blast
  have st: "settled (\<lambda>s. the (cursor_key ''int64'' s)) (\<lambda>s. cursor_key ''int64'' s \<noteq> None) (\<lambda>(c, v). c @ v) fst [(''5'', ''a'')] ''5'' (Some ?b)"
    by (simp add: settled_def marks_def describes_def tally_of_def tally_get_def k MaxRowHashes_def)
  show ?thesis
    using incremental_run_exports_once [OF st _ _ _ _ _ p _ _ refl refl, of ?S ?in] by (simp add: k readable_def inj_on_def)
qed

end
