(* ===== verification/LogicalTypes.thy ===== *)
theory LogicalTypes
  imports CursorTexts
begin

text \<open>
  The logical type vocabulary (\<open>internal/typesystem\<close>: \<open>kind.go\<close>, \<open>logical_type.go\<close>, \<open>logical_field.go\<close>): kinds,
  types with their rendering, structural validation and equality. A nil pointer is \<open>None\<close>; an \<open>int32\<close> is an
  integer whose range the parser checks.
\<close>

section \<open>Kinds and types\<close>

datatype kind =
    KindUnknown | KindString | KindBool | KindInt8 | KindInt16 | KindInt32 | KindInt64 | KindUInt8 | KindUInt16 | KindUInt32 | KindUInt64
  | KindFloat32 | KindFloat64 | KindDecimal | KindDate | KindTime | KindTimestamp | KindTimestampTZ | KindUUID | KindBinary | KindJSON
  | KindArray | KindStruct | KindMap

fun Kind_String :: "kind \<Rightarrow> string" where
  "Kind_String KindString = ''string''"
| "Kind_String KindBool = ''bool''"
| "Kind_String KindInt8 = ''int8''"
| "Kind_String KindInt16 = ''int16''"
| "Kind_String KindInt32 = ''int32''"
| "Kind_String KindInt64 = ''int64''"
| "Kind_String KindUInt8 = ''uint8''"
| "Kind_String KindUInt16 = ''uint16''"
| "Kind_String KindUInt32 = ''uint32''"
| "Kind_String KindUInt64 = ''uint64''"
| "Kind_String KindFloat32 = ''float32''"
| "Kind_String KindFloat64 = ''float64''"
| "Kind_String KindDecimal = ''decimal''"
| "Kind_String KindDate = ''date''"
| "Kind_String KindTime = ''time''"
| "Kind_String KindTimestamp = ''timestamp''"
| "Kind_String KindTimestampTZ = ''timestamp_tz''"
| "Kind_String KindUUID = ''uuid''"
| "Kind_String KindBinary = ''binary''"
| "Kind_String KindJSON = ''json''"
| "Kind_String KindArray = ''array''"
| "Kind_String KindStruct = ''struct''"
| "Kind_String KindMap = ''map''"
| "Kind_String KindUnknown = ''unknown''"

datatype logical_type = LogicalType
  (lt_kind: kind) (lt_nullable: bool) (lt_precision: "int option") (lt_scale: "int option") (lt_timezone: string)
  (lt_element: "logical_type option") (lt_key: "logical_type option") (lt_value: "logical_type option")
  (lt_fields: "(string \<times> logical_type) list") (lt_source: string)

text \<open>A composite literal \<open>LogicalType{Kind: k}\<close>, and the constructors of the package.\<close>

definition of_kind :: "kind \<Rightarrow> logical_type" where
  "of_kind k = LogicalType k False None None '''' None None None [] ''''"

definition Decimal :: "int \<Rightarrow> int \<Rightarrow> logical_type" where
  "Decimal precision scale = LogicalType KindDecimal False (Some precision) (Some scale) '''' None None None [] ''''"

definition ArrayOf :: "logical_type \<Rightarrow> logical_type" where
  "ArrayOf element = LogicalType KindArray False None None '''' (Some element) None None [] ''''"

definition MapOf :: "logical_type \<Rightarrow> logical_type \<Rightarrow> logical_type" where
  "MapOf key val = LogicalType KindMap False None None '''' None (Some key) (Some val) [] ''''"

definition StructOf :: "(string \<times> logical_type) list \<Rightarrow> logical_type" where
  "StructOf fields = LogicalType KindStruct False None None '''' None None None fields ''''"

definition TimestampTZ :: "string \<Rightarrow> logical_type" where
  "TimestampTZ tz = LogicalType KindTimestampTZ False None None tz None None None [] ''''"

fun Nullable :: "logical_type \<Rightarrow> logical_type" where
  "Nullable (LogicalType k n p s tz e ky v fs src) = LogicalType k True p s tz e ky v fs src"

section \<open>Rendering\<close>

definition renderDecimal :: "int option \<Rightarrow> int option \<Rightarrow> string" where
  "renderDecimal precision scale = (if precision = None \<and> scale = None then ''decimal''
     else ''decimal('' @ (case precision of None \<Rightarrow> ''?'' | Some p \<Rightarrow> show_int p) @ '','' @ (case scale of None \<Rightarrow> ''?'' | Some s \<Rightarrow> show_int s) @ '')'')"

fun LogicalType_String :: "logical_type \<Rightarrow> string"
  and nestedString :: "logical_type option \<Rightarrow> string"
  and field_strings :: "(string \<times> logical_type) list \<Rightarrow> string list" where
  "LogicalType_String (LogicalType k n p s tz e ky v fs src) =
    (let rendered = (case k of
         KindDecimal \<Rightarrow> renderDecimal p s
       | KindTimestampTZ \<Rightarrow> ''timestamp_tz'' @ (if tz \<noteq> '''' then ''['' @ tz @ '']'' else '''')
       | KindArray \<Rightarrow> ''array<'' @ nestedString e @ ''>''
       | KindMap \<Rightarrow> ''map<'' @ nestedString ky @ '','' @ nestedString v @ ''>''
       | KindStruct \<Rightarrow> ''struct<'' @ join '','' (field_strings fs) @ ''>''
       | _ \<Rightarrow> Kind_String k)
     in if n then ''nullable<'' @ rendered @ ''>'' else rendered)"
| "nestedString None = ''unknown''"
| "nestedString (Some t) = LogicalType_String t"
| "field_strings [] = []"
| "field_strings ((name, t) # fs) = (name @ '':'' @ LogicalType_String t) # field_strings fs"

section \<open>Validation and equality\<close>

definition wrap_err :: "string \<Rightarrow> 'a res \<Rightarrow> 'a res" where
  "wrap_err prefix r = (case r of Inl (ErrMsg m) \<Rightarrow> Inl (ErrMsg (prefix @ '': '' @ m)) | _ \<Rightarrow> r)"

fun LogicalType_Validate :: "logical_type \<Rightarrow> unit res"
  and LogicalType_Validate_fields :: "string set \<Rightarrow> (string \<times> logical_type) list \<Rightarrow> unit res" where
  "LogicalType_Validate (LogicalType k n p s tz e ky v fs src) = (case k of
      KindDecimal \<Rightarrow> (case (p, s) of
          (Some prec, Some sc) \<Rightarrow>
            if prec \<le> 0 then Inl (ErrMsg ''decimal precision must be > 0'')
            else if sc < 0 then Inl (ErrMsg ''decimal scale must be >= 0'')
            else if sc > prec then Inl (ErrMsg ''decimal scale must be <= precision'')
            else Inr ()
        | _ \<Rightarrow> Inl (ErrMsg ''decimal requires precision and scale''))
    | KindArray \<Rightarrow> (case e of
          None \<Rightarrow> Inl (ErrMsg ''array requires element type'')
        | Some t \<Rightarrow> wrap_err ''array element'' (LogicalType_Validate t))
    | KindMap \<Rightarrow> (case ky of
          None \<Rightarrow> Inl (ErrMsg ''map requires key type'')
        | Some kt \<Rightarrow> (case v of
            None \<Rightarrow> Inl (ErrMsg ''map requires value type'')
          | Some vt \<Rightarrow> rbind (wrap_err ''map key'' (LogicalType_Validate kt)) (\<lambda>_. wrap_err ''map value'' (LogicalType_Validate vt))))
    | KindStruct \<Rightarrow> LogicalType_Validate_fields {} fs
    | _ \<Rightarrow> Inr ())"
| "LogicalType_Validate_fields seen [] = Inr ()"
| "LogicalType_Validate_fields seen ((name, t) # fs) =
    (if trim_space name = '''' then Inl (ErrMsg ''struct field name is required'')
     else if name \<in> seen then Inl (ErrMsg ''duplicate struct field'')
     else rbind (wrap_err ''struct field'' (LogicalType_Validate t)) (\<lambda>_. LogicalType_Validate_fields (insert name seen) fs))"

fun Equal :: "logical_type \<Rightarrow> logical_type \<Rightarrow> bool"
  and equalTypePointer :: "logical_type option \<Rightarrow> logical_type option \<Rightarrow> bool"
  and equal_fields :: "(string \<times> logical_type) list \<Rightarrow> (string \<times> logical_type) list \<Rightarrow> bool" where
  "Equal (LogicalType k n p s tz e ky v fs src) (LogicalType k' n' p' s' tz' e' ky' v' fs' src') \<longleftrightarrow>
     k = k' \<and> n = n' \<and> tz = tz' \<and> p = p' \<and> s = s' \<and> equalTypePointer e e' \<and> equalTypePointer ky ky' \<and> equalTypePointer v v'
     \<and> length fs = length fs' \<and> equal_fields fs fs'"
| "equalTypePointer None None \<longleftrightarrow> True"
| "equalTypePointer None (Some t') \<longleftrightarrow> False"
| "equalTypePointer (Some t) None \<longleftrightarrow> False"
| "equalTypePointer (Some t) (Some t') \<longleftrightarrow> Equal t t'"
| "equal_fields [] [] \<longleftrightarrow> True"
| "equal_fields ((n, t) # fs) ((n', t') # fs') \<longleftrightarrow> n = n' \<and> Equal t t' \<and> equal_fields fs fs'"
| "equal_fields _ _ \<longleftrightarrow> True"

end
