(* ===== verification/TypeParser.thy ===== *)
theory TypeParser
  imports LogicalTypes
begin

text \<open>
  The parser of target types (\<open>internal/typesystem/parser.go\<close>). The position in the input is the text that is
  left to read. The recursive descent runs on fuel; \<open>ParseType\<close> gives it one more than the length of the
  input, which always suffices. Error messages leave out the position and the quoted fragment. Identifiers
  and spaces are those of ASCII.
\<close>

section \<open>Tokens\<close>

definition skipSpace :: "string \<Rightarrow> string" where
  "skipSpace s = dropWhile is_space s"

definition peek :: "char \<Rightarrow> string \<Rightarrow> bool" where
  "peek c s \<longleftrightarrow> s \<noteq> [] \<and> hd s = c"

definition ident_char :: "char \<Rightarrow> bool" where
  "ident_char c \<longleftrightarrow> c \<in> set ''ABCDEFGHIJKLMNOPQRSTUVWXYZabcdefghijklmnopqrstuvwxyz0123456789_''"

definition parse_identifier :: "string \<Rightarrow> (string \<times> string) res" where
  "parse_identifier s0 = (let s = skipSpace s0; name = takeWhile ident_char s in
     if name = '''' then Inl (ErrMsg ''expected type name'') else Inr (name, dropWhile ident_char s))"

definition openContainer :: "string \<Rightarrow> (char \<times> string) res" where
  "openContainer s0 = (let s = skipSpace s0 in
     if peek (CHR ''<'') s then Inr (CHR ''>'', tl s)
     else if peek (CHR ''('') s then Inr (CHR '')'', tl s)
     else Inl (ErrMsg ''expected '<' or '(' ''))"

definition closeContainer :: "char \<Rightarrow> string \<Rightarrow> string res" where
  "closeContainer c s0 = (let s = skipSpace s0 in if peek c s then Inr (tl s) else Inl (ErrMsg (''expected '' @ [c])))"

definition ParseInt32 :: "string \<Rightarrow> int option" where
  "ParseInt32 s = Option.bind (ParseInt s) (\<lambda>n. if - (2 ^ 31) \<le> n \<and> n < 2 ^ 31 then Some n else None)"

definition parse_int32 :: "string \<Rightarrow> string \<Rightarrow> (int \<times> string) res" where
  "parse_int32 label s0 =
    (let s = skipSpace s0;
         sign = (if peek (CHR ''-'') s \<or> peek (CHR ''+'') s then [hd s] else '''');
         r = List.drop (length sign) s; ds = takeWhile is_digit r in
     if ds = '''' then Inl (ErrMsg (''expected '' @ label))
     else case ParseInt32 (sign @ ds) of
       None \<Rightarrow> Inl (ErrMsg (''invalid '' @ label))
     | Some v \<Rightarrow> Inr (v, dropWhile is_digit r))"

text \<open>The text inside balanced parentheses; brackets inside quotes do not count.\<close>

fun paren_loop :: "nat \<Rightarrow> char option \<Rightarrow> string \<Rightarrow> string \<Rightarrow> (string \<times> string) option" where
  "paren_loop depth q [] acc = None"
| "paren_loop depth (Some q) (c # s) acc =
    (if c = CHR 0x5C then (case s of [] \<Rightarrow> None | d # s' \<Rightarrow> paren_loop depth (Some q) s' (d # c # acc))
     else paren_loop depth (if c = q then None else Some q) s (c # acc))"
| "paren_loop depth None (c # s) acc =
    (if c = CHR 0x27 \<or> c = CHR 0x22 then paren_loop depth (Some c) s (c # acc)
     else if c = CHR ''('' then paren_loop (Suc depth) None s (c # acc)
     else if c = CHR '')'' then (if depth \<le> 1 then Some (rev acc, s) else paren_loop (depth - 1) None s (c # acc))
     else paren_loop depth None s (c # acc))"

definition parenthesizedContent :: "string \<Rightarrow> (string \<times> string) res" where
  "parenthesizedContent s0 = (let s = skipSpace s0 in
     if \<not> peek (CHR ''('') s then Inl (ErrMsg ''expected '(' '')
     else case paren_loop 1 None (tl s) '''' of None \<Rightarrow> Inl (ErrMsg ''unterminated parenthesized type'') | Some r \<Rightarrow> Inr r)"

fun split_args :: "int \<Rightarrow> char option \<Rightarrow> string \<Rightarrow> string \<Rightarrow> string list" where
  "split_args depth q [] acc = [rev acc]"
| "split_args depth (Some q) (c # s) acc =
    (if c = CHR 0x5C then (case s of [] \<Rightarrow> [rev (c # acc)] | d # s' \<Rightarrow> split_args depth (Some q) s' (d # c # acc))
     else split_args depth (if c = q then None else Some q) s (c # acc))"
| "split_args depth None (c # s) acc =
    (if c = CHR 0x27 \<or> c = CHR 0x22 then split_args depth (Some c) s (c # acc)
     else if c = CHR ''('' then split_args (depth + 1) None s (c # acc)
     else if c = CHR '')'' then split_args (depth - 1) None s (c # acc)
     else if c = CHR '','' \<and> depth = 0 then rev acc # split_args depth None s ''''
     else split_args depth None s (c # acc))"

definition splitArguments :: "string \<Rightarrow> string list" where
  "splitArguments raw = split_args 0 None raw ''''"

definition quotedText :: "string \<Rightarrow> string option" where
  "quotedText v0 = (let v = trim_space v0 in
     if length v < 2 \<or> (hd v \<noteq> CHR 0x27 \<and> hd v \<noteq> CHR 0x22) \<or> List.last v \<noteq> hd v then None
     else let text = trim_space (butlast (tl v)) in if text = '''' then None else Some text)"

section \<open>Types\<close>

definition primitiveKind :: "string \<Rightarrow> kind option" where
  "primitiveKind name =
    (if name \<in> {''string'', ''text'', ''varchar'', ''nvarchar'', ''char'', ''nchar'', ''xml''} then Some KindString
     else if name \<in> {''bool'', ''boolean''} then Some KindBool
     else if name = ''int8'' then Some KindInt8
     else if name = ''int16'' then Some KindInt16
     else if name = ''int32'' then Some KindInt32
     else if name = ''int64'' then Some KindInt64
     else if name = ''uint8'' then Some KindUInt8
     else if name = ''uint16'' then Some KindUInt16
     else if name = ''uint32'' then Some KindUInt32
     else if name = ''uint64'' then Some KindUInt64
     else if name = ''float32'' then Some KindFloat32
     else if name = ''float64'' then Some KindFloat64
     else if name \<in> {''date'', ''date32''} then Some KindDate
     else if name = ''time'' then Some KindTime
     else if name \<in> {''uuid'', ''uniqueidentifier''} then Some KindUUID
     else if name \<in> {''binary'', ''bytea'', ''blob'', ''varbinary'', ''image'', ''rowversion''} then Some KindBinary
     else if name = ''json'' then Some KindJSON
     else None)"

definition parseDecimalType :: "string \<Rightarrow> (logical_type \<times> string) res" where
  "parseDecimalType s0 = (let s = skipSpace s0 in
     if \<not> peek (CHR ''('') s then Inl (ErrMsg ''decimal requires precision and scale'')
     else rbind (parse_int32 ''decimal precision'' (tl s)) (\<lambda>(precision, s1).
       let s2 = skipSpace s1 in
       if \<not> peek (CHR '','') s2 then Inl (ErrMsg ''decimal requires precision and scale'')
       else rbind (parse_int32 ''decimal scale'' (tl s2)) (\<lambda>(scale, s3).
         let s4 = skipSpace s3 in
         if \<not> peek (CHR '')'') s4 then Inl (ErrMsg ''expected ')' after decimal scale'')
         else rbind (wrap_err ''invalid type'' (LogicalType_Validate (Decimal precision scale))) (\<lambda>_. Inr (Decimal precision scale, tl s4)))))"

definition parseTimestampTZ :: "string \<Rightarrow> (logical_type \<times> string) res" where
  "parseTimestampTZ s0 = (let s = skipSpace s0 in
     if \<not> peek (CHR ''['') s then Inr (of_kind KindTimestampTZ, s)
     else let r = dropWhile (\<lambda>c. c \<noteq> CHR '']'') (tl s) in
       if r = [] then Inl (ErrMsg ''unterminated timestamp timezone'')
       else let tz = trim_space (takeWhile (\<lambda>c. c \<noteq> CHR '']'') (tl s)) in
         if tz = '''' then Inl (ErrMsg ''timestamp timezone is empty'') else Inr (TimestampTZ tz, tl r))"

fun timestamp_args :: "string list \<Rightarrow> string \<Rightarrow> string res" where
  "timestamp_args [] timezone = Inr timezone"
| "timestamp_args (part0 # parts) timezone =
    (let part = trim_space part0 in
     if part = '''' then Inl (ErrMsg ''empty timestamp argument'')
     else case quotedText part of
       Some tz \<Rightarrow> if timezone \<noteq> '''' then Inl (ErrMsg ''multiple timestamp timezones'') else timestamp_args parts tz
     | None \<Rightarrow> if ParseInt32 part = None then Inl (ErrMsg ''unsupported timestamp argument'') else timestamp_args parts timezone)"

definition parseLegacyTimestamp :: "string \<Rightarrow> (logical_type \<times> string) res" where
  "parseLegacyTimestamp s0 = (let s = skipSpace s0 in
     if \<not> peek (CHR ''('') s then Inr (of_kind KindTimestamp, s)
     else rbind (parenthesizedContent s) (\<lambda>(raw, r).
       rbind (timestamp_args (splitArguments raw) '''') (\<lambda>timezone.
         Inr (if timezone \<noteq> '''' then TimestampTZ timezone else of_kind KindTimestamp, r))))"

definition consumeOptionalPrecision :: "string \<Rightarrow> string res" where
  "consumeOptionalPrecision s0 = (let s = skipSpace s0 in
     if \<not> peek (CHR ''('') s then Inr s
     else rbind (parenthesizedContent s) (\<lambda>(raw, r).
       if ParseInt32 (trim_space raw) = None then Inl (ErrMsg ''unsupported time precision'') else Inr r))"

definition out_of_fuel :: err where
  "out_of_fuel = ErrMsg ''out of fuel''"

text \<open>The switch on the lower-case type name.\<close>

datatype type_head =
    HArray | HMap | HStruct | HNullable | HLowCardinality | HDecimal | HTimestampTZ | HLegacyTimestamp | HTime64
  | HFixed logical_type | HUnsupported

definition type_head :: "string \<Rightarrow> type_head" where
  "type_head name =
    (if name = ''array'' then HArray
     else if name = ''map'' then HMap
     else if name = ''struct'' then HStruct
     else if name = ''nullable'' then HNullable
     else if name = ''lowcardinality'' then HLowCardinality
     else if name \<in> {''decimal'', ''numeric'', ''number''} then HDecimal
     else if name = ''money'' then HFixed (Decimal 19 4)
     else if name = ''smallmoney'' then HFixed (Decimal 10 4)
     else if name = ''timestamp_tz'' then HTimestampTZ
     else if name \<in> {''datetime'', ''datetime64'', ''timestamp''} then HLegacyTimestamp
     else if name = ''time64'' then HTime64
     else case primitiveKind name of Some k \<Rightarrow> HFixed (of_kind k) | None \<Rightarrow> HUnsupported)"

fun parse_type :: "nat \<Rightarrow> string \<Rightarrow> (logical_type \<times> string) res"
  and parse_fields :: "nat \<Rightarrow> string \<Rightarrow> ((string \<times> logical_type) list \<times> string) res" where
  "parse_type 0 s = Inl out_of_fuel"
| "parse_type (Suc n) s =
    rbind (parse_identifier s) (\<lambda>(ident, s1). case type_head (to_lower ident) of
      HArray \<Rightarrow> rbind (openContainer s1) (\<lambda>(close, s2).
        if peek close (skipSpace s2) then Inl (ErrMsg ''missing array element type'')
        else rbind (parse_type n (skipSpace s2)) (\<lambda>(element, s3). rbind (closeContainer close s3) (\<lambda>s4. Inr (ArrayOf element, s4))))
    | HMap \<Rightarrow> rbind (openContainer s1) (\<lambda>(close, s2).
        rbind (parse_type n s2) (\<lambda>(key, s3).
          if \<not> peek (CHR '','') (skipSpace s3) then Inl (ErrMsg ''expected ',' between map key and value types'')
          else rbind (parse_type n (tl (skipSpace s3))) (\<lambda>(val, s4). rbind (closeContainer close s4) (\<lambda>s5. Inr (MapOf key val, s5)))))
    | HStruct \<Rightarrow> rbind (openContainer s1) (\<lambda>(close, s2).
        rbind (parse_fields n s2) (\<lambda>(fields, s3). rbind (closeContainer close s3) (\<lambda>s4. Inr (StructOf fields, s4))))
    | HNullable \<Rightarrow> rbind (openContainer s1) (\<lambda>(close, s2).
        if peek close (skipSpace s2) then Inl (ErrMsg ''missing nullable type'')
        else rbind (parse_type n (skipSpace s2)) (\<lambda>(t, s3). rbind (closeContainer close s3) (\<lambda>s4. Inr (Nullable t, s4))))
    | HLowCardinality \<Rightarrow> rbind (openContainer s1) (\<lambda>(close, s2).
        rbind (parse_type n s2) (\<lambda>(t, s3). rbind (closeContainer close s3) (\<lambda>s4. Inr (t, s4))))
    | HDecimal \<Rightarrow> parseDecimalType s1
    | HTimestampTZ \<Rightarrow> parseTimestampTZ s1
    | HLegacyTimestamp \<Rightarrow> parseLegacyTimestamp s1
    | HTime64 \<Rightarrow> rbind (consumeOptionalPrecision s1) (\<lambda>s2. Inr (of_kind KindTime, s2))
    | HFixed t \<Rightarrow> Inr (t, s1)
    | HUnsupported \<Rightarrow> Inl (ErrMsg ''unsupported target type''))"
| "parse_fields 0 s = Inl out_of_fuel"
| "parse_fields (Suc n) s =
    rbind (parse_identifier s) (\<lambda>(name, s1).
      if \<not> peek (CHR '':'') (skipSpace s1) then Inl (ErrMsg ''expected ':' after struct field'')
      else rbind (parse_type n (tl (skipSpace s1))) (\<lambda>(t, s2).
        if peek (CHR '','') (skipSpace s2)
        then rbind (parse_fields n (tl (skipSpace s2))) (\<lambda>(fs, s3). Inr ((name, t) # fs, s3))
        else Inr ([(name, t)], skipSpace s2)))"

definition ParseType :: "string \<Rightarrow> logical_type res" where
  "ParseType input = (let s = skipSpace input in
     if s = [] then Inl (ErrMsg ''missing type'')
     else rbind (parse_type (Suc (length input)) s) (\<lambda>(t, r).
       if skipSpace r \<noteq> [] then Inl (ErrMsg ''unexpected trailing input'')
       else rbind (wrap_err ''invalid type'' (LogicalType_Validate t)) (\<lambda>_. Inr t)))"

end
