(* ===== verification/TypeRoundTrip.thy ===== *)
theory TypeRoundTrip
  imports TypeParser
begin

text \<open>
  Every type the parser accepts is well-formed, and its rendering is read back as the same type.
\<close>

section \<open>Progress and fuel\<close>

lemma rbind_eq_Inl_iff: "rbind m f = Inl e \<longleftrightarrow> m = Inl e \<or> (\<exists>x. m = Inr x \<and> f x = Inl e)"
  by (cases m) auto

lemma skipSpace_le: "length (skipSpace s) \<le> length s"
  by (simp add: skipSpace_def length_dropWhile_le)

lemma peek_tl: "peek c s \<Longrightarrow> length (tl s) < length s"
  by (auto simp: peek_def)

lemma identifier_progress:
  assumes "parse_identifier s = Inr (name, r)"
  shows "length r < length s"
proof -
  have "takeWhile ident_char (skipSpace s) @ r = skipSpace s" "takeWhile ident_char (skipSpace s) \<noteq> []"
    using assms by (auto simp: parse_identifier_def Let_def split: if_splits)
  then show ?thesis using skipSpace_le [of s] by (metis append_eq_append_conv2 length_append length_greater_0_conv less_add_same_cancel2 less_le_trans)
qed

lemma container_progress:
  "openContainer s = Inr (c, r) \<Longrightarrow> length r < length s" "closeContainer c s = Inr r \<Longrightarrow> length r < length s"
  using skipSpace_le [of s] peek_tl [of _ "skipSpace s"]
  by (fastforce simp: openContainer_def closeContainer_def Let_def split: if_splits)+

lemma after_space: "peek c (skipSpace s) \<Longrightarrow> length (tl (skipSpace s)) < length s"
  using skipSpace_le [of s] peek_tl [of c "skipSpace s"] by simp

lemma parse_int32_progress: "parse_int32 l s = Inr (v, r) \<Longrightarrow> length r \<le> length s"
  using skipSpace_le [of s] length_dropWhile_le [of is_digit]
  by (fastforce simp: parse_int32_def Let_def split: if_splits option.splits intro: order.trans)

lemma paren_loop_progress: "paren_loop depth q s acc = Some (raw, r) \<Longrightarrow> length r \<le> length s"
  by (induction depth q s acc rule: paren_loop.induct) (auto split: if_splits list.splits)

lemma parenthesized_progress: "parenthesizedContent s = Inr (raw, r) \<Longrightarrow> length r \<le> length s"
  using skipSpace_le [of s] paren_loop_progress [of 1 None "tl (skipSpace s)"]
  by (fastforce simp: parenthesizedContent_def Let_def split: if_splits option.splits)

lemma wrap_err_ok [simp]: "wrap_err p r = Inr x \<longleftrightarrow> r = Inr x"
  by (auto simp: wrap_err_def split: sum.splits err.splits)

lemma parseDecimalTypeE:
  assumes "parseDecimalType s = Inr (t, r)"
  obtains p sc u v where "t = Decimal p sc" "LogicalType_Validate (Decimal p sc) = Inr ()" "peek (CHR ''('') (skipSpace s)"
    "parse_int32 ''decimal precision'' (tl (skipSpace s)) = Inr (p, u)" "peek (CHR '','') (skipSpace u)"
    "parse_int32 ''decimal scale'' (tl (skipSpace u)) = Inr (sc, v)" "peek (CHR '')'') (skipSpace v)" "r = tl (skipSpace v)"
  using assms that by (auto simp: parseDecimalType_def Let_def split: if_splits)

lemma decimal_progress:
  assumes "parseDecimalType s = Inr (t, r)"
  shows "length r \<le> length s"
proof -
  obtain p sc u v where "peek (CHR ''('') (skipSpace s)"
    "parse_int32 ''decimal precision'' (tl (skipSpace s)) = Inr (p, u)" "peek (CHR '','') (skipSpace u)"
    "parse_int32 ''decimal scale'' (tl (skipSpace u)) = Inr (sc, v)" "peek (CHR '')'') (skipSpace v)" "r = tl (skipSpace v)"
    by (rule parseDecimalTypeE [OF assms])
  then show ?thesis using after_space parse_int32_progress by (meson le_less_trans less_imp_le order.trans)
qed

lemma timestamp_tz_progress:
  assumes "parseTimestampTZ s = Inr (t, r)"
  shows "length r \<le> length s"
proof (cases "peek (CHR ''['') (skipSpace s)")
  case True
  let ?d = "dropWhile (\<lambda>c. c \<noteq> CHR '']'') (tl (skipSpace s))"
  have "r = tl ?d" using assms True by (auto simp: parseTimestampTZ_def Let_def split: if_splits)
  then have "length r \<le> length ?d" by simp
  also have "\<dots> \<le> length (tl (skipSpace s))" by (rule length_dropWhile_le)
  finally show ?thesis using after_space [OF True] by simp
qed (use assms skipSpace_le [of s] in \<open>simp add: parseTimestampTZ_def\<close>)

lemma legacy_progress: "parseLegacyTimestamp s = Inr (t, r) \<Longrightarrow> length r \<le> length s"
  using skipSpace_le [of s] parenthesized_progress [of "skipSpace s"]
  by (fastforce simp: parseLegacyTimestamp_def Let_def split: if_splits intro: order.trans)

lemma precision_progress: "consumeOptionalPrecision s = Inr r \<Longrightarrow> length r \<le> length s"
  using skipSpace_le [of s] parenthesized_progress [of "skipSpace s"]
  by (fastforce simp: consumeOptionalPrecision_def Let_def split: if_splits intro: order.trans)

lemmas leaf_progress = decimal_progress timestamp_tz_progress legacy_progress precision_progress

section \<open>Well-formed types\<close>

text \<open>
  The types that carry exactly the attributes of their kind: decimals with a precision and scale of 32 bits,
  zones that are trimmed texts, fields that are named by identifiers.
\<close>

definition simple_kinds :: "kind set" where
  "simple_kinds = UNIV - {KindUnknown, KindDecimal, KindArray, KindStruct, KindMap}"

definition identifier_text :: "string \<Rightarrow> bool" where
  "identifier_text s \<longleftrightarrow> s \<noteq> '''' \<and> list_all ident_char s"

inductive leaf_type :: "logical_type \<Rightarrow> bool" where
  "k \<in> simple_kinds \<Longrightarrow> leaf_type (of_kind k)"
| "0 < p \<Longrightarrow> p < 2 ^ 31 \<Longrightarrow> 0 \<le> s \<Longrightarrow> s \<le> p \<Longrightarrow> leaf_type (Decimal p s)"
| "tz \<noteq> '''' \<Longrightarrow> trim_space tz = tz \<Longrightarrow> leaf_type (TimestampTZ tz)"

inductive well_formed :: "logical_type \<Rightarrow> bool" where
  wf_leaf: "leaf_type t \<Longrightarrow> well_formed t"
| wf_array: "well_formed t \<Longrightarrow> well_formed (ArrayOf t)"
| wf_map: "well_formed k \<Longrightarrow> well_formed v \<Longrightarrow> well_formed (MapOf k v)"
| wf_struct: "fs \<noteq> [] \<Longrightarrow> (\<And>f. f \<in> set fs \<Longrightarrow> identifier_text (fst f) \<and> well_formed (snd f)) \<Longrightarrow> well_formed (StructOf fs)"
| wf_nullable: "well_formed t \<Longrightarrow> well_formed (Nullable t)"

lemma Validate_Decimal: "LogicalType_Validate (Decimal p s) = Inr () \<longleftrightarrow> 0 < p \<and> 0 \<le> s \<and> s \<le> p"
  by (auto simp: Decimal_def)

lemma decimal_leaf:
  assumes "parseDecimalType s = Inr (t, r)"
  shows "leaf_type t"
proof -
  obtain p sc u v where "t = Decimal p sc" "LogicalType_Validate (Decimal p sc) = Inr ()" "parse_int32 ''decimal precision'' (tl (skipSpace s)) = Inr (p, u)"
    by (rule parseDecimalTypeE [OF assms])
  then show ?thesis
    by (auto simp: Validate_Decimal parse_int32_def ParseInt32_def Let_def intro!: leaf_type.intros split: if_splits option.splits bind_splits)
qed

lemma timestamp_tz_leaf: "parseTimestampTZ s = Inr (t, r) \<Longrightarrow> leaf_type t"
  by (auto simp: parseTimestampTZ_def Let_def trim_space_idem simple_kinds_def intro!: leaf_type.intros split: if_splits)

lemma timestamp_args_zone: "timestamp_args parts tz = Inr z \<Longrightarrow> trim_space tz = tz \<Longrightarrow> trim_space z = z"
  by (induction parts tz rule: timestamp_args.induct)
     (auto simp: Let_def quotedText_def trim_space_idem split: if_splits option.splits)

lemma legacy_leaf: "parseLegacyTimestamp s = Inr (t, r) \<Longrightarrow> leaf_type t"
  using timestamp_args_zone [of _ "''''"]
  by (fastforce simp: parseLegacyTimestamp_def Let_def simple_kinds_def trim_space_def intro!: leaf_type.intros split: if_splits)

lemma primitive_simple: "primitiveKind name = Some k \<Longrightarrow> k \<in> simple_kinds"
proof -
  have "primitiveKind name \<in> insert None (Some ` simple_kinds)"
    unfolding primitiveKind_def by (simp add: simple_kinds_def split: if_split)
  then show "primitiveKind name = Some k \<Longrightarrow> k \<in> simple_kinds" by auto
qed

lemma fixed_leaf: "type_head name = HFixed t \<Longrightarrow> leaf_type t"
  using primitive_simple [of name] unfolding type_head_def
  by (simp split: if_split_asm option.split_asm) (auto intro!: leaf_type.intros)

section \<open>What the parser accepts\<close>

lemma parse_typeE:
  assumes "parse_type (Suc n) s = Inr (t, r)"
  obtains (leaf) "leaf_type t" "length r < length s"
  | (arr) e u v where "parse_type n u = Inr (e, v)" "length u < length s" "length r < length v" "t = ArrayOf e"
  | (map) k w u1 v1 u2 v2 where "parse_type n u1 = Inr (k, v1)" "length u1 < length s" "parse_type n u2 = Inr (w, v2)"
      "length u2 < length v1" "length r < length v2" "t = MapOf k w"
  | (struct) fs u v where "parse_fields n u = Inr (fs, v)" "length u < length s" "length r < length v" "t = StructOf fs"
  | (null) e u v where "parse_type n u = Inr (e, v)" "length u < length s" "length r < length v" "t = Nullable e"
  | (low) u v where "parse_type n u = Inr (t, v)" "length u < length s" "length r < length v"
proof -
  obtain ident s1 where i: "parse_identifier s = Inr (ident, s1)" using assms by auto
  note p = identifier_progress [OF i]
  have op: "length s2 < length s" "length (skipSpace s2) < length s" if "openContainer s1 = Inr (c, s2)" for c s2
    using container_progress(1) [OF that] p skipSpace_le [of s2] by simp_all
  show thesis
  proof (cases "type_head (to_lower ident)")
    case HArray
    then obtain c s2 e s3 where "openContainer s1 = Inr (c, s2)" "parse_type n (skipSpace s2) = Inr (e, s3)" "closeContainer c s3 = Inr r" "t = ArrayOf e"
      using assms i by (auto split: if_splits)
    then show thesis using arr op(2) container_progress(2) by blast
  next
    case HMap
    then obtain c s2 k s3 w s4 where "openContainer s1 = Inr (c, s2)" "parse_type n s2 = Inr (k, s3)" "peek (CHR '','') (skipSpace s3)"
      "parse_type n (tl (skipSpace s3)) = Inr (w, s4)" "closeContainer c s4 = Inr r" "t = MapOf k w"
      using assms i by (auto split: if_splits)
    then show thesis using map after_space op(1) container_progress(2) by blast
  next
    case HStruct
    then obtain c s2 fs s3 where "openContainer s1 = Inr (c, s2)" "parse_fields n s2 = Inr (fs, s3)" "closeContainer c s3 = Inr r" "t = StructOf fs"
      using assms i by auto
    then show thesis using struct op(1) container_progress(2) by blast
  next
    case HNullable
    then obtain c s2 e s3 where "openContainer s1 = Inr (c, s2)" "parse_type n (skipSpace s2) = Inr (e, s3)" "closeContainer c s3 = Inr r" "t = Nullable e"
      using assms i by (auto split: if_splits)
    then show thesis using null op(2) container_progress(2) by blast
  next
    case HLowCardinality
    then obtain c s2 s3 where "openContainer s1 = Inr (c, s2)" "parse_type n s2 = Inr (t, s3)" "closeContainer c s3 = Inr r"
      using assms i by auto
    then show thesis using low op(1) container_progress(2) by blast
  next
    case (HFixed t')
    then show thesis using leaf fixed_leaf assms i p by auto
  next
    case HDecimal
    then have "parseDecimalType s1 = Inr (t, r)" using assms i by simp
    then show thesis using leaf decimal_leaf decimal_progress p le_less_trans by blast
  next
    case HTimestampTZ
    then have "parseTimestampTZ s1 = Inr (t, r)" using assms i by simp
    then show thesis using leaf timestamp_tz_leaf timestamp_tz_progress p le_less_trans by blast
  next
    case HLegacyTimestamp
    then have "parseLegacyTimestamp s1 = Inr (t, r)" using assms i by simp
    then show thesis using leaf legacy_leaf legacy_progress p le_less_trans by blast
  next
    case HTime64
    then have "consumeOptionalPrecision s1 = Inr r" "t = of_kind KindTime" using assms i by auto
    moreover have "leaf_type (of_kind KindTime)" by (rule leaf_type.intros) (simp add: simple_kinds_def)
    ultimately show thesis using leaf precision_progress p le_less_trans by blast
  next
    case HUnsupported
    then show thesis using assms i by simp
  qed
qed

lemma parse_fieldsE:
  assumes "parse_fields (Suc n) s = Inr (fs, r)"
  obtains (one) name t u v where "identifier_text name" "parse_type n u = Inr (t, v)" "length u < length s" "length r \<le> length v" "fs = [(name, t)]"
  | (more) name t u v w gs where "identifier_text name" "parse_type n u = Inr (t, v)" "length u < length s"
      "parse_fields n w = Inr (gs, r)" "length w < length v" "fs = (name, t) # gs"
proof -
  obtain name s1 t s2 where i: "parse_identifier s = Inr (name, s1)" "peek (CHR '':'') (skipSpace s1)" "parse_type n (tl (skipSpace s1)) = Inr (t, s2)"
    and rest: "if peek (CHR '','') (skipSpace s2) then \<exists>gs. parse_fields n (tl (skipSpace s2)) = Inr (gs, r) \<and> fs = (name, t) # gs
      else fs = [(name, t)] \<and> r = skipSpace s2"
    using assms by (auto split: if_splits)
  have name: "identifier_text name"
    using i(1) by (auto simp: parse_identifier_def Let_def identifier_text_def list_all_iff split: if_splits dest: set_takeWhileD)
  have u: "length (tl (skipSpace s1)) < length s" using identifier_progress [OF i(1)] after_space [OF i(2)] by simp
  show thesis
  proof (cases "peek (CHR '','') (skipSpace s2)")
    case True
    then show thesis using more [OF name i(3) u] rest after_space [OF True] by auto
  next
    case False
    then show thesis using one [OF name i(3) u] rest skipSpace_le [of s2] by simp
  qed
qed

lemma parse_progress:
  "(\<forall>s t r. parse_type n s = Inr (t, r) \<longrightarrow> length r < length s) \<and> (\<forall>s fs r. parse_fields n s = Inr (fs, r) \<longrightarrow> length r < length s)"
proof (induction n)
  case (Suc n)
  have IH: "parse_type n s = Inr (t, r) \<Longrightarrow> length r < length s" "parse_fields n s = Inr (fs, r) \<Longrightarrow> length r < length s" for s t fs r
    using Suc.IH by blast+
  have "length r < length s" if "parse_type (Suc n) s = Inr (t, r)" for s t r
    using that by (cases rule: parse_typeE) (auto dest!: IH)
  moreover have "length r < length s" if "parse_fields (Suc n) s = Inr (fs, r)" for s fs r
    using that by (cases rule: parse_fieldsE) (auto dest!: IH)
  ultimately show ?case by blast
qed simp

lemma parse_well_formed:
  "(\<forall>s t r. parse_type n s = Inr (t, r) \<longrightarrow> well_formed t)
   \<and> (\<forall>s fs r. parse_fields n s = Inr (fs, r) \<longrightarrow> fs \<noteq> [] \<and> (\<forall>f \<in> set fs. identifier_text (fst f) \<and> well_formed (snd f)))"
proof (induction n)
  case (Suc n)
  have IH: "parse_type n s = Inr (t, r) \<Longrightarrow> well_formed t"
    "parse_fields n s = Inr (fs, r) \<Longrightarrow> fs \<noteq> [] \<and> (\<forall>f \<in> set fs. identifier_text (fst f) \<and> well_formed (snd f))" for s t fs r
    using Suc.IH by blast+
  have "well_formed t" if "parse_type (Suc n) s = Inr (t, r)" for s t r
    using that by (cases rule: parse_typeE) (auto dest!: IH intro: well_formed.intros)
  moreover have "fs \<noteq> [] \<and> (\<forall>f \<in> set fs. identifier_text (fst f) \<and> well_formed (snd f))" if "parse_fields (Suc n) s = Inr (fs, r)" for s fs r
    using that by (cases rule: parse_fieldsE) (auto dest!: IH)
  ultimately show ?case by blast
qed simp

section \<open>The fuel suffices\<close>

definition fueled :: "'a res \<Rightarrow> bool" where
  "fueled r \<longleftrightarrow> r \<noteq> Inl out_of_fuel"

lemma fueled_rbind: "fueled r \<Longrightarrow> (\<And>x. r = Inr x \<Longrightarrow> fueled (f x)) \<Longrightarrow> fueled (rbind r f)"
  by (cases r) (auto simp: fueled_def)

lemma fueled_Inr [simp]: "fueled (Inr x)"
  by (simp add: fueled_def)

lemma wrap_err_fuel: "fueled (wrap_err ''invalid type'' r)"
  by (auto simp: wrap_err_def out_of_fuel_def fueled_def split: sum.splits err.splits)

lemma token_fuel:
  "fueled (parse_identifier s)" "fueled (openContainer s)" "fueled (closeContainer c s)"
  "fueled (parenthesizedContent s)" "fueled (parse_int32 ''decimal precision'' s)" "fueled (parse_int32 ''decimal scale'' s)"
  by (auto simp: parse_identifier_def openContainer_def closeContainer_def parenthesizedContent_def parse_int32_def out_of_fuel_def fueled_def Let_def
      split: option.splits)

lemma timestamp_args_fuel: "fueled (timestamp_args parts tz)"
  by (induction parts tz rule: timestamp_args.induct) (auto simp: Let_def out_of_fuel_def fueled_def split: option.splits)

lemma leaf_fuel:
  "fueled (parseDecimalType s)" "fueled (parseTimestampTZ s)" "fueled (parseLegacyTimestamp s)"
  "fueled (consumeOptionalPrecision s)"
proof -
  have m: "fueled (Inl (ErrMsg ''decimal requires precision and scale'') :: 'a res)" "fueled (Inl (ErrMsg ''expected ')' after decimal scale'') :: 'a res)"
    by (simp_all add: out_of_fuel_def fueled_def)
  show "fueled (parseDecimalType s)"
    unfolding parseDecimalType_def Let_def using m token_fuel wrap_err_fuel
    by (auto intro!: fueled_rbind)
  show "fueled (parseTimestampTZ s)" by (simp add: parseTimestampTZ_def Let_def out_of_fuel_def fueled_def)
  show "fueled (parseLegacyTimestamp s)"
    unfolding parseLegacyTimestamp_def Let_def using token_fuel timestamp_args_fuel by (auto intro!: fueled_rbind)
  show "fueled (consumeOptionalPrecision s)"
    unfolding consumeOptionalPrecision_def Let_def using token_fuel by (auto intro!: fueled_rbind) (simp add: out_of_fuel_def fueled_def)
qed

lemma msg_fuel:
  "fueled (Inl (ErrMsg ''missing array element type'') :: 'a res)" "fueled (Inl (ErrMsg ''expected ',' between map key and value types'') :: 'a res)"
  "fueled (Inl (ErrMsg ''missing nullable type'') :: 'a res)" "fueled (Inl (ErrMsg ''unsupported target type'') :: 'a res)"
  "fueled (Inl (ErrMsg ''expected ':' after struct field'') :: 'a res)"
  by (simp_all add: out_of_fuel_def fueled_def)

lemma fuel_suffices:
  "(\<forall>s. length s < n \<longrightarrow> fueled (parse_type n s)) \<and> (\<forall>s. length s < n \<longrightarrow> fueled (parse_fields n s))"
proof (induction n)
  case (Suc n)
  have IH: "length s < n \<Longrightarrow> fueled (parse_type n s)" "length s < n \<Longrightarrow> fueled (parse_fields n s)" for s
    using Suc.IH by blast+
  have P: "parse_type n s = Inr (t, r) \<Longrightarrow> length r < length s" for s t r using parse_progress by blast
  have "fueled (parse_type (Suc n) s)" if l: "length s < Suc n" for s
  proof (cases "parse_identifier s")
    case (Inl e)
    then show ?thesis using token_fuel(1) [of s] by (simp add: fueled_def)
  next
    case (Inr x)
    obtain ident s1 where i: "parse_identifier s = Inr (ident, s1)" using Inr by (cases x) simp
    have l1: "length s1 < n" using identifier_progress [OF i] l by simp
    have op: "length s2 < n" "length (skipSpace s2) < n" if "openContainer s1 = Inr (c, s2)" for c s2
      using container_progress(1) [OF that] l1 skipSpace_le [of s2] by simp_all
    have key: "length (tl (skipSpace s3)) < n" if "length s2 < n" "parse_type n s2 = Inr (t, s3)" "peek c (skipSpace s3)" for s2 s3 t c
      using that P after_space by fastforce
    show ?thesis
      by (cases "type_head (to_lower ident)")
         (use i token_fuel leaf_fuel msg_fuel IH op key in \<open>auto intro!: fueled_rbind split: prod.split\<close>)
  qed
  moreover have "fueled (parse_fields (Suc n) s)" if l: "length s < Suc n" for s
  proof (cases "parse_identifier s")
    case (Inl e)
    then show ?thesis using token_fuel(1) [of s] by (simp add: fueled_def)
  next
    case (Inr x)
    obtain name s1 where i: "parse_identifier s = Inr (name, s1)" using Inr by (cases x) simp
    have l1: "length s1 < n" using identifier_progress [OF i] l by simp
    have op: "length (tl (skipSpace s1)) < n" if "peek c (skipSpace s1)" for c using after_space [OF that] l1 by simp
    have key: "length (tl (skipSpace s3)) < n" if "peek d (skipSpace s1)" "parse_type n (tl (skipSpace s1)) = Inr (t, s3)" "peek c (skipSpace s3)" for s3 t c d
      using P [OF that(2)] after_space [OF that(3)] op [OF that(1)] by simp
    show ?thesis
      using i token_fuel msg_fuel IH op key by (auto simp del: length_tl intro!: fueled_rbind split: prod.split)
  qed
  ultimately show ?case by blast
qed simp

section \<open>Reading a rendering back\<close>

text \<open>A zone with a closing bracket cannot be rendered unambiguously.\<close>

fun tz_plain :: "logical_type \<Rightarrow> bool" and tz_plain_opt :: "logical_type option \<Rightarrow> bool" and tz_plain_fields :: "(string \<times> logical_type) list \<Rightarrow> bool" where
  "tz_plain (LogicalType k n p s tz e ky v fs src) \<longleftrightarrow>
     CHR '']'' \<notin> set tz \<and> tz_plain_opt e \<and> tz_plain_opt ky \<and> tz_plain_opt v \<and> tz_plain_fields fs"
| "tz_plain_opt None \<longleftrightarrow> True"
| "tz_plain_opt (Some t) \<longleftrightarrow> tz_plain t"
| "tz_plain_fields [] \<longleftrightarrow> True"
| "tz_plain_fields ((n, t) # fs) \<longleftrightarrow> tz_plain t \<and> tz_plain_fields fs"

definition stops :: "string \<Rightarrow> bool" where
  "stops rest \<longleftrightarrow> rest = [] \<or> hd rest = CHR ''>'' \<or> hd rest = CHR '',''"

lemma stops_Cons [simp]: "stops (CHR ''>'' # r)" "stops (CHR '','' # r)" "stops []"
  by (simp_all add: stops_def)


lemma skipSpace_Cons [simp]: "\<not> is_space c \<Longrightarrow> skipSpace (c # s) = c # s" "skipSpace [] = []"
  by (simp_all add: skipSpace_def)

lemma punctuation [simp]: "\<not> is_space CHR ''>''" "\<not> is_space CHR '',''" "\<not> is_space CHR ''<''" "\<not> is_space CHR ''(''" "\<not> is_space CHR '')''" "\<not> is_space CHR '':''"
  "\<not> is_space CHR ''[''" "\<not> ident_char CHR ''>''" "\<not> ident_char CHR '',''" "\<not> ident_char CHR ''<''" "\<not> ident_char CHR ''(''" "\<not> ident_char CHR '':''" "\<not> ident_char CHR ''[''"
  by (simp_all add: is_space_def ident_char_def)

lemma peek_Cons [simp]: "peek c (d # s) \<longleftrightarrow> c = d" "\<not> peek c []"
  by (auto simp: peek_def)























lemma tz_plain_simps [simp]:
  "tz_plain (ArrayOf t) = tz_plain t" "tz_plain (MapOf k v) = (tz_plain k \<and> tz_plain v)" "tz_plain (StructOf fs) = (\<forall>f \<in> set fs. tz_plain (snd f))"
  "tz_plain (TimestampTZ tz) = (CHR '']'' \<notin> set tz)" "tz_plain (Nullable t) = tz_plain t"
proof -
  have "tz_plain_fields fs = (\<forall>f \<in> set fs. tz_plain (snd f))" for fs by (induction fs) auto
  then show "tz_plain (StructOf fs) = (\<forall>f \<in> set fs. tz_plain (snd f))" by (simp add: StructOf_def)
  show "tz_plain (Nullable t) = tz_plain t" by (cases t) simp
qed (simp_all add: ArrayOf_def MapOf_def TimestampTZ_def)




lemma ParseTypeE:
  assumes "ParseType input = Inr t"
  obtains r where "parse_type (Suc (length input)) (skipSpace input) = Inr (t, r)" "skipSpace r = []" "LogicalType_Validate t = Inr ()"
  using assms that by (auto simp: ParseType_def Let_def simp del: parse_type.simps split: if_splits)

section \<open>Properties\<close>

text \<open>
  C33. Type safety of the parser: every type it returns is well-formed. It carries the attributes of its kind
  and no other, a decimal has a 32-bit precision of at least one and a scale between zero and the precision,
  a zone is a trimmed text, the fields of a struct are named by identifiers, and the same holds of every
  type inside; and it passes the structural validation, so that no two fields have the same name.
\<close>

theorem parsed_types_are_well_formed:
  assumes "ParseType input = Inr t"
  shows "well_formed t \<and> LogicalType_Validate t = Inr ()"
  using assms parse_well_formed by (blast elim: ParseTypeE)

theorem parsed_types_are_well_formed_witness:
  "well_formed (Nullable (MapOf (of_kind KindString) (Decimal 10 2))) \<and> LogicalType_Validate (Nullable (MapOf (of_kind KindString) (Decimal 10 2))) = Inr ()"
proof -
  have "ParseType '' Nullable(Map(String, Numeric(10, 2))) '' = Inr (Nullable (MapOf (of_kind KindString) (Decimal 10 2)))" by code_simp
  then show ?thesis by (rule parsed_types_are_well_formed)
qed



text \<open>
  The recursive descent always ends with a type or a message: the fuel of the model, one more than the
  length of the input, is never used up.
\<close>

lemma parser_never_runs_out_of_fuel:
  "ParseType input \<noteq> Inl out_of_fuel"
proof -
  have "fueled (parse_type (Suc (length input)) (skipSpace input))"
    using fuel_suffices skipSpace_le [of input] by (metis le_imp_less_Suc)
  moreover have "fueled (Inl (ErrMsg ''missing type'') :: logical_type res)" "fueled (Inl (ErrMsg ''unexpected trailing input'') :: logical_type res)"
    by (simp_all add: fueled_def out_of_fuel_def)
  moreover have "fueled (rbind (wrap_err ''invalid type'' (LogicalType_Validate t)) (\<lambda>_. Inr t))" for t
    by (rule fueled_rbind [OF wrap_err_fuel]) simp
  ultimately have "fueled (ParseType input)" unfolding ParseType_def Let_def
    by (simp add: fueled_rbind split_beta del: parse_type.simps)
  then show ?thesis by (simp add: fueled_def)
qed

text \<open>A zone with a closing bracket, which only the ClickHouse spelling admits, is rendered as a text the parser rejects.\<close>

lemma bracketed_zone_is_not_read_back:
  "ParseType ''datetime64(3,'a]b')'' = Inr (TimestampTZ ''a]b'')" "\<exists>e. ParseType (LogicalType_String (TimestampTZ ''a]b'')) = Inl e"
proof -
  show "ParseType ''datetime64(3,'a]b')'' = Inr (TimestampTZ ''a]b'')" by code_simp
  have "(case ParseType (LogicalType_String (TimestampTZ ''a]b'')) of Inl _ \<Rightarrow> True | Inr _ \<Rightarrow> False)" by code_simp
  then show "\<exists>e. ParseType (LogicalType_String (TimestampTZ ''a]b'')) = Inl e" by (auto split: sum.splits)
qed

end
