(* ===== verification/Decimals.thy ===== *)
theory Decimals
  imports TypeParser
begin

text \<open>
  Exact decimals (\<open>internal/typesystem/decimal.go\<close>): rendering, parsing of driver texts and conversion to a
  decimal column. A nil \<open>*big.Int\<close> is \<open>None\<close>. A panic of the Go code is an error of its own, \<open>panics\<close>. A float is
  known by the texts \<open>strconv.FormatFloat\<close> gives for it, one per scale; a non-finite one has none.
\<close>

definition panics :: err where
  "panics = ErrMsg ''panic''"

record decimal_value =
  dv_unscaled :: "int option"
  dv_scale :: int

definition DecimalValue_String :: "decimal_value \<Rightarrow> string res" where
  "DecimalValue_String d = (case dv_unscaled d of
      None \<Rightarrow> Inr ''0''
    | Some u \<Rightarrow>
      let sign = (if u < 0 then ''-'' else ''''); digits = show_nat (nat \<bar>u\<bar>) in
      if dv_scale d = 0 then Inr (sign @ digits)
      else if dv_scale d \<ge> int (length digits) then Inr (sign @ ''0.'' @ replicate (nat (dv_scale d) - length digits) (CHR ''0'') @ digits)
      else if dv_scale d < 0 then Inl panics
      else let cut = length digits - nat (dv_scale d) in Inr (sign @ take cut digits @ ''.'' @ List.drop cut digits))"

text \<open>The conversion of a length to \<open>int32\<close>.\<close>

definition wrap32 :: "int \<Rightarrow> int" where
  "wrap32 x = (x + 2 ^ 31) mod 2 ^ 32 - 2 ^ 31"

definition strip_money :: "string \<Rightarrow> string" where
  "strip_money s = (if has_prefix s ''-$'' then CHR ''-'' # filter (\<lambda>c. c \<noteq> CHR '','') (List.drop 2 s)
     else if has_prefix s ''$'' then filter (\<lambda>c. c \<noteq> CHR '','') (List.drop 1 s) else s)"

text \<open>The result is the unscaled number and the scale, or \<open>None\<close> for a text that is not a decimal.\<close>

definition parseDecimal :: "string \<Rightarrow> (int \<times> int) option res" where
  "parseDecimal text0 =
    (if text0 = '''' then Inr None
     else let text1 = strip_money text0 in
       if text1 = '''' then Inl panics
       else let signed = (hd text1 = CHR ''+'' \<or> hd text1 = CHR ''-''); neg = (hd text1 = CHR ''-'');
              parts = split_on (CHR ''.'') (if signed then tl text1 else text1) in
         if length parts > 2 \<or> (length parts = 2 \<and> (parts ! 0 = '''' \<or> parts ! 1 = '''')) \<or> parts ! 0 = '''' then Inr None
         else if \<not> list_all (list_all is_digit) parts then Inr None
         else let scale = (if length parts = 2 then wrap32 (int (length (parts ! 1))) else 0); n = digits_val (concat parts) in
           Inr (Some (if neg then - n else n, scale)))"

definition pow10 :: "int \<Rightarrow> int" where
  "pow10 e = (if e \<le> 0 then 1 else 10 ^ nat e)"

definition decimalPrecision :: "int \<Rightarrow> int" where
  "decimalPrecision v = (if v = 0 then 1 else int (length (show_nat (nat \<bar>v\<bar>))))"

definition DecimalDigits :: "string \<Rightarrow> (int \<times> int) option res" where
  "DecimalDigits text = rbind (parseDecimal (trim_space text)) (\<lambda>r. case r of
      None \<Rightarrow> Inr None
    | Some (u, s) \<Rightarrow> let i = decimalPrecision u - s in Inr (Some (if u = 0 \<or> i < 0 then 0 else i, s)))"

datatype decimal_source =
    SrcDecimal decimal_value
  | SrcString string
  | SrcBytes string
  | SrcInt int
  | SrcFloat "(int \<Rightarrow> string) option"
  | SrcOther

definition decimal_text :: "string \<Rightarrow> string \<Rightarrow> decimal_value res" where
  "decimal_text shown text = rbind (parseDecimal text) (\<lambda>r. case r of
      None \<Rightarrow> Inl (ErrMsg (''invalid decimal '' @ shown))
    | Some (u, s) \<Rightarrow> Inr \<lparr>dv_unscaled = Some u, dv_scale = s\<rparr>)"

definition decimalFromFloat :: "(int \<Rightarrow> string) option \<Rightarrow> int \<Rightarrow> decimal_value res" where
  "decimalFromFloat v scale = (case v of
      None \<Rightarrow> Inl (ErrMsg ''non-finite float cannot be stored as decimal'')
    | Some format_float \<Rightarrow> decimal_text (format_float scale) (format_float scale))"

definition decimalFromValue :: "decimal_source \<Rightarrow> int \<Rightarrow> decimal_value res" where
  "decimalFromValue v scale = (case v of
      SrcDecimal d \<Rightarrow> Inr d
    | SrcString s \<Rightarrow> decimal_text s (trim_space s)
    | SrcBytes s \<Rightarrow> decimal_text s (trim_space s)
    | SrcInt i \<Rightarrow> Inr \<lparr>dv_unscaled = Some i, dv_scale = 0\<rparr>
    | SrcFloat f \<Rightarrow> decimalFromFloat f scale
    | SrcOther \<Rightarrow> Inl (ErrMsg ''decimal source must be number, string, []byte, or DecimalValue''))"

text \<open>Rescaling; \<open>QuoRem\<close> truncates towards zero and its remainder has the sign of the dividend.\<close>

definition rescale :: "int \<Rightarrow> int \<Rightarrow> int \<Rightarrow> int option" where
  "rescale u scale target =
    (if scale < target then Some (u * pow10 (wrap32 (target - scale)))
     else if scale > target
     then (let factor = pow10 (wrap32 (scale - target)) in if \<bar>u\<bar> mod factor \<noteq> 0 then None else Some (sgn u * (\<bar>u\<bar> div factor)))
     else Some u)"

definition convertDecimal :: "decimal_source \<Rightarrow> logical_type \<Rightarrow> decimal_value res" where
  "convertDecimal v target = rbind (wrap_err ''convert'' (LogicalType_Validate target)) (\<lambda>_.
     case (lt_precision target, lt_scale target) of
       (Some p, Some s) \<Rightarrow> rbind (decimalFromValue v s) (\<lambda>d. case dv_unscaled d of
           None \<Rightarrow> Inl (ErrMsg ''decimal has nil unscaled value'')
         | Some u \<Rightarrow> (case rescale u (dv_scale d) s of
             None \<Rightarrow> Inl (ErrMsg ''value requires dropping fractional digits'')
           | Some m \<Rightarrow> if decimalPrecision m > p then Inl (ErrMsg ''precision exceeded'') else Inr \<lparr>dv_unscaled = Some m, dv_scale = s\<rparr>))
     | _ \<Rightarrow> Inl panics)"

section \<open>Digits\<close>



lemma wrap32_id: "- (2 ^ 31) \<le> x \<Longrightarrow> x < 2 ^ 31 \<Longrightarrow> wrap32 x = x"
  by (simp add: wrap32_def)

section \<open>Conversion\<close>




section \<open>Rendering and parsing\<close>

lemma split_on_one: "c \<notin> set a \<Longrightarrow> c \<notin> set b \<Longrightarrow> split_on c (a @ c # b) = [a, b]"
  by (simp add: split_on_prefix split_on_plain)

lemma digits_no_dot:
  assumes "list_all is_digit s"
  shows "CHR ''.'' \<notin> set s"
proof -
  have "\<not> is_digit CHR ''.''" by (simp add: is_digit_def)
  then show ?thesis using assms unfolding list_all_iff by blast
qed

lemma parse_plain:
  assumes "list_all is_digit a" "a \<noteq> []"
  shows "parseDecimal ((if neg then ''-'' else '''') @ a) = Inr (Some (if neg then - digits_val a else digits_val a, 0))"
proof -
  obtain x y where a: "a = x # y" "is_digit x" using assms by (cases a) auto
  have x: "x \<noteq> CHR ''$''" "x \<noteq> CHR ''-''" "x \<noteq> CHR ''+''" using a(2) by (auto simp: is_digit_def)
  have "strip_money ((if neg then ''-'' else '''') @ a) = (if neg then ''-'' else '''') @ a"
    using x by (simp add: strip_money_def has_prefix_def a(1))
  then show ?thesis using assms x split_on_plain [OF digits_no_dot [OF assms(1)]] by (simp add: parseDecimal_def a(1))
qed

lemma parse_point:
  assumes "list_all is_digit a" "a \<noteq> []" "list_all is_digit b" "b \<noteq> []" "length b < 2 ^ 31"
  shows "parseDecimal ((if neg then ''-'' else '''') @ a @ ''.'' @ b) = Inr (Some (if neg then - digits_val (a @ b) else digits_val (a @ b), int (length b)))"
proof -
  obtain x y where a: "a = x # y" "is_digit x" using assms by (cases a) auto
  have x: "x \<noteq> CHR ''$''" "x \<noteq> CHR ''-''" "x \<noteq> CHR ''+''" using a(2) by (auto simp: is_digit_def)
  have m: "strip_money ((if neg then ''-'' else '''') @ a @ ''.'' @ b) = (if neg then ''-'' else '''') @ a @ ''.'' @ b"
    using x by (simp add: strip_money_def has_prefix_def a(1))
  have w: "wrap32 (int (length b)) = int (length b)" using assms(5) by (intro wrap32_id) simp_all
  show ?thesis using assms(1-4) x w split_on_one [OF digits_no_dot [OF assms(1)] digits_no_dot [OF assms(3)]] m
    by (simp add: parseDecimal_def a(1))
qed

lemma digits_val_leading: "digits_val (replicate k CHR ''0'' @ ds) = digits_val ds"
proof -
  have "foldl (\<lambda>n c. 10 * n + digit_val c) 0 (replicate k CHR ''0'') = 0" by (induction k) (simp_all add: digit_val_def)
  then show ?thesis by (simp add: digits_val_def)
qed

text \<open>
  The text of a decimal is parsed as the same decimal: the sign, every digit and the scale survive, also
  for numbers below one whose leading zeros are padded. The scale is not negative.
\<close>

lemma decimal_text_round_trips:
  assumes "0 \<le> scale" "scale < 2 ^ 31"
  shows "\<exists>text. DecimalValue_String \<lparr>dv_unscaled = Some u, dv_scale = scale\<rparr> = Inr text \<and> parseDecimal text = Inr (Some (u, scale))"
proof -
  define ds where "ds = show_nat (nat \<bar>u\<bar>)"
  have ds: "ds \<noteq> []" "list_all is_digit ds" "digits_val ds = \<bar>u\<bar>" using show_nat_digits [of "nat \<bar>u\<bar>"] by (simp_all add: ds_def)
  let ?sign = "if u < 0 then ''-'' else ''''"
  consider "scale = 0" | "0 < scale" "int (length ds) \<le> scale" | "0 < scale" "scale < int (length ds)" using assms(1) by linarith
  then show ?thesis
  proof cases
    case 1
    then show ?thesis using parse_plain [OF ds(2,1), of "u < 0"] ds(3) by (simp add: DecimalValue_String_def ds_def [symmetric])
  next
    case 2
    define b where "b = replicate (nat scale - length ds) (CHR ''0'') @ ds"
    have "is_digit CHR ''0''" by (simp add: is_digit_def)
    then have b: "list_all is_digit b" "b \<noteq> []" "length b = nat scale" using 2 ds by (auto simp: b_def list_all_iff)
    have v: "digits_val (''0'' @ b) = \<bar>u\<bar>" using digits_val_leading [of 1 b] digits_val_leading [of "nat scale - length ds" ds] ds(3) by (simp add: b_def)
    have t: "DecimalValue_String \<lparr>dv_unscaled = Some u, dv_scale = scale\<rparr> = Inr (?sign @ ''0'' @ ''.'' @ b)"
      using 2 by (simp add: DecimalValue_String_def ds_def [symmetric] b_def)
    show ?thesis unfolding t using parse_point [of "''0''" b "u < 0"] \<open>is_digit CHR ''0''\<close> b v assms by simp
  next
    case 3
    define c where "c = length ds - nat scale"
    have c: "list_all is_digit (take c ds)" "list_all is_digit (List.drop c ds)" "length (List.drop c ds) = nat scale" "take c ds \<noteq> []" "List.drop c ds \<noteq> []"
      using 3 ds(2) by (auto simp: c_def list_all_iff dest: in_set_takeD in_set_dropD)
    have t: "DecimalValue_String \<lparr>dv_unscaled = Some u, dv_scale = scale\<rparr> = Inr (?sign @ take c ds @ ''.'' @ List.drop c ds)"
      using 3 by (simp add: DecimalValue_String_def ds_def [symmetric] c_def Let_def)
    show ?thesis unfolding t using parse_point [of "take c ds" "List.drop c ds" "u < 0"] c ds(3) 3 assms by simp
  qed
qed

text \<open>
  A money text without digits crashes the parser: after the currency sign and the separators are
  removed nothing is left, and the code reads the first character of the empty text. The conversion of such
  a value panics instead of being refused.
\<close>

lemma bare_currency_sign_panics:
  "parseDecimal ''$'' = Inl panics \<and> convertDecimal (SrcString '' $, '') (Decimal 19 4) = Inl panics"
  by (rule conjI; code_simp)

end
