(* ===== verification/SqlLexer.thy ===== *)
theory SqlLexer
  imports Prelude "HOL-Library.Sublist"
begin

text \<open>
  The lexer behind the checks on user SQL (\<open>internal/connectors/sql_lexer.go\<close>). The offset of the lexer is the
  text left to read, so that offset \<open>i\<close> is the length of the text less the length of the rest; scans over the
  rest return what follows them.
\<close>

section \<open>Dialects and results\<close>

record sqlDialect =
  dl_name :: string
  backslashQuotes :: string
  backticks :: bool
  hashComments :: bool
  slashComments :: bool
  dashNeedsSpace :: bool
  nestedComments :: bool
  executableComments :: bool
  dollarQuotes :: bool
  escapeStrings :: bool
  bracketIdents :: bool
  qQuotes :: bool

definition plain_dialect :: "string \<Rightarrow> sqlDialect" where
  "plain_dialect name = \<lparr>dl_name = name, backslashQuotes = '''', backticks = False, hashComments = False, slashComments = False,
     dashNeedsSpace = False, nestedComments = False, executableComments = False, dollarQuotes = False, escapeStrings = False,
     bracketIdents = False, qQuotes = False\<rparr>"

definition sqlDialects :: "sqlDialect list" where
  "sqlDialects =
    [plain_dialect ''ansi'',
     (plain_dialect ''postgres'')\<lparr>nestedComments := True, dollarQuotes := True, escapeStrings := True\<rparr>,
     (plain_dialect ''mysql'')\<lparr>backslashQuotes := [CHR 0x27, CHR 0x22], backticks := True, hashComments := True, dashNeedsSpace := True, executableComments := True\<rparr>,
     (plain_dialect ''mysql-ansi-quotes'')\<lparr>backslashQuotes := [CHR 0x27], backticks := True, hashComments := True, dashNeedsSpace := True, executableComments := True\<rparr>,
     (plain_dialect ''mysql-no-backslash'')\<lparr>backticks := True, hashComments := True, dashNeedsSpace := True, executableComments := True\<rparr>,
     (plain_dialect ''clickhouse'')\<lparr>backslashQuotes := [CHR 0x27, CHR 0x22, CHR 0x60], backticks := True, hashComments := True\<rparr>,
     (plain_dialect ''sqlserver'')\<lparr>nestedComments := True, bracketIdents := True\<rparr>,
     (plain_dialect ''oracle'')\<lparr>qQuotes := True\<rparr>,
     (plain_dialect ''cassandra'')\<lparr>slashComments := True, dollarQuotes := True\<rparr>]"

datatype lex_err = UnterminatedString | UnterminatedIdentifier | UnterminatedComment | UnterminatedDollar | UnterminatedBracket

fun lex_err_text :: "lex_err \<Rightarrow> string" where
  "lex_err_text UnterminatedString = ''unterminated string literal''"
| "lex_err_text UnterminatedIdentifier = ''unterminated quoted identifier''"
| "lex_err_text UnterminatedComment = ''unterminated block comment''"
| "lex_err_text UnterminatedDollar = ''unterminated dollar-quoted string''"
| "lex_err_text UnterminatedBracket = ''unterminated bracket identifier''"

record sqlLexResult =
  firstWord :: string
  lastWord :: string
  keyword :: string
  statementEnd :: int
  trailing :: bool
  comments :: bool
  lineComment :: bool
  unbalanced :: bool
  forbidden :: string

record sqlLexer =
  lx_rest :: string
  lx_parens :: int
  lx_brackets :: int
  lx_next :: int
  lx_res :: sqlLexResult

section \<open>Characters and keywords\<close>

definition isSQLSpace :: "char \<Rightarrow> bool" where
  "isSQLSpace c \<longleftrightarrow> c \<in> {CHR 0x20, CHR 0x0A, CHR 0x0D, CHR 0x09, CHR 0x0C}"

definition isSQLIdentStart :: "char \<Rightarrow> bool" where
  "isSQLIdentStart c \<longleftrightarrow> c \<in> set ''ABCDEFGHIJKLMNOPQRSTUVWXYZabcdefghijklmnopqrstuvwxyz_''"

definition isSQLIdentPart :: "char \<Rightarrow> bool" where
  "isSQLIdentPart c \<longleftrightarrow> isSQLIdentStart c \<or> is_digit c \<or> c = CHR 0x24"

definition high_byte :: "char \<Rightarrow> bool" where
  "high_byte c \<longleftrightarrow> CHR 0x7F < c"

definition isPlainSQLName :: "string \<Rightarrow> bool" where
  "isPlainSQLName s \<longleftrightarrow> list_all (\<lambda>c. isSQLIdentStart c \<or> is_digit c \<or> c = CHR 0x20 \<or> c = CHR ''.'' \<or> high_byte c) s"

definition to_upper :: "string \<Rightarrow> string" where
  "to_upper s = map (\<lambda>c. case map_of (zip ''abcdefghijklmnopqrstuvwxyz'' ''ABCDEFGHIJKLMNOPQRSTUVWXYZ'') c of None \<Rightarrow> c | Some u \<Rightarrow> u) s"

definition equal_fold :: "string \<Rightarrow> string \<Rightarrow> bool" where
  "equal_fold a b \<longleftrightarrow> to_upper a = to_upper b"

definition destructiveSQLKeywords :: "string list" where
  "destructiveSQLKeywords =
    [''INSERT'', ''UPDATE'', ''DELETE'', ''DROP'', ''ALTER'', ''CREATE'', ''TRUNCATE'', ''GRANT'', ''REVOKE'', ''MERGE'', ''CALL'', ''EXEC'', ''EXECUTE'',
     ''COPY'', ''LOAD'', ''UNLOAD'', ''REPLACE'', ''INTO'']"

definition destructiveSQLKeyword :: "string \<Rightarrow> bool" where
  "destructiveSQLKeyword token \<longleftrightarrow> list_ex (\<lambda>k. equal_fold (trim_space token) k) destructiveSQLKeywords"

section \<open>Scans\<close>

definition lineCommentAt :: "sqlDialect \<Rightarrow> string \<Rightarrow> bool" where
  "lineCommentAt d r \<longleftrightarrow>
    (if has_prefix r ''--'' then \<not> dashNeedsSpace d \<or> length r \<le> 2 \<or> r ! 2 \<le> CHR 0x20
     else if hd r = CHR 0x23 then hashComments d
     else has_prefix r ''//'' \<and> slashComments d)"

fun block_end :: "bool \<Rightarrow> int \<Rightarrow> string \<Rightarrow> string option" where
  "block_end nested depth (a # b # r) =
    (if a = CHR 0x2F \<and> b = CHR 0x2A \<and> (depth = 0 \<or> nested) then block_end nested (depth + 1) r
     else if a = CHR 0x2A \<and> b = CHR 0x2F then (if depth - 1 = 0 then Some r else block_end nested (depth - 1) r)
     else block_end nested depth (b # r))"
| "block_end nested depth r = None"

fun skip_quoted :: "char \<Rightarrow> bool \<Rightarrow> string \<Rightarrow> string option" where
  "skip_quoted q backslash [] = None"
| "skip_quoted q backslash (c # r) =
    (if backslash \<and> c = CHR 0x5C then (case r of [] \<Rightarrow> None | _ # r' \<Rightarrow> skip_quoted q backslash r')
     else if c \<noteq> q then skip_quoted q backslash r
     else (case r of [] \<Rightarrow> Some [] | c' # r' \<Rightarrow> if c' = q then skip_quoted q backslash r' else Some r))"

text \<open>\<open>strings.Index\<close>: the rest from the first occurrence on.\<close>

fun find_at :: "string \<Rightarrow> string \<Rightarrow> string option" where
  "find_at p [] = (if p = [] then Some [] else None)"
| "find_at p (c # r) = (if has_prefix (c # r) p then Some (c # r) else find_at p r)"

text \<open>The characters of a dollar tag; a digit cannot be the first.\<close>

definition dollar_tag :: "string \<Rightarrow> string" where
  "dollar_tag r = (if r = [] \<or> is_digit (hd r) then '''' else takeWhile (\<lambda>c. isSQLIdentStart c \<or> high_byte c \<or> is_digit c) r)"

definition index_of :: "char \<Rightarrow> string \<Rightarrow> int option" where
  "index_of c s = (if c \<in> set s then Some (int (length (takeWhile (\<lambda>x. x \<noteq> c) s))) else None)"

section \<open>The lexer\<close>

type_synonym lexed = "sqlLexer \<times> lex_err option"

definition advance :: "string \<Rightarrow> sqlLexer \<Rightarrow> lexed" where
  "advance r l = (l\<lparr>lx_rest := r\<rparr>, None)"

definition scanned :: "lex_err \<Rightarrow> string option \<Rightarrow> sqlLexer \<Rightarrow> lexed" where
  "scanned e r l = (case r of None \<Rightarrow> (l\<lparr>lx_rest := []\<rparr>, Some e) | Some r' \<Rightarrow> (l\<lparr>lx_rest := r'\<rparr>, None))"

definition update_res :: "(sqlLexResult \<Rightarrow> sqlLexResult) \<Rightarrow> sqlLexer \<Rightarrow> sqlLexer" where
  "update_res f l = l\<lparr>lx_res := f (lx_res l)\<rparr>"

definition offset :: "nat \<Rightarrow> sqlLexer \<Rightarrow> int" where
  "offset n l = int n - int (length (lx_rest l))"

definition skipLineComment :: "sqlLexer \<Rightarrow> sqlLexer" where
  "skipLineComment l0 = (let l = update_res (\<lambda>res. res\<lparr>comments := True\<rparr>) l0;
       r = dropWhile (\<lambda>c. c \<noteq> CHR 0x0D \<and> c \<noteq> CHR 0x0A) (lx_rest l) in
     if r = [] then (update_res (\<lambda>res. res\<lparr>lineComment := True\<rparr>) l)\<lparr>lx_rest := []\<rparr> else l\<lparr>lx_rest := r\<rparr>)"

definition skipBlockComment :: "sqlDialect \<Rightarrow> sqlLexer \<Rightarrow> lexed" where
  "skipBlockComment d l0 =
    (let l1 = update_res (\<lambda>res. res\<lparr>comments := True\<rparr>) l0;
         l = (if executableComments d \<and> (has_prefix (lx_rest l1) ''/*!'' \<or> has_prefix (lx_rest l1) ''/*M!'')
              then update_res (\<lambda>res. res\<lparr>forbidden := ''executable comments''\<rparr>) l1 else l1)
     in scanned UnterminatedComment (block_end (nestedComments d) 0 (lx_rest l)) l)"

text \<open>The offset of the next closing bracket, cached in the state: the code scans a run of opening brackets once.\<close>

definition closingBracket :: "nat \<Rightarrow> sqlLexer \<Rightarrow> int" where
  "closingBracket n l =
    (if lx_next l \<le> offset n l \<and> lx_next l < int n
     then (case index_of (CHR '']'') (tl (lx_rest l)) of None \<Rightarrow> int n | Some k \<Rightarrow> offset n l + 1 + k)
     else lx_next l)"

text \<open>The same offset without the cache.\<close>

definition first_bracket :: "nat \<Rightarrow> sqlLexer \<Rightarrow> int" where
  "first_bracket n l = (case index_of (CHR '']'') (tl (lx_rest l)) of None \<Rightarrow> int n | Some k \<Rightarrow> offset n l + 1 + k)"

definition bracket :: "(nat \<Rightarrow> sqlLexer \<Rightarrow> int) \<Rightarrow> nat \<Rightarrow> sqlDialect \<Rightarrow> char \<Rightarrow> sqlLexer \<Rightarrow> lexed" where
  "bracket closing n d c l0 =
    (let r = tl (lx_rest l0) in
     if c = CHR ''['' \<and> bracketIdents d then scanned UnterminatedBracket (skip_quoted (CHR '']'') False r) l0
     else if c = CHR ''[''
     then (let e = closing n l0; l = l0\<lparr>lx_next := e\<rparr>; k = nat (e - offset n l - 1) in
       if e < int n \<and> isPlainSQLName (take k r) then advance (List.drop (Suc k) r) l
       else advance r (l\<lparr>lx_brackets := lx_brackets l + 1\<rparr>))
     else (let b = lx_brackets l0 - 1 in
       advance r (update_res (\<lambda>res. res\<lparr>unbalanced := unbalanced res \<or> b < 0\<rparr>) (l0\<lparr>lx_brackets := b\<rparr>))))"

definition dollar :: "sqlLexer \<Rightarrow> lexed" where
  "dollar l = (let r = tl (lx_rest l); tag = dollar_tag r; q = List.drop (length tag) r in
     if q = [] \<or> hd q \<noteq> CHR 0x24 then advance r l
     else scanned UnterminatedDollar (map_option (List.drop (length tag + 2)) (find_at (CHR 0x24 # tag @ [CHR 0x24]) (tl q))) l)"

definition closing_quote :: "char \<Rightarrow> char" where
  "closing_quote c = (if c = CHR ''['' then CHR '']'' else if c = CHR 0x7B then CHR 0x7D else if c = CHR ''('' then CHR '')'' else if c = CHR ''<'' then CHR ''>'' else c)"

text \<open>Go converts a byte to the text of the code point: one character below 128, two above.\<close>

definition byte_text :: "char \<Rightarrow> string" where
  "byte_text c = (if high_byte c then (let k = of_char c :: nat in [char_of (192 + k div 64), char_of (128 + k mod 64)]) else [c])"

definition qQuote :: "string \<Rightarrow> sqlLexer \<Rightarrow> lexed" where
  "qQuote r l = (if r = [] then scanned UnterminatedString None l
     else scanned UnterminatedString (map_option (List.drop 2) (find_at (byte_text (closing_quote (hd r)) @ [CHR 0x27]) (tl r))) l)"

definition lex_word :: "sqlDialect \<Rightarrow> sqlLexer \<Rightarrow> lexed" where
  "lex_word d l =
    (let w = takeWhile isSQLIdentPart (lx_rest l); r = dropWhile isSQLIdentPart (lx_rest l); quoted = (r \<noteq> [] \<and> hd r = CHR 0x27) in
     if quoted \<and> escapeStrings d \<and> equal_fold w ''E'' then scanned UnterminatedString (skip_quoted (CHR 0x27) True (tl r)) l
     else if quoted \<and> qQuotes d \<and> (equal_fold w ''Q'' \<or> equal_fold w ''NQ'') then qQuote (tl r) l
     else if lx_brackets l = 0
     then advance r (update_res (\<lambda>res. res\<lparr>firstWord := (if firstWord res = '''' then w else firstWord res), lastWord := w,
         keyword := (if keyword res = '''' \<and> destructiveSQLKeyword w then to_upper w else keyword res)\<rparr>) l)
     else advance r l)"

definition lex_step :: "(nat \<Rightarrow> sqlLexer \<Rightarrow> int) \<Rightarrow> nat \<Rightarrow> sqlDialect \<Rightarrow> sqlLexer \<Rightarrow> lexed" where
  "lex_step closing n d l0 =
    (let r0 = lx_rest l0; c = hd r0; r = tl r0 in
     if isSQLSpace c then advance r l0
     else if lineCommentAt d r0 then (skipLineComment l0, None)
     else if has_prefix r0 ''/*'' then skipBlockComment d l0
     else let l = (if statementEnd (lx_res l0) \<ge> 0 then update_res (\<lambda>res. res\<lparr>trailing := True\<rparr>) l0 else l0) in
       if c = CHR '';''
       then advance r (update_res (\<lambda>res. res\<lparr>statementEnd := (if statementEnd res < 0 then offset n l0 else statementEnd res)\<rparr>) l)
       else if c = CHR ''('' then advance r (l\<lparr>lx_parens := lx_parens l + 1\<rparr>)
       else if c = CHR '')''
       then (let p = lx_parens l - 1 in advance r (update_res (\<lambda>res. res\<lparr>unbalanced := unbalanced res \<or> p < 0\<rparr>) (l\<lparr>lx_parens := p\<rparr>)))
       else if c = CHR 0x27 then scanned UnterminatedString (skip_quoted c (c \<in> set (backslashQuotes d)) r) l
       else if c = CHR 0x22 \<or> (c = CHR 0x60 \<and> backticks d) then scanned UnterminatedIdentifier (skip_quoted c (c \<in> set (backslashQuotes d)) r) l
       else if c = CHR ''['' \<or> c = CHR '']'' then bracket closing n d c l
       else if c = CHR 0x24 \<and> dollarQuotes d then dollar l
       else if isSQLIdentStart c then lex_word d l
       else advance r l)"

text \<open>The loop of \<open>lexSQL\<close>; every step reads at least one character, so as much fuel as text suffices.\<close>

fun lex_loop :: "(nat \<Rightarrow> sqlLexer \<Rightarrow> int) \<Rightarrow> nat \<Rightarrow> nat \<Rightarrow> sqlDialect \<Rightarrow> sqlLexer \<Rightarrow> lexed" where
  "lex_loop closing 0 n d l = (l, None)"
| "lex_loop closing (Suc k) n d l =
    (if lx_rest l = [] then (l, None)
     else case lex_step closing n d l of
       (l', Some e) \<Rightarrow> (l', Some e)
     | (l', None) \<Rightarrow> lex_loop closing k n d l')"

definition lex_init :: "string \<Rightarrow> sqlLexer" where
  "lex_init s = \<lparr>lx_rest = s, lx_parens = 0, lx_brackets = 0, lx_next = - 1,
     lx_res = \<lparr>firstWord = '''', lastWord = '''', keyword = '''', statementEnd = - 1, trailing = False, comments = False, lineComment = False,
       unbalanced = False, forbidden = ''''\<rparr>\<rparr>"

definition lex_with :: "(nat \<Rightarrow> sqlLexer \<Rightarrow> int) \<Rightarrow> string \<Rightarrow> sqlDialect \<Rightarrow> sqlLexResult \<times> lex_err option" where
  "lex_with closing s d = (case lex_loop closing (length s) (length s) d (lex_init s) of
      (l, Some e) \<Rightarrow> (lx_res l, Some e)
    | (l, None) \<Rightarrow> ((lx_res l)\<lparr>unbalanced := unbalanced (lx_res l) \<or> lx_parens l \<noteq> 0 \<or> lx_brackets l \<noteq> 0\<rparr>, None))"

definition lexSQL :: "string \<Rightarrow> sqlDialect \<Rightarrow> sqlLexResult \<times> lex_err option" where
  "lexSQL s d = lex_with closingBracket s d"

definition sqlLexErrorIsSkippable :: "lex_err \<Rightarrow> bool" where
  "sqlLexErrorIsSkippable e \<longleftrightarrow> e \<noteq> UnterminatedIdentifier \<and> e \<noteq> UnterminatedBracket"

definition sqlEndsInLineComment :: "string \<Rightarrow> bool" where
  "sqlEndsInLineComment q \<longleftrightarrow> list_ex (\<lambda>d. lineComment (fst (lexSQL q d))) sqlDialects"

end
