(* ===== verification/SqlGuard.thy ===== *)
theory SqlGuard
  imports SqlLexer
begin

text \<open>
  The checks on user SQL (\<open>internal/connectors/query_mode.go\<close>): a query must be one read-only statement and a
  row filter one expression, under every dialect that can read it.
\<close>

section \<open>Queries\<close>

text \<open>Go's \<open>%q\<close> on a plain word.\<close>

definition quoted :: "string \<Rightarrow> string" where
  "quoted w = [CHR 0x22] @ w @ [CHR 0x22]"

definition checkReadOnlySQLShape :: "sqlLexResult \<Rightarrow> lex_err option \<Rightarrow> unit res" where
  "checkReadOnlySQLShape res lexErr =
    (if forbidden res \<noteq> '''' then Inl (ErrMsg (''query mode rejects '' @ forbidden res))
     else if statementEnd res \<ge> 0 \<and> (trailing res \<or> lexErr \<noteq> None) then Inl (ErrMsg ''query mode rejects multiple statements'')
     else case lexErr of
       Some e \<Rightarrow> if \<not> sqlLexErrorIsSkippable e then Inl (ErrMsg (''query contains an '' @ lex_err_text e)) else Inr ()
     | None \<Rightarrow>
       if firstWord res = '''' then Inl (ErrMsg ''query must contain a SELECT statement'')
       else if \<not> equal_fold (firstWord res) ''SELECT'' \<and> \<not> equal_fold (firstWord res) ''WITH''
       then Inl (ErrMsg ''query mode only supports read-only SELECT or WITH SELECT queries'')
       else if unbalanced res then Inl (ErrMsg ''query has unbalanced parentheses or brackets'')
       else if keyword res \<noteq> '''' then Inl (ErrMsg (''query mode rejects unsafe SQL keyword '' @ quoted (keyword res)))
       else Inr ())"

text \<open>
  The loop over the dialects: the end of the statement they agree on, once one of them can read the text, and the
  first error of a dialect that cannot.
\<close>

fun cut_loop :: "string \<Rightarrow> sqlDialect list \<Rightarrow> int option \<Rightarrow> lex_err option \<Rightarrow> (int option \<times> lex_err option) res" where
  "cut_loop query [] agreed lexErr = Inr (agreed, lexErr)"
| "cut_loop query (d # ds) agreed lexErr = (case lexSQL query d of (res, e) \<Rightarrow>
     rbind (checkReadOnlySQLShape res e) (\<lambda>_.
       if e \<noteq> None then cut_loop query ds agreed (if lexErr = None then e else lexErr)
       else if agreed \<noteq> None \<and> agreed \<noteq> Some (statementEnd res) then Inl (ErrMsg ''query mode rejects SQL that dialects split into statements differently'')
       else cut_loop query ds (Some (statementEnd res)) lexErr))"

text \<open>The error of a text that no dialect reads is never absent; the model shows the absent one as an empty text.\<close>

definition unread :: "string \<Rightarrow> lex_err option \<Rightarrow> err" where
  "unread what e = ErrMsg (case e of None \<Rightarrow> '''' | Some e \<Rightarrow> what @ lex_err_text e)"

definition cutReadOnlySQLStatement :: "string \<Rightarrow> string res" where
  "cutReadOnlySQLStatement query = rbind (cut_loop query sqlDialects None None) (\<lambda>(agreed, lexErr). case agreed of
      None \<Rightarrow> Inl (unread ''query contains an '' lexErr)
    | Some e \<Rightarrow> Inr (if e \<ge> 0 then trim_space (take (nat e) query) else query))"

definition NormalizeReadOnlySQLQuery :: "string \<Rightarrow> string res" where
  "NormalizeReadOnlySQLQuery raw = (let query = trim_space raw in
     if query = '''' then Inl (ErrMsg ''query must be non-empty'')
     else rbind (cutReadOnlySQLStatement query) (\<lambda>query1. rbind (cutReadOnlySQLStatement query1) (\<lambda>again.
       if again \<noteq> query1 then Inl (ErrMsg ''query mode rejects SQL that dialects split into statements differently'') else Inr query1)))"

section \<open>Filters\<close>

fun where_loop :: "string \<Rightarrow> sqlDialect list \<Rightarrow> bool \<Rightarrow> lex_err option \<Rightarrow> (bool \<times> lex_err option) res" where
  "where_loop clause [] lexed lexErr = Inr (lexed, lexErr)"
| "where_loop clause (d # ds) lexed lexErr = (case lexSQL clause d of (res, e) \<Rightarrow>
     if forbidden res \<noteq> '''' then Inl (ErrMsg (''where_clause rejects '' @ forbidden res))
     else if statementEnd res \<ge> 0 then Inl (ErrMsg (''where_clause must be a single expression without '' @ [CHR 0x27, CHR '';'', CHR 0x27]))
     else if comments res then Inl (ErrMsg ''where_clause must not contain comments'')
     else case e of
       Some err \<Rightarrow> if \<not> sqlLexErrorIsSkippable err then Inl (ErrMsg (''where_clause contains an '' @ lex_err_text err))
         else where_loop clause ds lexed (if lexErr = None then e else lexErr)
     | None \<Rightarrow>
       if unbalanced res then Inl (ErrMsg ''where_clause has unbalanced parentheses or brackets'')
       else if keyword res \<noteq> '''' then Inl (ErrMsg (''where_clause rejects SQL keyword '' @ quoted (keyword res)))
       else where_loop clause ds True lexErr)"

definition ValidateWhereClause :: "string \<Rightarrow> unit res" where
  "ValidateWhereClause clause = rbind (where_loop clause sqlDialects False None) (\<lambda>(lexed, lexErr).
     if lexed then Inr () else Inl (unread ''where_clause contains an '' lexErr))"

end
