(* ===== verification/SqlSafety.thy ===== *)
theory SqlSafety
  imports SqlGuard
begin

text \<open>
  What the checks on user SQL guarantee: an accepted filter cannot leave the parentheses it is placed in, and
  an accepted query is one read-only statement.
\<close>

section \<open>Scans\<close>

lemma block_end_suffix: "block_end nested depth r = Some r' \<Longrightarrow> strict_suffix r' r"
  by (induction nested depth r rule: block_end.induct) (auto split: if_splits simp: strict_suffix_def suffix_def)

lemma skip_quoted_suffix: "skip_quoted q bs r = Some r' \<Longrightarrow> suffix r' r"
  by (induction q bs r rule: skip_quoted.induct) (auto split: if_splits list.splits simp: suffix_Cons)

lemma find_at_suffix: "find_at p r = Some r' \<Longrightarrow> suffix r' r"
  by (induction p r rule: find_at.induct) (auto split: if_splits simp: suffix_Cons)

lemma block_end_more: "block_end nested depth r = Some r' \<Longrightarrow> block_end nested depth (r @ a) = Some (r' @ a)"
  by (induction nested depth r rule: block_end.induct) (auto split: if_splits)

lemma skip_quoted_more: "skip_quoted q bs r = Some r' \<Longrightarrow> c \<noteq> q \<Longrightarrow> skip_quoted q bs (r @ c # a) = Some (r' @ c # a)"
  by (induction q bs r rule: skip_quoted.induct) (auto split: if_splits list.splits)

lemma has_prefix_iff: "has_prefix s p \<longleftrightarrow> prefix p s"
  by (metis has_prefix_def prefix_def append_eq_conv_conj append_take_drop_id)

lemma find_at_prefix: "find_at p r = Some r' \<Longrightarrow> prefix p r'"
  by (induction p r rule: find_at.induct) (auto split: if_splits simp: has_prefix_iff)

lemma find_at_more: "find_at p r = Some r' \<Longrightarrow> find_at p (r @ a) = Some (r' @ a)"
proof (induction p r rule: find_at.induct)
  case (1 p)
  then show ?case by (cases a) (auto simp: has_prefix_def split: if_splits)
next
  case (2 p c r)
  show ?case
  proof (cases "has_prefix (c # r) p")
    case True
    then have "has_prefix (c # r @ a) p" unfolding has_prefix_iff using prefix_prefix [of p "c # r" a] by simp
    then show ?thesis using 2(2) True by auto
  next
    case False
    then have f: "find_at p r = Some r'" using 2(2) by simp
    have "length p \<le> length r" using find_at_prefix [OF f] find_at_suffix [OF f] by (metis order.trans prefix_length_le suffix_length_le)
    then have "take (length p) ((c # r) @ a) = take (length p) (c # r)" by (simp only: take_append) simp
    then have "\<not> has_prefix (c # r @ a) p" using False by (simp add: has_prefix_def)
    then show ?thesis using 2(1) [OF False f] by simp
  qed
qed

lemma suffix_of_drop: "suffix (List.drop k r) r" by (rule suffix_drop)

section \<open>Progress\<close>

definition reads_on :: "sqlLexer \<Rightarrow> lexed \<Rightarrow> bool" where
  "reads_on l x \<longleftrightarrow> (snd x = None \<longrightarrow> strict_suffix (lx_rest (fst x)) (lx_rest l))"

lemma suffix_step: "r = c # t \<Longrightarrow> suffix u t \<Longrightarrow> strict_suffix u r"
  by (auto simp: strict_suffix_def suffix_def)

lemma reads_scanned: "lx_rest l = c # t \<Longrightarrow> (\<And>u. r = Some u \<Longrightarrow> suffix u t) \<Longrightarrow> reads_on l (scanned e r l')"
  by (auto simp: reads_on_def scanned_def suffix_step split: option.splits)

lemma reads_advance: "lx_rest l = c # t \<Longrightarrow> suffix u t \<Longrightarrow> reads_on l (advance u l')"
  by (auto simp: reads_on_def advance_def suffix_step)

lemma found_suffix: "find_at p r = Some z \<Longrightarrow> suffix r t \<Longrightarrow> suffix (List.drop k z) t"
  by (meson find_at_suffix suffix_drop suffix_order.trans)

lemma reads_qQuote:
  assumes "lx_rest l = c # t" "suffix u t"
  shows "reads_on l (qQuote u l')"
proof -
  have "suffix (tl u) t" using assms(2) by (meson suffix_order.trans suffix_tl)
  then show ?thesis unfolding qQuote_def using assms(1) by (auto intro!: reads_scanned found_suffix)
qed

lemma step_reads:
  assumes "lx_rest l \<noteq> []"
  shows "reads_on l (lex_step closing n d l)"
proof -
  obtain c t where r: "lx_rest l = c # t" using assms by (cases "lx_rest l") auto
  have drop: "suffix (List.drop k t) t" for k by (rule suffix_drop)
  have line: "lineCommentAt d (c # t) \<Longrightarrow> c \<noteq> CHR 0x0D \<and> c \<noteq> CHR 0x0A"
    by (auto simp: lineCommentAt_def has_prefix_def split: if_splits)
  have 1: "reads_on l (skipLineComment l, None)" if "lineCommentAt d (c # t)"
    using line [OF that] r suffix_dropWhile [of _ t] by (auto simp: reads_on_def skipLineComment_def Let_def update_res_def intro: suffix_step)
  have 2: "reads_on l (skipBlockComment d l)"
    using block_end_suffix [of "nestedComments d" 0 "c # t"] r
    by (auto simp: reads_on_def skipBlockComment_def Let_def update_res_def scanned_def split: option.splits)
  have 3: "reads_on l (bracket closing n d b l')" if "lx_rest l' = c # t" for l' b
    using that r drop skip_quoted_suffix by (auto simp: bracket_def Let_def intro!: reads_scanned reads_advance)
  have 4: "reads_on l (dollar l')" if "lx_rest l' = c # t" for l'
    using that r unfolding dollar_def Let_def
    by (auto intro!: reads_scanned reads_advance found_suffix) (meson suffix_drop suffix_order.trans suffix_tl)
  have 5: "reads_on l (lex_word d l')" if "lx_rest l' = c # t" "isSQLIdentStart c" for l'
  proof -
    have p: "isSQLIdentPart c" using that(2) by (simp add: isSQLIdentPart_def)
    have dw: "suffix (dropWhile isSQLIdentPart t) t" by (rule suffix_dropWhile)
    have tl: "suffix u t" if "suffix u (tl (dropWhile isSQLIdentPart t))" for u
      using that dw by (meson suffix_order.trans suffix_tl)
    have q: "reads_on l (qQuote (tl (dropWhile isSQLIdentPart t)) l')" for l' by (rule reads_qQuote [OF r tl]) simp
    have e: "reads_on l (scanned e (skip_quoted x bs (tl (dropWhile isSQLIdentPart t))) l')" for e x bs l'
      using r tl skip_quoted_suffix by (blast intro: reads_scanned)
    have w: "reads_on l (advance (dropWhile isSQLIdentPart t) l')" for l' by (rule reads_advance [OF r dw])
    show ?thesis unfolding lex_word_def Let_def that(1) using p q e w by auto
  qed
  have sk: "reads_on l (scanned e (skip_quoted q bs t) l')" for e q bs l' using r skip_quoted_suffix by (blast intro: reads_scanned)
  have ad: "reads_on l (advance t l')" for l' using r by (blast intro: reads_advance suffix_order.refl)
  show ?thesis unfolding lex_step_def Let_def r list.sel
    using 1 2 3 4 5 sk ad r by (auto simp: update_res_def)
qed

section \<open>The bracket cache\<close>

definition next_bracket :: "nat \<Rightarrow> string \<Rightarrow> int" where
  "next_bracket n r = (case index_of (CHR '']'') r of None \<Rightarrow> int n | Some k \<Rightarrow> int n - int (length r) + k)"

definition cache_ok :: "nat \<Rightarrow> sqlLexer \<Rightarrow> bool" where
  "cache_ok n l \<longleftrightarrow> length (lx_rest l) \<le> n \<and> ((lx_next l \<le> offset n l \<and> lx_next l < int n) \<or> lx_next l = next_bracket n (lx_rest l))"

lemma index_of_Cons: "index_of c (x # r) = (if x = c then Some 0 else map_option (\<lambda>k. 1 + k) (index_of c r))"
  by (simp add: index_of_def)

lemma index_of_append: "index_of c (u @ r) = (if c \<in> set u then index_of c u else map_option (\<lambda>k. int (length u) + k) (index_of c r))"
proof (induction u)
  case Nil
  then show ?case by (cases "index_of c r") simp_all
qed (auto simp: index_of_Cons option.map_comp o_def intro: map_option_cong)

lemma index_of_less: "index_of c u = Some k \<Longrightarrow> 0 \<le> k \<and> k < int (length u)"
  by (induction u arbitrary: k) (auto simp: index_of_Cons index_of_def [of _ "[]"] split: if_splits)

lemma next_bracket_suffix:
  assumes "suffix r' r" "length r \<le> n"
  shows "(next_bracket n r \<le> int n - int (length r') \<and> next_bracket n r < int n) \<or> next_bracket n r = next_bracket n r'"
proof -
  obtain u where u: "r = u @ r'" using assms(1) by (auto simp: suffix_def)
  show ?thesis
  proof (cases "CHR '']'' \<in> set u")
    case True
    then obtain k where k: "index_of (CHR '']'') u = Some k" by (auto simp: index_of_def)
    then show ?thesis using True assms(2) index_of_less [OF k] by (simp add: next_bracket_def u index_of_append)
  next
    case False
    then show ?thesis by (cases "index_of (CHR '']'') r'") (simp_all add: next_bracket_def u index_of_append)
  qed
qed

lemma first_bracket_next: "lx_rest l = CHR ''['' # t \<Longrightarrow> first_bracket n l = next_bracket n (lx_rest l)"
  by (auto simp: first_bracket_def next_bracket_def offset_def index_of_def)

lemma cached_bracket:
  assumes "cache_ok n l" "lx_rest l = CHR ''['' # t"
  shows "closingBracket n l = first_bracket n l"
  using assms first_bracket_next [OF assms(2), of n] unfolding cache_ok_def closingBracket_def first_bracket_def by auto

lemma bracket_closing:
  assumes "c = CHR ''['' \<Longrightarrow> closing n l = closing' n l"
  shows "bracket closing n d c l = bracket closing' n d c l"
  using assms by (simp add: bracket_def Let_def)

lemma offset_res [simp]: "offset n (update_res f l) = offset n l" "lx_rest (update_res f l) = lx_rest l" "lx_next (update_res f l) = lx_next l"
  by (simp_all add: offset_def update_res_def)

lemma closing_res: "closingBracket n (update_res f l) = closingBracket n l" "first_bracket n (update_res f l) = first_bracket n l"
  by (simp_all add: closingBracket_def first_bracket_def split: option.split)

lemma step_cached:
  assumes "cache_ok n l" "lx_rest l \<noteq> []"
  shows "lex_step closingBracket n d l = lex_step first_bracket n d l"
proof -
  have e: "closingBracket n l = first_bracket n l" if "hd (lx_rest l) = CHR ''[''"
    using cached_bracket [OF assms(1), of "tl (lx_rest l)"] that assms(2) by (metis list.collapse)
  have b: "bracket closingBracket n d (hd (lx_rest l)) (if g then update_res f l else l) = bracket first_bracket n d (hd (lx_rest l)) (if g then update_res f l else l)" for f g
    by (rule bracket_closing) (use e in \<open>auto simp: closing_res\<close>)
  show ?thesis unfolding lex_step_def Let_def b by (rule refl)
qed

lemma step_next: "lx_next (fst (lex_step closing n d l)) = lx_next l
    \<or> (hd (lx_rest l) = CHR ''['' \<and> (\<exists>f. lx_next (fst (lex_step closing n d l)) = closing n (update_res f l)))"
proof -
  have i: "l = update_res (\<lambda>x. x) l" by (simp add: update_res_def)
  have s: "lx_next (fst (scanned e r l')) = lx_next l'" "lx_next (fst (advance u l')) = lx_next l'" for e r u l'
    by (simp_all add: scanned_def advance_def update_res_def split: option.splits)
  have w: "lx_next (fst (lex_word d l')) = lx_next l'" "lx_next (fst (dollar l')) = lx_next l'" "lx_next (fst (skipBlockComment d l')) = lx_next l'"
    "lx_next (skipLineComment l') = lx_next l'" for l'
    by (simp_all add: lex_word_def dollar_def skipBlockComment_def skipLineComment_def qQuote_def Let_def s update_res_def)
  have b: "lx_next (fst (bracket closing n d c l')) = lx_next l' \<or> (c = CHR ''['' \<and> lx_next (fst (bracket closing n d c l')) = closing n l')" for c l'
    by (auto simp: bracket_def Let_def s)
  have u: "lx_next (fst (bracket closing n d c (update_res f l))) = lx_next l
      \<or> (c = CHR ''['' \<and> (\<exists>h. lx_next (fst (bracket closing n d c (update_res f l))) = closing n (update_res h l)))" for c f
    using b [of c "update_res f l"] by auto
  have v: "lx_next (fst (bracket closing n d c l)) = lx_next l
      \<or> (c = CHR ''['' \<and> (\<exists>h. lx_next (fst (bracket closing n d c l)) = closing n (update_res h l)))" for c
    using u [of c "\<lambda>x. x"] i by simp
  show ?thesis
  proof (cases "statementEnd (lx_res l) \<ge> 0")
    case True
    show ?thesis using u [of "hd (lx_rest l)" "\<lambda>res. res\<lparr>trailing := True\<rparr>"] True unfolding lex_step_def Let_def by (simp add: s w)
  next
    case False
    show ?thesis using v [of "hd (lx_rest l)"] False unfolding lex_step_def Let_def by (simp add: s w)
  qed
qed

lemma step_keeps_cache:
  assumes "cache_ok n l" "lx_rest l \<noteq> []" "lex_step first_bracket n d l = (l', None)"
  shows "cache_ok n l'"
proof -
  have suf: "suffix (lx_rest l') (lx_rest l)" using step_reads [OF assms(2), of first_bracket n d] assms(3) by (simp add: reads_on_def strict_suffix_def)
  have len: "length (lx_rest l) \<le> n" "length (lx_rest l') \<le> length (lx_rest l)" using assms(1) suffix_length_le [OF suf] by (simp_all add: cache_ok_def)
  have off: "offset n l \<le> offset n l'" using len by (simp add: offset_def)
  have nb: "(next_bracket n (lx_rest l) \<le> offset n l' \<and> next_bracket n (lx_rest l) < int n) \<or> next_bracket n (lx_rest l) = next_bracket n (lx_rest l')"
    using next_bracket_suffix [OF suf len(1)] by (simp add: offset_def)
  from step_next [of first_bracket n d l] assms(3)
  consider "lx_next l' = lx_next l" | "hd (lx_rest l) = CHR ''[''" "lx_next l' = first_bracket n l" by (auto simp: closing_res)
  then show ?thesis
  proof cases
    case 1
    then show ?thesis using assms(1) nb off len by (auto simp: cache_ok_def)
  next
    case 2
    then have "lx_next l' = next_bracket n (lx_rest l)" using first_bracket_next [of l "tl (lx_rest l)" n] assms(2) by (metis list.collapse)
    then show ?thesis using nb len by (auto simp: cache_ok_def)
  qed
qed

lemma loop_cached: "cache_ok n l \<Longrightarrow> lex_loop closingBracket k n d l = lex_loop first_bracket k n d l"
proof (induction k arbitrary: l)
  case (Suc k)
  show ?case
  proof (cases "lx_rest l = []")
    case False
    show ?thesis using step_cached [OF Suc.prems False, of d] step_keeps_cache [OF Suc.prems False, of d] Suc.IH False
      by (simp split: prod.split option.split)
  qed simp
qed simp

lemma lexSQL_reference: "lexSQL s d = lex_with first_bracket s d"
  using loop_cached [of "length s" "lex_init s" "length s" d]
  by (simp add: lexSQL_def lex_with_def cache_ok_def lex_init_def offset_def)

end
