(* ===== verification/FilterSafety.thy ===== *)
theory FilterSafety
  imports SqlSafety
begin

text \<open>
  A filter that \<open>ValidateWhereClause\<close> accepts stays inside the parentheses it is placed in. The lexer that reads
  the filter alone is simulated by the lexer that reads it inside a longer text: while the former reports nothing,
  the latter makes the same steps, at the depth it started from.
\<close>

section \<open>What the lexer reports\<close>

definition reported :: "sqlLexer \<Rightarrow> int \<times> bool \<times> string \<times> string" where
  "reported l = (statementEnd (lx_res l), unbalanced (lx_res l), keyword (lx_res l), forbidden (lx_res l))"

definition clean :: "sqlLexer \<Rightarrow> bool" where
  "clean l \<longleftrightarrow> statementEnd (lx_res l) < 0 \<and> \<not> unbalanced (lx_res l) \<and> keyword (lx_res l) = '''' \<and> forbidden (lx_res l) = ''''"

lemma clean_moved [simp]:
  "clean (l\<lparr>lx_rest := r\<rparr>) = clean l" "clean (l\<lparr>lx_parens := p\<rparr>) = clean l" "clean (l\<lparr>lx_brackets := b\<rparr>) = clean l" "clean (l\<lparr>lx_next := e\<rparr>) = clean l"
  by (simp_all add: clean_def)

lemma to_upper_empty: "to_upper w = '''' \<longleftrightarrow> w = ''''"
  by (simp add: to_upper_def)

lemma destructive_word: "destructiveSQLKeyword w \<Longrightarrow> w \<noteq> ''''"
proof
  assume "destructiveSQLKeyword w" "w = ''''"
  moreover have "\<not> destructiveSQLKeyword ''''" by code_simp
  ultimately show False by simp
qed

text \<open>What no step takes back.\<close>

definition grows :: "sqlLexer \<Rightarrow> sqlLexer \<Rightarrow> bool" where
  "grows l l' \<longleftrightarrow> (clean l' \<longrightarrow> clean l) \<and> (lineComment (lx_res l) \<longrightarrow> lineComment (lx_res l')) \<and> (comments (lx_res l) \<longrightarrow> comments (lx_res l'))"

lemma grows_ends [simp]: "grows l (fst (advance u l')) \<longleftrightarrow> grows l l'" "grows l (fst (scanned e r l')) \<longleftrightarrow> grows l l'"
  by (auto simp: grows_def advance_def scanned_def split: option.splits)

lemma grows_moved [simp]:
  "grows l (l'\<lparr>lx_rest := r\<rparr>) = grows l l'" "grows l (l'\<lparr>lx_parens := p\<rparr>) = grows l l'" "grows l (l'\<lparr>lx_brackets := b\<rparr>) = grows l l'"
  "grows l (l'\<lparr>lx_next := e\<rparr>) = grows l l'" "grows l l"
  by (simp_all add: grows_def)

lemma clean_updates:
  "clean (update_res (\<lambda>res. res\<lparr>comments := True\<rparr>) l) = clean l"
  "clean (update_res (\<lambda>res. res\<lparr>lineComment := True\<rparr>) l) = clean l"
  "clean (update_res (\<lambda>res. res\<lparr>trailing := True\<rparr>) l) = clean l"
  "clean (update_res (\<lambda>res. res\<lparr>forbidden := ''executable comments''\<rparr>) l) = False"
  "clean (update_res (\<lambda>res. res\<lparr>unbalanced := unbalanced res \<or> b\<rparr>) l) \<longleftrightarrow> clean l \<and> \<not> b"
  "clean (update_res (\<lambda>res. res\<lparr>statementEnd := (if statementEnd res < 0 then e else statementEnd res)\<rparr>) l) \<longleftrightarrow> clean l \<and> e < 0"
  by (auto simp: clean_def update_res_def)

lemma clean_word: "clean (update_res (\<lambda>res. res\<lparr>firstWord := f res, lastWord := w, keyword := (if keyword res = '''' \<and> destructiveSQLKeyword w then to_upper w else keyword res)\<rparr>) l)
    \<longleftrightarrow> clean l \<and> \<not> destructiveSQLKeyword w"
  using destructive_word [of w] by (auto simp: clean_def update_res_def to_upper_empty)

lemma grows_update: "(clean (update_res f l') \<Longrightarrow> clean l') \<Longrightarrow> (\<And>r. lineComment r \<Longrightarrow> lineComment (f r)) \<Longrightarrow> (\<And>r. comments r \<Longrightarrow> comments (f r))
    \<Longrightarrow> grows l l' \<Longrightarrow> grows l (update_res f l')"
  by (auto simp: grows_def update_res_def)

lemma grows_updates [simp]:
  assumes "grows l l'"
  shows "grows l (update_res (\<lambda>res. res\<lparr>comments := True\<rparr>) l')" "grows l (update_res (\<lambda>res. res\<lparr>lineComment := True\<rparr>) l')"
    "grows l (update_res (\<lambda>res. res\<lparr>trailing := True\<rparr>) l')" "grows l (update_res (\<lambda>res. res\<lparr>forbidden := ''executable comments''\<rparr>) l')"
    "grows l (update_res (\<lambda>res. res\<lparr>unbalanced := unbalanced res \<or> b\<rparr>) l')"
    "grows l (update_res (\<lambda>res. res\<lparr>statementEnd := (if statementEnd res < 0 then e else statementEnd res)\<rparr>) l')"
    "grows l (update_res (\<lambda>res. res\<lparr>firstWord := f res, lastWord := w, keyword := (if keyword res = '''' \<and> destructiveSQLKeyword w then to_upper w else keyword res)\<rparr>) l')"
  by (rule grows_update [OF _ _ _ assms]; simp add: clean_updates clean_word)+

lemma step_grows: "grows l (fst (lex_step closing n d l))"
proof -
  have 1: "grows l (skipLineComment l')" "grows l (fst (skipBlockComment d l'))" if "grows l l'" for l'
    using that by (simp_all add: skipLineComment_def skipBlockComment_def Let_def)
  have 2: "grows l (fst (bracket closing n d b l'))" if "grows l l'" for b l' using that by (simp add: bracket_def Let_def)
  have 3: "grows l (fst (dollar l'))" "grows l (fst (lex_word d l'))" if "grows l l'" for l'
    using that by (simp_all add: dollar_def lex_word_def qQuote_def Let_def)
  show ?thesis unfolding lex_step_def Let_def using 1 2 3 by simp
qed

lemma step_line_comment: "lineComment (lx_res (fst (lex_step closing n d l))) \<Longrightarrow> lineComment (lx_res l) \<or> comments (lx_res (fst (lex_step closing n d l)))"
proof -
  have u: "lineComment (lx_res (fst (advance r l'))) = lineComment (lx_res l')" "lineComment (lx_res (fst (scanned e x l'))) = lineComment (lx_res l')" for r e x l'
    by (simp_all add: advance_def scanned_def split: option.split)
  have w: "lineComment (lx_res (fst (lex_word d l'))) = lineComment (lx_res l')" "lineComment (lx_res (fst (dollar l'))) = lineComment (lx_res l')"
    "lineComment (lx_res (fst (bracket closing n d c l'))) = lineComment (lx_res l')" for c l'
    by (simp_all add: lex_word_def dollar_def bracket_def qQuote_def Let_def u update_res_def)
  have b: "comments (lx_res (fst (skipBlockComment d l)))" "comments (lx_res (skipLineComment l))"
    by (simp_all add: skipBlockComment_def skipLineComment_def scanned_def Let_def update_res_def split: option.split)
  have "lineComment (lx_res (fst (lex_step closing n d l))) = lineComment (lx_res l)"
    if "isSQLSpace (hd (lx_rest l)) \<or> (\<not> lineCommentAt d (lx_rest l) \<and> \<not> has_prefix (lx_rest l) ''/*'')"
    using that unfolding lex_step_def Let_def by (auto simp: u w update_res_def)
  moreover have "comments (lx_res (fst (lex_step closing n d l)))"
    if "\<not> isSQLSpace (hd (lx_rest l))" "lineCommentAt d (lx_rest l) \<or> has_prefix (lx_rest l) ''/*''"
    using that b unfolding lex_step_def Let_def by (cases "lineCommentAt d (lx_rest l)") simp_all
  ultimately show "lineComment (lx_res (fst (lex_step closing n d l))) \<Longrightarrow> ?thesis" by blast
qed

lemma grows_trans: "grows a b \<Longrightarrow> grows b c \<Longrightarrow> grows a c"
  by (simp add: grows_def)

lemma loop_grows: "grows l (fst (lex_loop closing k n d l))"
proof (induction k arbitrary: l)
  case (Suc k)
  show ?case
  proof (cases "lx_rest l = []")
    case False
    then show ?thesis using step_grows [of l closing n d] Suc.IH grows_trans by (auto split: prod.split option.split)
  qed simp
qed simp

section \<open>The simulation\<close>

text \<open>
  \<open>core p b l0 m l\<close>: \<open>l\<close> is \<open>p\<close> parentheses and \<open>b\<close> brackets deeper than \<open>m\<close> and reports what \<open>l0\<close> does, and the comments of \<open>m\<close>.
  The text read alone may end in a line comment only if what follows it is a line end.
\<close>

definition core :: "int \<Rightarrow> int \<Rightarrow> sqlLexer \<Rightarrow> sqlLexer \<Rightarrow> sqlLexer \<Rightarrow> bool" where
  "core p b l0 m l \<longleftrightarrow> 0 \<le> p \<and> 0 \<le> b \<and> 0 \<le> lx_parens m \<and> 0 \<le> lx_brackets m
     \<and> lx_parens l = p + lx_parens m \<and> lx_brackets l = b + lx_brackets m \<and> reported l = reported l0
     \<and> (comments (lx_res l) \<longleftrightarrow> comments (lx_res l0) \<or> comments (lx_res m))"

definition follows :: "(sqlLexer \<Rightarrow> sqlLexer \<Rightarrow> bool) \<Rightarrow> string \<Rightarrow> lexed \<Rightarrow> lexed \<Rightarrow> bool" where
  "follows C a x y \<longleftrightarrow> (snd x = None \<longrightarrow> clean (fst x) \<longrightarrow> (lineComment (lx_res (fst x)) \<longrightarrow> hd a = CHR 0x0A) \<longrightarrow> snd y = None \<and> C (fst x) (fst y) \<and> lx_rest (fst y) = lx_rest (fst x) @ a)"

lemma follows_advance: "(clean m \<Longrightarrow> C (m\<lparr>lx_rest := u\<rparr>) (l\<lparr>lx_rest := u @ a\<rparr>)) \<Longrightarrow> follows C a (advance u m) (advance (u @ a) l)"
  by (simp add: follows_def advance_def)

lemma follows_scanned:
  assumes "\<And>u. clean m \<Longrightarrow> C (m\<lparr>lx_rest := u\<rparr>) (l\<lparr>lx_rest := u @ a\<rparr>)" "\<And>u. r = Some u \<Longrightarrow> r' = Some (u @ a)"
  shows "follows C a (scanned e r m) (scanned e r' l)"
  using assms by (cases r) (simp_all add: follows_def scanned_def)

lemma core_moved [simp]:
  "core p b l0 (m\<lparr>lx_rest := u\<rparr>) l = core p b l0 m l" "core p b l0 (m\<lparr>lx_next := e\<rparr>) l = core p b l0 m l"
  "core p b l0 m (l\<lparr>lx_rest := u\<rparr>) = core p b l0 m l" "core p b l0 m (l\<lparr>lx_next := e\<rparr>) = core p b l0 m l"
  "(\<And>r. comments (f r) = comments r) \<Longrightarrow> core p b l0 (update_res f m) l = core p b l0 m l"
  by (simp_all add: core_def reported_def update_res_def)

lemma update_res_id [simp]: "update_res (\<lambda>res. res) l = l"
  by (simp add: update_res_def)

lemma core_trailing [simp]: "core p b l0 m (update_res (\<lambda>res. res\<lparr>trailing := True\<rparr>) l) = core p b l0 m l"
  by (simp add: core_def reported_def update_res_def)

lemma core_parens: "core p b l0 (m\<lparr>lx_parens := x\<rparr>) (l\<lparr>lx_parens := y\<rparr>) \<longleftrightarrow>
    0 \<le> p \<and> 0 \<le> b \<and> 0 \<le> x \<and> 0 \<le> lx_brackets m \<and> y = p + x \<and> lx_brackets l = b + lx_brackets m \<and> reported l = reported l0
    \<and> (comments (lx_res l) \<longleftrightarrow> comments (lx_res l0) \<or> comments (lx_res m))"
  by (simp add: core_def reported_def)

lemma core_brackets: "core p b l0 (m\<lparr>lx_brackets := x\<rparr>) (l\<lparr>lx_brackets := y\<rparr>) \<longleftrightarrow>
    0 \<le> p \<and> 0 \<le> b \<and> 0 \<le> lx_parens m \<and> 0 \<le> x \<and> lx_parens l = p + lx_parens m \<and> y = b + x \<and> reported l = reported l0
    \<and> (comments (lx_res l) \<longleftrightarrow> comments (lx_res l0) \<or> comments (lx_res m))"
  by (simp add: core_def reported_def)

lemma core_unbalanced: "\<not> y \<Longrightarrow> core p b l0 m (update_res (\<lambda>res. res\<lparr>unbalanced := unbalanced res \<or> y\<rparr>) l) = core p b l0 m l"
  by (simp add: core_def reported_def update_res_def)

lemma core_word: "\<not> destructiveSQLKeyword w \<Longrightarrow> core p b l0 m
    (update_res (\<lambda>res. res\<lparr>firstWord := f res, lastWord := w, keyword := (if keyword res = '''' \<and> destructiveSQLKeyword w then to_upper w else keyword res)\<rparr>) l) = core p b l0 m l"
  by (simp add: core_def reported_def update_res_def)

lemma core_plain_word [simp]: "core p b l0 m (update_res (\<lambda>res. res\<lparr>firstWord := f res, lastWord := w\<rparr>) l) = core p b l0 m l"
  by (simp add: core_def reported_def update_res_def)

text \<open>A character that ends a token of the text before it: a closing parenthesis or a line end.\<close>

definition stops :: "char \<Rightarrow> bool" where
  "stops z \<longleftrightarrow> z = CHR '')'' \<or> z = CHR 0x0A"

lemma stops_plain: "stops z \<Longrightarrow> \<not> isSQLIdentPart z \<and> \<not> is_digit z \<and> \<not> isSQLIdentStart z \<and> \<not> high_byte z \<and> \<not> isPlainSQLName [z]"
proof -
  have "list_all (\<lambda>z. \<not> isSQLIdentPart z \<and> \<not> is_digit z \<and> \<not> isSQLIdentStart z \<and> \<not> high_byte z \<and> \<not> isPlainSQLName [z]) [CHR '')'', CHR 0x0A]" by code_simp
  moreover assume "stops z"
  ultimately show ?thesis by (auto simp: stops_def)
qed

lemma stops_char: "stops z \<Longrightarrow> z \<noteq> CHR 0x27 \<and> z \<noteq> CHR 0x22 \<and> z \<noteq> CHR 0x60 \<and> z \<noteq> CHR '']'' \<and> z \<noteq> CHR ''-'' \<and> z \<noteq> CHR ''/'' \<and> z \<noteq> CHR ''*'' \<and> z \<noteq> CHR 0x24"
  by (auto simp: stops_def)

lemma plain_name_stop: "stops z \<Longrightarrow> \<not> isPlainSQLName (u @ z # v)"
  using stops_plain [of z] by (simp add: isPlainSQLName_def)

text \<open>The bracket step over the text alone.\<close>

definition bracket_ends :: "string \<Rightarrow> nat option" where
  "bracket_ends r = (case index_of (CHR '']'') r of None \<Rightarrow> None | Some k \<Rightarrow> if isPlainSQLName (take (nat k) r) then Some (Suc (nat k)) else None)"

lemma bracket_open: "\<not> bracketIdents d \<Longrightarrow> lx_rest l = CHR ''['' # r \<Longrightarrow> bracket first_bracket n d (CHR ''['') l = (case bracket_ends r of
      Some k \<Rightarrow> advance (List.drop k r) (l\<lparr>lx_next := first_bracket n l\<rparr>)
    | None \<Rightarrow> advance r (l\<lparr>lx_next := first_bracket n l, lx_brackets := lx_brackets l + 1\<rparr>))"
  using index_of_less [of "CHR '']''" r]
  by (auto simp: bracket_def Let_def bracket_ends_def first_bracket_def offset_def split: option.splits)

lemma bracket_ends_more:
  assumes z: "stops z"
  shows "bracket_ends (r @ z # post) = bracket_ends r"
proof (cases "CHR '']'' \<in> set r")
  case True
  then obtain k where k: "index_of (CHR '']'') r = Some k" by (auto simp: index_of_def)
  moreover have "nat k - length r = 0" using index_of_less [OF k] by (simp add: nat_le_iff)
  ultimately show ?thesis using True by (simp add: bracket_ends_def index_of_append)
next
  case False
  then have n: "index_of (CHR '']'') r = None" by (simp add: index_of_def)
  have "bracket_ends (r @ z # post) = None"
  proof (cases "index_of (CHR '']'') post")
    case None
    then show ?thesis using False by (simp add: bracket_ends_def index_of_append index_of_Cons stops_char [OF z])
  next
    case (Some k)
    have "nat (int (length r) + (1 + k)) = length r + Suc (nat k)" using index_of_less [OF Some] by arith
    then show ?thesis using False Some plain_name_stop [OF z, of r "take (nat k) post"] by (simp add: bracket_ends_def index_of_append index_of_Cons stops_char [OF z])
  qed
  then show ?thesis using n by (simp add: bracket_ends_def)
qed

lemma bracket_ends_length: "bracket_ends r = Some k \<Longrightarrow> k \<le> length r"
  using index_of_less [of "CHR '']''" r] by (auto simp: bracket_ends_def split: option.splits if_splits)

lemma while_more: "\<not> P x \<Longrightarrow> takeWhile P (u @ x # v) = takeWhile P u" "\<not> P x \<Longrightarrow> dropWhile P (u @ x # v) = dropWhile P u @ x # v"
  by (induction u) auto

lemma two_more: "r \<noteq> [] \<Longrightarrow> y \<noteq> z \<Longrightarrow> has_prefix (r @ z # post) [x, y] = has_prefix r [x, y]"
  by (cases r; cases "tl r") (auto simp: has_prefix_def)

lemma line_comment_more:
  assumes "stops z" "r \<noteq> []" "z = CHR 0x0A \<or> r \<noteq> ''--''"
  shows "lineCommentAt d (r @ z # post) = lineCommentAt d r"
proof -
  have p: "has_prefix (r @ z # post) ''--'' = has_prefix r ''--''" "has_prefix (r @ z # post) ''//'' = has_prefix r ''//''"
    using two_more [of r "CHR ''-''" z post "CHR ''-''"] two_more [of r "CHR ''/''" z post "CHR ''/''"] stops_char [OF assms(1)] assms(2) by auto
  have "(length (r @ z # post) \<le> 2 \<or> (r @ z # post) ! 2 \<le> CHR 0x20) = (length r \<le> 2 \<or> r ! 2 \<le> CHR 0x20)" if h: "has_prefix r ''--''"
  proof (cases "length r \<le> 2")
    case True
    then have "r = ''--''" using h by (simp add: has_prefix_def)
    then show ?thesis using assms(3) by (simp add: less_eq_char_def)
  qed (simp add: nth_append)
  then show ?thesis unfolding lineCommentAt_def p using assms(2) by auto
qed

lemma found_more:
  assumes "find_at p r = Some z" "k \<le> length p"
  shows "map_option (List.drop k) (find_at p (r @ a)) = Some (List.drop k z @ a)"
  using find_at_more [OF assms(1), of a] prefix_length_le [OF find_at_prefix [OF assms(1)]] assms(2) by simp

lemma follows_found:
  assumes "core p b l0 m l" "k \<le> length x"
  shows "follows (core p b l0) a (scanned e (map_option (List.drop k) (find_at x r)) m) (scanned e (map_option (List.drop k) (find_at x (r @ a))) l)"
proof (cases "find_at x r")
  case (Some z)
  show ?thesis unfolding Some option.map found_more [OF Some assms(2)] by (rule follows_scanned) (use assms(1) in simp_all)
qed (simp add: scanned_def follows_def)

lemma follows_quoted:
  assumes "core p b l0 m l" "c \<noteq> q"
  shows "follows (core p b l0) (c # post) (scanned e (skip_quoted q bs r) m) (scanned e (skip_quoted q bs (r @ c # post)) l)"
  by (rule follows_scanned) (use assms in \<open>auto simp: skip_quoted_more\<close>)

lemma follows_read:
  assumes "core p b l0 m l"
  shows "follows (core p b l0) a (advance u m) (advance (u @ a) l)"
  by (rule follows_advance) (use assms in simp)

lemma dollar_tag_more: "stops z \<Longrightarrow> dollar_tag (r @ z # post) = dollar_tag r"
  using stops_plain [of z] by (cases r) (auto simp: dollar_tag_def while_more)

lemma dollar_tag_length: "length (dollar_tag r) \<le> length r"
  by (simp add: dollar_tag_def length_takeWhile_le)

lemma dollar_follows:
  assumes "core p b l0 m l" "lx_rest m = c # r" "lx_rest l = c # r @ z # post"
  and z: "stops z"
  shows "follows (core p b l0) (z # post) (dollar m) (dollar l)"
proof -
  define t where "t = dollar_tag r"
  define q where "q = List.drop (length t) r"
  have q: "List.drop (length t) (r @ z # post) = q @ z # post" using dollar_tag_length [of r] by (simp add: q_def t_def)
  have m: "dollar m = (if q = [] \<or> hd q \<noteq> CHR 0x24 then advance r m
      else scanned UnterminatedDollar (map_option (List.drop (length t + 2)) (find_at (CHR 0x24 # t @ [CHR 0x24]) (tl q))) m)"
    by (simp only: dollar_def Let_def assms(2) list.sel q_def t_def)
  have l: "dollar l = (if q = [] \<or> hd q \<noteq> CHR 0x24 then advance (r @ z # post) l
      else scanned UnterminatedDollar (map_option (List.drop (length t + 2)) (find_at (CHR 0x24 # t @ [CHR 0x24]) (tl q @ z # post))) l)"
    unfolding dollar_def Let_def assms(3) list.sel dollar_tag_more [OF z] t_def [symmetric] q using stops_char [OF z] by (cases q) simp_all
  show ?thesis unfolding m l by (simp add: follows_read [OF assms(1)] follows_found [OF assms(1)])
qed

lemma qQuote_follows:
  assumes "core p b l0 m l"
  shows "follows (core p b l0) a (qQuote r m) (qQuote (r @ a) l)"
proof (cases r)
  case (Cons x t)
  have "2 \<le> length (byte_text (closing_quote x) @ [CHR 0x27])" by (simp add: byte_text_def Let_def)
  then show ?thesis using Cons follows_found [OF assms] by (simp add: qQuote_def)
qed (simp add: qQuote_def scanned_def follows_def)

lemma word_follows:
  assumes "core p b l0 m l" "lx_rest l = lx_rest m @ z # post"
  and z: "stops z"
  shows "follows (core p b l0) (z # post) (lex_word d m) (lex_word d l)"
proof -
  define w where "w = takeWhile isSQLIdentPart (lx_rest m)"
  define r where "r = dropWhile isSQLIdentPart (lx_rest m)"
  define a where "a = z # post"
  have w: "takeWhile isSQLIdentPart (lx_rest l) = w" "dropWhile isSQLIdentPart (lx_rest l) = r @ a"
    using assms(2) stops_plain [OF z] by (simp_all add: while_more w_def r_def a_def)
  have q: "(r @ a \<noteq> [] \<and> hd (r @ a) = CHR 0x27) = (r \<noteq> [] \<and> hd r = CHR 0x27)" using stops_char [OF z] by (cases r) (simp_all add: a_def)
  have tl: "tl (r @ a) = tl r @ a" if "r \<noteq> []" using that by (cases r) simp_all
  have b: "lx_brackets m \<noteq> 0 \<Longrightarrow> lx_brackets l \<noteq> 0" using assms(1) by (simp add: core_def)
  have k: "follows (core p b l0) a (advance r (update_res (\<lambda>res. res\<lparr>firstWord := f res, lastWord := w, keyword := (if keyword res = '''' \<and> destructiveSQLKeyword w then to_upper w else keyword res)\<rparr>) m))
    (advance (r @ a) (update_res (\<lambda>res. res\<lparr>firstWord := g res, lastWord := w, keyword := (if keyword res = '''' \<and> destructiveSQLKeyword w then to_upper w else keyword res)\<rparr>) l))"
    "follows (core p b l0) a (advance r (update_res (\<lambda>res. res\<lparr>firstWord := f res, lastWord := w, keyword := f' res\<rparr>) m)) (advance (r @ a) l)" for f g f'
    by (rule follows_advance; use assms(1) in \<open>simp add: clean_word core_word\<close>)+
  have s: "follows (core p b l0) a (scanned e (skip_quoted (CHR 0x27) bs u) m) (scanned e (skip_quoted (CHR 0x27) bs (u @ a)) l)" for e bs u
    unfolding a_def by (rule follows_quoted [OF assms(1)]) (use stops_char [OF z] in simp)
  show ?thesis unfolding lex_word_def Let_def w w_def [symmetric] r_def [symmetric] a_def [symmetric] q
    using k b tl s qQuote_follows [OF assms(1), of a "tl r"] follows_read [OF assms(1), of a r]
    by (cases "equal_fold w ''Q''"; cases "equal_fold w ''NQ''"; simp)
qed

lemma bracket_follows:
  assumes "core p b l0 m l" "lx_rest m = c # r" "lx_rest l = c # r @ z # post" "c = CHR ''['' \<or> c = CHR '']''" and z: "stops z"
  shows "follows (core p b l0) (z # post) (bracket first_bracket nm d c m) (bracket first_bracket nl d c l)"
proof -
  note c = assms(1) [unfolded core_def]
  consider "c = CHR ''[''" "bracketIdents d" | "c = CHR ''[''" "\<not> bracketIdents d" | "c = CHR '']''" using assms(4) by auto
  then show ?thesis
  proof cases
    case 1
    then show ?thesis using assms(2,3) follows_quoted [OF assms(1), of z "CHR '']''"] stops_char [OF z] by (simp add: bracket_def Let_def)
  next
    case 2
    note o = bracket_open [OF 2(2), of m r nm] bracket_open [OF 2(2), of l "r @ z # post" nl]
    have "follows (core p b l0) (z # post) (advance r (m\<lparr>lx_next := first_bracket nm m, lx_brackets := lx_brackets m + 1\<rparr>))
        (advance (r @ z # post) (l\<lparr>lx_next := first_bracket nl l, lx_brackets := lx_brackets l + 1\<rparr>))"
      by (rule follows_read) (use c in \<open>simp add: core_brackets reported_def\<close>)
    moreover have "follows (core p b l0) (z # post) (advance (List.drop k r) (m\<lparr>lx_next := first_bracket nm m\<rparr>))
        (advance (List.drop k (r @ z # post)) (l\<lparr>lx_next := first_bracket nl l\<rparr>))" if "k \<le> length r" for k
      using that assms(1) follows_read [of p b l0 "m\<lparr>lx_next := first_bracket nm m\<rparr>" "l\<lparr>lx_next := first_bracket nl l\<rparr>" _ "List.drop k r"] by simp
    ultimately show ?thesis using o assms(2,3) 2(1) bracket_ends_length [of r]
      by (cases "bracket_ends r") (simp_all only: bracket_ends_more [OF z] option.case list.simps simp_thms append_Cons)
  next
    case 3
    then show ?thesis using assms(2,3) c
      by (auto simp: bracket_def Let_def clean_updates core_unbalanced core_brackets intro!: follows_advance)
  qed
qed

text \<open>One step of the lexer that reads the filter alone is one step of the lexer that reads it inside the text.\<close>

lemma follows_if: "(g \<Longrightarrow> follows C a x y) \<Longrightarrow> (\<not> g \<Longrightarrow> follows C a x' y') \<Longrightarrow> follows C a (if g then x else x') (if g then y else y')"
  by simp

lemma line_comment_follows:
  assumes "core p b l0 m l" "lx_rest m = r" "lx_rest l = r @ z # post"
  shows "follows (core p b l0) (z # post) (skipLineComment m, None) (skipLineComment l, None)"
proof (cases "dropWhile (\<lambda>c. c \<noteq> CHR 0x0D \<and> c \<noteq> CHR 0x0A) r")
  case Nil
  then have "\<forall>c \<in> set r. c \<noteq> CHR 0x0D \<and> c \<noteq> CHR 0x0A" by (simp add: dropWhile_eq_Nil_conv)
  then have "z = CHR 0x0A \<Longrightarrow> dropWhile (\<lambda>c. c \<noteq> CHR 0x0D \<and> c \<noteq> CHR 0x0A) (r @ z # post) = z # post" by (simp add: dropWhile_append2)
  then show ?thesis using assms Nil by (auto simp: follows_def skipLineComment_def Let_def update_res_def core_def reported_def)
next
  case (Cons c u)
  then have "dropWhile (\<lambda>c. c \<noteq> CHR 0x0D \<and> c \<noteq> CHR 0x0A) (r @ z # post) = c # u @ z # post"
    by (induction r) (auto split: if_splits)
  then show ?thesis using assms Cons by (auto simp: follows_def skipLineComment_def Let_def update_res_def core_def reported_def)
qed

lemma block_comment_follows:
  assumes "core p b l0 m l" "lx_rest m = r" "lx_rest l = r @ z # post" "has_prefix r ''/*''"
  shows "follows (core p b l0) (z # post) (skipBlockComment d m) (skipBlockComment d l)"
proof (cases "block_end (nestedComments d) 0 r")
  case None
  then show ?thesis using assms(2) by (simp add: follows_def skipBlockComment_def Let_def scanned_def)
next
  case (Some u)
  obtain t where t: "r = CHR ''/'' # CHR ''*'' # t" using assms(4) by (auto simp: has_prefix_iff prefix_def)
  then have "2 \<le> length t" using Some by (cases t; cases "tl t") simp_all
  then have len: "4 \<le> length r" using t by simp
  have x: "(has_prefix (r @ z # post) ''/*!'' \<or> has_prefix (r @ z # post) ''/*M!'') = (has_prefix r ''/*!'' \<or> has_prefix r ''/*M!'')"
    using len by (simp add: has_prefix_def)
  show ?thesis using assms Some block_end_more [OF Some, of "z # post"] x
    by (auto simp: follows_def skipBlockComment_def Let_def scanned_def clean_updates core_def reported_def update_res_def clean_def)
qed

lemma step_follows:
  assumes "core p b l0 m l" "lx_rest m = c # r" "lx_rest l = c # r @ z # post" "clean m" "length (lx_rest m) \<le> nm" and z: "stops z"
  shows "follows (core p b l0) (z # post) (lex_step first_bracket nm d m) (lex_step first_bracket nl d l)"
proof (cases "z \<noteq> CHR 0x0A \<and> c # r = ''--''")
  case True
  have "lineCommentAt d ''--''" "\<not> isSQLSpace (CHR ''-'')" by (simp add: lineCommentAt_def has_prefix_def) code_simp
  then have "lex_step first_bracket nm d m = (skipLineComment m, None)" using assms(2) True by (simp add: lex_step_def Let_def)
  moreover have "lineComment (lx_res (skipLineComment m))" using assms(2) True by (simp add: skipLineComment_def Let_def update_res_def)
  ultimately show ?thesis using True by (simp add: follows_def)
next
  case False
  define l1 where "l1 = (if statementEnd (lx_res l) \<ge> 0 then update_res (\<lambda>res. res\<lparr>trailing := True\<rparr>) l else l)"
  have l1: "core p b l0 m l1" "lx_rest l1 = c # r @ z # post" using assms(1,3) by (simp_all add: l1_def)
  note k = l1(1) [unfolded core_def]
  have st: "(if statementEnd (lx_res m) \<ge> 0 then update_res (\<lambda>res. res\<lparr>trailing := True\<rparr>) m else m) = m" using assms(4) by (simp add: clean_def)
  have zs: "CHR ''*'' \<noteq> z" using stops_char [OF z] by blast
  have "z = CHR 0x0A \<or> c # r \<noteq> ''--''" using False by (simp only: de_Morgan_conj not_not)
  then have n: "lineCommentAt d (c # r @ z # post) = lineCommentAt d (c # r)" "has_prefix (c # r @ z # post) ''/*'' = has_prefix (c # r) ''/*''"
    using line_comment_more [OF z, of "c # r" d post] two_more [OF _ zs, of "c # r" post "CHR ''/''"] by simp_all
  have parens: "follows (core p b l0) (z # post) (advance r (m\<lparr>lx_parens := lx_parens m + 1\<rparr>)) (advance (r @ z # post) (l1\<lparr>lx_parens := lx_parens l1 + 1\<rparr>))"
    by (rule follows_read) (use k in \<open>simp add: core_parens\<close>)
  have close: "follows (core p b l0) (z # post)
     (advance r (update_res (\<lambda>res. res\<lparr>unbalanced := unbalanced res \<or> lx_parens m - 1 < 0\<rparr>) (m\<lparr>lx_parens := lx_parens m - 1\<rparr>)))
     (advance (r @ z # post) (update_res (\<lambda>res. res\<lparr>unbalanced := unbalanced res \<or> lx_parens l1 - 1 < 0\<rparr>) (l1\<lparr>lx_parens := lx_parens l1 - 1\<rparr>)))"
    by (rule follows_advance) (use k in \<open>simp add: clean_updates core_unbalanced core_parens\<close>)
  have semi: "follows (core p b l0) a (advance r (update_res (\<lambda>res. res\<lparr>statementEnd := (if statementEnd res < 0 then offset nm m else statementEnd res)\<rparr>) m)) y" for a y
    using assms(5) by (simp add: follows_def advance_def clean_updates offset_def)
  have quoted: "c = CHR 0x27 \<or> c = CHR 0x22 \<or> c = CHR 0x60 \<Longrightarrow> c \<noteq> z" using stops_char [OF z] by auto
  have lc: "follows (core p b l0) (z # post) (skipLineComment m, None) (skipLineComment l, None)" "has_prefix (c # r) ''/*'' \<Longrightarrow> follows (core p b l0) (z # post) (skipBlockComment d m) (skipBlockComment d l)"
    using line_comment_follows [OF assms(1,2)] block_comment_follows [OF assms(1,2)] assms(3) by simp_all
  show ?thesis unfolding lex_step_def Let_def assms(2,3) list.sel st l1_def [symmetric] n
    by (intro follows_if)
      (use parens close semi lc bracket_follows [OF l1(1) assms(2) l1(2) _ z] dollar_follows [OF l1(1) assms(2) l1(2) z] word_follows [OF l1(1) _ z] assms(2) l1(2)
          follows_read [OF assms(1)] follows_read [OF l1(1)] follows_quoted [OF l1(1)] quoted in \<open>auto\<close>)
qed

section \<open>The loop\<close>

lemma loop_follows:
  assumes "lex_loop first_bracket k nm d m = (m', None)" "lx_rest m' = []" "clean m'" "core p b l0 m l" "lx_rest l = lx_rest m @ z # post"
    "length (lx_rest m) \<le> nm" "lineComment (lx_res m') \<longrightarrow> z = CHR 0x0A" and z: "stops z"
  shows "\<exists>j l'. lex_loop first_bracket j nl d l = (l', None) \<and> lx_rest l' = z # post \<and> core p b l0 m' l'
    \<and> (\<forall>i \<le> j. p \<le> lx_parens (fst (lex_loop first_bracket i nl d l)))"
  using assms(1-7)
proof (induction k arbitrary: m l)
  case 0
  then show ?case by (intro exI [of _ 0] exI [of _ l]) (simp add: core_def)
next
  case (Suc k)
  have p: "p \<le> lx_parens l" using Suc.prems(4) by (simp add: core_def)
  show ?case
  proof (cases "lx_rest m")
    case Nil
    then show ?thesis using Suc.prems p by (intro exI [of _ 0] exI [of _ l]) simp
  next
    case (Cons c r)
    obtain m2 where m2: "lex_step first_bracket nm d m = (m2, None)" "lex_loop first_bracket k nm d m2 = (m', None)"
      using Suc.prems(1) Cons by (auto split: prod.splits option.splits)
    have "grows m2 m'" using loop_grows [of m2 first_bracket k nm d] m2(2) by simp
    then have cl: "clean m2" "lineComment (lx_res m2) \<longrightarrow> z = CHR 0x0A" using Suc.prems(3,7) by (auto simp: grows_def)
    have cm: "clean m" using step_grows [of m first_bracket nm d] m2(1) cl(1) by (simp add: grows_def)
    have f: "follows (core p b l0) (z # post) (lex_step first_bracket nm d m) (lex_step first_bracket nl d l)"
      by (rule step_follows [OF Suc.prems(4) Cons _ cm Suc.prems(6) z]) (use Suc.prems(5) Cons in simp)
    then obtain l2 where l2: "lex_step first_bracket nl d l = (l2, None)" "core p b l0 m2 l2" "lx_rest l2 = lx_rest m2 @ z # post"
      using m2(1) cl by (cases "lex_step first_bracket nl d l") (simp add: follows_def)
    have len: "length (lx_rest m2) \<le> nm" using step_reads [of m first_bracket nm d] Cons m2(1) Suc.prems(6) suffix_length_le [of "lx_rest m2" "lx_rest m"]
      by (simp add: reads_on_def strict_suffix_def)
    have step: "lex_loop first_bracket (Suc i) nl d l = lex_loop first_bracket i nl d l2" for i using l2(1) Suc.prems(5) by simp
    obtain j l' where j: "lex_loop first_bracket j nl d l2 = (l', None)" "lx_rest l' = z # post" "core p b l0 m' l'"
        "\<forall>i \<le> j. p \<le> lx_parens (fst (lex_loop first_bracket i nl d l2))"
      using Suc.IH [OF m2(2) Suc.prems(2,3) l2(2,3) len Suc.prems(7)] by blast
    have "p \<le> lx_parens (fst (lex_loop first_bracket i nl d l))" if "i \<le> Suc j" for i
      using that p j(4) step by (cases i) (simp, simp only: Suc_le_mono)
    then show ?thesis using j(1-3) step [of j] by metis
  qed
qed

lemma loop_ends: "length (lx_rest l) \<le> k \<Longrightarrow> lex_loop closing k n d l = (l', None) \<Longrightarrow> lx_rest l' = []"
proof (induction k arbitrary: l)
  case (Suc k)
  show ?case
  proof (cases "lx_rest l = []")
    case True
    then show ?thesis using Suc.prems by simp
  next
    case False
    then obtain l2 where l2: "lex_step closing n d l = (l2, None)" "lex_loop closing k n d l2 = (l', None)"
      using Suc.prems(2) by (auto split: prod.splits option.splits)
    have "strict_suffix (lx_rest l2) (lx_rest l)" using step_reads [OF False, of closing n d] l2(1) by (simp add: reads_on_def)
    then have "length (lx_rest l2) < length (lx_rest l)" by (rule suffix_length_less)
    then show ?thesis using Suc.IH [OF _ l2(2)] Suc.prems(1) by simp
  qed
qed simp

lemma loop_add: "lex_loop closing i n d l = (l0, None) \<Longrightarrow> lex_loop closing (i + j) n d l = lex_loop closing j n d l0"
proof (induction i arbitrary: l)
  case (Suc i)
  show ?case
  proof (cases "lx_rest l = []")
    case True
    then show ?thesis using Suc.prems by (cases j) simp_all
  next
    case False
    then show ?thesis using Suc by (auto split: prod.splits option.splits)
  qed
qed simp

section \<open>Accepted filters\<close>

lemma where_loop_checks:
  "where_loop clause ds lexed lexErr = Inr out \<Longrightarrow> d \<in> set ds \<Longrightarrow> lexSQL clause d = (res, e) \<Longrightarrow>
    forbidden res = '''' \<and> statementEnd res < 0 \<and> \<not> comments res \<and> (e = None \<longrightarrow> \<not> unbalanced res \<and> keyword res = '''')"
proof (induction ds arbitrary: lexed lexErr)
  case (Cons x ds)
  obtain r y where xy: "lexSQL clause x = (r, y)" by (cases "lexSQL clause x")
  show ?case
  proof (cases "d = x")
    case True
    then show ?thesis using Cons.prems xy by (auto split: if_splits option.splits)
  next
    case False
    then show ?thesis using Cons.prems Cons.IH xy by (auto split: if_splits option.splits)
  qed
qed simp

lemma lexed_alone:
  assumes "lexSQL s d = (res, None)"
  obtains m where "lex_loop first_bracket (length s) (length s) d (lex_init s) = (m, None)" "lx_rest m = []"
    "res = (lx_res m)\<lparr>unbalanced := unbalanced (lx_res m) \<or> lx_parens m \<noteq> 0 \<or> lx_brackets m \<noteq> 0\<rparr>"
proof -
  obtain m where m: "lex_loop first_bracket (length s) (length s) d (lex_init s) = (m, None)"
      "res = (lx_res m)\<lparr>unbalanced := unbalanced (lx_res m) \<or> lx_parens m \<noteq> 0 \<or> lx_brackets m \<noteq> 0\<rparr>"
    using assms by (auto simp: lexSQL_reference lex_with_def split: prod.splits option.splits)
  then show thesis using that loop_ends [OF _ m(1)] by (simp add: lex_init_def)
qed

lemma no_line_comment:
  assumes "lexSQL s d = (res, e)" "\<not> comments res"
  shows "\<not> lineComment res"
proof -
  have "lineComment (lx_res (fst (lex_loop first_bracket k n d l))) \<longrightarrow> comments (lx_res (fst (lex_loop first_bracket k n d l)))"
    if "lineComment (lx_res l) \<longrightarrow> comments (lx_res l)" for k n l using that
  proof (induction k arbitrary: l)
    case (Suc k)
    have "lineComment (lx_res (fst (lex_step first_bracket n d l))) \<longrightarrow> comments (lx_res (fst (lex_step first_bracket n d l)))"
      using step_grows [of l first_bracket n d] step_line_comment [of first_bracket n d l] Suc.prems unfolding grows_def by blast
    then show ?case using Suc by (cases "lex_step first_bracket n d l") (simp split: option.split)
  qed simp
  moreover have "lineComment (lx_res (lex_init s)) \<longrightarrow> comments (lx_res (lex_init s))" by (simp add: lex_init_def)
  ultimately have "lineComment (lx_res (fst (lex_loop first_bracket (length s) (length s) d (lex_init s))))
    \<longrightarrow> comments (lx_res (fst (lex_loop first_bracket (length s) (length s) d (lex_init s))))" by blast
  then have "lineComment (fst (lex_with first_bracket s d)) \<longrightarrow> comments (fst (lex_with first_bracket s d))"
    unfolding lex_with_def by (cases "lex_loop first_bracket (length s) (length s) d (lex_init s)") (simp split: option.split)
  then show ?thesis using assms unfolding lexSQL_reference by simp
qed

lemma init_cached: "lex_loop closingBracket k (length s) d (lex_init s) = lex_loop first_bracket k (length s) d (lex_init s)"
  by (rule loop_cached) (simp add: cache_ok_def lex_init_def offset_def)

text \<open>
  The steps of the plain lexer over a text, from any state that stands before it, if the text read alone ends with nothing to
  report. What follows the text is a closing parenthesis, or a line end if the text ends in a line comment.
\<close>

lemma text_steps:
  assumes "lexSQL s d = (res, None)" "statementEnd res < 0" "\<not> unbalanced res" "keyword res = ''''" "forbidden res = ''''"
    and "stops z" "lineComment res \<longrightarrow> z = CHR 0x0A" "lx_rest l0 = s @ z # post" "0 \<le> lx_parens l0" "0 \<le> lx_brackets l0"
  obtains j l where "lex_loop first_bracket j n d l0 = (l, None)" "lx_rest l = z # post"
    "lx_parens l = lx_parens l0" "lx_brackets l = lx_brackets l0" "reported l = reported l0" "comments (lx_res l) = (comments (lx_res l0) \<or> comments res)"
    "\<forall>k \<le> j. lx_parens l0 \<le> lx_parens (fst (lex_loop first_bracket k n d l0))"
proof -
  obtain m where m: "lex_loop first_bracket (length s) (length s) d (lex_init s) = (m, None)" "lx_rest m = []"
      "res = (lx_res m)\<lparr>unbalanced := unbalanced (lx_res m) \<or> lx_parens m \<noteq> 0 \<or> lx_brackets m \<noteq> 0\<rparr>" by (rule lexed_alone [OF assms(1)])
  have c: "clean m" and z: "lx_parens m = 0" "lx_brackets m = 0" "lineComment (lx_res m) \<longrightarrow> z = CHR 0x0A"
    using assms(2-5,7) by (simp_all add: m(3) clean_def)
  have start: "core (lx_parens l0) (lx_brackets l0) l0 (lex_init s) l0" using assms(9,10) by (simp add: core_def lex_init_def)
  have rest: "lx_rest l0 = lx_rest (lex_init s) @ z # post" "length (lx_rest (lex_init s)) \<le> length s"
    using assms(8) by (simp_all add: lex_init_def)
  obtain j l where l: "lex_loop first_bracket j n d l0 = (l, None)" "lx_rest l = z # post" "core (lx_parens l0) (lx_brackets l0) l0 m l"
      "\<forall>k \<le> j. lx_parens l0 \<le> lx_parens (fst (lex_loop first_bracket k n d l0))"
    using loop_follows [OF m(1,2) c start rest z(3) assms(6), of n] by blast
  show thesis by (rule that [OF l(1,2) _ _ _ _ l(4)]) (use l(3) z in \<open>simp_all add: core_def m(3)\<close>)
qed

lemma filter_checks:
  assumes "ValidateWhereClause clause = Inr ()" "d \<in> set sqlDialects" "lexSQL clause d = (res, None)"
  shows "statementEnd res < 0 \<and> \<not> comments res \<and> \<not> unbalanced res \<and> keyword res = '''' \<and> forbidden res = ''''"
proof -
  obtain out where out: "where_loop clause sqlDialects False None = Inr out"
    using assms(1) by (cases "where_loop clause sqlDialects False None") (simp_all add: ValidateWhereClause_def)
  show ?thesis using where_loop_checks [OF out assms(2,3)] by simp
qed

lemma filter_steps:
  assumes "ValidateWhereClause clause = Inr ()" "d \<in> set sqlDialects" "snd (lexSQL clause d) = None"
    and "lx_rest l0 = clause @ CHR '')'' # post" "0 \<le> lx_parens l0" "0 \<le> lx_brackets l0"
  obtains j l where "lex_loop first_bracket j n d l0 = (l, None)" "lx_rest l = CHR '')'' # post"
    "lx_parens l = lx_parens l0" "lx_brackets l = lx_brackets l0" "reported l = reported l0" "comments (lx_res l) = comments (lx_res l0)"
    "\<forall>k \<le> j. lx_parens l0 \<le> lx_parens (fst (lex_loop first_bracket k n d l0))"
proof -
  obtain res where lexed: "lexSQL clause d = (res, None)" using assms(3) by (cases "lexSQL clause d") simp
  note ok = filter_checks [OF assms(1,2) lexed]
  have quiet: "\<not> lineComment res" using no_line_comment [OF lexed] ok by simp
  show thesis
    by (rule text_steps [OF lexed _ _ _ _ _ _ assms(4-6), of n]) (use ok quiet that in \<open>auto simp: stops_def\<close>)
qed

text \<open>
  C36. An accepted filter cannot leave the parentheses the connector places it in: in any text that holds the filter
  before a closing parenthesis, a dialect that can read the filter reads exactly the filter, never goes below
  the depth it started from, and stands before that parenthesis at the depth it started from, with no comment,
  executable comment, statement end, stray closing bracket or data-changing keyword seen in between.
\<close>

theorem filter_stays_in_its_parentheses:
  assumes "ValidateWhereClause clause = Inr ()" "d \<in> set sqlDialects" "snd (lexSQL clause d) = None"
    and "lex_loop closingBracket i (length s) d (lex_init s) = (l0, None)" "lx_rest l0 = clause @ CHR '')'' # post" "0 \<le> lx_parens l0" "0 \<le> lx_brackets l0"
  shows "\<exists>j l. lex_loop closingBracket (i + j) (length s) d (lex_init s) = (l, None) \<and> lx_rest l = CHR '')'' # post
     \<and> lx_parens l = lx_parens l0 \<and> lx_brackets l = lx_brackets l0 \<and> reported l = reported l0 \<and> comments (lx_res l) = comments (lx_res l0)
     \<and> (\<forall>k \<le> j. lx_parens l0 \<le> lx_parens (fst (lex_loop closingBracket (i + k) (length s) d (lex_init s))))"
proof -
  have s: "lex_loop closingBracket (i + k) (length s) d (lex_init s) = lex_loop first_bracket k (length s) d l0" for k
    using assms(4) unfolding init_cached by (rule loop_add)
  show ?thesis by (rule filter_steps [OF assms(1-3,5-7), of "length s"]) (auto simp: s)
qed

theorem filter_stays_in_its_parentheses_witness:
  "\<exists>l0 :: sqlLexer. lx_rest l0 = ''a = [b] + f(1)'' @ CHR '')'' # '' AND c > 3'' \<and> lx_parens l0 = 1
    \<and> (\<exists>j l. lex_loop closingBracket (3 + j) (length ''WHERE (a = [b] + f(1)) AND c > 3'') (hd sqlDialects) (lex_init ''WHERE (a = [b] + f(1)) AND c > 3'') = (l, None)
      \<and> lx_rest l = CHR '')'' # '' AND c > 3'' \<and> lx_parens l = lx_parens l0)"
proof -
  define s where "s = ''WHERE (a = [b] + f(1)) AND c > 3''"
  define l0 where "l0 = fst (lex_loop closingBracket 3 (length s) (hd sqlDialects) (lex_init s))"
  have v: "ValidateWhereClause ''a = [b] + f(1)'' = Inr ()" by code_simp
  have d: "hd sqlDialects \<in> set sqlDialects" by (simp add: sqlDialects_def)
  have r: "snd (lexSQL ''a = [b] + f(1)'' (hd sqlDialects)) = None" by code_simp
  have i: "lex_loop closingBracket 3 (length s) (hd sqlDialects) (lex_init s) = (l0, None)"
    unfolding l0_def by (rule prod_eqI) (simp, unfold s_def snd_conv, code_simp)
  have l: "lx_rest l0 = ''a = [b] + f(1)'' @ CHR '')'' # '' AND c > 3''" "lx_parens l0 = 1" "lx_brackets l0 = 0"
    unfolding l0_def s_def by code_simp+
  have p: "0 \<le> lx_parens l0" "0 \<le> lx_brackets l0" using l(2,3) by simp_all
  obtain j e where "lex_loop closingBracket (3 + j) (length s) (hd sqlDialects) (lex_init s) = (e, None)" "lx_rest e = CHR '')'' # '' AND c > 3''" "lx_parens e = lx_parens l0"
    using filter_stays_in_its_parentheses [OF v d r i l(1) p] by (elim exE conjE) (rule that)
  then show ?thesis using l(1,2) unfolding s_def [symmetric] by blast
qed

section \<open>Accepted queries\<close>

lemma cut_loop_checks:
  "cut_loop q ds agreed lexErr = Inr (found, out) \<Longrightarrow> (agreed \<noteq> None \<longrightarrow> found = agreed) \<and> (\<forall>d \<in> set ds. case lexSQL q d of (res, e) \<Rightarrow>
     checkReadOnlySQLShape res e = Inr () \<and> (e = None \<longrightarrow> found = Some (statementEnd res)))"
proof (induction ds arbitrary: agreed lexErr)
  case (Cons x ds)
  obtain r y where xy: "lexSQL q x = (r, y)" by (cases "lexSQL q x")
  have sh: "checkReadOnlySQLShape r y = Inr ()" using Cons.prems xy by (cases "checkReadOnlySQLShape r y") simp_all
  show ?case
  proof (cases y)
    case None
    then have "cut_loop q ds (Some (statementEnd r)) lexErr = Inr (found, out)" "agreed \<noteq> None \<Longrightarrow> agreed = Some (statementEnd r)"
      using Cons.prems xy sh by (auto split: if_splits)
    from Cons.IH [OF this(1)] this(2) show ?thesis using None xy sh by auto
  next
    case (Some e)
    then have "cut_loop q ds agreed (if lexErr = None then Some e else lexErr) = Inr (found, out)" using Cons.prems xy sh by (simp split del: if_split)
    from Cons.IH [OF this] show ?thesis using Some xy sh by auto
  qed
qed simp

lemma cut_loop_read: "cut_loop q ds None lexErr = Inr (Some e, out) \<Longrightarrow> \<exists>d \<in> set ds. snd (lexSQL q d) = None"
proof (induction ds arbitrary: lexErr)
  case (Cons x ds)
  obtain r y where xy: "lexSQL q x = (r, y)" by (cases "lexSQL q x")
  have sh: "checkReadOnlySQLShape r y = Inr ()" using Cons.prems xy by (cases "checkReadOnlySQLShape r y") simp_all
  show ?case
  proof (cases y)
    case None
    then show ?thesis using xy by simp
  next
    case (Some z)
    then have "cut_loop q ds None (if lexErr = None then Some z else lexErr) = Inr (Some e, out)" using Cons.prems xy sh by (simp split del: if_split)
    from Cons.IH [OF this] show ?thesis by simp
  qed
qed simp

lemma trim_space_length: "length (trim_space s) \<le> length s"
  unfolding trim_space_def by (metis length_dropWhile_le length_rev order.trans)

text \<open>The end of the statement lies inside the text.\<close>

definition ends_inside :: "nat \<Rightarrow> sqlLexer \<Rightarrow> bool" where
  "ends_inside n l \<longleftrightarrow> statementEnd (lx_res l) < int n"

lemma ends_moved [simp]:
  "ends_inside n (l\<lparr>lx_rest := r\<rparr>) = ends_inside n l" "ends_inside n (l\<lparr>lx_parens := p\<rparr>) = ends_inside n l"
  "ends_inside n (l\<lparr>lx_brackets := b\<rparr>) = ends_inside n l" "ends_inside n (l\<lparr>lx_next := e\<rparr>) = ends_inside n l"
  by (simp_all add: ends_inside_def)

lemma ends_updates [simp]: "(\<And>r. statementEnd (f r) = statementEnd r) \<Longrightarrow> ends_inside n (update_res f l) = ends_inside n l"
  by (simp add: ends_inside_def update_res_def)

lemma ends_scanned [simp]: "ends_inside n (fst (advance u l)) = ends_inside n l" "ends_inside n (fst (scanned e r l)) = ends_inside n l"
  by (simp_all add: advance_def scanned_def split: option.split)

lemma step_ends:
  assumes "ends_inside n l" "lx_rest l \<noteq> []"
  shows "ends_inside n (fst (lex_step closing n d l))"
proof -
  have 1: "ends_inside n (skipLineComment l') = ends_inside n l'" "ends_inside n (fst (skipBlockComment d l')) = ends_inside n l'" for l'
    by (simp_all add: skipLineComment_def skipBlockComment_def Let_def)
  have 2: "ends_inside n (fst (bracket closing n d b l')) = ends_inside n l'" for b l' by (simp add: bracket_def Let_def)
  have 3: "ends_inside n (fst (dollar l')) = ends_inside n l'" "ends_inside n (fst (lex_word d l')) = ends_inside n l'" for l'
    by (simp_all add: dollar_def lex_word_def qQuote_def Let_def)
  have 4: "ends_inside n (update_res (\<lambda>res. res\<lparr>statementEnd := (if statementEnd res < 0 then offset n l else statementEnd res)\<rparr>) l')" if "ends_inside n l'" for l'
    using that assms(2) by (simp add: ends_inside_def update_res_def offset_def)
  show ?thesis unfolding lex_step_def Let_def using assms(1) by (simp add: 1 2 3 4)
qed

lemma loop_ends_inside: "ends_inside n l \<Longrightarrow> ends_inside n (fst (lex_loop closing k n d l))"
proof (induction k arbitrary: l)
  case (Suc k)
  show ?case
  proof (cases "lx_rest l = []")
    case False
    then show ?thesis using step_ends [OF Suc.prems False, of closing d] Suc.IH by (auto split: prod.split option.split)
  qed (use Suc.prems in simp)
qed simp

lemma lexSQL_ends: "statementEnd (fst (lexSQL s d)) < int (length s)"
  using loop_ends_inside [of "length s" "lex_init s" closingBracket "length s" d]
  by (auto simp: lexSQL_def lex_with_def ends_inside_def lex_init_def split: prod.split option.split)

lemma cut_stable:
  assumes "cutReadOnlySQLStatement q = Inr q"
  shows "\<exists>d \<in> set sqlDialects. snd (lexSQL q d) = None"
    "\<And>d. d \<in> set sqlDialects \<Longrightarrow> checkReadOnlySQLShape (fst (lexSQL q d)) (snd (lexSQL q d)) = Inr () \<and> statementEnd (fst (lexSQL q d)) < 0"
proof -
  obtain e out where c: "cut_loop q sqlDialects None None = Inr (Some e, out)" "(if e \<ge> 0 then trim_space (take (nat e) q) else q) = q"
    using assms by (cases "cut_loop q sqlDialects None None") (auto simp: cutReadOnlySQLStatement_def split: option.splits)
  show r: "\<exists>d \<in> set sqlDialects. snd (lexSQL q d) = None" by (rule cut_loop_read [OF c(1)])
  have all: "checkReadOnlySQLShape (fst (lexSQL q d)) (snd (lexSQL q d)) = Inr ()" "snd (lexSQL q d) = None \<Longrightarrow> e = statementEnd (fst (lexSQL q d))"
    if "d \<in> set sqlDialects" for d using cut_loop_checks [OF c(1)] that by (auto simp: case_prod_beta)
  have "e < 0"
  proof (rule ccontr)
    assume e: "\<not> e < 0"
    then have "length q \<le> nat e" using c(2) trim_space_length [of "take (nat e) q"] by simp
    moreover have "e < int (length q)" using r all(2) lexSQL_ends by metis
    ultimately show False using e by linarith
  qed
  then show "checkReadOnlySQLShape (fst (lexSQL q d)) (snd (lexSQL q d)) = Inr () \<and> statementEnd (fst (lexSQL q d)) < 0" if "d \<in> set sqlDialects" for d
    using all [OF that] by (cases "snd (lexSQL q d)") (auto simp: checkReadOnlySQLShape_def split: if_splits)
qed

lemma normalized_cut:
  assumes "NormalizeReadOnlySQLQuery raw = Inr q"
  shows "cutReadOnlySQLStatement q = Inr q" "trim_space q = q"
proof -
  obtain x where x: "cutReadOnlySQLStatement (trim_space raw) = Inr x" using assms
    by (cases "cutReadOnlySQLStatement (trim_space raw)") (auto simp: NormalizeReadOnlySQLQuery_def Let_def split: if_splits)
  obtain y where y: "cutReadOnlySQLStatement x = Inr y" using assms x
    by (cases "cutReadOnlySQLStatement x") (auto simp: NormalizeReadOnlySQLQuery_def Let_def split: if_splits)
  have "y = x" "q = x" using assms x y by (auto simp: NormalizeReadOnlySQLQuery_def Let_def split: if_splits)
  then show "cutReadOnlySQLStatement q = Inr q" using y by simp
  have "trim_space x = x" using x
    by (cases "cut_loop (trim_space raw) sqlDialects None None") (auto simp: cutReadOnlySQLStatement_def trim_space_idem split: option.splits if_splits)
  then show "trim_space q = q" using \<open>q = x\<close> by simp
qed

text \<open>
  C37. A normalised query is one read-only statement under every dialect: some dialect reads it to the end, none sees
  a statement separator or an executable comment, every dialect that reads it sees a balanced \<open>SELECT\<close> or \<open>WITH\<close>
  without a data-changing keyword, and normalising it again changes nothing.
\<close>

theorem normalized_query_is_one_statement:
  assumes "NormalizeReadOnlySQLQuery raw = Inr q"
  shows "(\<exists>d \<in> set sqlDialects. snd (lexSQL q d) = None)
    \<and> (\<forall>d \<in> set sqlDialects. case lexSQL q d of (res, e) \<Rightarrow> statementEnd res < 0 \<and> forbidden res = ''''
        \<and> (e = None \<longrightarrow> (equal_fold (firstWord res) ''SELECT'' \<or> equal_fold (firstWord res) ''WITH'') \<and> \<not> unbalanced res \<and> keyword res = ''''))
    \<and> NormalizeReadOnlySQLQuery q = Inr q"
proof -
  note c = normalized_cut [OF assms]
  note s = cut_stable [OF c(1)]
  have "q \<noteq> ''''"
  proof
    assume q: "q = ''''"
    obtain d where "d \<in> set sqlDialects" using s(1) by blast
    moreover have "lexSQL '''' d = (lx_res (lex_init ''''), None)" by (simp add: lexSQL_def lex_with_def lex_init_def)
    ultimately show False using s(2) [of d] q by (simp add: checkReadOnlySQLShape_def lex_init_def)
  qed
  then have n: "NormalizeReadOnlySQLQuery q = Inr q" using c by (simp add: NormalizeReadOnlySQLQuery_def)
  have "case lexSQL q d of (res, e) \<Rightarrow> statementEnd res < 0 \<and> forbidden res = ''''
        \<and> (e = None \<longrightarrow> (equal_fold (firstWord res) ''SELECT'' \<or> equal_fold (firstWord res) ''WITH'') \<and> \<not> unbalanced res \<and> keyword res = '''')"
    if "d \<in> set sqlDialects" for d
    using s(2) [OF that] by (cases "lexSQL q d") (auto simp: checkReadOnlySQLShape_def split: if_splits option.splits)
  then show ?thesis using s(1) n by simp
qed

theorem normalized_query_is_one_statement_witness:
  "NormalizeReadOnlySQLQuery ''SELECT 1;'' = Inr ''SELECT 1'' \<and> NormalizeReadOnlySQLQuery ''SELECT 1'' = Inr ''SELECT 1''"
proof -
  have v: "NormalizeReadOnlySQLQuery ''SELECT 1;'' = Inr ''SELECT 1''" by code_simp
  show ?thesis using v normalized_query_is_one_statement [OF v] by (elim conjE) (rule conjI)
qed

end
