(* ===== verification/RangeSql.thy ===== *)
theory RangeSql
  imports SqlGuard Cursors
begin

text \<open>
  The predicate of a range of a table (\<open>internal/connectors/range_predicate.go\<close>, \<open>range_dialects.go\<close> and the quoting of
  names in the file of each engine): quoted names, the row filter in parentheses, the bounds as parameters. Messages
  are kept without the rejected text they quote.
\<close>

section \<open>Names\<close>

text \<open>\<open>strings.Trim\<close>, \<open>strings.TrimPrefix\<close> and \<open>strings.TrimSuffix\<close> by single characters.\<close>

definition trim_set :: "char set \<Rightarrow> string \<Rightarrow> string" where
  "trim_set cs s = rev (dropWhile (\<lambda>c. c \<in> cs) (rev (dropWhile (\<lambda>c. c \<in> cs) s)))"

definition trim_first :: "char \<Rightarrow> string \<Rightarrow> string" where
  "trim_first c s = (if s \<noteq> [] \<and> hd s = c then tl s else s)"

definition trim_last :: "char \<Rightarrow> string \<Rightarrow> string" where
  "trim_last c s = (if s \<noteq> [] \<and> List.last s = c then butlast s else s)"

text \<open>The regular expression \<open>^[A-Za-z0-9_]+$\<close>, which every engine uses under a name of its own.\<close>

definition identPartRe :: "string \<Rightarrow> bool" where
  "identPartRe s \<longleftrightarrow> s \<noteq> [] \<and> list_all (\<lambda>c. isSQLIdentStart c \<or> is_digit c) s"

definition quoted_by :: "char \<Rightarrow> char \<Rightarrow> string \<Rightarrow> string" where
  "quoted_by a b p = a # p @ [b]"

text \<open>The loop over the parts of a name.\<close>

fun quote_parts :: "(string \<Rightarrow> string) \<Rightarrow> char \<Rightarrow> char \<Rightarrow> string list \<Rightarrow> string list res" where
  "quote_parts trim a b [] = Inr []"
| "quote_parts trim a b (x # xs) =
    (let p = trim (trim_space x) in
     if \<not> identPartRe p then Inl (ErrMsg ''unsafe identifier'')
     else rbind (quote_parts trim a b xs) (\<lambda>ps. Inr (quoted_by a b p # ps)))"

definition quote_multipart :: "(string \<Rightarrow> string) \<Rightarrow> char \<Rightarrow> char \<Rightarrow> string \<Rightarrow> string res" where
  "quote_multipart trim a b s0 = (let s = trim_space s0 in
     if s = '''' then Inl (ErrMsg ''empty identifier'')
     else rbind (quote_parts trim a b (split_on (CHR ''.'') s)) (\<lambda>ps. Inr (join ''.'' ps)))"

definition quotePostgresMultipartIdent :: "string \<Rightarrow> string res" where
  "quotePostgresMultipartIdent = quote_multipart (\<lambda>p. trim_last (CHR 0x22) (trim_first (CHR 0x22) p)) (CHR 0x22) (CHR 0x22)"

definition quoteMySQLMultipartIdent :: "string \<Rightarrow> string res" where
  "quoteMySQLMultipartIdent = quote_multipart (trim_set {CHR 0x60}) (CHR 0x60) (CHR 0x60)"

definition quoteMSSQLMultipartIdent :: "string \<Rightarrow> string res" where
  "quoteMSSQLMultipartIdent = quote_multipart (\<lambda>p. trim_last (CHR '']'') (trim_first (CHR ''['') p)) (CHR ''['') (CHR '']'')"

definition quoteClickHouseMultipartIdent :: "string \<Rightarrow> string res" where
  "quoteClickHouseMultipartIdent = quote_multipart (trim_set {CHR 0x60, CHR 0x22}) (CHR 0x60) (CHR 0x60)"

definition quoteTrinoMultipartIdent :: "string \<Rightarrow> string res" where
  "quoteTrinoMultipartIdent = quote_multipart (trim_set {CHR 0x22}) (CHR 0x22) (CHR 0x22)"

subsection \<open>Oracle\<close>

record oracleIdentPart =
  op_Lookup :: string
  op_Quoted :: string

record oracleObjectIdent =
  oo_Owner :: string
  oo_Name :: string
  oo_Quoted :: string

definition parseOracleIdentPart :: "string \<Rightarrow> oracleIdentPart res" where
  "parseOracleIdentPart raw =
    (let part0 = trim_space raw in
     if part0 = '''' then Inl (ErrMsg ''empty identifier'')
     else let first = (hd part0 = CHR 0x22); final = (List.last part0 = CHR 0x22); q = (first \<or> final) in
     if q \<and> (length part0 < 2 \<or> \<not> first \<or> \<not> final) then Inl (ErrMsg ''unsafe identifier'')
     else let part = (if q then trim_last (CHR 0x22) (trim_first (CHR 0x22) part0) else part0) in
     if \<not> identPartRe part then Inl (ErrMsg ''unsafe identifier'')
     else let lookup = (if q then part else to_upper part) in Inr \<lparr>op_Lookup = lookup, op_Quoted = quoted_by (CHR 0x22) (CHR 0x22) lookup\<rparr>)"

fun oracle_parts :: "string list \<Rightarrow> oracleIdentPart list res" where
  "oracle_parts [] = Inr []"
| "oracle_parts (x # xs) = rbind (parseOracleIdentPart x) (\<lambda>p. rbind (oracle_parts xs) (\<lambda>ps. Inr (p # ps)))"

definition parseOracleMultipartIdent :: "string \<Rightarrow> nat \<Rightarrow> oracleIdentPart list res" where
  "parseOracleMultipartIdent raw0 maxParts =
    (let raw = trim_space raw0; parts = split_on (CHR ''.'') raw in
     if raw = '''' then Inl (ErrMsg ''empty identifier'')
     else if length parts = 0 \<or> length parts > maxParts then Inl (ErrMsg (''oracle identifiers support at most '' @ show_nat maxParts @ '' parts''))
     else oracle_parts parts)"

definition parseOracleObjectIdent :: "string \<Rightarrow> oracleObjectIdent res" where
  "parseOracleObjectIdent raw = rbind (parseOracleMultipartIdent raw 2) (\<lambda>parts. case parts of
      [p] \<Rightarrow> Inr \<lparr>oo_Owner = '''', oo_Name = op_Lookup p, oo_Quoted = op_Quoted p\<rparr>
    | [p, q] \<Rightarrow> Inr \<lparr>oo_Owner = op_Lookup p, oo_Name = op_Lookup q, oo_Quoted = op_Quoted p @ ''.'' @ op_Quoted q\<rparr>
    | _ \<Rightarrow> Inl (ErrMsg ''oracle identifiers support TABLE or SCHEMA.TABLE only''))"

definition parseOracleCursorIdent :: "string \<Rightarrow> oracleIdentPart res" where
  "parseOracleCursorIdent raw0 = (let raw = trim_space raw0 in
     if raw = '''' then Inl (ErrMsg ''empty identifier'') else parseOracleIdentPart (List.last (split_on (CHR ''.'') raw)))"

definition quoteOracleMultipartIdent :: "string \<Rightarrow> string res" where
  "quoteOracleMultipartIdent raw = rbind (parseOracleObjectIdent raw) (\<lambda>i. Inr (oo_Quoted i))"

definition quoteOracleCursorIdent :: "string \<Rightarrow> string res" where
  "quoteOracleCursorIdent raw = rbind (parseOracleCursorIdent raw) (\<lambda>p. Inr (op_Quoted p))"

section \<open>The range predicate\<close>

record cursor_query =
  q_Table :: string
  q_SourceQuery :: string
  q_CursorColumn :: string
  q_CursorDomain :: string
  q_LowerBound :: string
  q_UpperBound :: string
  q_LowerExclusive :: bool
  q_UpperInclusive :: bool
  q_SnapshotContext :: string
  q_WhereClause :: string
  q_SelectColumns :: "string list"

datatype cursor_arg = ArgInt int | ArgUint int | ArgTime time | ArgText string

definition ParseCursorArgument :: "string \<Rightarrow> string \<Rightarrow> cursor_arg res" where
  "ParseCursorArgument domain text0 = (let v = trim_space text0 in case NormalizeCursorDomain domain of
      CursorDomainInt64 \<Rightarrow> (case parseInt64 v of None \<Rightarrow> Inl (ErrMsg ''parse int64 cursor'') | Some i \<Rightarrow> Inr (ArgInt i))
    | CursorDomainUInt64 \<Rightarrow> (case parseUint64 v of None \<Rightarrow> Inl (ErrMsg ''parse uint64 cursor'') | Some i \<Rightarrow> Inr (ArgUint i))
    | CursorDomainDate \<Rightarrow> (case parseDateValue v of None \<Rightarrow> Inl (ErrMsg ''parse date cursor'') | Some t \<Rightarrow> Inr (ArgTime t))
    | CursorDomainTimestamp \<Rightarrow> (case parseTimestampValue v of None \<Rightarrow> Inl (ErrMsg ''parse timestamp cursor'') | Some t \<Rightarrow> Inr (ArgTime t))
    | CursorDomainUnknown \<Rightarrow> Inl (ErrMsg ''unsupported cursor domain'')
    | _ \<Rightarrow> Inr (ArgText v))"

record rangeSQL =
  rs_Table :: string
  rs_Cursor :: string
  rs_Where :: string
  rs_Args :: "cursor_arg list"

definition whereSQL :: "rangeSQL \<Rightarrow> string" where
  "whereSQL r = (if rs_Where r = '''' then '''' else '' WHERE '' @ rs_Where r)"

definition questionPlaceholder :: "nat \<Rightarrow> string" where
  "questionPlaceholder pos = ''?''"

definition dollarPlaceholder :: "nat \<Rightarrow> string" where
  "dollarPlaceholder pos = ''$'' @ show_nat pos"

definition mssqlPlaceholder :: "nat \<Rightarrow> string" where
  "mssqlPlaceholder pos = ''@p'' @ show_nat pos"

definition oraclePlaceholder :: "nat \<Rightarrow> string" where
  "oraclePlaceholder pos = '':'' @ show_nat pos"

text \<open>One bound: its argument and the comparison with the placeholder of the next position, if the bound is given.\<close>

definition add_bound :: "cursor_query \<Rightarrow> string \<Rightarrow> (nat \<Rightarrow> string) \<Rightarrow> string \<Rightarrow> string \<Rightarrow> string list \<times> cursor_arg list \<Rightarrow> (string list \<times> cursor_arg list) res" where
  "add_bound q cursor placeholder bound cmp ca = (case ca of (clauses, args) \<Rightarrow>
     if trim_space bound = '''' then Inr (clauses, args)
     else rbind (ParseCursorArgument (q_CursorDomain q) bound) (\<lambda>arg.
       Inr (clauses @ [cursor @ '' '' @ cmp @ '' '' @ placeholder (Suc (length args))], args @ [arg])))"

definition newRangeSQL :: "cursor_query \<Rightarrow> string \<Rightarrow> string \<Rightarrow> (nat \<Rightarrow> string) \<Rightarrow> rangeSQL res" where
  "newRangeSQL q table cursor placeholder =
    (if NormalizeCursorDomain (q_CursorDomain q) = CursorDomainUnknown then Inl (ErrMsg ''cursor domain is required'')
     else let clauses = (if trim_space (q_WhereClause q) \<noteq> '''' then [''('' @ q_WhereClause q @ '')''] else []) in
     rbind (add_bound q cursor placeholder (q_LowerBound q) (if q_LowerExclusive q then ''>'' else ''>='') (clauses, [])) (\<lambda>low.
     rbind (add_bound q cursor placeholder (q_UpperBound q) (if q_UpperInclusive q then ''<='' else ''<'') low) (\<lambda>(cs, args).
       Inr \<lparr>rs_Table = table, rs_Cursor = cursor, rs_Where = join '' AND '' cs, rs_Args = args\<rparr>)))"

definition range_with :: "(string \<Rightarrow> string res) \<Rightarrow> (string \<Rightarrow> string res) \<Rightarrow> (nat \<Rightarrow> string) \<Rightarrow> cursor_query \<Rightarrow> rangeSQL res" where
  "range_with quote_table quote_cursor placeholder q =
     rbind (quote_table (q_Table q)) (\<lambda>qt. rbind (quote_cursor (q_CursorColumn q)) (\<lambda>qc. newRangeSQL q qt qc placeholder))"

definition postgresRange :: "cursor_query \<Rightarrow> rangeSQL res" where
  "postgresRange = range_with quotePostgresMultipartIdent quotePostgresMultipartIdent dollarPlaceholder"

definition mysqlRange :: "cursor_query \<Rightarrow> rangeSQL res" where
  "mysqlRange = range_with quoteMySQLMultipartIdent quoteMySQLMultipartIdent questionPlaceholder"

definition mariadbRange :: "cursor_query \<Rightarrow> rangeSQL res" where
  "mariadbRange = range_with quoteMySQLMultipartIdent quoteMySQLMultipartIdent questionPlaceholder"

definition mssqlRange :: "cursor_query \<Rightarrow> rangeSQL res" where
  "mssqlRange = range_with quoteMSSQLMultipartIdent quoteMSSQLMultipartIdent mssqlPlaceholder"

definition clickHouseRange :: "cursor_query \<Rightarrow> rangeSQL res" where
  "clickHouseRange = range_with quoteClickHouseMultipartIdent quoteClickHouseMultipartIdent questionPlaceholder"

definition trinoRange :: "cursor_query \<Rightarrow> rangeSQL res" where
  "trinoRange = range_with quoteTrinoMultipartIdent quoteTrinoMultipartIdent questionPlaceholder"

definition oracleRange :: "cursor_query \<Rightarrow> rangeSQL res" where
  "oracleRange = range_with quoteOracleMultipartIdent quoteOracleCursorIdent oraclePlaceholder"

end
