(* ===== verification/QueryMode.thy ===== *)
theory QueryMode
  imports RangeSql
begin

text \<open>
  The statements the connectors run for a range (\<open>internal/connectors/query_mode.go\<close>, \<open>range_count.go\<close>, \<open>snapshot.go\<close> and
  \<open>QueryCursor\<close> of each engine): the rows of a range and their count, for a table and for a query of the user, up to
  the call of the driver. \<open>env\<close> is the environment of the process.
\<close>

section \<open>Engines\<close>

text \<open>The names the registration of the engines knows, with the canonical ones.\<close>

definition sourceEngineAliases :: "(string \<times> string) list" where
  "sourceEngineAliases =
    [(''mssql'', ''mssql''), (''sqlserver'', ''mssql''), (''ms-sql'', ''mssql''),
     (''postgres'', ''postgres''), (''postgresql'', ''postgres''), (''pg'', ''postgres''),
     (''clickhouse'', ''clickhouse''), (''click-house'', ''clickhouse''), (''ch'', ''clickhouse''),
     (''oracle'', ''oracle''), (''ora'', ''oracle''),
     (''flightsql'', ''flightsql''), (''flight-sql'', ''flightsql''), (''flight_sql'', ''flightsql''), (''adbc'', ''flightsql''), (''adbc_flightsql'', ''flightsql''),
     (''mysql'', ''mysql''), (''mariadb'', ''mariadb''), (''mariadb-server'', ''mariadb''), (''trino'', ''trino''),
     (''mongodb'', ''mongodb''), (''mongo'', ''mongodb''), (''cassandra'', ''cassandra''), (''cql'', ''cassandra''), (''cassandra-db'', ''cassandra''),
     (''s3'', ''s3''), (''file'', ''s3''), (''minio'', ''s3'')]"

definition NormalizeSourceEngine :: "string \<Rightarrow> string" where
  "NormalizeSourceEngine raw = (let engine = to_lower (trim_space raw) in
     if engine = '''' then '''' else case map_of sourceEngineAliases engine of Some canon \<Rightarrow> canon | None \<Rightarrow> engine)"

definition ParseBoolEnv :: "string \<Rightarrow> bool option" where
  "ParseBoolEnv raw = (let v = to_lower (trim_space raw) in
     if v \<in> {''1'', ''true'', ''y'', ''yes'', ''on''} then Some True
     else if v \<in> {''0'', ''false'', ''n'', ''no'', ''off''} then Some False else None)"

definition ordered_reads :: "string \<Rightarrow> (string \<Rightarrow> string) \<Rightarrow> bool" where
  "ordered_reads name env = (let raw = trim_space (env name) in
     if raw = '''' then True else case ParseBoolEnv raw of Some parsed \<Rightarrow> parsed | None \<Rightarrow> True)"

definition postgresOrderedRangeReadsEnabled :: "(string \<Rightarrow> string) \<Rightarrow> bool" where
  "postgresOrderedRangeReadsEnabled = ordered_reads ''ORABBIT_POSTGRES_ORDERED_RANGE_READS''"

definition mysqlOrderedRangeReadsEnabled :: "(string \<Rightarrow> string) \<Rightarrow> bool" where
  "mysqlOrderedRangeReadsEnabled = ordered_reads ''ORABBIT_MYSQL_ORDERED_RANGE_READS''"

definition mariadbOrderedRangeReadsEnabled :: "(string \<Rightarrow> string) \<Rightarrow> bool" where
  "mariadbOrderedRangeReadsEnabled = ordered_reads ''ORABBIT_MARIADB_ORDERED_RANGE_READS''"

definition mssqlOrderedRangeReadsEnabled :: "(string \<Rightarrow> string) \<Rightarrow> bool" where
  "mssqlOrderedRangeReadsEnabled = ordered_reads ''ORABBIT_MSSQL_ORDERED_RANGE_READS''"

definition trinoOrderedRangeReadsEnabled :: "(string \<Rightarrow> string) \<Rightarrow> bool" where
  "trinoOrderedRangeReadsEnabled = ordered_reads ''ORABBIT_TRINO_ORDERED_RANGE_READS''"

section \<open>Query mode\<close>

definition queryModeAlias :: string where
  "queryModeAlias = ''orabbit_query''"

record queryModeDialect =
  qm_engine :: string
  aliasKeyword :: string
  terminator :: string
  quoteIdent :: "string \<Rightarrow> string res"
  qm_placeholder :: "nat \<Rightarrow> string"
  orderedReadsOn :: bool

definition quoteCassandraIdent :: "string \<Rightarrow> string res" where
  "quoteCassandraIdent raw = (let s = trim_set {CHR 0x22} (trim_space raw) in
     if s = '''' then Inl (ErrMsg ''empty cassandra identifier'')
     else if \<not> identPartRe s then Inl (ErrMsg ''unsafe cassandra identifier'')
     else Inr (quoted_by (CHR 0x22) (CHR 0x22) s))"

definition queryModeDialectForEngine :: "(string \<Rightarrow> string) \<Rightarrow> string \<Rightarrow> queryModeDialect option" where
  "queryModeDialectForEngine env engine = map_of
    [(''postgres'', \<lparr>qm_engine = ''postgres'', aliasKeyword = ''AS'', terminator = '';'', quoteIdent = quotePostgresMultipartIdent,
        qm_placeholder = dollarPlaceholder, orderedReadsOn = postgresOrderedRangeReadsEnabled env\<rparr>),
     (''mysql'', \<lparr>qm_engine = ''mysql'', aliasKeyword = ''AS'', terminator = '';'', quoteIdent = quoteMySQLMultipartIdent,
        qm_placeholder = questionPlaceholder, orderedReadsOn = mysqlOrderedRangeReadsEnabled env\<rparr>),
     (''mariadb'', \<lparr>qm_engine = ''mariadb'', aliasKeyword = ''AS'', terminator = '';'', quoteIdent = quoteMySQLMultipartIdent,
        qm_placeholder = questionPlaceholder, orderedReadsOn = mariadbOrderedRangeReadsEnabled env\<rparr>),
     (''mssql'', \<lparr>qm_engine = ''mssql'', aliasKeyword = ''AS'', terminator = '';'', quoteIdent = quoteMSSQLMultipartIdent,
        qm_placeholder = mssqlPlaceholder, orderedReadsOn = mssqlOrderedRangeReadsEnabled env\<rparr>),
     (''oracle'', \<lparr>qm_engine = ''oracle'', aliasKeyword = '''', terminator = '''', quoteIdent = quoteOracleCursorIdent,
        qm_placeholder = oraclePlaceholder, orderedReadsOn = True\<rparr>),
     (''clickhouse'', \<lparr>qm_engine = ''clickhouse'', aliasKeyword = ''AS'', terminator = '';'', quoteIdent = quoteClickHouseMultipartIdent,
        qm_placeholder = questionPlaceholder, orderedReadsOn = True\<rparr>),
     (''trino'', \<lparr>qm_engine = ''trino'', aliasKeyword = ''AS'', terminator = '''', quoteIdent = quoteTrinoMultipartIdent,
        qm_placeholder = questionPlaceholder, orderedReadsOn = trinoOrderedRangeReadsEnabled env\<rparr>),
     (''cassandra'', \<lparr>qm_engine = ''cassandra'', aliasKeyword = '''', terminator = '''', quoteIdent = quoteCassandraIdent,
        qm_placeholder = questionPlaceholder, orderedReadsOn = False\<rparr>),
     (''mongodb'', \<lparr>qm_engine = ''mongodb'', aliasKeyword = '''', terminator = '''', quoteIdent = Inr,
        qm_placeholder = questionPlaceholder, orderedReadsOn = False\<rparr>)] (NormalizeSourceEngine engine)"

definition sourceExpr :: "queryModeDialect \<Rightarrow> string \<Rightarrow> string" where
  "sourceExpr d query0 = (let query = (if sqlEndsInLineComment query0 then query0 @ [CHR 0x0A] else query0) in
     if trim_space (aliasKeyword d) = '''' then ''('' @ query @ '') '' @ queryModeAlias
     else ''('' @ query @ '') '' @ aliasKeyword d @ '' '' @ queryModeAlias)"

text \<open>\<open>strings.ReplaceAll\<close> of a character by two of it, and of two by one.\<close>

definition doubled :: "char \<Rightarrow> string \<Rightarrow> string" where
  "doubled c s = concat (map (\<lambda>x. if x = c then [c, c] else [x]) s)"

fun undoubled :: "char \<Rightarrow> string \<Rightarrow> string" where
  "undoubled c (a # b # s) = (if a = c \<and> b = c then c # undoubled c s else a # undoubled c (b # s))"
| "undoubled c s = s"

definition enclosed :: "char \<Rightarrow> char \<Rightarrow> string \<Rightarrow> bool" where
  "enclosed a b s \<longleftrightarrow> s \<noteq> [] \<and> hd s = a \<and> List.last s = b"

definition queryResultColumnName :: "string \<Rightarrow> string" where
  "queryResultColumnName raw = (let name = trim_space raw; inner = butlast (tl name) in
     if length name < 2 then name
     else if enclosed (CHR 0x22) (CHR 0x22) name then undoubled (CHR 0x22) inner
     else if enclosed (CHR 0x60) (CHR 0x60) name then undoubled (CHR 0x60) inner
     else if enclosed (CHR ''['') (CHR '']'') name then undoubled (CHR '']'') inner
     else name)"

definition quoteOracleQueryResultIdentifier :: "string \<Rightarrow> string res" where
  "quoteOracleQueryResultIdentifier raw = (let name = queryResultColumnName raw in
     if name = '''' then Inl (ErrMsg ''empty identifier'')
     else if CHR 0x00 \<in> set name then Inl (ErrMsg ''unsafe identifier'')
     else Inr (quoted_by (CHR 0x22) (CHR 0x22) (doubled (CHR 0x22) name)))"

definition quoteCursorColumn :: "queryModeDialect \<Rightarrow> string \<Rightarrow> string res" where
  "quoteCursorColumn d cursorColumn = (let leaf = queryResultColumnName cursorColumn in
     if leaf = '''' then Inl (ErrMsg ''cursor column is required'')
     else if qm_engine d = ''oracle'' then rbind (quoteOracleQueryResultIdentifier leaf) (\<lambda>qc. Inr (queryModeAlias @ ''.'' @ qc))
     else if qm_engine d \<in> {''mysql'', ''mariadb'', ''clickhouse''}
     then Inr (quoted_by (CHR 0x60) (CHR 0x60) queryModeAlias @ ''.'' @ quoted_by (CHR 0x60) (CHR 0x60) (doubled (CHR 0x60) leaf))
     else if qm_engine d = ''mssql''
     then Inr (quoted_by (CHR ''['') (CHR '']'') queryModeAlias @ ''.'' @ quoted_by (CHR ''['') (CHR '']'') (doubled (CHR '']'') leaf))
     else if qm_engine d \<in> {''postgres'', ''trino''}
     then Inr (quoted_by (CHR 0x22) (CHR 0x22) queryModeAlias @ ''.'' @ quoted_by (CHR 0x22) (CHR 0x22) (doubled (CHR 0x22) leaf))
     else quoteIdent d (queryModeAlias @ ''.'' @ leaf))"

definition queryModeRange :: "(string \<Rightarrow> string) \<Rightarrow> string \<Rightarrow> cursor_query \<Rightarrow> (queryModeDialect \<times> rangeSQL) res" where
  "queryModeRange env engine q = (case queryModeDialectForEngine env engine of
      None \<Rightarrow> Inl (ErrMsg (''query mode is not supported for '' @ NormalizeSourceEngine engine))
    | Some d \<Rightarrow> rbind (NormalizeReadOnlySQLQuery (q_SourceQuery q)) (\<lambda>sourceQuery.
        rbind (quoteCursorColumn d (q_CursorColumn q)) (\<lambda>qc.
        rbind (newRangeSQL q (sourceExpr d sourceQuery) qc (qm_placeholder d)) (\<lambda>rng. Inr (d, rng)))))"

definition order_by :: "string \<Rightarrow> string" where
  "order_by cursor = '' ORDER BY '' @ cursor @ '' ASC''"

definition buildQueryModeCursorSQL :: "(string \<Rightarrow> string) \<Rightarrow> string \<Rightarrow> cursor_query \<Rightarrow> (string \<times> cursor_arg list) res" where
  "buildQueryModeCursorSQL env engine q = rbind (queryModeRange env engine q) (\<lambda>(d, rng).
     Inr (''SELECT * FROM '' @ rs_Table rng @ whereSQL rng @ (if orderedReadsOn d then order_by (rs_Cursor rng) else '''') @ terminator d, rs_Args rng))"

definition countExpr :: string where
  "countExpr = ''COUNT(*)''"

definition mssqlCountExpr :: string where
  "mssqlCountExpr = ''COUNT_BIG(*)''"

definition clickHouseCountExpr :: string where
  "clickHouseCountExpr = ''toInt64(count())''"

definition countFrom :: "string \<Rightarrow> string \<Rightarrow> rangeSQL \<Rightarrow> string" where
  "countFrom expr source r = ''SELECT '' @ expr @ '' FROM '' @ source @ whereSQL r"

definition buildQueryModeCountSQL :: "(string \<Rightarrow> string) \<Rightarrow> string \<Rightarrow> cursor_query \<Rightarrow> (string \<times> cursor_arg list) res" where
  "buildQueryModeCountSQL env engine q = rbind (queryModeRange env engine q) (\<lambda>(d, rng).
     let expr = (if qm_engine d = ''mssql'' then mssqlCountExpr else if qm_engine d = ''clickhouse'' then clickHouseCountExpr else countExpr)
     in Inr (countFrom expr (rs_Table rng) rng @ terminator d, rs_Args rng))"

definition buildQueryModeStatsSQL :: "(string \<Rightarrow> string) \<Rightarrow> string \<Rightarrow> string \<Rightarrow> string \<Rightarrow> string res" where
  "buildQueryModeStatsSQL env engine query cursorColumn = (case queryModeDialectForEngine env engine of
      None \<Rightarrow> Inl (ErrMsg (''query mode is not supported for '' @ NormalizeSourceEngine engine))
    | Some d \<Rightarrow> rbind (NormalizeReadOnlySQLQuery query) (\<lambda>sourceQuery. rbind (quoteCursorColumn d cursorColumn) (\<lambda>qc.
        Inr (''SELECT MIN('' @ qc @ ''), MAX('' @ qc @ ''), COUNT(*) FROM '' @ sourceExpr d sourceQuery @ terminator d))))"

definition buildQueryModeDescribeSQL :: "(string \<Rightarrow> string) \<Rightarrow> string \<Rightarrow> string \<Rightarrow> string res" where
  "buildQueryModeDescribeSQL env engine query = (case queryModeDialectForEngine env engine of
      None \<Rightarrow> Inl (ErrMsg (''query mode is not supported for '' @ NormalizeSourceEngine engine))
    | Some d \<Rightarrow> rbind (NormalizeReadOnlySQLQuery query) (\<lambda>sourceQuery.
        Inr (''SELECT * FROM '' @ sourceExpr d sourceQuery @ '' WHERE 1 = 0'' @ terminator d)))"

section \<open>Counts\<close>

text \<open>\<open>CountRange\<close>: the query of the user if there is one, the table otherwise.\<close>

definition count_statement :: "(string \<Rightarrow> string) \<Rightarrow> string \<Rightarrow> (cursor_query \<Rightarrow> rangeSQL res) \<Rightarrow> string \<Rightarrow> string \<Rightarrow> cursor_query \<Rightarrow> (string \<times> cursor_arg list) res" where
  "count_statement env engine rangeOf expr hint q =
    (if trim_space (q_SourceQuery q) \<noteq> '''' then buildQueryModeCountSQL env engine q
     else rbind (rangeOf q) (\<lambda>rng. Inr (countFrom expr (rs_Table rng @ hint) rng, rs_Args rng)))"

definition Postgres_CountRange :: "(string \<Rightarrow> string) \<Rightarrow> cursor_query \<Rightarrow> (string \<times> cursor_arg list) res" where
  "Postgres_CountRange env = count_statement env ''postgres'' postgresRange countExpr ''''"

definition MySQL_CountRange :: "(string \<Rightarrow> string) \<Rightarrow> cursor_query \<Rightarrow> (string \<times> cursor_arg list) res" where
  "MySQL_CountRange env = count_statement env ''mysql'' mysqlRange countExpr ''''"

definition MariaDB_CountRange :: "(string \<Rightarrow> string) \<Rightarrow> cursor_query \<Rightarrow> (string \<times> cursor_arg list) res" where
  "MariaDB_CountRange env = count_statement env ''mariadb'' mariadbRange countExpr ''''"

definition MSSQL_CountRange :: "(string \<Rightarrow> string) \<Rightarrow> cursor_query \<Rightarrow> (string \<times> cursor_arg list) res" where
  "MSSQL_CountRange env = count_statement env ''mssql'' mssqlRange mssqlCountExpr '' WITH (NOLOCK)''"

definition Oracle_CountRange :: "(string \<Rightarrow> string) \<Rightarrow> cursor_query \<Rightarrow> (string \<times> cursor_arg list) res" where
  "Oracle_CountRange env = count_statement env ''oracle'' oracleRange countExpr ''''"

definition ClickHouse_CountRange :: "(string \<Rightarrow> string) \<Rightarrow> cursor_query \<Rightarrow> (string \<times> cursor_arg list) res" where
  "ClickHouse_CountRange env = count_statement env ''clickhouse'' clickHouseRange clickHouseCountExpr ''''"

definition Trino_CountRange :: "(string \<Rightarrow> string) \<Rightarrow> cursor_query \<Rightarrow> (string \<times> cursor_arg list) res" where
  "Trino_CountRange env = count_statement env ''trino'' trinoRange countExpr ''''"

section \<open>Rows\<close>

text \<open>The columns of a row query: a name that cannot be quoted is used as it is.\<close>

definition select_clause :: "(string \<Rightarrow> string res) \<Rightarrow> string list \<Rightarrow> string" where
  "select_clause quote cols =
    (let qs = map (\<lambda>c. case quote c of Inr q \<Rightarrow> q | Inl _ \<Rightarrow> c) (filter (\<lambda>c. c \<noteq> '''') (map trim_space cols))
     in if qs = [] then ''*'' else join '', '' qs)"

definition buildPostgresSelectClause :: "string list \<Rightarrow> string" where
  "buildPostgresSelectClause = select_clause quotePostgresMultipartIdent"

definition buildMySQLSelectClause :: "string list \<Rightarrow> string" where
  "buildMySQLSelectClause = select_clause quoteMySQLMultipartIdent"

definition buildMariaDBSelectClause :: "string list \<Rightarrow> string" where
  "buildMariaDBSelectClause = select_clause quoteMySQLMultipartIdent"

definition buildMSSQLSelectClause :: "string list \<Rightarrow> string" where
  "buildMSSQLSelectClause = select_clause quoteMSSQLMultipartIdent"

definition buildOracleSelectClause :: "string list \<Rightarrow> string" where
  "buildOracleSelectClause = select_clause quoteOracleMultipartIdent"

definition buildClickHouseSelectClause :: "string list \<Rightarrow> string" where
  "buildClickHouseSelectClause = select_clause quoteClickHouseMultipartIdent"

definition buildTrinoSelectClause :: "string list \<Rightarrow> string" where
  "buildTrinoSelectClause = select_clause quoteTrinoMultipartIdent"

text \<open>\<open>QueryCursor\<close> up to the call of the driver.\<close>

definition row_statement :: "(string \<Rightarrow> string) \<Rightarrow> string \<Rightarrow> (cursor_query \<Rightarrow> rangeSQL res) \<Rightarrow> (string list \<Rightarrow> string) \<Rightarrow> string \<Rightarrow> bool \<Rightarrow> string
    \<Rightarrow> cursor_query \<Rightarrow> (string \<times> cursor_arg list) res" where
  "row_statement env engine rangeOf selectOf hint ordered term q =
    (if trim_space (q_SourceQuery q) \<noteq> '''' then buildQueryModeCursorSQL env engine q
     else rbind (rangeOf q) (\<lambda>rng. Inr (''SELECT '' @ selectOf (q_SelectColumns q) @ '' FROM '' @ rs_Table rng @ hint @ whereSQL rng
       @ (if ordered then order_by (rs_Cursor rng) else '''') @ term, rs_Args rng)))"

definition Postgres_queryCursorOn :: "(string \<Rightarrow> string) \<Rightarrow> cursor_query \<Rightarrow> (string \<times> cursor_arg list) res" where
  "Postgres_queryCursorOn env = row_statement env ''postgres'' postgresRange buildPostgresSelectClause '''' (postgresOrderedRangeReadsEnabled env) '';''"

definition MySQL_QueryCursor :: "(string \<Rightarrow> string) \<Rightarrow> cursor_query \<Rightarrow> (string \<times> cursor_arg list) res" where
  "MySQL_QueryCursor env = row_statement env ''mysql'' mysqlRange buildMySQLSelectClause '''' (mysqlOrderedRangeReadsEnabled env) '';''"

definition MariaDB_QueryCursor :: "(string \<Rightarrow> string) \<Rightarrow> cursor_query \<Rightarrow> (string \<times> cursor_arg list) res" where
  "MariaDB_QueryCursor env = row_statement env ''mariadb'' mariadbRange buildMariaDBSelectClause '''' (mariadbOrderedRangeReadsEnabled env) '';''"

definition MSSQL_QueryCursor :: "(string \<Rightarrow> string) \<Rightarrow> cursor_query \<Rightarrow> (string \<times> cursor_arg list) res" where
  "MSSQL_QueryCursor env = row_statement env ''mssql'' mssqlRange buildMSSQLSelectClause '' WITH (NOLOCK)'' (mssqlOrderedRangeReadsEnabled env) '';''"

definition ClickHouse_QueryCursor :: "(string \<Rightarrow> string) \<Rightarrow> cursor_query \<Rightarrow> (string \<times> cursor_arg list) res" where
  "ClickHouse_QueryCursor env = row_statement env ''clickhouse'' clickHouseRange buildClickHouseSelectClause '''' True '';''"

definition Trino_QueryCursor :: "(string \<Rightarrow> string) \<Rightarrow> cursor_query \<Rightarrow> (string \<times> cursor_arg list) res" where
  "Trino_QueryCursor env = row_statement env ''trino'' trinoRange buildTrinoSelectClause '''' (trinoOrderedRangeReadsEnabled env) ''''"

subsection \<open>Snapshots\<close>

text \<open>The regular expressions \<open>^[0-9A-Fa-f]+(-[0-9A-Fa-f]+)+$\<close> and \<open>^[0-9]+$\<close>.\<close>

definition is_hex_char :: "char \<Rightarrow> bool" where
  "is_hex_char c \<longleftrightarrow> is_digit c \<or> c \<in> set ''ABCDEFabcdef''"

definition postgresSnapshotIDPattern :: "string \<Rightarrow> bool" where
  "postgresSnapshotIDPattern s \<longleftrightarrow> (let gs = split_on (CHR ''-'') s in length gs \<ge> 2 \<and> list_all (\<lambda>g. g \<noteq> [] \<and> list_all is_hex_char g) gs)"

definition oracleSCNPattern :: "string \<Rightarrow> bool" where
  "oracleSCNPattern s \<longleftrightarrow> s \<noteq> [] \<and> list_all is_digit s"

definition validatePostgresSnapshotID :: "string \<Rightarrow> unit res" where
  "validatePostgresSnapshotID i = (if postgresSnapshotIDPattern i then Inr () else Inl (ErrMsg ''invalid postgres snapshot id''))"

definition validateOracleSCN :: "string \<Rightarrow> unit res" where
  "validateOracleSCN scn = (if oracleSCNPattern scn then Inr () else Inl (ErrMsg ''invalid oracle snapshot SCN''))"

text \<open>At a snapshot, the transaction is pinned to it by a statement of its own.\<close>

definition beginSnapshotTx :: "string \<Rightarrow> string" where
  "beginSnapshotTx snapshot = ''SET TRANSACTION SNAPSHOT '' @ quoted_by (CHR 0x27) (CHR 0x27) snapshot"

definition Postgres_QueryCursor :: "(string \<Rightarrow> string) \<Rightarrow> cursor_query \<Rightarrow> (string \<times> cursor_arg list) list res" where
  "Postgres_QueryCursor env q = (let snapshot = trim_space (q_SnapshotContext q) in
     if snapshot = '''' then rbind (Postgres_queryCursorOn env q) (\<lambda>s. Inr [s])
     else rbind (validatePostgresSnapshotID snapshot) (\<lambda>_.
       rbind (Postgres_queryCursorOn env q) (\<lambda>s. Inr [(beginSnapshotTx snapshot, []), s])))"

definition buildOracleCursorQuery :: "cursor_query \<Rightarrow> (string \<times> cursor_arg list) res" where
  "buildOracleCursorQuery q = rbind (oracleRange q) (\<lambda>rng. let scn = trim_space (q_SnapshotContext q) in
     rbind (if scn \<noteq> '''' then rbind (validateOracleSCN scn) (\<lambda>_. Inr ('' AS OF SCN '' @ scn)) else Inr '''') (\<lambda>asOf.
       Inr (''SELECT '' @ buildOracleSelectClause (q_SelectColumns q) @ '' FROM '' @ rs_Table rng @ asOf @ whereSQL rng @ order_by (rs_Cursor rng), rs_Args rng)))"

definition Oracle_QueryCursor :: "(string \<Rightarrow> string) \<Rightarrow> cursor_query \<Rightarrow> (string \<times> cursor_arg list) res" where
  "Oracle_QueryCursor env q =
    (if trim_space (q_SourceQuery q) \<noteq> '''' then
       (if trim_space (q_SnapshotContext q) \<noteq> '''' then Inl (ErrMsg ''oracle query mode does not support a snapshot read (STRONG_SNAPSHOT)'')
        else buildQueryModeCursorSQL env ''oracle'' q)
     else buildOracleCursorQuery q)"

subsection \<open>The cursor column of a result\<close>

definition identLeaf :: "string \<Rightarrow> string" where
  "identLeaf raw0 = (let raw = trim_space raw0 in
     if raw = '''' then '''' else trim_set (set ''[]'' \<union> {CHR 0x22, CHR 0x60}) (trim_space (List.last (split_on (CHR ''.'') raw))))"

definition cursorColumnMatches :: "string \<Rightarrow> string \<Rightarrow> bool" where
  "cursorColumnMatches resultColumn cursorColumn =
    (let res = trim_space resultColumn; cur = trim_space cursorColumn in
     equal_fold res cur \<or> equal_fold res (queryResultColumnName cur) \<or> equal_fold res (identLeaf cur))"

text \<open>The first index of a column, \<open>-1\<close> for none.\<close>

fun index_from :: "int \<Rightarrow> (string \<Rightarrow> bool) \<Rightarrow> string list \<Rightarrow> int" where
  "index_from i P [] = -1"
| "index_from i P (c # cs) = (if P c then i else index_from (i + 1) P cs)"

definition cursorIdx :: "string list \<Rightarrow> string \<Rightarrow> int" where
  "cursorIdx cols cursorColumn = index_from 0 (\<lambda>c. cursorColumnMatches c cursorColumn) cols"

definition queryResultColumnIndex :: "string list \<Rightarrow> string \<Rightarrow> int" where
  "queryResultColumnIndex columns cursorColumn =
    (let requested = queryResultColumnName cursorColumn;
         exact = index_from 0 (\<lambda>c. trim_space c = requested) columns;
         folded = index_from 0 (\<lambda>c. equal_fold (trim_space c) requested) columns in
     if exact \<noteq> -1 then exact
     else if folded \<noteq> -1 then folded
     else index_from 0 (\<lambda>c. equal_fold (trim_space c) (identLeaf cursorColumn)) columns)"

end
