(* ===== verification/StatementSafety.thy ===== *)
theory StatementSafety
  imports FilterSafety QueryMode
begin

text \<open>
  The statements of the connectors are what they look like: the quoted names, the accepted filter and the parameters
  of a count statement are read by the engine's lexer as a balanced \<open>SELECT\<close> and nothing else. The column list of a
  row query is not guarded in this way.
\<close>

section \<open>Texts the lexer passes over\<close>

definition lex_move :: "nat \<Rightarrow> sqlDialect \<Rightarrow> sqlLexer \<Rightarrow> sqlLexer \<Rightarrow> bool" where
  "lex_move n d l l' \<longleftrightarrow> lx_rest l \<noteq> [] \<and> lex_step first_bracket n d l = (l', None)"

definition tame :: "sqlLexer \<Rightarrow> sqlLexer \<Rightarrow> bool" where
  "tame l l' \<longleftrightarrow> lx_parens l' = lx_parens l \<and> lx_brackets l' = lx_brackets l \<and> reported l' = reported l"

definition ready :: "sqlLexer \<Rightarrow> bool" where
  "ready l \<longleftrightarrow> 0 \<le> lx_parens l \<and> 0 \<le> lx_brackets l \<and> statementEnd (lx_res l) < 0"

text \<open>\<open>eats d u v\<close>: before \<open>v\<close>, the lexer reads \<open>u\<close> at one depth and reports nothing.\<close>

definition eats :: "sqlDialect \<Rightarrow> string \<Rightarrow> string \<Rightarrow> bool" where
  "eats d u v \<longleftrightarrow> (\<forall>n l. lx_rest l = u @ v \<longrightarrow> ready l \<longrightarrow> (\<exists>l'. (lex_move n d)\<^sup>*\<^sup>* l l' \<and> lx_rest l' = v \<and> tame l l'))"

lemma eatsD: "eats d u v \<Longrightarrow> lx_rest l = u @ v \<Longrightarrow> ready l \<Longrightarrow> \<exists>l'. (lex_move n d)\<^sup>*\<^sup>* l l' \<and> lx_rest l' = v \<and> tame l l'"
  unfolding eats_def by blast

lemma tame_refl: "tame l l"
  by (simp add: tame_def)

lemma tame_trans: "tame a b \<Longrightarrow> tame b c \<Longrightarrow> tame a c"
  by (simp add: tame_def)

lemma tame_ready: "tame l l' \<Longrightarrow> ready l \<Longrightarrow> ready l'"
  by (simp add: tame_def ready_def reported_def)

lemma eats_nil: "eats d [] v"
  unfolding eats_def using tame_refl by auto

lemma eats_append:
  assumes "eats d u (v @ w)" "eats d v w"
  shows "eats d (u @ v) w"
  unfolding eats_def
proof (intro allI impI)
  fix n l assume l: "lx_rest l = (u @ v) @ w" "ready l"
  obtain a where a: "(lex_move n d)\<^sup>*\<^sup>* l a" "lx_rest a = v @ w" "tame l a" using eatsD [OF assms(1), of l] l by auto
  obtain b where b: "(lex_move n d)\<^sup>*\<^sup>* a b" "lx_rest b = w" "tame a b" using eatsD [OF assms(2) a(2) tame_ready [OF a(3) l(2)]] by blast
  show "\<exists>l'. (lex_move n d)\<^sup>*\<^sup>* l l' \<and> lx_rest l' = w \<and> tame l l'"
    using rtranclp_trans [OF a(1) b(1)] b(2) tame_trans [OF a(3) b(3)] by blast
qed

lemma eats_one:
  assumes "u \<noteq> []" "\<And>n l. lx_rest l = u @ v \<Longrightarrow> ready l \<Longrightarrow> \<exists>l'. lex_step first_bracket n d l = (l', None) \<and> lx_rest l' = v \<and> tame l l'"
  shows "eats d u v"
  unfolding eats_def
proof (intro allI impI)
  fix n l assume l: "lx_rest l = u @ v" "ready l"
  obtain l' where l': "lex_step first_bracket n d l = (l', None)" "lx_rest l' = v" "tame l l'" using assms(2) [OF l] by blast
  then have "lex_move n d l l'" using assms(1) l(1) by (simp add: lex_move_def)
  then show "\<exists>l'. (lex_move n d)\<^sup>*\<^sup>* l l' \<and> lx_rest l' = v \<and> tame l l'" using l' by blast
qed

section \<open>Single steps\<close>

lemma eats_space: "isSQLSpace c \<Longrightarrow> eats d [c] v"
  by (rule eats_one) (auto simp: lex_step_def Let_def advance_def tame_def reported_def)

text \<open>A character that starts neither a comment nor any other token.\<close>

definition starts_nothing :: "char \<Rightarrow> bool" where
  "starts_nothing c \<longleftrightarrow> \<not> isSQLSpace c \<and> c \<noteq> CHR 0x2D \<and> c \<noteq> CHR 0x23 \<and> c \<noteq> CHR 0x2F"

lemma no_comment: "starts_nothing c \<Longrightarrow> \<not> lineCommentAt d (c # v) \<and> \<not> has_prefix (c # v) ''/*''"
  by (auto simp: starts_nothing_def lineCommentAt_def has_prefix_def)

lemma step_token:
  assumes "lx_rest l = c # v" "starts_nothing c" "ready l"
  shows "lex_step closing n d l =
    (if c = CHR '';'' then advance v (update_res (\<lambda>res. res\<lparr>statementEnd := (if statementEnd res < 0 then offset n l else statementEnd res)\<rparr>) l)
     else if c = CHR ''('' then advance v (l\<lparr>lx_parens := lx_parens l + 1\<rparr>)
     else if c = CHR '')''
     then (let p = lx_parens l - 1 in advance v (update_res (\<lambda>res. res\<lparr>unbalanced := unbalanced res \<or> p < 0\<rparr>) (l\<lparr>lx_parens := p\<rparr>)))
     else if c = CHR 0x27 then scanned UnterminatedString (skip_quoted c (c \<in> set (backslashQuotes d)) v) l
     else if c = CHR 0x22 \<or> (c = CHR 0x60 \<and> backticks d) then scanned UnterminatedIdentifier (skip_quoted c (c \<in> set (backslashQuotes d)) v) l
     else if c = CHR ''['' \<or> c = CHR '']'' then bracket closing n d c l
     else if c = CHR 0x24 \<and> dollarQuotes d then dollar l
     else if isSQLIdentStart c then lex_word d l
     else advance v l)"
  using no_comment [OF assms(2), of d v] assms unfolding lex_step_def Let_def starts_nothing_def ready_def by simp

lemma eats_other:
  assumes "starts_nothing c" "c \<notin> set '';()[]$''" "c \<noteq> CHR 0x27" "c \<noteq> CHR 0x22" "c \<noteq> CHR 0x60" "\<not> isSQLIdentStart c"
  shows "eats d [c] v"
  by (rule eats_one) (use assms step_token in \<open>auto simp: advance_def tame_def reported_def\<close>)

lemma eats_parens:
  assumes "eats d u (CHR '')'' # v)"
  shows "eats d (CHR ''('' # u @ [CHR '')'']) v"
  unfolding eats_def
proof (intro allI impI)
  fix n l assume l: "lx_rest l = (CHR ''('' # u @ [CHR '')'']) @ v" "ready l"
  let ?a = "l\<lparr>lx_rest := u @ CHR '')'' # v, lx_parens := lx_parens l + 1\<rparr>"
  have s: "starts_nothing (CHR ''('')" "starts_nothing (CHR '')'')" by code_simp+
  have a: "lex_move n d l ?a" using step_token [OF _ s(1) l(2), of "u @ CHR '')'' # v"] l(1) by (simp add: lex_move_def advance_def)
  have "ready ?a" using l(2) by (simp add: ready_def)
  then obtain b where b: "(lex_move n d)\<^sup>*\<^sup>* ?a b" "lx_rest b = CHR '')'' # v" "tame ?a b" using eatsD [OF assms, of ?a] by auto
  have rb: "ready b" by (rule tame_ready [OF b(3)]) fact
  have pb: "lx_parens b = lx_parens l + 1" using b(3) by (simp add: tame_def)
  let ?c = "b\<lparr>lx_rest := v, lx_parens := lx_parens l\<rparr>"
  have p: "0 \<le> lx_parens l" using l(2) by (simp add: ready_def)
  have "lex_move n d b ?c" using step_token [OF b(2) s(2) rb] pb p b(2) by (simp add: lex_move_def advance_def Let_def)
  moreover have "tame l ?c" using b(3) by (simp add: tame_def reported_def)
  ultimately show "\<exists>l'. (lex_move n d)\<^sup>*\<^sup>* l l' \<and> lx_rest l' = v \<and> tame l l'"
    using a b(1) by (intro exI [of _ ?c]) (simp add: converse_rtranclp_into_rtranclp rtranclp.rtrancl_into_rtrancl)
qed

lemma ident_part_char: "isSQLIdentStart c \<or> is_digit c \<Longrightarrow> isSQLIdentPart c \<and> c \<noteq> CHR 0x22 \<and> c \<noteq> CHR 0x60 \<and> c \<noteq> CHR '']'' \<and> c \<noteq> CHR 0x5C"
  by (auto simp: isSQLIdentPart_def isSQLIdentStart_def is_digit_def)

lemma start_char: "isSQLIdentStart c \<Longrightarrow> starts_nothing c \<and> c \<notin> set '';()[]$'' \<and> c \<noteq> CHR 0x27 \<and> c \<noteq> CHR 0x22 \<and> c \<noteq> CHR 0x60"
  by (auto simp: isSQLIdentStart_def starts_nothing_def isSQLSpace_def)

lemma eats_word:
  assumes "w \<noteq> []" "isSQLIdentStart (hd w)" "list_all isSQLIdentPart w" "\<not> destructiveSQLKeyword w" "v = [] \<or> (\<not> isSQLIdentPart (hd v) \<and> hd v \<noteq> CHR 0x27)"
  shows "eats d w v"
proof (rule eats_one [OF assms(1)])
  fix n l assume l: "lx_rest l = w @ v" "ready l"
  have tw: "takeWhile isSQLIdentPart (w @ v) = w" "dropWhile isSQLIdentPart (w @ v) = v"
    using assms(3,5) by (cases v; auto simp: list_all_iff takeWhile_append2 dropWhile_append2)+
  have q: "\<not> (v \<noteq> [] \<and> hd v = CHR 0x27)" using assms(5) by auto
  obtain c t where c: "w = c # t" using assms(1) by (cases w) auto
  have "lex_step first_bracket n d l = lex_word d l"
    using step_token [of l c "t @ v" first_bracket n d] start_char [of c] l c assms(2) by simp
  moreover have "lex_word d l = (if lx_brackets l = 0 then advance v (update_res (\<lambda>res. res\<lparr>firstWord := (if firstWord res = '''' then w else firstWord res), lastWord := w,
         keyword := (if keyword res = '''' \<and> destructiveSQLKeyword w then to_upper w else keyword res)\<rparr>) l) else advance v l)"
    unfolding lex_word_def Let_def l(1) tw using q by (cases "v = []") simp_all
  ultimately show "\<exists>l'. lex_step first_bracket n d l = (l', None) \<and> lx_rest l' = v \<and> tame l l'"
    using assms(4) by (auto simp: advance_def tame_def reported_def update_res_def)
qed

lemma skip_quoted_closed: "q \<notin> set p \<Longrightarrow> CHR 0x5C \<notin> set p \<Longrightarrow> q \<noteq> CHR 0x5C \<Longrightarrow> v = [] \<or> hd v \<noteq> q \<Longrightarrow> skip_quoted q bs (p @ q # v) = Some v"
  by (induction p) (auto split: list.splits)

text \<open>The quotes a dialect knows for names.\<close>

definition name_quotes :: "sqlDialect \<Rightarrow> char \<Rightarrow> char \<Rightarrow> bool" where
  "name_quotes d a b \<longleftrightarrow> (a = CHR 0x22 \<and> b = CHR 0x22) \<or> (a = CHR 0x60 \<and> b = CHR 0x60 \<and> backticks d) \<or> (a = CHR ''['' \<and> b = CHR '']'' \<and> bracketIdents d)"

lemma eats_quoted:
  assumes "name_quotes d a b" "identPartRe p" "v = [] \<or> hd v \<noteq> b"
  shows "eats d (quoted_by a b p) v"
proof (rule eats_one)
  show "quoted_by a b p \<noteq> []" by (simp add: quoted_by_def)
  fix n l assume l: "lx_rest l = quoted_by a b p @ v" "ready l"
  have p: "b \<notin> set p" "CHR 0x5C \<notin> set p" "b \<noteq> CHR 0x5C"
    using assms(1,2) ident_part_char by (auto simp: name_quotes_def identPartRe_def list_all_iff)
  have sk: "skip_quoted b bs (p @ b # v) = Some v" for bs by (rule skip_quoted_closed [OF p assms(3)])
  have r: "lx_rest l = a # p @ b # v" using l(1) by (simp add: quoted_by_def)
  have s: "starts_nothing a" using assms(1) by (auto simp: name_quotes_def starts_nothing_def isSQLSpace_def)
  have "lex_step first_bracket n d l = (l\<lparr>lx_rest := v\<rparr>, None)"
    using assms(1) unfolding name_quotes_def
  proof (elim disjE conjE)
    assume "a = CHR 0x22" "b = CHR 0x22"
    then show ?thesis using step_token [OF r s l(2), of first_bracket n d] sk by (simp add: scanned_def)
  next
    assume "a = CHR 0x60" "b = CHR 0x60" "backticks d"
    then show ?thesis using step_token [OF r s l(2), of first_bracket n d] sk by (simp add: scanned_def)
  next
    assume "a = CHR ''[''" "b = CHR '']''" "bracketIdents d"
    then show ?thesis using step_token [OF r s l(2), of first_bracket n d] sk r by (simp add: scanned_def bracket_def Let_def)
  qed
  then show "\<exists>l'. lex_step first_bracket n d l = (l', None) \<and> lx_rest l' = v \<and> tame l l'" by (simp add: tame_def reported_def)
qed

lemma eats_dollar:
  assumes "is_digit c"
  shows "eats d [CHR 0x24, c] v"
proof -
  have c: "c \<noteq> CHR 0x24" "starts_nothing c" "c \<notin> set '';()[]$''" "c \<noteq> CHR 0x27" "c \<noteq> CHR 0x22" "c \<noteq> CHR 0x60" "\<not> isSQLIdentStart c"
    using assms by (auto simp: is_digit_def starts_nothing_def isSQLSpace_def isSQLIdentStart_def)
  have "eats d [CHR 0x24] (c # v)"
  proof (rule eats_one)
    fix n l assume l: "lx_rest l = [CHR 0x24] @ c # v" "ready l"
    have s: "starts_nothing (CHR 0x24)" "\<not> isSQLIdentStart (CHR 0x24)" by code_simp+
    have dl: "dollar l = advance (c # v) l" using l(1) assms c(1) by (simp add: dollar_def Let_def dollar_tag_def)
    have "lex_step first_bracket n d l = advance (c # v) l"
      using step_token [of l "CHR 0x24" "c # v" first_bracket n d, OF _ s(1) l(2)] l(1) s(2) dl by simp
    then show "\<exists>l'. lex_step first_bracket n d l = (l', None) \<and> lx_rest l' = c # v \<and> tame l l'"
      by (simp add: advance_def tame_def reported_def)
  qed simp
  then show ?thesis using eats_append [of d "[CHR 0x24]" "[c]" v] eats_other [OF c(2-7)] by simp
qed

lemma loop_moves: "lex_loop first_bracket j n d l = (l', None) \<Longrightarrow> (lex_move n d)\<^sup>*\<^sup>* l l'"
proof (induction j arbitrary: l)
  case (Suc j)
  show ?case
  proof (cases "lx_rest l = []")
    case True
    then show ?thesis using Suc.prems by simp
  next
    case False
    then obtain l2 where "lex_step first_bracket n d l = (l2, None)" "lex_loop first_bracket j n d l2 = (l', None)"
      using Suc.prems by (auto split: prod.splits option.splits)
    then show ?thesis using Suc.IH [of l2] False by (meson converse_rtranclp_into_rtranclp lex_move_def)
  qed
qed simp

text \<open>A text that the lexer reads alone with nothing to report is passed over before a closing parenthesis, after a line end if it ends in a line comment.\<close>

lemma eats_text:
  assumes "lexSQL s d = (res, None)" "statementEnd res < 0" "\<not> unbalanced res" "keyword res = ''''" "forbidden res = ''''"
    "stops z" "lineComment res \<longrightarrow> z = CHR 0x0A"
  shows "eats d s (z # v)"
  unfolding eats_def
proof (intro allI impI)
  fix n l assume l: "lx_rest l = s @ z # v" "ready l"
  obtain j l' where "lex_loop first_bracket j n d l = (l', None)" "lx_rest l' = z # v" "tame l l'"
    by (rule text_steps [OF assms l(1), of n]) (use l(2) in \<open>auto simp: tame_def ready_def\<close>)
  then show "\<exists>l'. (lex_move n d)\<^sup>*\<^sup>* l l' \<and> lx_rest l' = z # v \<and> tame l l'" using loop_moves by blast
qed

lemma eats_filter:
  assumes "ValidateWhereClause clause = Inr ()" "d \<in> set sqlDialects" "snd (lexSQL clause d) = None"
  shows "eats d clause (CHR '')'' # v)"
proof -
  obtain res where r: "lexSQL clause d = (res, None)" using assms(3) by (cases "lexSQL clause d") simp
  note ok = filter_checks [OF assms(1,2) r]
  have "\<not> lineComment res" using no_line_comment [OF r] ok by simp
  then show ?thesis using eats_text [OF r] ok by (simp add: stops_def)
qed

lemma eats_query:
  assumes "NormalizeReadOnlySQLQuery raw = Inr q" "d \<in> set sqlDialects" "snd (lexSQL q d) = None"
  shows "eats d (if sqlEndsInLineComment q then q @ [CHR 0x0A] else q) (CHR '')'' # v)"
proof -
  obtain res where r: "lexSQL q d = (res, None)" using assms(3) by (cases "lexSQL q d") simp
  have c: "checkReadOnlySQLShape res None = Inr ()" "statementEnd res < 0"
    using cut_stable(2) [OF normalized_cut(1) [OF assms(1)] assms(2)] r by simp_all
  then have ok: "\<not> unbalanced res" "keyword res = ''''" "forbidden res = ''''"
    by (auto simp: checkReadOnlySQLShape_def split: if_splits)
  note t = eats_text [OF r c(2) ok]
  show ?thesis
  proof (cases "sqlEndsInLineComment q")
    case True
    have "eats d q (CHR 0x0A # CHR '')'' # v)" by (rule t) (simp_all add: stops_def)
    moreover have "eats d [CHR 0x0A] (CHR '')'' # v)" by (rule eats_space) code_simp
    ultimately show ?thesis using eats_append [of d q "[CHR 0x0A]" "CHR '')'' # v"] True by simp
  next
    case False
    then have "\<not> lineComment res" using r assms(2) by (auto simp: sqlEndsInLineComment_def list_ex_iff)
    then show ?thesis using t [of "CHR '')''" v] False by (simp add: stops_def)
  qed
qed

section \<open>Whole statements\<close>

text \<open>What no step before the end of the statement changes: the first word, and that nothing trails.\<close>

definition keeps_word :: "sqlLexer \<Rightarrow> lexed \<Rightarrow> bool" where
  "keeps_word l x \<longleftrightarrow> (firstWord (lx_res l) \<noteq> '''' \<longrightarrow> firstWord (lx_res (fst x)) = firstWord (lx_res l))
     \<and> trailing (lx_res (fst x)) = trailing (lx_res l)"

lemma keeps_ends:
  "keeps_word l (advance u l') \<longleftrightarrow> keeps_word l (l', None)" "keeps_word l (scanned e r l') \<longleftrightarrow> keeps_word l (l', None)"
  by (simp_all add: keeps_word_def advance_def scanned_def split: option.split)

lemma keeps_moved:
  "keeps_word l (l'\<lparr>lx_rest := r\<rparr>, e) = keeps_word l (l', e)" "keeps_word l (l'\<lparr>lx_parens := p\<rparr>, e) = keeps_word l (l', e)"
  "keeps_word l (l'\<lparr>lx_brackets := b\<rparr>, e) = keeps_word l (l', e)" "keeps_word l (l'\<lparr>lx_next := k\<rparr>, e) = keeps_word l (l', e)"
  by (simp_all add: keeps_word_def)

lemma word_update: "(\<And>res. firstWord res \<noteq> '''' \<Longrightarrow> firstWord (f res) = firstWord res) \<Longrightarrow> (\<And>res. trailing (f res) = trailing res) \<Longrightarrow> keeps_word l (update_res f l, e)"
  by (simp add: keeps_word_def update_res_def)

lemma keeps_same: "keeps_word l (l, e)"
  by (simp add: keeps_word_def)


lemma step_keeps_word:
  assumes "statementEnd (lx_res l) < 0"
  shows "keeps_word l (lex_step closing n d l)"
proof -
  have 1: "keeps_word l (skipLineComment l, None)" "keeps_word l (skipBlockComment d l)"
    by (simp_all add: keeps_word_def skipLineComment_def skipBlockComment_def Let_def scanned_def update_res_def split: option.split)
  have 2: "keeps_word l (bracket closing n d b l)" for b
    by (simp add: bracket_def Let_def keeps_ends keeps_moved keeps_same word_update)
       (simp add: keeps_word_def update_res_def)
  have 3: "keeps_word l (dollar l)" "keeps_word l (lex_word d l)"
    by (simp_all add: dollar_def lex_word_def qQuote_def Let_def keeps_ends keeps_same word_update)
  have 4: "keeps_word l (advance v (update_res (\<lambda>res. res\<lparr>unbalanced := unbalanced res \<or> b\<rparr>) (l\<lparr>lx_parens := p\<rparr>)))" for v b p
    by (simp add: keeps_word_def advance_def update_res_def)
  show ?thesis unfolding lex_step_def Let_def using assms 1 2 3 4 by (simp add: keeps_ends keeps_moved keeps_same word_update)
qed

lemma moves_keep:
  assumes "(lex_move n d)\<^sup>*\<^sup>* l l'" "clean l'"
  shows "clean l \<and> (firstWord (lx_res l) \<noteq> '''' \<longrightarrow> firstWord (lx_res l') = firstWord (lx_res l)) \<and> trailing (lx_res l') = trailing (lx_res l)"
  using assms
proof (induction rule: converse_rtranclp_induct)
  case (step a b)
  have st: "lex_step first_bracket n d a = (b, None)" using step.hyps(1) by (simp add: lex_move_def)
  have IH: "clean b" "firstWord (lx_res b) \<noteq> '''' \<longrightarrow> firstWord (lx_res l') = firstWord (lx_res b)" "trailing (lx_res l') = trailing (lx_res b)"
    using step.IH step.prems by simp_all
  have c: "clean a" using step_grows [of a first_bracket n d] st IH(1) by (simp add: grows_def)
  have "keeps_word a (b, None)" using step_keeps_word [of a first_bracket n d] c st by (simp add: clean_def)
  then show ?case using c IH by (auto simp: keeps_word_def)
qed simp

lemma moves_loop:
  assumes "(lex_move n d)\<^sup>*\<^sup>* l l'" "lx_rest l' = []" "length (lx_rest l) \<le> k"
  shows "lex_loop first_bracket k n d l = (l', None)"
  using assms
proof (induction arbitrary: k rule: converse_rtranclp_induct)
  case base
  then show ?case by (cases k) simp_all
next
  case (step a b)
  have a: "lx_rest a \<noteq> []" "lex_step first_bracket n d a = (b, None)" using step.hyps(1) by (simp_all add: lex_move_def)
  have "length (lx_rest b) < length (lx_rest a)" using step_reads [OF a(1), of first_bracket n d] a(2) suffix_length_less by (auto simp: reads_on_def)
  then obtain j where j: "k = Suc j" "length (lx_rest b) \<le> j" using step.prems by (cases k) auto
  then show ?case using step.IH [OF step.prems(1) j(2)] a by simp
qed

text \<open>What the guard asks of a query: one balanced \<open>SELECT\<close> to the end, nothing after a separator and no data-changing keyword.\<close>

definition one_select :: "sqlDialect \<Rightarrow> string \<Rightarrow> bool" where
  "one_select d s \<longleftrightarrow> (case lexSQL s d of (res, e) \<Rightarrow> e = None \<and> checkReadOnlySQLShape res e = Inr ())"

text \<open>A statement that starts with \<open>SELECT\<close> and goes on with a text the lexer passes over, and with a separator or not.\<close>

lemma select_statement:
  assumes "eats d (CHR '' '' # t) term" "term = '''' \<or> term = '';''"
  shows "one_select d (''SELECT '' @ t @ term)"
proof -
  define s where "s = ''SELECT'' @ CHR '' '' # t @ term"
  let ?l = "lex_init s" and ?n = "length s"
  have w: "''SELECT'' \<noteq> []" "isSQLIdentStart (hd ''SELECT'')" "list_all isSQLIdentPart ''SELECT''" "\<not> destructiveSQLKeyword ''SELECT''"
    "\<not> isSQLIdentPart (CHR '' '')" by code_simp+
  have r: "lx_rest ?l = ''SELECT'' @ CHR '' '' # t @ term" "ready ?l" by (simp_all add: lex_init_def s_def ready_def)
  let ?a = "(update_res (\<lambda>res. res\<lparr>firstWord := ''SELECT'', lastWord := ''SELECT''\<rparr>) ?l)\<lparr>lx_rest := CHR '' '' # t @ term\<rparr>"
  have tw: "takeWhile isSQLIdentPart (''SELECT'' @ CHR '' '' # t @ term) = ''SELECT''" "dropWhile isSQLIdentPart (''SELECT'' @ CHR '' '' # t @ term) = CHR '' '' # t @ term"
    using w(3,5) by (simp_all add: while_more)
  have lw: "lex_word d ?l = (?a, None)"
    unfolding lex_word_def Let_def r(1) tw using w(4) by (simp add: lex_init_def advance_def update_res_def)
  have "lex_step first_bracket ?n d ?l = lex_word d ?l"
    using step_token [of ?l "CHR ''S''" "''ELECT'' @ CHR '' '' # t @ term" first_bracket ?n d] r start_char [of "CHR ''S''"] w(2) by simp
  then have 1: "lex_move ?n d ?l ?a" using lw r(1) by (simp add: lex_move_def)
  have ra: "ready ?a" using r(2) by (simp add: ready_def update_res_def)
  obtain b where b: "(lex_move ?n d)\<^sup>*\<^sup>* ?a b" "lx_rest b = term" "tame ?a b" using eatsD [OF assms(1), of ?a ?n] ra by auto
  have rep: "reported b = (- 1, False, '''', '''')" "lx_parens b = 0" "lx_brackets b = 0"
    using b(3) by (simp_all add: tame_def reported_def update_res_def lex_init_def)
  then have cb: "clean b" by (simp add: reported_def clean_def)
  have kb: "firstWord (lx_res b) = ''SELECT''" "\<not> trailing (lx_res b)"
    using moves_keep [OF b(1) cb] by (simp_all add: update_res_def lex_init_def)
  obtain c where c: "(lex_move ?n d)\<^sup>*\<^sup>* b c" "lx_rest c = []" "\<exists>e. c = (update_res (\<lambda>res. res\<lparr>statementEnd := e\<rparr>) b)\<lparr>lx_rest := []\<rparr>"
  proof (cases "term = ''''")
    case True
    have "b = (update_res (\<lambda>res. res\<lparr>statementEnd := statementEnd (lx_res b)\<rparr>) b)\<lparr>lx_rest := []\<rparr>" using b(2) True by (simp add: update_res_def)
    then show ?thesis using that [of b] b(2) True by auto
  next
    case False
    then have t: "lx_rest b = CHR '';'' # []" using b(2) assms(2) by simp
    have sn: "starts_nothing (CHR '';'')" by code_simp
    let ?c = "(update_res (\<lambda>res. res\<lparr>statementEnd := offset ?n b\<rparr>) b)\<lparr>lx_rest := []\<rparr>"
    have "lex_move ?n d b ?c"
      using step_token [OF t sn tame_ready [OF b(3) ra], of first_bracket ?n d] t rep(1) by (simp add: lex_move_def advance_def reported_def update_res_def)
    then show ?thesis using that [of ?c] by auto
  qed
  have "lex_loop first_bracket ?n ?n d ?l = (c, None)"
    by (rule moves_loop [OF converse_rtranclp_into_rtranclp [OF 1 rtranclp_trans [OF b(1) c(1)]] c(2)]) (simp add: lex_init_def)
  moreover obtain e where e: "c = (update_res (\<lambda>res. res\<lparr>statementEnd := e\<rparr>) b)\<lparr>lx_rest := []\<rparr>" using c(3) by blast
  ultimately have lx: "lexSQL s d = ((lx_res b)\<lparr>statementEnd := e, unbalanced := False\<rparr>, None)"
    using rep unfolding lexSQL_reference lex_with_def by (simp add: reported_def update_res_def)
  have q: "equal_fold ''SELECT'' ''SELECT''" by code_simp
  show ?thesis unfolding one_select_def using lx rep(1) kb q by (simp add: s_def checkReadOnlySQLShape_def reported_def)
qed

section \<open>Names, bounds and filters\<close>

text \<open>Texts that are passed over before the end, a space, a separator or a closing parenthesis.\<close>

definition breaks :: "string \<Rightarrow> bool" where
  "breaks v \<longleftrightarrow> v = [] \<or> hd v \<in> {CHR '' '', CHR '';'', CHR '','', CHR '')''}"

lemma breaks_simps [simp]: "breaks []" "breaks (CHR '' '' # v)" "breaks (CHR '';'' # v)" "breaks (CHR '','' # v)" "breaks (CHR '')'' # v)"
  by (simp_all add: breaks_def)

definition clausal :: "sqlDialect \<Rightarrow> string \<Rightarrow> bool" where
  "clausal d u \<longleftrightarrow> (\<forall>v. breaks v \<longrightarrow> eats d u v)"

lemma clausalI: "(\<And>v. breaks v \<Longrightarrow> eats d u v) \<Longrightarrow> clausal d u"
  by (simp add: clausal_def)

lemma clausalD: "clausal d u \<Longrightarrow> breaks v \<Longrightarrow> eats d u v"
  by (simp add: clausal_def)

lemma eats_Cons: "eats d [c] (u @ v) \<Longrightarrow> eats d u v \<Longrightarrow> eats d (c # u) v"
  using eats_append [of d "[c]" u v] by simp

definition plain_word :: "string \<Rightarrow> bool" where
  "plain_word w \<longleftrightarrow> w \<noteq> [] \<and> isSQLIdentStart (hd w) \<and> list_all isSQLIdentPart w \<and> \<not> destructiveSQLKeyword w"

definition plain_char :: "char \<Rightarrow> bool" where
  "plain_char c \<longleftrightarrow> starts_nothing c \<and> c \<notin> set '';()[]$'' \<and> c \<noteq> CHR 0x27 \<and> c \<noteq> CHR 0x22 \<and> c \<noteq> CHR 0x60 \<and> \<not> isSQLIdentStart c"

lemma eats_plain: "list_all plain_char u \<Longrightarrow> eats d u v"
proof (induction u)
  case (Cons c u)
  have "eats d [c] (u @ v)" by (rule eats_other) (use Cons.prems in \<open>simp_all add: plain_char_def\<close>)
  then show ?case using eats_Cons Cons by simp
qed (rule eats_nil)

lemma eats_blank: "eats d [CHR '' ''] v"
  by (rule eats_space) code_simp

lemma eats_plain_word: "plain_word w \<Longrightarrow> v = [] \<or> (\<not> isSQLIdentPart (hd v) \<and> hd v \<noteq> CHR 0x27) \<Longrightarrow> eats d w v"
  by (rule eats_word) (simp_all add: plain_word_def)

lemma blank_ends_word: "\<not> isSQLIdentPart (CHR '' '')" "\<not> isSQLIdentPart (CHR ''('')" "\<not> isSQLIdentPart (CHR '')'')" "\<not> isSQLIdentPart (CHR '';'')"
  "\<not> isSQLIdentPart (CHR '','')" "\<not> isSQLIdentPart (CHR ''.'')"
  by code_simp+

lemma clausal_word: "plain_word w \<Longrightarrow> clausal d w"
  using blank_ends_word by (auto simp: breaks_def intro!: clausalI eats_plain_word)

lemma eats_infix: "plain_word w \<Longrightarrow> eats d (CHR '' '' # w @ [CHR '' '']) v"
  using eats_append [of d w "[CHR '' '']" v] clausalD [OF clausal_word] eats_blank by (simp add: eats_Cons)

lemma clausal_plain: "list_all plain_char u \<Longrightarrow> clausal d u"
  by (rule clausalI) (rule eats_plain)

text \<open>A call of a function: \<open>word(args)\<close>.\<close>

lemma clausal_call:
  assumes "plain_word w" "\<And>v. eats d u (CHR '')'' # v)"
  shows "eats d (w @ CHR ''('' # u @ [CHR '')'']) v"
  by (rule eats_append [OF eats_plain_word [OF assms(1)] eats_parens [OF assms(2)]]) (simp add: blank_ends_word)

subsection \<open>Names\<close>

definition named :: "sqlDialect \<Rightarrow> string \<Rightarrow> bool" where
  "named d r \<longleftrightarrow> (\<exists>a b ps. name_quotes d a b \<and> ps \<noteq> [] \<and> list_all identPartRe ps \<and> r = join ''.'' (map (quoted_by a b) ps))"

lemma dot_plain: "list_all plain_char ''.''" by code_simp

lemma named_clausal:
  assumes "named d r"
  shows "clausal d r"
proof -
  obtain a b ps where n: "name_quotes d a b" "ps \<noteq> []" "list_all identPartRe ps" "r = join ''.'' (map (quoted_by a b) ps)"
    using assms by (auto simp: named_def)
  have b: "b \<notin> {CHR '' '', CHR '';'', CHR '','', CHR '')''}" "b \<noteq> CHR ''.''" using n(1) by (auto simp: name_quotes_def)
  have "eats d (join ''.'' (map (quoted_by a b) ps)) v" if "breaks v" for v
    using n(2,3)
  proof (induction ps rule: induct_list012)
    case (2 p)
    have "v = [] \<or> hd v \<noteq> b" using that b(1) unfolding breaks_def by blast
    then show ?case using eats_quoted [OF n(1), of p v] 2 by simp
  next
    case (3 p q ps)
    have j: "eats d (join ''.'' (map (quoted_by a b) (q # ps))) v" using 3 by simp
    have "eats d (quoted_by a b p) (CHR ''.'' # join ''.'' (map (quoted_by a b) (q # ps)) @ v)"
      using eats_quoted [OF n(1), of p] 3 b by simp
    moreover have "eats d (CHR ''.'' # join ''.'' (map (quoted_by a b) (q # ps))) v"
      by (rule eats_Cons [OF _ j]) (rule eats_plain [OF dot_plain])
    ultimately show ?case using eats_append [of d "quoted_by a b p" "CHR ''.'' # join ''.'' (map (quoted_by a b) (q # ps))" v] by simp
  qed simp
  then show ?thesis using n(4) by (auto intro: clausalI)
qed

lemma quote_parts_shape: "quote_parts trim a b xs = Inr qs \<Longrightarrow> \<exists>ps. length ps = length xs \<and> list_all identPartRe ps \<and> qs = map (quoted_by a b) ps"
proof (induction xs arbitrary: qs)
  case (Cons x xs)
  obtain rs where rs: "quote_parts trim a b xs = Inr rs" "identPartRe (trim (trim_space x))" "qs = quoted_by a b (trim (trim_space x)) # rs"
    using Cons.prems by (cases "quote_parts trim a b xs") (auto simp: Let_def split: if_splits)
  obtain ps where "length ps = length xs" "list_all identPartRe ps" "rs = map (quoted_by a b) ps" using Cons.IH [OF rs(1)] by blast
  then show ?case using rs by (intro exI [of _ "trim (trim_space x) # ps"]) simp
qed simp

lemma split_on_nonempty: "split_on c s \<noteq> []"
  by (induction s) (auto split: list.splits)

lemma quote_multipart_named:
  assumes "quote_multipart trim a b s = Inr r" "name_quotes d a b"
  shows "named d r"
proof -
  obtain qs where qs: "quote_parts trim a b (split_on (CHR ''.'') (trim_space s)) = Inr qs" "r = join ''.'' qs"
    using assms(1) by (auto simp: quote_multipart_def Let_def split: if_splits)
  then show ?thesis using quote_parts_shape [OF qs(1)] split_on_nonempty [of "CHR ''.''" "trim_space s"] assms(2)
    unfolding named_def by (metis length_greater_0_conv)
qed

lemma upper_char: "isSQLIdentStart c \<or> is_digit c \<Longrightarrow> isSQLIdentStart (hd (to_upper [c])) \<or> is_digit (hd (to_upper [c]))"
proof -
  have "list_all (\<lambda>c. isSQLIdentStart (hd (to_upper [c])) \<or> is_digit (hd (to_upper [c])))
    ''ABCDEFGHIJKLMNOPQRSTUVWXYZabcdefghijklmnopqrstuvwxyz_0123456789''" by code_simp
  moreover assume "isSQLIdentStart c \<or> is_digit c"
  then have "c \<in> set ''ABCDEFGHIJKLMNOPQRSTUVWXYZabcdefghijklmnopqrstuvwxyz_0123456789''"
    by (auto simp: isSQLIdentStart_def is_digit_def)
  ultimately show ?thesis unfolding list_all_iff by (rule bspec)
qed

lemma upper_ident: "identPartRe p \<Longrightarrow> identPartRe (to_upper p)"
proof -
  assume p: "identPartRe p"
  have u: "to_upper p = map (\<lambda>c. hd (to_upper [c])) p" by (simp add: to_upper_def)
  show ?thesis unfolding u using p upper_char by (simp add: identPartRe_def list_all_iff)
qed

lemma oracle_part_shape: "parseOracleIdentPart raw = Inr p \<Longrightarrow> \<exists>x. identPartRe x \<and> op_Quoted p = quoted_by (CHR 0x22) (CHR 0x22) x"
  using upper_ident by (auto simp: parseOracleIdentPart_def Let_def quoted_by_def split: if_splits)

lemma oracle_named:
  "quoteOracleMultipartIdent raw = Inr r \<Longrightarrow> named d r" "quoteOracleCursorIdent raw = Inr r \<Longrightarrow> named d r"
proof -
  have q: "name_quotes d (CHR 0x22) (CHR 0x22)" by (simp add: name_quotes_def)
  have parts: "oracle_parts xs = Inr ps \<Longrightarrow> \<forall>p \<in> set ps. \<exists>x. identPartRe x \<and> op_Quoted p = quoted_by (CHR 0x22) (CHR 0x22) x" for xs ps
  proof (induction xs arbitrary: ps)
    case (Cons x xs)
    obtain p rs where "parseOracleIdentPart x = Inr p" "oracle_parts xs = Inr rs" "ps = p # rs"
      using Cons.prems by (cases "parseOracleIdentPart x"; cases "oracle_parts xs") auto
    then show ?case using Cons.IH [of rs] oracle_part_shape [of x p] by simp
  qed simp
  show "named d r" if c: "quoteOracleCursorIdent raw = Inr r"
  proof -
    obtain p where p: "parseOracleIdentPart (List.last (split_on (CHR ''.'') (trim_space raw))) = Inr p" "r = op_Quoted p"
      using c by (auto simp: quoteOracleCursorIdent_def parseOracleCursorIdent_def Let_def split: if_splits)
    then obtain x where "identPartRe x" "r = join ''.'' (map (quoted_by (CHR 0x22) (CHR 0x22)) [x])" using oracle_part_shape [OF p(1)] by auto
    then show ?thesis unfolding named_def using q by (intro exI [of _ "CHR 0x22"] exI [of _ "[x]"]) simp
  qed
  show "named d r" if m: "quoteOracleMultipartIdent raw = Inr r"
  proof -
    obtain i where i: "parseOracleObjectIdent raw = Inr i" "r = oo_Quoted i" using m by (auto simp: quoteOracleMultipartIdent_def)
    obtain ps where ps: "parseOracleMultipartIdent raw 2 = Inr ps" using i(1) by (auto simp: parseOracleObjectIdent_def)
    then have o: "oracle_parts (split_on (CHR ''.'') (trim_space raw)) = Inr ps"
      by (auto simp: parseOracleMultipartIdent_def Let_def split: if_splits)
    consider p where "ps = [p]" "r = op_Quoted p" | p p' where "ps = [p, p']" "r = op_Quoted p @ ''.'' @ op_Quoted p'"
      using i ps by (auto simp: parseOracleObjectIdent_def split: list.splits)
    then show ?thesis
    proof cases
      case (1 p)
      then obtain x where "identPartRe x" "r = join ''.'' (map (quoted_by (CHR 0x22) (CHR 0x22)) [x])" using parts [OF o] by auto
      then show ?thesis unfolding named_def using q by (intro exI [of _ "CHR 0x22"] exI [of _ "[x]"]) simp
    next
      case (2 p p')
      then obtain x y where "identPartRe x" "identPartRe y" "r = join ''.'' (map (quoted_by (CHR 0x22) (CHR 0x22)) [x, y])" using parts [OF o] by auto
      then show ?thesis unfolding named_def using q by (intro exI [of _ "CHR 0x22"] exI [of _ "[x, y]"]) simp
    qed
  qed
qed

subsection \<open>Parameters, bounds and the predicate\<close>

text \<open>The placeholders of the at most two parameters of a range.\<close>

definition marks :: "sqlDialect \<Rightarrow> (nat \<Rightarrow> string) \<Rightarrow> bool" where
  "marks d ph \<longleftrightarrow> clausal d (ph (Suc 0)) \<and> clausal d (ph (Suc (Suc 0)))"

lemma marks_all: "marks d questionPlaceholder" "marks d dollarPlaceholder" "marks d mssqlPlaceholder" "marks d oraclePlaceholder"
proof -
  have q: "list_all plain_char (questionPlaceholder (Suc 0))" "list_all plain_char (questionPlaceholder (Suc (Suc 0)))" by code_simp+
  have o: "list_all plain_char (oraclePlaceholder (Suc 0))" "list_all plain_char (oraclePlaceholder (Suc (Suc 0)))" by code_simp+
  have m: "mssqlPlaceholder (Suc 0) = CHR ''@'' # ''p1''" "mssqlPlaceholder (Suc (Suc 0)) = CHR ''@'' # ''p2''"
    "list_all plain_char ''@''" "plain_word ''p1''" "plain_word ''p2''" by code_simp+
  have p: "dollarPlaceholder (Suc 0) = [CHR 0x24, CHR ''1'']" "dollarPlaceholder (Suc (Suc 0)) = [CHR 0x24, CHR ''2'']"
    "is_digit (CHR ''1'')" "is_digit (CHR ''2'')" by code_simp+
  show "marks d questionPlaceholder" "marks d oraclePlaceholder" using q o by (simp_all add: marks_def clausal_plain)
  show "marks d dollarPlaceholder" using p(3,4) by (simp add: marks_def p clausal_def eats_dollar)
  have "clausal d (CHR ''@'' # w)" if "plain_word w" for w
    by (rule clausalI, rule eats_Cons [OF eats_plain [OF m(3)]]) (rule clausalD [OF clausal_word [OF that]])
  then show "marks d mssqlPlaceholder" using m by (simp add: marks_def)
qed

lemma clausal_bound:
  assumes "clausal d cursor" "list_all plain_char cmp" "clausal d ph"
  shows "clausal d (cursor @ '' '' @ cmp @ '' '' @ ph)"
proof (rule clausalI)
  fix v :: string assume v: "breaks v"
  have 1: "eats d ph v" by (rule clausalD [OF assms(3) v])
  have 2: "eats d (CHR '' '' # ph) v" by (rule eats_Cons [OF eats_blank 1])
  have 3: "eats d (cmp @ CHR '' '' # ph) v" by (rule eats_append [OF eats_plain [OF assms(2)] 2])
  have 4: "eats d (CHR '' '' # cmp @ CHR '' '' # ph) v" by (rule eats_Cons [OF eats_blank 3])
  show "eats d (cursor @ '' '' @ cmp @ '' '' @ ph) v"
    using eats_append [OF _ 4, of cursor] clausalD [OF assms(1)] by simp
qed

lemma clausal_conjunction: "list_all (clausal d) cs \<Longrightarrow> clausal d (join '' AND '' cs)"
proof (induction cs rule: induct_list012)
  case 1
  then show ?case by (simp add: clausal_def eats_nil)
next
  case (3 c e cs)
  have w: "plain_word ''AND''" by code_simp
  let ?t = "join '' AND '' (e # cs)"
  have t: "clausal d ?t" using 3 by simp
  show ?case
  proof (rule clausalI)
    fix v :: string assume v: "breaks v"
    have 1: "eats d ?t v" by (rule clausalD [OF t v])
    have 2: "eats d ('' AND '' @ ?t) v" by (rule eats_append [OF _ 1]) (use eats_infix [OF w] in simp)
    have "eats d (c @ '' AND '' @ ?t) v" by (rule eats_append [OF _ 2]) (use 3(3) clausalD in simp)
    then show "eats d (join '' AND '' (c # e # cs)) v" by simp
  qed
qed simp

text \<open>An absent filter, or one the guard accepts and the engine can read to its end.\<close>

definition sound_filter :: "sqlDialect \<Rightarrow> string \<Rightarrow> bool" where
  "sound_filter d clause \<longleftrightarrow> trim_space clause = '''' \<or> (ValidateWhereClause clause = Inr () \<and> snd (lexSQL clause d) = None)"

lemma add_bound_clausal:
  assumes "add_bound q cursor ph bound cmp (cs, as) = Inr (cs', as')" "list_all (clausal d) cs" "length as < 2"
    "clausal d cursor" "list_all plain_char cmp" "marks d ph"
  shows "list_all (clausal d) cs' \<and> length as' \<le> Suc (length as)"
proof -
  have "clausal d (ph (Suc (length as)))" using less_2_cases [OF assms(3)] assms(6) by (auto simp: marks_def)
  then have "clausal d (cursor @ '' '' @ cmp @ '' '' @ ph (Suc (length as)))" using clausal_bound assms(4,5) by blast
  then show ?thesis using assms(1,2) unfolding add_bound_def by (simp split: if_splits sum.splits add: rbind_Inr) auto
qed

text \<open>The parts of a statement over a range.\<close>

definition sound_range :: "sqlDialect \<Rightarrow> rangeSQL \<Rightarrow> bool" where
  "sound_range d r \<longleftrightarrow> clausal d (rs_Table r) \<and> clausal d (rs_Cursor r) \<and> clausal d (rs_Where r)"

lemma range_sound:
  assumes "newRangeSQL q table cursor ph = Inr r" "clausal d cursor" "marks d ph" "sound_filter d (q_WhereClause q)" "d \<in> set sqlDialects" "clausal d table"
  shows "sound_range d r"
proof -
  let ?cs = "if trim_space (q_WhereClause q) \<noteq> '''' then [''('' @ q_WhereClause q @ '')''] else []"
  have o: "list_all plain_char ''>''" "list_all plain_char ''>=''" "list_all plain_char ''<=''" "list_all plain_char ''<''" by code_simp+
  have ops: "list_all plain_char (if b then ''>'' else ''>='')" "list_all plain_char (if b then ''<='' else ''<'')" for b
    by (cases b; simp only: if_True if_False o)+
  obtain c1 a1 c2 a2 where b: "add_bound q cursor ph (q_LowerBound q) (if q_LowerExclusive q then ''>'' else ''>='') (?cs, []) = Inr (c1, a1)"
    "add_bound q cursor ph (q_UpperBound q) (if q_UpperInclusive q then ''<='' else ''<'') (c1, a1) = Inr (c2, a2)"
    "r = \<lparr>rs_Table = table, rs_Cursor = cursor, rs_Where = join '' AND '' c2, rs_Args = a2\<rparr>"
    using assms(1) unfolding newRangeSQL_def Let_def rbind_eq_Inr_iff by (auto simp: rbind_eq_Inr_iff split: if_splits prod.splits)
  have "clausal d (''('' @ q_WhereClause q @ '')'')" if "trim_space (q_WhereClause q) \<noteq> ''''"
  proof -
    have f: "ValidateWhereClause (q_WhereClause q) = Inr ()" "snd (lexSQL (q_WhereClause q) d) = None"
      using assms(4) that by (simp_all add: sound_filter_def)
    show ?thesis by (rule clausalI) (use eats_parens [OF eats_filter [OF f(1) assms(5) f(2)]] in simp)
  qed
  then have 0: "list_all (clausal d) ?cs" by simp
  have 1: "list_all (clausal d) c1 \<and> length a1 \<le> Suc (length ([] :: cursor_arg list))"
    by (rule add_bound_clausal [OF b(1) 0 _ assms(2) ops(1) assms(3)]) simp
  have "list_all (clausal d) c2 \<and> length a2 \<le> Suc (length a1)"
    by (rule add_bound_clausal [OF b(2) _ _ assms(2) ops(2) assms(3)]) (use 1 in simp_all)
  then show ?thesis using b(3) clausal_conjunction assms(2,6) by (simp add: sound_range_def)
qed

lemma where_eats:
  assumes "clausal d (rs_Where r)" "breaks v"
  shows "eats d (whereSQL r) v"
proof (cases "rs_Where r = ''''")
  case False
  have w: "plain_word ''WHERE''" by code_simp
  have "eats d ('' WHERE '' @ rs_Where r) v" by (rule eats_append [OF _ clausalD [OF assms]]) (use eats_infix [OF w] in simp)
  then show ?thesis using False by (simp add: whereSQL_def)
qed (simp add: whereSQL_def eats_nil)

lemma order_eats:
  assumes "clausal d c" "breaks v"
  shows "eats d (order_by c) v"
proof -
  have w: "plain_word ''ORDER''" "plain_word ''BY''" "plain_word ''ASC''" by code_simp+
  have 1: "eats d (CHR '' '' # ''ASC'') v" by (rule eats_Cons [OF eats_blank clausalD [OF clausal_word [OF w(3)] assms(2)]])
  have 2: "eats d (c @ CHR '' '' # ''ASC'') v" by (rule eats_append [OF clausalD [OF assms(1)] 1]) simp
  have 3: "eats d (''BY '' @ c @ CHR '' '' # ''ASC'') v"
    using eats_append [OF clausalD [OF clausal_word [OF w(2)]] eats_Cons [OF eats_blank 2]] by simp
  have "eats d ('' ORDER '' @ ''BY '' @ c @ CHR '' '' # ''ASC'') v" by (rule eats_append [OF _ 3]) (use eats_infix [OF w(1)] in simp)
  then show ?thesis by (simp add: order_by_def)
qed

text \<open>\<open>SELECT expr FROM source WHERE .. ORDER BY ..\<close>, each of the last two or not, and a separator or not.\<close>

lemma select_from:
  assumes "clausal d expr" "clausal d (rs_Table r @ hint)" "sound_range d r" "order = '''' \<or> order = order_by (rs_Cursor r)" "term = '''' \<or> term = '';''"
  shows "one_select d (''SELECT '' @ expr @ '' FROM '' @ rs_Table r @ hint @ whereSQL r @ order @ term)"
proof -
  have w: "plain_word ''FROM''" by code_simp
  have r: "clausal d (rs_Where r)" "clausal d (rs_Cursor r)" using assms(3) by (simp_all add: sound_range_def)
  have t: "breaks term" "breaks (order @ term)" "breaks (whereSQL r @ order @ term)" using assms(4,5) by (auto simp: order_by_def whereSQL_def)
  have 1: "eats d order term" using assms(4) order_eats [OF r(2) t(1)] eats_nil by auto
  have 2: "eats d (whereSQL r @ order) term" by (rule eats_append [OF where_eats [OF r(1) t(2)] 1])
  have 3: "eats d ((rs_Table r @ hint) @ whereSQL r @ order) term" by (rule eats_append [OF clausalD [OF assms(2)] 2]) (use t(3) in simp)
  have 4: "eats d ('' FROM '' @ (rs_Table r @ hint) @ whereSQL r @ order) term" by (rule eats_append [OF _ 3]) (use eats_infix [OF w] in simp)
  have 5: "eats d (expr @ '' FROM '' @ (rs_Table r @ hint) @ whereSQL r @ order) term" by (rule eats_append [OF clausalD [OF assms(1)] 4]) simp
  have "eats d (CHR '' '' # expr @ '' FROM '' @ (rs_Table r @ hint) @ whereSQL r @ order) term" by (rule eats_Cons [OF eats_blank 5])
  from select_statement [OF this assms(5)] show ?thesis by simp
qed

lemma count_exprs: "clausal d countExpr" "clausal d mssqlCountExpr" "clausal d clickHouseCountExpr" "clausal d ''*''"
proof -
  have w: "plain_word ''COUNT''" "plain_word ''COUNT_BIG''" "plain_word ''toInt64''" "plain_word ''count''" "list_all plain_char ''*''" by code_simp+
  have s: "eats d ''*'' v" for v by (rule eats_plain [OF w(5)])
  have n: "eats d (''count()'') v" for v using clausal_call [OF w(4), of d "[]" v] eats_nil by simp
  show "clausal d countExpr" using clausal_call [OF w(1) s] by (simp add: countExpr_def clausal_def)
  show "clausal d mssqlCountExpr" using clausal_call [OF w(2) s] by (simp add: mssqlCountExpr_def clausal_def)
  show "clausal d clickHouseCountExpr" using clausal_call [OF w(3) n] by (simp add: clickHouseCountExpr_def clausal_def)
  show "clausal d ''*''" using s by (simp add: clausal_def)
qed

lemma hinted: "clausal d t \<Longrightarrow> clausal d (t @ '' WITH (NOLOCK)'')"
proof (rule clausalI)
  fix v :: string assume t: "clausal d t"
  have w: "plain_word ''WITH''" "plain_word ''NOLOCK''" by code_simp+
  have 1: "eats d (CHR ''('' # ''NOLOCK'' @ [CHR '')'']) v"
    by (rule eats_parens) (rule eats_plain_word [OF w(2)], simp add: blank_ends_word)
  have 2: "eats d ('' WITH '' @ CHR ''('' # ''NOLOCK'' @ [CHR '')'']) v" by (rule eats_append [OF _ 1]) (use eats_infix [OF w(1)] in simp)
  show "eats d (t @ '' WITH (NOLOCK)'') v" using eats_append [OF _ 2, of t] clausalD [OF t] by simp
qed

end
