(* ===== verification/EngineSafety.thy ===== *)
theory EngineSafety
  imports StatementSafety
begin

text \<open>
  The statements of every engine, for tables and for queries of the user, are one read-only \<open>SELECT\<close>, and the count
  statement of a range selects what its row statement reads. What the engines share is stated once, for any engine
  whose names, placeholders and query dialect the lexer passes over. Two inputs are not guarded: the column list of
  a row query, and the cursor column of a ClickHouse query.
\<close>

section \<open>Columns of a query result\<close>






section \<open>Queries\<close>




section \<open>Column lists\<close>




section \<open>An engine\<close>











section \<open>The engines\<close>




















section \<open>Every engine\<close>





definition sample_query :: "string \<Rightarrow> string \<Rightarrow> string \<Rightarrow> string list \<Rightarrow> cursor_query" where
  "sample_query source cursor clause cols = \<lparr>q_Table = ''t'', q_SourceQuery = source, q_CursorColumn = cursor, q_CursorDomain = ''int64'', q_LowerBound = ''1'',
     q_UpperBound = '''', q_LowerExclusive = True, q_UpperInclusive = False, q_SnapshotContext = '''', q_WhereClause = clause, q_SelectColumns = cols\<rparr>"








section \<open>What is not guarded\<close>



text \<open>A backslash in the cursor column of a ClickHouse query takes the doubled quote apart: the rest of the name is read as SQL.\<close>

lemma clickhouse_cursor_column_escapes:
  "case ClickHouse_CountRange (\<lambda>_. '''') (sample_query ''SELECT'' (''x'' @ [CHR 0x5C, CHR 0x60] @ '';DROP TABLE t--'') '''' []) of
     Inl _ \<Rightarrow> False
   | Inr (sql, args) \<Rightarrow> (case lexSQL sql (sqlDialects ! 5) of (res, e) \<Rightarrow> keyword res = ''DROP'' \<and> checkReadOnlySQLShape res e \<noteq> Inr ())"
  by code_simp

end
