(* ===== verification/Maintenance.thy ===== *)
theory Maintenance
  imports Leadership
begin

text \<open>
  Maintenance of published tables (\<open>internal/db/maintenance.go\<close>): an orphan cleanup or a compaction is requested for a job,
  claimed by the leader under a lease with a fencing token, and ended by its holder; a compaction hands its work to a run, which ends it.
  The state holds the two tables of maintenance; the jobs, the runs and the leadership are read from the store.
\<close>

section \<open>Tables\<close>

datatype maint_kind = ORPHAN_CLEANUP | COMPACTION

datatype maint_status = M_PENDING | M_RUNNING | M_SUBMITTED | M_SUCCEEDED | M_FAILED | M_ABORTED

datatype cand_decision = D_ORPHAN | D_RETAINED | D_COMPACT

datatype cand_status = WOULD_DELETE | C_RETAINED | C_DELETED | DELETE_FAILED | CHANGED | PLANNED | COMPACTED

record MaintenanceTable =
  mt_SourceRunID :: string
  mt_Identifier :: string
  mt_UUID :: string
  mt_Location :: string
  mt_SnapshotID :: string
  mt_MetadataLocation :: string

record MaintenanceOperation =
  m_id :: string
  m_kind :: maint_kind
  m_job :: string
  m_dry :: bool
  m_params :: string
  m_status :: maint_status
  m_table :: MaintenanceTable
  m_run :: string
  m_report :: string
  m_eclass :: string
  m_emsg :: string
  m_attempts :: int
  m_epoch :: "int option"
  m_token :: string
  m_deadline :: "time option"
  m_created :: time
  m_updated :: time
  m_started :: "time option"
  m_finished :: "time option"

record MaintenanceCandidate =
  mc_op :: string
  mc_key :: string
  mc_size :: int
  mc_modified :: string
  mc_age :: int
  mc_decision :: cand_decision
  mc_reason :: string
  mc_evidence :: string
  mc_status :: cand_status
  mc_updated :: time

record maint =
  mops :: "MaintenanceOperation list"
  mcands :: "MaintenanceCandidate list"

definition ErrMaintenanceBusy :: err where
  "ErrMaintenanceBusy = ErrMsg ''job already has an active maintenance operation''"

definition ErrMaintenanceFenced :: err where
  "ErrMaintenanceFenced = ErrMsg ''maintenance operation lease lost''"

text \<open>The unique index over the active operations of a job.\<close>

definition active_op :: "MaintenanceOperation \<Rightarrow> bool" where
  "active_op w \<longleftrightarrow> m_status w \<in> {M_PENDING, M_RUNNING, M_SUBMITTED}"

section \<open>Operations\<close>

definition no_table :: MaintenanceTable where
  "no_table = \<lparr>mt_SourceRunID = '''', mt_Identifier = '''', mt_UUID = '''', mt_Location = '''', mt_SnapshotID = '''', mt_MetadataLocation = ''''\<rparr>"

text \<open>A new row has the defaults of the table; its job must exist.\<close>

definition CreateMaintenanceOperation :: "string \<Rightarrow> maint_kind \<Rightarrow> string \<Rightarrow> bool \<Rightarrow> string \<Rightarrow> time \<Rightarrow> db \<Rightarrow> maint \<Rightarrow> (unit \<times> maint) res" where
  "CreateMaintenanceOperation i kind job dry params now d m =
    (if list_ex (\<lambda>w. m_job w = job \<and> active_op w) (mops m) then Inl ErrMaintenanceBusy
     else if list_ex (\<lambda>w. m_id w = i) (mops m) \<or> \<not> list_ex (\<lambda>j. job_id j = job) (jobs d) then Inl ErrConstraint
     else Inr ((), m\<lparr>mops := mops m @ [\<lparr>m_id = i, m_kind = kind, m_job = job, m_dry = dry,
       m_params = (if params = '''' then [CHR 0x7B, CHR 0x7D] else params), m_status = M_PENDING, m_table = no_table, m_run = '''', m_report = [CHR 0x7B, CHR 0x7D],
       m_eclass = '''', m_emsg = '''', m_attempts = 0, m_epoch = None, m_token = '''', m_deadline = None, m_created = now, m_updated = now, m_started = None,
       m_finished = None\<rparr>]\<rparr>))"

definition GetMaintenanceOperation :: "string \<Rightarrow> maint \<Rightarrow> MaintenanceOperation res" where
  "GetMaintenanceOperation i m = of_row ErrNoRows (select_one (\<lambda>w. m_id w = i) (mops m))"

definition GetMaintenanceOperationForRun :: "string \<Rightarrow> maint \<Rightarrow> MaintenanceOperation option" where
  "GetMaintenanceOperationForRun rid m =
    (if trim_space rid = '''' then None else select_one (\<lambda>w. m_run w = rid \<and> m_kind w = COMPACTION) (mops m))"

definition claimable_op :: "time \<Rightarrow> MaintenanceOperation \<Rightarrow> bool" where
  "claimable_op now w \<longleftrightarrow> m_status w = M_PENDING \<or> (m_status w = M_RUNNING \<and> (case m_deadline w of None \<Rightarrow> False | Some t \<Rightarrow> t \<le> now))"

definition claimed_op :: "string \<Rightarrow> time \<Rightarrow> duration \<Rightarrow> int option \<Rightarrow> MaintenanceOperation \<Rightarrow> MaintenanceOperation" where
  "claimed_op token now lease epoch w = w\<lparr>m_status := M_RUNNING, m_token := token, m_deadline := Some (now + lease), m_attempts := m_attempts w + 1,
     m_epoch := epoch, m_started := Some (coalesce (m_started w) now), m_updated := now\<rparr>"

text \<open>The answer is the row as it was read, with the new status, token and count.\<close>

definition ClaimMaintenanceOperation :: "time \<Rightarrow> duration \<Rightarrow> string res \<Rightarrow> db \<Rightarrow> maint \<Rightarrow> (MaintenanceOperation option \<times> maint) res" where
  "ClaimMaintenanceOperation now lease tokenFn d m = (case select_first_by (\<lambda>w. (m_created w, m_id w)) (claimable_op now) (mops m) of
      None \<Rightarrow> Inr (None, m)
    | Some c \<Rightarrow> rbind tokenFn (\<lambda>token.
        let p = (\<lambda>w. m_id w = m_id c \<and> m_token w = m_token c); epoch = (if ld_active (leader d) then Some (ld_epoch (leader d)) else None) in
        Inr (if rows_affected p (mops m) \<noteq> 1 then None else Some (c\<lparr>m_status := M_RUNNING, m_token := token, m_attempts := m_attempts c + 1\<rparr>),
          m\<lparr>mops := update_where p (claimed_op token now lease epoch) (mops m)\<rparr>)))"

text \<open>The condition of every later write of the holder.\<close>

definition held_op :: "string \<Rightarrow> time \<Rightarrow> MaintenanceOperation \<Rightarrow> bool" where
  "held_op token now w \<longleftrightarrow> m_status w = M_RUNNING \<and> m_token w = token \<and> (case m_deadline w of None \<Rightarrow> False | Some t \<Rightarrow> t > now)"

definition update_held :: "string \<Rightarrow> (MaintenanceOperation \<Rightarrow> bool) \<Rightarrow> (MaintenanceOperation \<Rightarrow> MaintenanceOperation) \<Rightarrow> maint \<Rightarrow> maint res" where
  "update_held i q f m = (let p = (\<lambda>w. m_id w = i \<and> q w) in
     if rows_affected p (mops m) \<noteq> 1 then Inl ErrMaintenanceFenced else Inr (m\<lparr>mops := update_where p f (mops m)\<rparr>))"

definition RenewMaintenanceLease :: "string \<Rightarrow> string \<Rightarrow> time \<Rightarrow> duration \<Rightarrow> maint \<Rightarrow> maint res" where
  "RenewMaintenanceLease i token now lease = update_held i (held_op token now) (\<lambda>w. w\<lparr>m_deadline := Some (now + lease), m_updated := now\<rparr>)"

definition cand_conflict :: "MaintenanceCandidate \<Rightarrow> MaintenanceCandidate \<Rightarrow> bool" where
  "cand_conflict a b \<longleftrightarrow> mc_op a = mc_op b \<and> mc_key a = mc_key b"

fun insert_candidates :: "string \<Rightarrow> time \<Rightarrow> MaintenanceCandidate list \<Rightarrow> MaintenanceCandidate list \<Rightarrow> MaintenanceCandidate list res" where
  "insert_candidates i now [] cs = Inr cs"
| "insert_candidates i now (c # new) cs =
    rbind (insert_row cand_conflict (c\<lparr>mc_op := i, mc_evidence := (if mc_evidence c = '''' then [CHR 0x7B, CHR 0x7D] else mc_evidence c), mc_updated := now\<rparr>) cs)
      (insert_candidates i now new)"

text \<open>\<open>report\<close> is the answer of the JSON encoder.\<close>

definition RecordMaintenancePlan :: "string \<Rightarrow> string \<Rightarrow> MaintenanceTable \<Rightarrow> MaintenanceCandidate list \<Rightarrow> string res \<Rightarrow> time \<Rightarrow> maint \<Rightarrow> maint res" where
  "RecordMaintenancePlan i token tab new report now m = rbind report (\<lambda>reportJSON.
     rbind (update_held i (held_op token now) (\<lambda>w. w\<lparr>m_table := tab, m_report := reportJSON, m_updated := now\<rparr>) m) (\<lambda>m1.
     rbind (insert_candidates i now new (filter (\<lambda>c. mc_op c \<noteq> i) (mcands m1))) (\<lambda>cs. Inr (m1\<lparr>mcands := cs\<rparr>))))"

definition SetMaintenanceCandidateStatus :: "string \<Rightarrow> string \<Rightarrow> string \<Rightarrow> cand_status \<Rightarrow> time \<Rightarrow> maint \<Rightarrow> maint res" where
  "SetMaintenanceCandidateStatus i token key status now m =
    (if \<not> list_ex (\<lambda>w. m_id w = i \<and> held_op token now w) (mops m) then Inl ErrMaintenanceFenced
     else Inr (m\<lparr>mcands := update_where (\<lambda>c. mc_op c = i \<and> mc_key c = key) (\<lambda>c. c\<lparr>mc_status := status, mc_updated := now\<rparr>) (mcands m)\<rparr>))"

definition SetMaintenanceRunID :: "string \<Rightarrow> string \<Rightarrow> string \<Rightarrow> time \<Rightarrow> maint \<Rightarrow> maint res" where
  "SetMaintenanceRunID i token rid now = update_held i (held_op token now) (\<lambda>w. w\<lparr>m_run := rid, m_updated := now\<rparr>)"

text \<open>The end of an operation asks for the token and not for the deadline.\<close>

definition FinishMaintenanceOperation ::
  "string \<Rightarrow> string \<Rightarrow> maint_status \<Rightarrow> string \<Rightarrow> string res option \<Rightarrow> string \<Rightarrow> string \<Rightarrow> time \<Rightarrow> maint \<Rightarrow> maint res" where
  "FinishMaintenanceOperation i token status rid report cls msg now m =
    rbind (case report of None \<Rightarrow> Inr None | Some r \<Rightarrow> rbind r (\<lambda>j. Inr (Some j))) (\<lambda>reportJSON.
      update_held i (\<lambda>w. m_status w = M_RUNNING \<and> m_token w = token) (\<lambda>w. w\<lparr>m_status := status, m_run := (if rid \<noteq> '''' then rid else m_run w),
        m_report := coalesce reportJSON (m_report w), m_eclass := cls, m_emsg := msg, m_token := '''', m_deadline := None,
        m_finished := (if status = M_SUBMITTED then None else Some now), m_updated := now\<rparr>) m)"

definition CompleteCompactionOperation :: "string \<Rightarrow> maint_status \<Rightarrow> string \<Rightarrow> string \<Rightarrow> time \<Rightarrow> maint \<Rightarrow> maint" where
  "CompleteCompactionOperation rid status cls msg now m =
    (case select_one (\<lambda>w. m_run w = rid \<and> m_kind w = COMPACTION \<and> m_status w = M_SUBMITTED) (mops m) of
      None \<Rightarrow> m
    | Some c \<Rightarrow> m\<lparr>mops := update_where (\<lambda>w. m_id w = m_id c)
          (\<lambda>w. w\<lparr>m_status := status, m_eclass := cls, m_emsg := msg, m_finished := Some now, m_updated := now\<rparr>) (mops m),
        mcands := (if status = M_SUCCEEDED
          then update_where (\<lambda>k. mc_op k = m_id c \<and> mc_decision k = D_COMPACT) (\<lambda>k. k\<lparr>mc_status := COMPACTED, mc_updated := now\<rparr>) (mcands m) else mcands m)\<rparr>)"

definition run_ended :: "db \<Rightarrow> MaintenanceOperation \<Rightarrow> bool" where
  "run_ended d w \<longleftrightarrow> (case select_one (\<lambda>r. run_id r = m_run w) (runs d) of None \<Rightarrow> False | Some r \<Rightarrow> run_status r \<in> {FAILED, CANCELED})"

definition failed_compaction :: "time \<Rightarrow> db \<Rightarrow> MaintenanceOperation \<Rightarrow> MaintenanceOperation" where
  "failed_compaction now d w = (case select_one (\<lambda>r. run_id r = m_run w) (runs d) of
      None \<Rightarrow> w
    | Some r \<Rightarrow> w\<lparr>m_status := (if run_status r = CANCELED then M_ABORTED else M_FAILED),
        m_eclass := (if m_eclass w = '''' then ''COMPACTION_RUN_'' @ status_text (run_status r) else m_eclass w),
        m_emsg := (if m_emsg w = '''' then coalesce (run_error r) '''' else m_emsg w), m_finished := Some now, m_updated := now\<rparr>)"

definition FailSubmittedCompactions :: "time \<Rightarrow> db \<Rightarrow> maint \<Rightarrow> nat \<times> maint" where
  "FailSubmittedCompactions now d m = (let p = (\<lambda>w. m_kind w = COMPACTION \<and> m_status w = M_SUBMITTED \<and> run_ended d w) in
     (rows_affected p (mops m), m\<lparr>mops := update_where p (failed_compaction now d) (mops m)\<rparr>))"

section \<open>The invariant\<close>

definition op_ok :: "MaintenanceOperation \<Rightarrow> bool" where
  "op_ok w \<longleftrightarrow> (if m_status w = M_RUNNING then m_deadline w \<noteq> None else m_token w = '''' \<and> m_deadline w = None)"

definition maint_inv :: "maint \<Rightarrow> bool" where
  "maint_inv m \<longleftrightarrow> keyed m_id (mops m) \<and> keyed m_job (filter active_op (mops m)) \<and> list_all op_ok (mops m)
     \<and> keyed (\<lambda>c. (mc_op c, mc_key c)) (mcands m) \<and> (\<forall>c \<in> set (mcands m). mc_op c \<in> m_id ` set (mops m))"

text \<open>The ends of an operation: what \<open>status\<close> the holder of a lease or the end of a run may give.\<close>

definition ending :: "maint_status \<Rightarrow> bool" where
  "ending s \<longleftrightarrow> s \<in> {M_SUBMITTED, M_SUCCEEDED, M_FAILED, M_ABORTED}"

lemma active_update:
  assumes "keyed m_job (filter active_op xs)" "\<And>w. w \<in> set xs \<Longrightarrow> p w \<Longrightarrow> m_job (f w) = m_job w \<and> (active_op (f w) \<longrightarrow> active_op w)"
  shows "keyed m_job (filter active_op (update_where p f xs))"
  using assms
proof (induction xs)
  case (Cons x xs)
  have "m_job ` set (filter active_op (update_where p f xs)) \<subseteq> m_job ` set (filter active_op xs)"
    using Cons.prems(2) by (fastforce simp: update_where_def)
  moreover have "keyed m_job (filter active_op (update_where p f xs))" using Cons by (auto simp: keyed_def split: if_splits)
  moreover have "m_job x \<notin> m_job ` set (filter active_op xs)" if "active_op x" using Cons.prems(1) that by (simp add: keyed_def)
  moreover have "active_op x \<and> m_job (f x) = m_job x" if "p x" "active_op (f x)" using Cons.prems(2) that by simp
  ultimately show ?case unfolding keyed_def update_where_def by (cases "p x") (auto simp: subset_iff)
qed simp

lemma maint_update:
  assumes "maint_inv m" "\<And>w. w \<in> set (mops m) \<Longrightarrow> p w \<Longrightarrow> m_id (f w) = m_id w \<and> m_job (f w) = m_job w \<and> (active_op (f w) \<longrightarrow> active_op w) \<and> op_ok (f w)"
  shows "maint_inv (m\<lparr>mops := update_where p f (mops m)\<rparr>)"
proof -
  have ids: "map m_id (update_where p f (mops m)) = map m_id (mops m)"
    using assms(2) by (simp add: update_where_def)
  then have "m_id ` set (update_where p f (mops m)) = m_id ` set (mops m)" by (metis set_map)
  moreover have "list_all op_ok (update_where p f (mops m))" using assms by (auto simp: maint_inv_def list_all_iff update_where_def)
  moreover have "keyed m_job (filter active_op (update_where p f (mops m)))" by (rule active_update) (use assms in \<open>auto simp: maint_inv_def\<close>)
  ultimately show ?thesis using assms(1) ids by (simp add: maint_inv_def keyed_def)
qed

lemma held_inv:
  assumes "maint_inv m" "update_held i q f m = Inr m'" "\<And>w. w \<in> set (mops m) \<Longrightarrow> q w \<Longrightarrow> m_id (f w) = m_id w \<and> m_job (f w) = m_job w \<and> (active_op (f w) \<longrightarrow> active_op w) \<and> op_ok (f w)"
  shows "maint_inv m'"
  using assms maint_update [OF assms(1), of "\<lambda>w. m_id w = i \<and> q w" f] by (auto simp: update_held_def Let_def split: if_splits)

lemma create_inv: "CreateMaintenanceOperation i kind job dry params now d m = Inr ((), m') \<Longrightarrow> maint_inv m \<Longrightarrow> maint_inv m'"
  by (auto simp: CreateMaintenanceOperation_def maint_inv_def keyed_def list_ex_iff op_ok_def active_op_def split: if_splits)

lemma claim_cases:
  assumes "ClaimMaintenanceOperation now lease tokenFn d m = Inr (r, m')" "maint_inv m"
  obtains "r = None" "m' = m" | c tok epoch where "c \<in> set (mops m)" "claimable_op now c" "tokenFn = Inr tok" "r = Some (c\<lparr>m_status := M_RUNNING, m_token := tok, m_attempts := m_attempts c + 1\<rparr>)"
    "m' = m\<lparr>mops := update_where (\<lambda>w. m_id w = m_id c) (claimed_op tok now lease epoch) (mops m)\<rparr>"
proof (cases "select_first_by (\<lambda>w. (m_created w, m_id w)) (claimable_op now) (mops m)")
  case None
  then show thesis using assms that(1) by (auto simp: ClaimMaintenanceOperation_def)
next
  case (Some c)
  note c = select_first_by_SomeD [OF Some]
  have k: "keyed m_id (mops m)" using assms(2) by (simp add: maint_inv_def)
  have p: "(m_id w = m_id c \<and> m_token w = m_token c) = (m_id w = m_id c)" if "w \<in> set (mops m)" for w
    using keyed_unique [OF k that c(1)] by auto
  have "rows_affected (\<lambda>w. m_id w = m_id c \<and> m_token w = m_token c) (mops m) = 1" by (rule keyed_rows_affected_one [OF k c(1)]) auto
  moreover obtain tok where t: "tokenFn = Inr tok" using assms(1) Some by (auto simp: ClaimMaintenanceOperation_def rbind_eq_Inr_iff)
  ultimately show thesis using assms(1) Some that(2) [OF c(1,2) t] update_where_cong [of "mops m" "\<lambda>w. m_id w = m_id c \<and> m_token w = m_token c" "\<lambda>w. m_id w = m_id c", OF p]
    by (auto simp: ClaimMaintenanceOperation_def Let_def)
qed

lemma claim_maint_inv:
  assumes "ClaimMaintenanceOperation now lease tokenFn d m = Inr (r, m')" "maint_inv m"
  shows "maint_inv m'"
  using assms
proof (cases rule: claim_cases)
  case (2 c tok epoch)
  have "w = c" if "w \<in> set (mops m)" "m_id w = m_id c" for w using keyed_unique [of m_id "mops m" w c] assms(2) 2(1) that by (simp add: maint_inv_def)
  then show ?thesis unfolding 2(5) by (intro maint_update [OF assms(2)]) (use 2(2) in \<open>auto simp: claimed_op_def claimable_op_def active_op_def op_ok_def\<close>)
qed (use assms in simp)

lemma insert_candidates_inv:
  "insert_candidates i now new cs = Inr cs' \<Longrightarrow> keyed (\<lambda>c. (mc_op c, mc_key c)) cs \<Longrightarrow> keyed (\<lambda>c. (mc_op c, mc_key c)) cs' \<and> mc_op ` set cs' \<subseteq> insert i (mc_op ` set cs)"
proof (induction new arbitrary: cs)
  case (Cons c new)
  let ?c = "c\<lparr>mc_op := i, mc_evidence := (if mc_evidence c = '''' then [CHR 0x7B, CHR 0x7D] else mc_evidence c), mc_updated := now\<rparr>"
  have s: "insert_candidates i now new (cs @ [?c]) = Inr cs'" "\<forall>x \<in> set cs. \<not> cand_conflict ?c x"
    using Cons.prems(1) by (auto simp: rbind_eq_Inr_iff)
  have "keyed (\<lambda>c. (mc_op c, mc_key c)) (cs @ [?c])" by (rule keyed_append [OF Cons.prems(2)]) (use s(2) in \<open>auto simp: cand_conflict_def\<close>)
  from Cons.IH [OF s(1) this] show ?case by auto
qed auto

lemma plan_inv:
  assumes "RecordMaintenancePlan i token tab new report now m = Inr m'" "maint_inv m"
  shows "maint_inv m'"
proof -
  obtain j m1 cs where s: "update_held i (held_op token now) (\<lambda>w. w\<lparr>m_table := tab, m_report := j, m_updated := now\<rparr>) m = Inr m1"
    "insert_candidates i now new (filter (\<lambda>c. mc_op c \<noteq> i) (mcands m1)) = Inr cs" "m' = m1\<lparr>mcands := cs\<rparr>"
    using assms(1) by (auto simp: RecordMaintenancePlan_def rbind_eq_Inr_iff)
  have i1: "maint_inv m1" by (rule held_inv [OF assms(2) s(1)]) (use assms(2) in \<open>auto simp: maint_inv_def list_all_iff op_ok_def active_op_def\<close>)
  have "i \<in> m_id ` set (mops m)" using s(1) rows_affected_oneD [of "\<lambda>w. m_id w = i \<and> held_op token now w" "mops m"]
    by (auto simp: update_held_def Let_def split: if_splits)
  moreover have "map m_id (mops m1) = map m_id (mops m)" using s(1) by (auto simp: update_held_def Let_def update_where_def split: if_splits)
  then have "m_id ` set (mops m1) = m_id ` set (mops m)" by (metis set_map)
  ultimately have "i \<in> m_id ` set (mops m1)" by simp
  have "keyed (\<lambda>c. (mc_op c, mc_key c)) (filter (\<lambda>c. mc_op c \<noteq> i) (mcands m1))" using i1 by (auto simp: maint_inv_def keyed_def distinct_map_filter)
  note new = insert_candidates_inv [OF s(2) this]
  have "mc_op c \<in> m_id ` set (mops m1)" if "c \<in> set cs" for c
    using new that i1 \<open>i \<in> m_id ` set (mops m1)\<close> unfolding maint_inv_def by auto
  then show ?thesis using new i1 by (simp add: s(3) maint_inv_def)
qed

lemma cands_update:
  assumes "maint_inv m"
  shows "maint_inv (m\<lparr>mcands := update_where q (\<lambda>k. k\<lparr>mc_status := s, mc_updated := now\<rparr>) (mcands m)\<rparr>)"
proof -
  have "keyed (\<lambda>k. (mc_op k, mc_key k)) (update_where q (\<lambda>k. k\<lparr>mc_status := s, mc_updated := now\<rparr>) (mcands m))"
    using assms by (intro keyed_update_where) (auto simp: maint_inv_def)
  then show ?thesis using assms by (auto simp: maint_inv_def update_where_def)
qed

lemma candidate_status_inv: "SetMaintenanceCandidateStatus i token key status now m = Inr m' \<Longrightarrow> maint_inv m \<Longrightarrow> maint_inv m'"
  using cands_update [of m] by (auto simp: SetMaintenanceCandidateStatus_def split: if_splits)

lemma holder_inv:
  assumes "maint_inv m"
  shows "RenewMaintenanceLease i token now lease m = Inr m' \<Longrightarrow> maint_inv m'"
    and "SetMaintenanceRunID i token rid now m = Inr m' \<Longrightarrow> maint_inv m'"
  unfolding RenewMaintenanceLease_def SetMaintenanceRunID_def
  by (erule held_inv [OF assms]; use assms in \<open>auto simp: op_ok_def active_op_def held_op_def maint_inv_def list_all_iff\<close>)+

lemma finish_inv:
  assumes "maint_inv m" "FinishMaintenanceOperation i token status rid report cls msg now m = Inr m'" "ending status"
  shows "maint_inv m'"
proof -
  obtain x where "update_held i (\<lambda>w. m_status w = M_RUNNING \<and> m_token w = token) (\<lambda>w. w\<lparr>m_status := status, m_run := (if rid \<noteq> '''' then rid else m_run w),
        m_report := coalesce x (m_report w), m_eclass := cls, m_emsg := msg, m_token := '''', m_deadline := None,
        m_finished := (if status = M_SUBMITTED then None else Some now), m_updated := now\<rparr>) m = Inr m'"
    using assms(2) unfolding FinishMaintenanceOperation_def rbind_eq_Inr_iff by blast
  then show ?thesis by (rule held_inv [OF assms(1)]) (use assms(3) in \<open>auto simp: op_ok_def active_op_def ending_def\<close>)
qed
lemma complete_inv:
  assumes "maint_inv m" "ending status"
  shows "maint_inv (CompleteCompactionOperation rid status cls msg now m)"
proof (cases "select_one (\<lambda>w. m_run w = rid \<and> m_kind w = COMPACTION \<and> m_status w = M_SUBMITTED) (mops m)")
  case (Some c)
  let ?f = "\<lambda>w. w\<lparr>m_status := status, m_eclass := cls, m_emsg := msg, m_finished := Some now, m_updated := now\<rparr>"
  have c: "c \<in> set (mops m)" "m_status c = M_SUBMITTED" using select_one_SomeD [OF Some] by auto
  have "w = c" if "w \<in> set (mops m)" "m_id w = m_id c" for w using keyed_unique [of m_id "mops m" w c] assms(1) c(1) that by (simp add: maint_inv_def)
  moreover have "m_token c = ''''" "m_deadline c = None" using assms(1) c by (auto simp: maint_inv_def list_all_iff op_ok_def)
  ultimately have "m_status w = M_SUBMITTED \<and> m_token w = '''' \<and> m_deadline w = None" if "w \<in> set (mops m)" "m_id w = m_id c" for w using that c(2) by blast
  then have i1: "maint_inv (m\<lparr>mops := update_where (\<lambda>w. m_id w = m_id c) ?f (mops m)\<rparr>)"
    by (intro maint_update [OF assms(1)]) (use assms(2) in \<open>auto simp: ending_def active_op_def op_ok_def\<close>)
  note i2 = cands_update [OF i1, where q = "\<lambda>k. mc_op k = m_id c \<and> mc_decision k = D_COMPACT" and s = COMPACTED and now = now]
  from i1 i2 show ?thesis by (simp add: CompleteCompactionOperation_def Some del: if_image_distrib) (auto simp del: if_image_distrib)
qed (use assms in \<open>simp add: CompleteCompactionOperation_def\<close>)

lemma fail_submitted_inv:
  assumes "maint_inv m"
  shows "maint_inv (snd (FailSubmittedCompactions now d m))"
  unfolding FailSubmittedCompactions_def Let_def snd_conv
  by (rule maint_update [OF assms])
    (use assms in \<open>auto simp: failed_compaction_def run_ended_def active_op_def op_ok_def maint_inv_def list_all_iff split: option.splits\<close>)

section \<open>Steps\<close>

text \<open>One operation, with who acts (the operation and the token presented, if any) and when.\<close>

inductive maint_step :: "(string \<times> string) option \<Rightarrow> time \<Rightarrow> maint \<Rightarrow> maint \<Rightarrow> bool" where
  create: "CreateMaintenanceOperation i kind job dry params t d m = Inr ((), m') \<Longrightarrow> maint_step None t m m'"
| claim: "ClaimMaintenanceOperation t lease tokenFn d m = Inr (r, m') \<Longrightarrow> maint_step None t m m'"
| renew: "RenewMaintenanceLease i token t lease m = Inr m' \<Longrightarrow> maint_step (Some (i, token)) t m m'"
| plan: "RecordMaintenancePlan i token tab new report t m = Inr m' \<Longrightarrow> maint_step (Some (i, token)) t m m'"
| candidate: "SetMaintenanceCandidateStatus i token key status t m = Inr m' \<Longrightarrow> maint_step (Some (i, token)) t m m'"
| run: "SetMaintenanceRunID i token rid t m = Inr m' \<Longrightarrow> maint_step (Some (i, token)) t m m'"
| finish: "FinishMaintenanceOperation i token status rid report cls msg t m = Inr m' \<Longrightarrow> ending status \<Longrightarrow> maint_step (Some (i, token)) t m m'"
| complete: "ending status \<Longrightarrow> maint_step None t m (CompleteCompactionOperation rid status cls msg t m)"
| fail: "FailSubmittedCompactions t d m = (n, m') \<Longrightarrow> maint_step None t m m'"

lemma maint_step_inv: "maint_step a t m m' \<Longrightarrow> maint_inv m \<Longrightarrow> maint_inv m'"
proof (induction rule: maint_step.induct)
  case (fail t d m n m')
  then show ?case using fail_submitted_inv [of m t d] by simp
qed (blast intro: create_inv claim_maint_inv holder_inv finish_inv plan_inv candidate_status_inv complete_inv)+

definition no_maintenance :: "maint \<Rightarrow> bool" where
  "no_maintenance m \<longleftrightarrow> mops m = [] \<and> mcands m = []"

interpretation maintenance: transition_system no_maintenance "\<lambda>m m'. \<exists>a t. maint_step a t m m'" maint_inv
proof
  show "maint_inv m" if "no_maintenance m" for m using that by (simp add: no_maintenance_def maint_inv_def keyed_def)
  show "maint_inv m'" if "maint_inv m" "\<exists>a t. maint_step a t m m'" for m m' using that maint_step_inv by blast
qed

section \<open>The claim is an exclusive lease\<close>

definition op_holds :: "string \<Rightarrow> time \<Rightarrow> MaintenanceOperation \<Rightarrow> bool" where
  "op_holds token now w \<longleftrightarrow> token \<noteq> '''' \<and> held_op token now w"

definition op_claim :: "string \<times> duration \<Rightarrow> time \<Rightarrow> MaintenanceOperation \<Rightarrow> (string \<times> MaintenanceOperation) option" where
  "op_claim q now w = (if claimable_op now w then Some (fst q, claimed_op (fst q) now (snd q) None w) else None)"

definition op_renew :: "string \<times> duration \<Rightarrow> string \<Rightarrow> time \<Rightarrow> MaintenanceOperation \<Rightarrow> MaintenanceOperation option" where
  "op_renew q token now w = (if held_op token now w then Some (w\<lparr>m_deadline := Some (now + snd q), m_updated := now\<rparr>) else None)"

definition op_release :: "string \<Rightarrow> maint_status \<Rightarrow> MaintenanceOperation \<Rightarrow> MaintenanceOperation" where
  "op_release token status w = (if m_status w = M_RUNNING \<and> m_token w = token then w\<lparr>m_status := status, m_token := '''', m_deadline := None\<rparr> else w)"

lemmas op_defs = op_holds_def op_claim_def op_renew_def op_release_def held_op_def claimable_op_def claimed_op_def

interpretation maint_lease: exclusive_lease op_holds op_claim op_renew op_release "\<lambda>h. h \<noteq> ''''" "\<lambda>q. fst q \<noteq> '''' \<and> snd q > 0"
proof
  fix h k :: string and q :: "string \<times> duration" and t u :: int and r :: maint_status and s s' :: MaintenanceOperation
  show "op_holds h t s \<Longrightarrow> op_holds k t s \<Longrightarrow> h = k" by (simp add: op_defs)
  show "op_holds h t s \<Longrightarrow> u \<le> t \<Longrightarrow> op_holds h u s" by (auto simp: op_defs split: option.splits)
  show "op_claim q t s = Some (h, s') \<Longrightarrow> \<not> op_holds k t s" by (auto simp: op_defs split: option.splits if_splits)
  show "op_claim q t s = Some (h, s') \<Longrightarrow> fst q \<noteq> '''' \<and> snd q > 0 \<Longrightarrow> op_holds h t s'" by (auto simp: op_defs split: if_splits)
  show "op_claim q t s = Some (h, s') \<Longrightarrow> op_holds k u s' \<Longrightarrow> k = h" by (auto simp: op_defs split: if_splits)
  show "op_renew q h t s = Some s' \<Longrightarrow> h \<noteq> '''' \<Longrightarrow> op_holds h t s" by (auto simp: op_defs split: if_splits)
  show "op_renew q h t s = Some s' \<Longrightarrow> h \<noteq> '''' \<Longrightarrow> fst q \<noteq> '''' \<and> snd q > 0 \<Longrightarrow> op_holds h t s'" by (auto simp: op_defs split: if_splits)
  show "op_renew q h t s = Some s' \<Longrightarrow> op_holds k u s' \<Longrightarrow> k = h" by (auto simp: op_defs split: if_splits)
  show "op_holds k t (op_release h r s) \<longleftrightarrow> op_holds k t s \<and> k \<noteq> h" by (auto simp: op_defs)
qed

text \<open>What the rest of the system may do up to an instant, the holder of the operation apart.\<close>

definition maint_rival :: "string \<Rightarrow> string \<Rightarrow> time \<Rightarrow> maint \<Rightarrow> maint \<Rightarrow> bool" where
  "maint_rival i token t m m' \<longleftrightarrow> (\<exists>a u. u \<le> t \<and> a \<noteq> Some (i, token) \<and> maint_step a u m m')"

lemma held_keeps: "update_held i q f m = Inr m' \<Longrightarrow> w \<in> set (mops m) \<Longrightarrow> m_id w = i \<longrightarrow> \<not> q w \<Longrightarrow> w \<in> set (mops m')"
  by (auto simp: update_held_def Let_def intro!: update_where_keepI split: if_splits)

lemma not_claimable: "op_holds token t w \<Longrightarrow> u \<le> t \<Longrightarrow> \<not> claimable_op u w"
  using maint_lease.held_is_taken [of token t w u] by (fastforce simp: op_claim_def split: if_splits)

lemma rival_keeps:
  assumes st: "maint_step a u m m'" and inv: "maint_inv m" and w: "w \<in> set (mops m)" "op_holds token t w" and u: "u \<le> t" "a \<noteq> Some (m_id w, token)"
  shows "w \<in> set (mops m')"
proof -
  have run: "m_status w = M_RUNNING" "m_token w = token" using w(2) by (auto simp: op_defs)
  have other: "\<not> (m_status w = M_RUNNING \<and> m_token w = tok)" "\<not> held_op tok u w" if "a = Some (m_id w, tok)" for tok
    using run(2) u(2) that by (auto simp: held_op_def)
  have apart: "m_id w \<noteq> m_id c" if "c \<in> set (mops m)" "c \<noteq> w" for c using keyed_unique [of m_id "mops m" w c] inv w(1) that by (auto simp: maint_inv_def)
  show ?thesis using st
  proof cases
    case (create i kind job dry params d)
    then show ?thesis using w(1) by (auto simp: CreateMaintenanceOperation_def split: if_splits)
  next
    case (claim lease tokenFn d r)
    show ?thesis using claim(2) inv
    proof (cases rule: claim_cases)
      case (2 c tok epoch)
      then have "m_id w \<noteq> m_id c" using not_claimable [OF w(2) u(1)] apart by blast
      then show ?thesis using 2(5) w(1) by (auto intro!: update_where_keepI)
    qed (use w(1) in simp)
  next
    case (complete status rid cls msg)
    have "m_id w \<noteq> m_id c" if "select_one (\<lambda>w. m_run w = rid \<and> m_kind w = COMPACTION \<and> m_status w = M_SUBMITTED) (mops m) = Some c" for c
      using select_one_SomeD [OF that] apart run by force
    then show ?thesis using complete(2) w(1) by (auto simp: CompleteCompactionOperation_def intro!: update_where_keepI split: option.splits)
  next
    case (fail d n)
    then show ?thesis using w(1) run by (auto simp: FailSubmittedCompactions_def Let_def intro!: update_where_keepI)
  next
    case (plan i tok tab new report)
    then obtain j m1 where "update_held i (held_op tok u) (\<lambda>w. w\<lparr>m_table := tab, m_report := j, m_updated := u\<rparr>) m = Inr m1" "mops m' = mops m1"
      by (auto simp: RecordMaintenancePlan_def rbind_eq_Inr_iff)
    then show ?thesis using held_keeps [OF _ w(1), of i] other(2) plan(1) by fastforce
  next
    case (candidate i tok key status)
    then show ?thesis using w(1) by (auto simp: SetMaintenanceCandidateStatus_def split: if_splits)
  qed (use held_keeps [OF _ w(1)] other in \<open>fastforce simp: RenewMaintenanceLease_def SetMaintenanceRunID_def FinishMaintenanceOperation_def rbind_eq_Inr_iff\<close>)+
qed

lemma rivals_keep:
  assumes "(maint_rival (m_id w) token t)\<^sup>*\<^sup>* m m'" "maint_inv m" "w \<in> set (mops m)" "op_holds token t w"
  shows "maint_inv m' \<and> w \<in> set (mops m')"
  using assms by (induction rule: rtranclp_induct) (auto simp: maint_rival_def dest: maint_step_inv rival_keeps)

lemma update_held_row:
  assumes "maint_inv m" "w \<in> set (mops m)"
  shows "update_held (m_id w) q f m = (if q w then Inr (m\<lparr>mops := update_where (\<lambda>x. m_id x = m_id w \<and> q x) f (mops m)\<rparr>) else Inl ErrMaintenanceFenced)"
proof -
  have k: "keyed m_id (mops m)" using assms(1) by (simp add: maint_inv_def)
  have "rows_affected (\<lambda>x. m_id x = m_id w \<and> q x) (mops m) = (if q w then 1 else 0)"
    using keyed_rows_affected_one [OF k assms(2), of "\<lambda>x. m_id x = m_id w \<and> q x"] keyed_unique [OF k _ assms(2)] by (auto simp: sql_simps)
  then show ?thesis by (simp add: update_held_def Let_def)
qed

lemma not_held_row:
  assumes "maint_inv m" "w \<in> set (mops m)" "\<not> held_op token now w"
  shows "SetMaintenanceCandidateStatus (m_id w) token key status now m = Inl ErrMaintenanceFenced"
proof -
  have "\<not> list_ex (\<lambda>x. m_id x = m_id w \<and> held_op token now x) (mops m)"
    using keyed_unique [of m_id "mops m" _ w] assms by (auto simp: list_ex_iff maint_inv_def)
  then show ?thesis by (simp add: SetMaintenanceCandidateStatus_def)
qed

section \<open>Properties\<close>

text \<open>
  C26. From empty tables on, whatever the API, the masters and the runs do, in any order: a job has at most one active maintenance operation,
  so that cleanup and compaction of a table never overlap; an operation that is not RUNNING carries no lease; and every candidate belongs to one
  operation.
\<close>

theorem one_active_maintenance_per_job:
  assumes "no_maintenance m0" "(\<lambda>m m'. \<exists>a t. maint_step a t m m')\<^sup>*\<^sup>* m0 m"
  shows "length (filter (\<lambda>w. m_job w = job \<and> active_op w) (mops m)) \<le> 1
    \<and> (\<forall>w \<in> set (mops m). m_status w \<noteq> M_RUNNING \<longrightarrow> m_token w = '''' \<and> m_deadline w = None)
    \<and> (\<forall>c \<in> set (mcands m). \<exists>!w. w \<in> set (mops m) \<and> m_id w = mc_op c)"
proof -
  note inv = maintenance.inv_reachable [OF assms, unfolded maint_inv_def]
  then have "length (filter (\<lambda>w. m_job w = job) (filter active_op (mops m))) \<le> 1" by (intro filter_keyed_le1 [of m_job]) auto
  then have "length (filter (\<lambda>w. m_job w = job \<and> active_op w) (mops m)) \<le> 1" by (simp add: conj_commute)
  moreover have "\<exists>!w. w \<in> set (mops m) \<and> m_id w = mc_op c" if "c \<in> set (mcands m)" for c
    using inv that keyed_unique [of m_id "mops m"] by (metis (no_types, lifting) imageE)
  ultimately show ?thesis using inv by (auto simp: list_all_iff op_ok_def)
qed

definition sample_maint :: maint where
  "sample_maint = snd (projr (CreateMaintenanceOperation ''m1'' COMPACTION ''j1'' False '''' 0 sample_db \<lparr>mops = [], mcands = []\<rparr>))"

lemma sample_maint_step: "CreateMaintenanceOperation ''m1'' COMPACTION ''j1'' False '''' 0 sample_db \<lparr>mops = [], mcands = []\<rparr> = Inr ((), sample_maint)"
  by (simp add: sample_maint_def CreateMaintenanceOperation_def sample_db_def)

theorem one_active_maintenance_witness:
  "length (filter (\<lambda>w. m_job w = ''j1'' \<and> active_op w) (mops sample_maint)) \<le> 1
    \<and> CreateMaintenanceOperation ''m2'' ORPHAN_CLEANUP ''j1'' True '''' 1 sample_db sample_maint = Inl ErrMaintenanceBusy"
proof -
  have "(\<lambda>m m'. \<exists>a t. maint_step a t m m')\<^sup>*\<^sup>* \<lparr>mops = [], mcands = []\<rparr> sample_maint" using maint_step.create [OF sample_maint_step] by blast
  from one_active_maintenance_per_job [OF _ this] show ?thesis
    by (simp add: no_maintenance_def) (simp add: sample_maint_def CreateMaintenanceOperation_def sample_db_def active_op_def)
qed

text \<open>
  A master that claims a maintenance operation has it to itself until its lease expires: whatever the rest of the system does up to an instant
  before the deadline (other claims, creations, ends of runs, writes with other tokens), its renewal succeeds, every write that presents another
  token is fenced off, and no claim gets the operation.
\<close>

lemma maintenance_lease_is_exclusive:
  assumes inv: "maint_inv m" and c: "ClaimMaintenanceOperation now lease (Inr token) d m = Inr (Some w, m1)" and ne: "token \<noteq> ''''"
    and rivals: "(maint_rival (m_id w) token t)\<^sup>*\<^sup>* m1 m2" and t: "t < now + lease"
  shows "(\<exists>m3. RenewMaintenanceLease (m_id w) token t l m2 = Inr m3)
    \<and> (\<forall>tok. tok \<noteq> token \<longrightarrow> RenewMaintenanceLease (m_id w) tok t l m2 = Inl ErrMaintenanceFenced
        \<and> RecordMaintenancePlan (m_id w) tok tab new (Inr report) t m2 = Inl ErrMaintenanceFenced
        \<and> SetMaintenanceCandidateStatus (m_id w) tok key cstatus t m2 = Inl ErrMaintenanceFenced
        \<and> SetMaintenanceRunID (m_id w) tok rid t m2 = Inl ErrMaintenanceFenced
        \<and> FinishMaintenanceOperation (m_id w) tok status rid None cls msg t m2 = Inl ErrMaintenanceFenced)
    \<and> (\<forall>u l f e x m3. u \<le> t \<and> ClaimMaintenanceOperation u l f e m2 = Inr (Some x, m3) \<longrightarrow> m_id x \<noteq> m_id w)"
proof -
  obtain v where v: "v \<in> set (mops m1)" "m_id v = m_id w" "op_holds token t v"
    using c inv
  proof (cases rule: claim_cases)
    case (2 x tok epoch)
    let ?v = "claimed_op token now lease epoch x"
    have "?v \<in> set (mops m1)" using 2(1,3,5) in_update_whereI [OF 2(1), of "\<lambda>w. m_id w = m_id x"] by auto
    moreover have "m_id ?v = m_id w" "op_holds token t ?v" using 2(4) ne t by (auto simp: op_defs)
    ultimately show ?thesis by (rule that)
  qed simp
  have i2: "maint_inv m2" "v \<in> set (mops m2)" using rivals_keep [of v token t m1 m2] rivals v claim_maint_inv [OF c inv] by auto
  note row = update_held_row [OF i2]
  have h: "held_op token t v" "m_status v = M_RUNNING" "m_token v = token" using v(3) by (auto simp: op_defs)
  have fenced: "\<not> held_op tok t v \<and> \<not> (m_status v = M_RUNNING \<and> m_token v = tok)" if "tok \<noteq> token" for tok using h that by (auto simp: held_op_def)
  have "m_id x \<noteq> m_id v" if "u \<le> t" "ClaimMaintenanceOperation u l f e m2 = Inr (Some x, m3)" for u l f e x m3
    using that(2) i2(1)
  proof (cases rule: claim_cases)
    case (2 y tok epoch)
    then show ?thesis using not_claimable [OF v(3) that(1)] keyed_unique [of m_id "mops m2" y v] i2 by (auto simp: maint_inv_def)
  qed simp
  then show ?thesis unfolding v(2) [symmetric] RenewMaintenanceLease_def SetMaintenanceRunID_def RecordMaintenancePlan_def FinishMaintenanceOperation_def row
    using h fenced not_held_row [OF i2] by auto
qed

lemma maintenance_lease_witness:
  "\<exists>w m1 m2. ClaimMaintenanceOperation 0 120 (Inr ''a'') sample_db sample_maint = Inr (Some w, m1)
    \<and> ClaimMaintenanceOperation 30 120 (Inr ''b'') sample_db m1 = Inr (None, m2)
    \<and> (\<exists>m3. RenewMaintenanceLease (m_id w) ''a'' 60 120 m2 = Inr m3) \<and> SetMaintenanceRunID (m_id w) ''b'' ''r9'' 60 m2 = Inl ErrMaintenanceFenced"
proof -
  obtain w m1 where c: "ClaimMaintenanceOperation 0 120 (Inr ''a'') sample_db sample_maint = Inr (Some w, m1)"
    and d: "ClaimMaintenanceOperation 30 120 (Inr ''b'') sample_db m1 = Inr (None, m1)"
    by (simp add: ClaimMaintenanceOperation_def sample_maint_def CreateMaintenanceOperation_def sample_db_def Let_def) (simp add: select_first_by_def op_defs update_where_def rows_affected_def)
  have "maint_inv sample_maint" using create_inv [OF sample_maint_step] by (simp add: maint_inv_def keyed_def)
  moreover have "maint_rival (m_id w) ''a'' 60 m1 m1" using maint_step.claim [OF d] by (auto simp: maint_rival_def intro!: exI [of _ None] exI [of _ 30])
  ultimately have "(\<exists>m3. RenewMaintenanceLease (m_id w) ''a'' 60 120 m1 = Inr m3) \<and> SetMaintenanceRunID (m_id w) ''b'' ''r9'' 60 m1 = Inl ErrMaintenanceFenced"
    using maintenance_lease_is_exclusive [OF _ c, where t = 60 and l = 120 and rid = "''r9''" and ?m2.0 = m1] by auto
  then show ?thesis using c d by blast
qed

end
