(* ===== verification/IcebergTable.thy ===== *)
theory IcebergTable
  imports Prelude
begin

text \<open>
  What maintenance reads of a published table (\<open>internal/icebergreg/maintenance.go\<close>, \<open>partitioned_files.go\<close>): the files its snapshots reference and the data
  files of the current one. A table is the answers of the catalog library about it; each answer that reads storage may be an error.
\<close>

section \<open>The answers of the library\<close>

record data_entry =
  de_path :: string
  de_is_data :: bool
  de_spec :: int
  de_size :: int
  de_count :: int
  de_partition :: "(int \<times> string) list"
  de_deleted :: bool

record manifest_file =
  mf_path :: string
  mf_is_data :: bool
  mf_entries :: "data_entry list res"

record snapshot_info =
  sn_id :: int
  sn_properties :: "(string \<times> string) list option"
  sn_manifests :: "manifest_file list res"

record iceberg_table =
  tb_uuid :: string
  tb_location :: string
  tb_metadata :: string
  tb_spec :: int
  tb_fs :: "unit res"
  tb_snapshots :: "snapshot_info list"
  tb_current :: "snapshot_info option"

definition FetchEntries :: "manifest_file \<Rightarrow> bool \<Rightarrow> data_entry list res" where
  "FetchEntries mf discard = rbind (mf_entries mf) (\<lambda>es. Inr (if discard then filter (\<lambda>e. \<not> de_deleted e) es else es))"

section \<open>Keys of objects\<close>

definition cut_prefix :: "string \<Rightarrow> string \<Rightarrow> string option" where
  "cut_prefix s p = (if has_prefix s p then Some (drop (length p) s) else None)"

definition has_suffix :: "string \<Rightarrow> string \<Rightarrow> bool" where
  "has_suffix s p \<longleftrightarrow> has_prefix (rev s) (rev p)"

definition cut_at :: "char \<Rightarrow> string \<Rightarrow> (string \<times> string) option" where
  "cut_at c s = (if c \<in> set s then Some (takeWhile (\<lambda>x. x \<noteq> c) s, tl (dropWhile (\<lambda>x. x \<noteq> c) s)) else None)"

definition key_in_bucket :: "string \<Rightarrow> string \<Rightarrow> string option" where
  "key_in_bucket bucket rest = (case cut_at CHR ''/'' rest of None \<Rightarrow> None | Some (b, key) \<Rightarrow> if b \<noteq> bucket \<or> key = '''' then None else Some key)"

fun schemes_key :: "string list \<Rightarrow> string \<Rightarrow> string \<Rightarrow> string option" where
  "schemes_key [] path bucket = None"
| "schemes_key (scheme # rest) path bucket = (case cut_prefix path scheme of Some r \<Rightarrow> key_in_bucket bucket r | None \<Rightarrow> schemes_key rest path bucket)"

definition ObjectKey :: "string \<Rightarrow> string \<Rightarrow> string option" where
  "ObjectKey path bucket = schemes_key [''s3://'', ''s3a://'', ''s3n://''] path bucket"

definition BucketKeys :: "string \<Rightarrow> string \<Rightarrow> string option" where
  "BucketKeys bucket path = ObjectKey path bucket"

text \<open>The path a writer gives to a key is read back as that key.\<close>

lemma cut_prefix_append [simp]: "cut_prefix (p @ s) p = Some s"
  by (simp add: cut_prefix_def has_prefix_def)

lemma cut_prefix_Some: "cut_prefix s p = Some r \<longleftrightarrow> s = p @ r"
  by (auto simp: cut_prefix_def has_prefix_def) (metis append_take_drop_id)

lemma cut_at_append [simp]: "c \<notin> set s \<Longrightarrow> cut_at c (s @ c # t) = Some (s, t)"
  by (auto simp: cut_at_def takeWhile_append dropWhile_append)

lemma has_suffix_iff: "has_suffix s p \<longleftrightarrow> (\<exists>u. s = u @ p)"
  unfolding has_suffix_def has_prefix_def by (metis append_eq_conv_conj append_take_drop_id rev_append rev_rev_ident)

lemma object_key_of_path: "CHR ''/'' \<notin> set bucket \<Longrightarrow> key \<noteq> '''' \<Longrightarrow> ObjectKey (''s3://'' @ bucket @ ''/'' @ key) bucket = Some key"
  using cut_prefix_append [of "''s3://''" "bucket @ ''/'' @ key"] by (simp add: ObjectKey_def key_in_bucket_def)

section \<open>References\<close>

type_synonym reference_state = "(string \<rightharpoonup> int) \<times> string set"

definition add_reference :: "(string \<Rightarrow> string option) \<Rightarrow> int \<Rightarrow> data_entry \<Rightarrow> (string \<rightharpoonup> int) \<Rightarrow> (string \<rightharpoonup> int)" where
  "add_reference keyOf sid e refs = (case keyOf (de_path e) of None \<Rightarrow> refs | Some key \<Rightarrow> if refs key = None then refs(key \<mapsto> sid) else refs)"

definition read_manifest :: "(string \<Rightarrow> string option) \<Rightarrow> int \<Rightarrow> manifest_file \<Rightarrow> reference_state \<Rightarrow> reference_state res" where
  "read_manifest keyOf sid mf st = (case st of (refs, seen) \<Rightarrow>
     if mf_path mf \<in> seen then Inr st
     else rbind (FetchEntries mf False) (\<lambda>es. Inr (fold (add_reference keyOf sid) es refs, insert (mf_path mf) seen)))"

definition read_snapshot :: "(string \<Rightarrow> string option) \<Rightarrow> snapshot_info \<Rightarrow> reference_state \<Rightarrow> reference_state res" where
  "read_snapshot keyOf snap st = rbind (sn_manifests snap) (\<lambda>mfs. foldM (read_manifest keyOf (sn_id snap)) mfs st)"

definition TableReferences :: "iceberg_table \<Rightarrow> (string \<Rightarrow> string option) \<Rightarrow> ((string \<rightharpoonup> int) \<times> nat) res" where
  "TableReferences tbl keyOf = rbind (tb_fs tbl) (\<lambda>_. rbind (foldM (read_snapshot keyOf) (tb_snapshots tbl) (Map.empty, {}))
     (\<lambda>(refs, seen). Inr (refs, length (tb_snapshots tbl))))"

section \<open>Data files of the current snapshot\<close>

record CompactionFile =
  cf_Path :: string
  cf_Key :: string
  cf_Size :: int
  cf_Records :: int
  cf_Partition :: string

definition canonicalPartition :: "(int \<times> string) list \<Rightarrow> string" where
  "canonicalPartition p = join '','' (map (\<lambda>(i, v). show_int i @ ''='' @ v) (sort_key fst p))"

definition ErrDeleteFiles :: err where
  "ErrDeleteFiles = ErrMsg ''CONFIGURATION_INVALID: table has delete files''"

definition compaction_entry :: "iceberg_table \<Rightarrow> (string \<Rightarrow> string option) \<Rightarrow> data_entry \<Rightarrow> CompactionFile list \<Rightarrow> CompactionFile list res" where
  "compaction_entry tbl keyOf e out =
    (if \<not> de_is_data e then Inl ErrDeleteFiles
     else if de_spec e \<noteq> tb_spec tbl then Inr out
     else case keyOf (de_path e) of None \<Rightarrow> Inr out
       | Some key \<Rightarrow> Inr (out @ [\<lparr>cf_Path = de_path e, cf_Key = key, cf_Size = de_size e, cf_Records = de_count e, cf_Partition = canonicalPartition (de_partition e)\<rparr>]))"

definition CompactionFiles :: "iceberg_table \<Rightarrow> (string \<Rightarrow> string option) \<Rightarrow> CompactionFile list res" where
  "CompactionFiles tbl keyOf = (case tb_current tbl of None \<Rightarrow> Inr []
     | Some snap \<Rightarrow> rbind (tb_fs tbl) (\<lambda>_. rbind (sn_manifests snap) (\<lambda>mfs.
         rbind (foldM (\<lambda>mf out. rbind (FetchEntries mf True) (\<lambda>es. foldM (compaction_entry tbl keyOf) es out)) mfs []) (\<lambda>out. Inr (sort_key cf_Key out)))))"

definition currentDataFiles :: "iceberg_table \<Rightarrow> data_entry list res" where
  "currentDataFiles tbl = (case tb_current tbl of None \<Rightarrow> Inr []
     | Some snap \<Rightarrow> rbind (tb_fs tbl) (\<lambda>_. rbind (sn_manifests snap) (\<lambda>mfs.
         foldM (\<lambda>mf out. if \<not> mf_is_data mf then Inr out else rbind (FetchEntries mf True) (\<lambda>es. Inr (out @ es))) mfs [])))"

definition SnapshotIDString :: "iceberg_table \<Rightarrow> string" where
  "SnapshotIDString tbl = (case tb_current tbl of None \<Rightarrow> '''' | Some snap \<Rightarrow> show_int (sn_id snap))"

section \<open>The references are complete\<close>

text \<open>A snapshot references a key when one of its manifests has an entry, live or removed, of a file with this key.\<close>

definition manifest_keys :: "(string \<Rightarrow> string option) \<Rightarrow> manifest_file \<Rightarrow> string set" where
  "manifest_keys keyOf mf = {key. \<exists>es e. mf_entries mf = Inr es \<and> e \<in> set es \<and> keyOf (de_path e) = Some key}"

definition snapshot_keys :: "(string \<Rightarrow> string option) \<Rightarrow> snapshot_info \<Rightarrow> string set" where
  "snapshot_keys keyOf snap = {key. \<exists>mfs mf. sn_manifests snap = Inr mfs \<and> mf \<in> set mfs \<and> key \<in> manifest_keys keyOf mf}"

text \<open>The table format never rewrites a manifest: one path has one content.\<close>

definition shared_manifests :: "iceberg_table \<Rightarrow> bool" where
  "shared_manifests tbl \<longleftrightarrow> (\<forall>s \<in> set (tb_snapshots tbl). \<forall>t \<in> set (tb_snapshots tbl). \<forall>ms ns m n. sn_manifests s = Inr ms \<longrightarrow> sn_manifests t = Inr ns
     \<longrightarrow> m \<in> set ms \<longrightarrow> n \<in> set ns \<longrightarrow> mf_path m = mf_path n \<longrightarrow> mf_entries m = mf_entries n)"

lemma add_references_dom: "dom (fold (add_reference keyOf sid) es refs) = dom refs \<union> {key. \<exists>e \<in> set es. keyOf (de_path e) = Some key}"
proof (induction es arbitrary: refs)
  case (Cons e es)
  have "dom (add_reference keyOf sid e refs) = dom refs \<union> {key. keyOf (de_path e) = Some key}" by (auto simp: add_reference_def split: option.splits)
  then show ?case by (auto simp: Cons.IH)
qed simp

lemma read_manifest_keys:
  assumes "read_manifest keyOf sid mf (refs, seen) = Inr (refs', seen')"
  shows "if mf_path mf \<in> seen then refs' = refs \<and> seen' = seen else dom refs' = dom refs \<union> manifest_keys keyOf mf \<and> seen' = insert (mf_path mf) seen"
proof (cases "mf_path mf \<in> seen")
  case False
  then obtain es where es: "mf_entries mf = Inr es" "refs' = fold (add_reference keyOf sid) es refs" "seen' = insert (mf_path mf) seen"
    using assms by (auto simp: read_manifest_def FetchEntries_def)
  then have "manifest_keys keyOf mf = {key. \<exists>e \<in> set es. keyOf (de_path e) = Some key}" by (auto simp: manifest_keys_def)
  then show ?thesis using False es(2,3) by (simp add: add_references_dom)
qed (use assms in \<open>simp add: read_manifest_def\<close>)

text \<open>The state after some manifests: what was seen is covered, and nothing else is.\<close>

definition covers :: "(string \<Rightarrow> string option) \<Rightarrow> manifest_file set \<Rightarrow> reference_state \<Rightarrow> bool" where
  "covers keyOf A st \<longleftrightarrow> snd st = mf_path ` A \<and> dom (fst st) = (\<Union>mf \<in> A. manifest_keys keyOf mf)"

lemma covers_step:
  assumes "covers keyOf A st" "read_manifest keyOf sid mf st = Inr st'" "\<And>a. a \<in> A \<Longrightarrow> mf_path a = mf_path mf \<Longrightarrow> mf_entries a = mf_entries mf"
  shows "covers keyOf (insert mf A) st'"
proof -
  obtain refs seen refs' seen' where st: "st = (refs, seen)" "st' = (refs', seen')" by (cases st; cases st')
  note step = read_manifest_keys [OF assms(2) [unfolded st]]
  show ?thesis
  proof (cases "mf_path mf \<in> mf_path ` A")
    case True
    then obtain a where "a \<in> A" "mf_path a = mf_path mf" by auto
    then have "manifest_keys keyOf mf \<subseteq> (\<Union>mf \<in> A. manifest_keys keyOf mf)" using assms(3) by (fastforce simp: manifest_keys_def)
    then show ?thesis using assms(1) True step by (simp add: st covers_def insert_absorb Un_absorb1)
  next
    case False
    then show ?thesis using assms(1) step by (simp add: st covers_def Un_commute)
  qed
qed

lemma covers_manifests:
  assumes "foldM (read_manifest keyOf sid) mfs st = Inr st'" "covers keyOf A st"
    "\<And>a b. a \<in> A \<union> set mfs \<Longrightarrow> b \<in> A \<union> set mfs \<Longrightarrow> mf_path a = mf_path b \<Longrightarrow> mf_entries a = mf_entries b"
  shows "covers keyOf (A \<union> set mfs) st'"
  using assms
proof (induction mfs arbitrary: st A)
  case (Cons mf mfs)
  obtain st1 where s: "read_manifest keyOf sid mf st = Inr st1" "foldM (read_manifest keyOf sid) mfs st1 = Inr st'"
    using Cons.prems(1) by (simp add: rbind_eq_Inr_iff) blast
  have one: "covers keyOf (insert mf A) st1" by (rule covers_step [OF Cons.prems(2) s(1)]) (rule Cons.prems(3); simp)
  have "covers keyOf (insert mf A \<union> set mfs) st'" by (rule Cons.IH [OF s(2) one]) (rule Cons.prems(3); simp)
  then show ?case by simp
qed simp

definition manifests_of :: "snapshot_info list \<Rightarrow> manifest_file set" where
  "manifests_of snaps = (\<Union>s \<in> set snaps. \<Union>ms \<in> {ms. sn_manifests s = Inr ms}. set ms)"

lemma covers_snapshots:
  assumes "foldM (read_snapshot keyOf) snaps st = Inr st'" "covers keyOf A st"
    "\<And>a b. a \<in> A \<union> manifests_of snaps \<Longrightarrow> b \<in> A \<union> manifests_of snaps \<Longrightarrow> mf_path a = mf_path b \<Longrightarrow> mf_entries a = mf_entries b"
  shows "covers keyOf (A \<union> manifests_of snaps) st'"
  using assms
proof (induction snaps arbitrary: st A)
  case (Cons s snaps)
  obtain mfs st1 where s: "sn_manifests s = Inr mfs" "foldM (read_manifest keyOf (sn_id s)) mfs st = Inr st1" "foldM (read_snapshot keyOf) snaps st1 = Inr st'"
    using Cons.prems(1) by (simp add: rbind_eq_Inr_iff read_snapshot_def [of _ s]) blast
  have m: "manifests_of (s # snaps) = set mfs \<union> manifests_of snaps" using s(1) by (auto simp: manifests_of_def)
  have one: "covers keyOf (A \<union> set mfs) st1"
    by (rule covers_manifests [OF s(2) Cons.prems(2)]) (rule Cons.prems(3); (simp add: m)?; blast)
  have "covers keyOf (A \<union> set mfs \<union> manifests_of snaps) st'"
    by (rule Cons.IH [OF s(3) one]) (rule Cons.prems(3); (simp add: m)?; blast)
  then show ?case by (simp add: m Un_assoc)
qed (simp add: manifests_of_def)

lemma table_references:
  assumes "TableReferences tbl keyOf = Inr (refs, n)" "shared_manifests tbl"
  shows "dom refs = (\<Union>s \<in> set (tb_snapshots tbl). snapshot_keys keyOf s)"
proof -
  obtain st where st: "foldM (read_snapshot keyOf) (tb_snapshots tbl) (Map.empty, {}) = Inr st" "refs = fst st"
    using assms(1) by (auto simp: TableReferences_def)
  have "covers keyOf ({} \<union> manifests_of (tb_snapshots tbl)) st"
  proof (rule covers_snapshots [OF st(1)])
    show "mf_entries a = mf_entries b" if "a \<in> {} \<union> manifests_of (tb_snapshots tbl)" "b \<in> {} \<union> manifests_of (tb_snapshots tbl)" "mf_path a = mf_path b" for a b
      using assms(2) that unfolding shared_manifests_def manifests_of_def by simp blast
  qed (simp add: covers_def)
  then have "dom refs = (\<Union>mf \<in> manifests_of (tb_snapshots tbl). manifest_keys keyOf mf)" by (simp add: st(2) covers_def)
  moreover have "(\<Union>mf \<in> manifests_of (tb_snapshots tbl). manifest_keys keyOf mf) = (\<Union>s \<in> set (tb_snapshots tbl). snapshot_keys keyOf s)"
    unfolding manifests_of_def snapshot_keys_def by blast
  ultimately show ?thesis by simp
qed

end
