(* ===== verification/Orphans.thy ===== *)
theory Orphans
  imports Maintenance IcebergTable Registrations
begin

text \<open>
  Which objects under the location of a table are garbage (\<open>ClassifyOrphans\<close> of \<open>internal/icebergreg/maintenance.go\<close>), and what the store says about the runs that
  wrote them (\<open>internal/grpc/maintenance.go\<close>, \<open>internal/db/maintenance.go\<close>).
\<close>

section \<open>The verdict on an object\<close>

record ObjectInfo =
  oi_Key :: string
  oi_Size :: int
  oi_LastModified :: time

datatype RunState = RunStateRegistered | RunStateFailed | RunStateActive | RunStateRegistrationPending | RunStateNotRegistered | RunStateCanceled | RunStateUnknown

fun run_state_text :: "RunState \<Rightarrow> string" where
  "run_state_text RunStateRegistered = ''REGISTERED''"
| "run_state_text RunStateFailed = ''FAILED''"
| "run_state_text RunStateActive = ''ACTIVE''"
| "run_state_text RunStateRegistrationPending = ''REGISTRATION_PENDING''"
| "run_state_text RunStateNotRegistered = ''NOT_REGISTERED''"
| "run_state_text RunStateCanceled = ''CANCELED''"
| "run_state_text RunStateUnknown = ''UNKNOWN''"

record OrphanDecision =
  od_Object :: ObjectInfo
  od_Age :: duration
  od_Orphan :: bool
  od_Reason :: string
  od_Evidence :: "(string \<times> jval) list"

record OrphanPolicy =
  op_TableKeyPrefix :: string
  op_MinAge :: duration
  op_Now :: time
  op_References :: "string \<rightharpoonup> int"
  op_Snapshots :: nat
  op_RunState :: "string \<Rightarrow> RunState"

definition trim_suffix :: "string \<Rightarrow> string \<Rightarrow> string" where
  "trim_suffix s p = (if has_suffix s p then take (length s - length p) s else s)"

text \<open>\<open>time.Time.Sub\<close> saturates.\<close>

definition time_sub :: "time \<Rightarrow> time \<Rightarrow> duration" where
  "time_sub t u = max (- (2 ^ 63)) (min (2 ^ 63 - 1) (t - u))"

definition runIDFromKey :: "string \<Rightarrow> string" where
  "runIDFromKey rel = (case cut_prefix rel ''_runs/run-'' of None \<Rightarrow> '''' | Some rest \<Rightarrow> (case cut_at CHR ''/'' rest of None \<Rightarrow> '''' | Some (i, _) \<Rightarrow> i))"

definition state_verdict :: "RunState \<Rightarrow> bool \<times> string" where
  "state_verdict s = (case s of
      RunStateRegistered \<Rightarrow> (True, ''UNREFERENCED_'' @ run_state_text s @ ''_RUN'')
    | RunStateFailed \<Rightarrow> (True, ''UNREFERENCED_'' @ run_state_text s @ ''_RUN'')
    | RunStateActive \<Rightarrow> (False, ''RUN_ACTIVE'')
    | RunStateRegistrationPending \<Rightarrow> (False, ''REGISTRATION_NOT_FINISHED'')
    | RunStateNotRegistered \<Rightarrow> (False, ''RUN_PUBLISHED_WITHOUT_ICEBERG'')
    | RunStateCanceled \<Rightarrow> (False, ''OWNED_BY_CANCELED_OBJECT_CLEANUP'')
    | _ \<Rightarrow> (False, ''RUN_UNKNOWN''))"

definition orphan_verdict :: "OrphanPolicy \<Rightarrow> string \<Rightarrow> duration \<Rightarrow> bool \<times> string \<times> (string \<times> jval) list" where
  "orphan_verdict p rel age = (let rid = runIDFromKey rel in
     if contains rel ''/_staging/'' \<or> has_prefix rel ''_staging/'' then (False, ''STAGING_OBJECT'', [])
     else if age < op_MinAge p then (False, ''YOUNGER_THAN_MIN_AGE'', [])
     else if rid \<noteq> '''' then (case state_verdict (op_RunState p rid) of (b, why) \<Rightarrow> (b, why, [(''run_state'', JStr (run_state_text (op_RunState p rid)))]))
     else (True, ''UNREFERENCED_TABLE_FILE'', []))"

type_synonym classified = "OrphanDecision list \<times> nat \<times> nat"

definition classify_object :: "OrphanPolicy \<Rightarrow> ObjectInfo \<Rightarrow> classified \<Rightarrow> classified" where
  "classify_object p obj st = (case st of (decisions, referenced, skipped) \<Rightarrow>
     (case cut_prefix (oi_Key obj) (trim_suffix (op_TableKeyPrefix p) ''/'' @ ''/'') of
        None \<Rightarrow> (decisions, referenced, Suc skipped)
      | Some rel \<Rightarrow>
          if has_prefix rel ''metadata/'' \<or> \<not> has_suffix (oi_Key obj) ''.parquet'' then (decisions, referenced, Suc skipped)
          else if op_References p (oi_Key obj) \<noteq> None then (decisions, Suc referenced, skipped)
          else (let age = time_sub (op_Now p) (oi_LastModified obj); rid = runIDFromKey rel in
            (case orphan_verdict p rel age of (b, why, ev) \<Rightarrow>
              (decisions @ [\<lparr>od_Object = obj, od_Age = age, od_Orphan = b, od_Reason = why,
                od_Evidence = [(''referenced'', JBool False), (''snapshots_examined'', JInt (int (op_Snapshots p)))]
                  @ (if rid \<noteq> '''' then [(''run_id'', JStr rid)] else []) @ ev\<rparr>], referenced, skipped)))))"

definition ClassifyOrphans :: "ObjectInfo list \<Rightarrow> OrphanPolicy \<Rightarrow> classified" where
  "ClassifyOrphans objects p = fold (classify_object p) objects ([], 0, 0)"

section \<open>What the store says\<close>

definition LatestRegisteredRun :: "string \<Rightarrow> db \<Rightarrow> run option" where
  "LatestRegisteredRun job d = (case rev (sort_key (\<lambda>r. (run_started r, run_id r)) (filter (\<lambda>r. run_job r = job \<and> run_status r = SUCCEEDED
     \<and> list_ex (\<lambda>g. reg_run g = run_id r \<and> reg_status g = R_REGISTERED) (registrations d)) (runs d))) of [] \<Rightarrow> None | r # _ \<Rightarrow> Some r)"

definition DatasetRegistrationsInFlight :: "string \<Rightarrow> db \<Rightarrow> nat" where
  "DatasetRegistrationsInFlight ds d =
     length (filter (\<lambda>g. reg_dataset g = ds \<and> reg_status g \<in> {R_PENDING, R_REGISTERING, R_RETRY_REQUIRED, R_RECONCILING, R_BLOCKED}) (registrations d))"

definition RunRegistrationStatus :: "string \<Rightarrow> db \<Rightarrow> reg_status option" where
  "RunRegistrationStatus rid d = map_option reg_status (select_first_by reg_id (\<lambda>g. reg_run g = rid) (registrations d))"

definition datasetBusy :: "string \<Rightarrow> db \<Rightarrow> string option" where
  "datasetBusy ds d = (case FindActiveRunByDatasetKey ds d of
      Some r \<Rightarrow> Some (''run '' @ run_id r @ '' is '' @ status_text (run_status r))
    | None \<Rightarrow> if DatasetRegistrationsInFlight ds d > 0 then Some (show_nat (DatasetRegistrationsInFlight ds d) @ '' registration(s) have not finished'') else None)"

definition maintenanceRunState :: "string \<Rightarrow> db \<Rightarrow> maint \<Rightarrow> RunState" where
  "maintenanceRunState rid d m = (case find_run rid d of None \<Rightarrow> RunStateUnknown
    | Some r \<Rightarrow> if run_status r \<in> {PLANNING, RUNNING, COMMITTING} then RunStateActive
        else if run_status r = CANCELED then RunStateCanceled
        else if run_status r = FAILED then RunStateFailed
        else if run_status r \<noteq> SUCCEEDED then RunStateUnknown
        else if GetMaintenanceOperationForRun rid m \<noteq> None then RunStateRegistered
        else (case RunRegistrationStatus rid d of
            Some R_REGISTERED \<Rightarrow> RunStateRegistered
          | None \<Rightarrow> RunStateNotRegistered
          | _ \<Rightarrow> RunStateRegistrationPending))"

section \<open>Every object is accounted for\<close>

definition data_file :: "OrphanPolicy \<Rightarrow> ObjectInfo \<Rightarrow> string \<Rightarrow> bool" where
  "data_file p obj rel \<longleftrightarrow> oi_Key obj = trim_suffix (op_TableKeyPrefix p) ''/'' @ ''/'' @ rel \<and> \<not> has_prefix rel ''metadata/'' \<and> has_suffix (oi_Key obj) ''.parquet''"

text \<open>A proven orphan, from the evidence of the policy alone.\<close>

definition proven_orphan :: "OrphanPolicy \<Rightarrow> ObjectInfo \<Rightarrow> bool" where
  "proven_orphan p obj \<longleftrightarrow> (\<exists>rel. data_file p obj rel \<and> op_References p (oi_Key obj) = None \<and> time_sub (op_Now p) (oi_LastModified obj) \<ge> op_MinAge p
     \<and> \<not> contains rel ''/_staging/'' \<and> \<not> has_prefix rel ''_staging/''
     \<and> (runIDFromKey rel \<noteq> '''' \<longrightarrow> op_RunState p (runIDFromKey rel) \<in> {RunStateRegistered, RunStateFailed}))"

lemma state_verdict_orphan: "fst (state_verdict s) \<longleftrightarrow> s \<in> {RunStateRegistered, RunStateFailed}"
  by (cases s) (auto simp: state_verdict_def)

lemma data_file_unique: "data_file p obj rel \<Longrightarrow> data_file p obj rel' \<Longrightarrow> rel = rel'"
  by (simp add: data_file_def)

lemma classify_data_file:
  assumes "data_file p obj rel" "op_References p (oi_Key obj) = None"
  shows "\<exists>x. classify_object p obj (ds, n, k) = (ds @ [x], n, k) \<and> od_Object x = obj \<and> od_Age x = time_sub (op_Now p) (oi_LastModified obj) \<and> (od_Orphan x \<longleftrightarrow> proven_orphan p obj)"
proof -
  have "proven_orphan p obj \<longleftrightarrow> time_sub (op_Now p) (oi_LastModified obj) \<ge> op_MinAge p \<and> \<not> contains rel ''/_staging/'' \<and> \<not> has_prefix rel ''_staging/''
      \<and> (runIDFromKey rel \<noteq> '''' \<longrightarrow> fst (state_verdict (op_RunState p (runIDFromKey rel))))"
    unfolding proven_orphan_def state_verdict_orphan using assms data_file_unique [OF assms(1)] by blast
  then have "proven_orphan p obj \<longleftrightarrow> fst (orphan_verdict p rel (time_sub (op_Now p) (oi_LastModified obj)))"
    by (simp add: orphan_verdict_def Let_def case_prod_unfold not_less)
  moreover have "cut_prefix (oi_Key obj) (trim_suffix (op_TableKeyPrefix p) ''/'' @ ''/'') = Some rel"
    using assms(1) by (simp add: data_file_def cut_prefix_Some)
  ultimately show ?thesis using assms by (auto simp: classify_object_def data_file_def Let_def split: prod.splits)
qed

lemma classify_other:
  assumes "\<not> (\<exists>rel. data_file p obj rel) \<or> op_References p (oi_Key obj) \<noteq> None"
  shows "\<exists>n' k'. classify_object p obj (ds, n, k) = (ds, n', k') \<and> n' + k' = Suc (n + k)"
  using assms unfolding classify_object_def data_file_def by (auto simp: cut_prefix_Some Let_def split: option.splits prod.splits)

definition listed :: "OrphanPolicy \<Rightarrow> ObjectInfo \<Rightarrow> bool" where
  "listed p obj \<longleftrightarrow> (\<exists>rel. data_file p obj rel) \<and> op_References p (oi_Key obj) = None"

lemma classify_fold:
  "fold (classify_object p) objects (ds, n, k) = (ds', n', k') \<Longrightarrow>
    (\<exists>new. ds' = ds @ new \<and> map od_Object new = filter (listed p) objects \<and> (\<forall>x \<in> set new. od_Orphan x \<longleftrightarrow> proven_orphan p (od_Object x))
      \<and> length new + n' + k' = length objects + n + k)"
proof (induction objects arbitrary: ds n k)
  case (Cons obj objects)
  show ?case
  proof (cases "listed p obj")
    case True
    then obtain x where x: "classify_object p obj (ds, n, k) = (ds @ [x], n, k)" "od_Object x = obj" "od_Orphan x \<longleftrightarrow> proven_orphan p obj"
      using classify_data_file [of p obj _ ds n k] by (auto simp: listed_def)
    with Cons.prems obtain new where "ds' = (ds @ [x]) @ new" "map od_Object new = filter (listed p) objects"
      "\<forall>x \<in> set new. od_Orphan x \<longleftrightarrow> proven_orphan p (od_Object x)" "length new + n' + k' = length objects + n + k"
      using Cons.IH [of "ds @ [x]" n k] by auto
    then show ?thesis using x True by (intro exI [of _ "x # new"]) auto
  next
    case False
    then obtain n1 k1 where "classify_object p obj (ds, n, k) = (ds, n1, k1)" "n1 + k1 = Suc (n + k)"
      using classify_other [of p obj ds n k] by (auto simp: listed_def)
    then show ?thesis using Cons.IH [of ds n1 k1] Cons.prems False by force
  qed
qed simp

lemma classify_orphans:
  assumes "ClassifyOrphans objects p = (decisions, referenced, skipped)"
  shows "map od_Object decisions = filter (listed p) objects" "\<And>x. x \<in> set decisions \<Longrightarrow> od_Orphan x \<longleftrightarrow> proven_orphan p (od_Object x)"
    "length decisions + referenced + skipped = length objects"
  using classify_fold [OF assms [unfolded ClassifyOrphans_def]] by auto

end
