(* ===== verification/Compaction.thy ===== *)
theory Compaction
  imports IcebergTable "HOL-Library.Multiset" "HOL-Library.Sublist"
begin

text \<open>
  Compaction of a published table (\<open>internal/icebergreg/maintenance.go\<close>, \<open>internal/grpc/maintenance.go\<close>): the choice of small files, their packing
  into the groups that tasks rewrite, and the commit that replaces the inputs by the outputs. A table is what the catalog library answers about it.
\<close>

section \<open>The plan\<close>

record CompactionOptions =
  co_TargetFileBytes :: int
  co_SmallFileBytes :: int
  co_MinInputFiles :: int
  co_MaxInputFiles :: int

record CompactionGroup =
  cg_Partition :: string
  cg_Fingerprint :: string
  cg_Inputs :: "CompactionFile list"
  cg_Bytes :: int
  cg_Records :: int

type_synonym CompactionSkip = "CompactionFile \<times> string"

type_synonym group_key = "string \<times> string"

text \<open>The first loop: the skips, the order of the group keys and the files of each key.\<close>

type_synonym sorted_files = "CompactionSkip list \<times> group_key list \<times> (group_key \<rightharpoonup> CompactionFile list)"

definition sort_file :: "(string \<rightharpoonup> string) \<Rightarrow> CompactionOptions \<Rightarrow> CompactionFile \<Rightarrow> sorted_files \<Rightarrow> sorted_files" where
  "sort_file fingerprints opts f st = (case st of (skips, order, byKey) \<Rightarrow>
    (if cf_Size f \<ge> co_SmallFileBytes opts then (skips @ [(f, ''NOT_SMALL'')], order, byKey)
     else case fingerprints (cf_Key f) of
         None \<Rightarrow> (skips @ [(f, ''NOT_WRITTEN_BY_ORABBIT'')], order, byKey)
       | Some fp \<Rightarrow> (let k = (cf_Partition f, fp) in
           (skips, if byKey k = None then order @ [k] else order, byKey(k \<mapsto> coalesce (byKey k) [] @ [f])))))"

text \<open>The second loop: the open group, then the groups, the skips and the number of files taken.\<close>

type_synonym packed = "CompactionGroup list \<times> CompactionSkip list \<times> int"

definition open_group :: "group_key \<Rightarrow> CompactionGroup" where
  "open_group k = \<lparr>cg_Partition = fst k, cg_Fingerprint = snd k, cg_Inputs = [], cg_Bytes = 0, cg_Records = 0\<rparr>"

definition flush :: "CompactionOptions \<Rightarrow> CompactionGroup \<Rightarrow> packed \<Rightarrow> packed" where
  "flush opts cur st = (case st of (groups, skips, tot) \<Rightarrow>
    (if int (length (cg_Inputs cur)) \<ge> max (co_MinInputFiles opts) 2 then (groups @ [cur], skips, tot + int (length (cg_Inputs cur)))
     else (groups, skips @ map (\<lambda>f. (f, ''TOO_FEW_FILES_IN_PARTITION'')) (cg_Inputs cur), tot)))"

definition add_input :: "CompactionFile \<Rightarrow> CompactionGroup \<Rightarrow> CompactionGroup" where
  "add_input f cur = cur\<lparr>cg_Inputs := cg_Inputs cur @ [f], cg_Bytes := wrap64 (cg_Bytes cur + cf_Size f), cg_Records := wrap64 (cg_Records cur + cf_Records f)\<rparr>"

definition pack_file :: "CompactionOptions \<Rightarrow> group_key \<Rightarrow> CompactionFile \<Rightarrow> CompactionGroup \<times> packed \<Rightarrow> CompactionGroup \<times> packed" where
  "pack_file opts k f st = (case st of (cur, groups, skips, tot) \<Rightarrow>
    (if co_MaxInputFiles opts > 0 \<and> tot + int (length (cg_Inputs cur)) \<ge> co_MaxInputFiles opts
     then (cur, groups, skips @ [(f, ''MAX_INPUT_FILES_REACHED'')], tot)
     else if cg_Inputs cur \<noteq> [] \<and> wrap64 (cg_Bytes cur + cf_Size f) > co_TargetFileBytes opts
     then (add_input f (open_group k), flush opts cur (groups, skips, tot))
     else (add_input f cur, groups, skips, tot)))"

definition pack_group :: "CompactionOptions \<Rightarrow> (group_key \<rightharpoonup> CompactionFile list) \<Rightarrow> group_key \<Rightarrow> packed \<Rightarrow> packed" where
  "pack_group opts byKey k st = (case fold (pack_file opts k) (coalesce (byKey k) []) (open_group k, st) of (cur, st') \<Rightarrow> flush opts cur st')"

definition PlanCompaction :: "CompactionFile list \<Rightarrow> (string \<rightharpoonup> string) \<Rightarrow> CompactionOptions \<Rightarrow> CompactionGroup list \<times> CompactionSkip list" where
  "PlanCompaction files fingerprints opts = (case fold (sort_file fingerprints opts) files ([], [], Map.empty) of (skips, order, byKey) \<Rightarrow>
     (case fold (pack_group opts byKey) order ([], skips, 0) of (groups, skips', tot) \<Rightarrow> (groups, skips')))"

text \<open>The options of a request: the first positive target of the request, the table settings and the job settings.\<close>

record CompactionParams =
  cp_TargetFileBytes :: int
  cp_SmallFileBytes :: int
  cp_MinInputFiles :: int
  cp_MaxInputFiles :: int

definition first_positive :: "int \<Rightarrow> int \<Rightarrow> int" where
  "first_positive a b = (if a \<le> 0 then b else a)"

text \<open>Division of Go's integers rounds towards zero.\<close>

definition quarter :: "int \<Rightarrow> int" where
  "quarter x = (if x < 0 then - ((- x) div 4) else x div 4)"

definition compactionOptions :: "CompactionParams \<Rightarrow> int \<Rightarrow> int \<Rightarrow> CompactionOptions" where
  "compactionOptions p tableTarget jobTarget =
    (let target = first_positive (first_positive (first_positive (cp_TargetFileBytes p) tableTarget) jobTarget) (256 * 2 ^ 20) in
     \<lparr>co_TargetFileBytes = target, co_SmallFileBytes = first_positive (cp_SmallFileBytes p) (quarter (wrap64 (target * 3))),
      co_MinInputFiles = first_positive (cp_MinInputFiles p) 3, co_MaxInputFiles = first_positive (cp_MaxInputFiles p) 1000\<rparr>)"

definition valid_options :: "CompactionOptions \<Rightarrow> bool" where
  "valid_options opts \<longleftrightarrow> \<not> (co_SmallFileBytes opts > co_TargetFileBytes opts \<or> co_SmallFileBytes opts \<le> 0)"

text \<open>A request that leaves the size of a small file open is accepted for every target from two bytes to half an exabyte.\<close>

lemma default_small_size_is_valid:
  assumes "cp_SmallFileBytes p \<le> 0" "2 \<le> co_TargetFileBytes (compactionOptions p a b)" "co_TargetFileBytes (compactionOptions p a b) < 2 ^ 61"
  shows "valid_options (compactionOptions p a b)"
proof -
  let ?t = "co_TargetFileBytes (compactionOptions p a b)"
  have "wrap64 (?t * 3) = ?t * 3" by (rule wrap64_id) (use assms in auto)
  then have "co_SmallFileBytes (compactionOptions p a b) = (?t * 3) div 4" using assms by (simp add: compactionOptions_def first_positive_def quarter_def Let_def)
  then show ?thesis using assms(2) unfolding valid_options_def by presburger
qed

section \<open>The files are sorted by partition and schema\<close>

definition files_of :: "(group_key \<rightharpoonup> CompactionFile list) \<Rightarrow> group_key list \<Rightarrow> CompactionFile list" where
  "files_of byKey order = concat (map (\<lambda>k. coalesce (byKey k) []) order)"

definition belongs :: "(string \<rightharpoonup> string) \<Rightarrow> CompactionOptions \<Rightarrow> group_key \<Rightarrow> CompactionFile \<Rightarrow> bool" where
  "belongs fingerprints opts k f \<longleftrightarrow> cf_Partition f = fst k \<and> fingerprints (cf_Key f) = Some (snd k) \<and> cf_Size f < co_SmallFileBytes opts"

definition sorted_inv :: "(string \<rightharpoonup> string) \<Rightarrow> CompactionOptions \<Rightarrow> CompactionFile multiset \<Rightarrow> sorted_files \<Rightarrow> bool" where
  "sorted_inv fingerprints opts M st = (case st of (skips, order, byKey) \<Rightarrow>
     distinct order \<and> set order = dom byKey \<and> (\<forall>k fs. byKey k = Some fs \<longrightarrow> list_all (belongs fingerprints opts k) fs)
     \<and> mset (map fst skips) + mset (files_of byKey order) = M)"

lemma files_of_other: "k \<notin> set order \<Longrightarrow> files_of (byKey(k \<mapsto> fs)) order = files_of byKey order"
  by (auto simp: files_of_def intro!: arg_cong [where f = concat])

lemma files_of_more: "distinct order \<Longrightarrow> k \<in> set order \<Longrightarrow> mset (files_of (byKey(k \<mapsto> coalesce (byKey k) [] @ [f])) order) = add_mset f (mset (files_of byKey order))"
proof (induction order)
  case (Cons x order)
  show ?case
  proof (cases "x = k")
    case True
    with Cons.prems files_of_other [of k order byKey] show ?thesis by (simp add: files_of_def coalesce_def)
  next
    case False
    with Cons show ?thesis by (simp add: files_of_def coalesce_def)
  qed
qed simp

lemma sort_file_inv:
  assumes "sorted_inv fps opts M st"
  shows "sorted_inv fps opts (add_mset f M) (sort_file fps opts f st)"
proof -
  obtain skips order byKey where st: "st = (skips, order, byKey)" by (cases st)
  note inv = assms [unfolded sorted_inv_def st prod.case]
  show ?thesis
  proof (cases "cf_Size f \<ge> co_SmallFileBytes opts \<or> fps (cf_Key f) = None")
    case True
    then show ?thesis using inv by (auto simp: st sort_file_def sorted_inv_def split: option.splits)
  next
    case False
    then obtain fp where fp: "fps (cf_Key f) = Some fp" "cf_Size f < co_SmallFileBytes opts" by auto
    define k where "k = (cf_Partition f, fp)"
    let ?by = "byKey(k \<mapsto> coalesce (byKey k) [] @ [f])" and ?order = "if byKey k = None then order @ [k] else order"
    have "mset (files_of ?by ?order) = add_mset f (mset (files_of byKey order))"
    proof (cases "byKey k")
      case None
      then have "k \<notin> set order" using inv by auto
      with files_of_other [OF this, of byKey] None show ?thesis by (simp add: files_of_def coalesce_def)
    next
      case (Some fs)
      then show ?thesis using files_of_more [of order k byKey f] inv by auto
    qed
    moreover have "list_all (belongs fps opts j) fs" if "?by j = Some fs" for j fs
    proof (cases "j = k")
      case True
      then show ?thesis using that inv fp by (cases "byKey k") (auto simp: belongs_def k_def)
    next
      case False
      then show ?thesis using that inv by (cases j) simp
    qed
    moreover have "sort_file fps opts f st = (skips, ?order, ?by)" using fp by (simp add: st sort_file_def k_def Let_def)
    ultimately show ?thesis using inv by (auto simp: sorted_inv_def)
  qed
qed

lemma sort_files_inv: "sorted_inv fps opts M st \<Longrightarrow> sorted_inv fps opts (M + mset files) (fold (sort_file fps opts) files st)"
proof (induction files arbitrary: M st)
  case (Cons f files)
  from Cons.IH [OF sort_file_inv [OF Cons.prems]] show ?case by simp
qed simp

section \<open>The groups are packed within their bounds\<close>

text \<open>What an open group and a finished plan keep. The sizes are exact as long as the options and the sizes of the files exclude an overflow.\<close>

definition no_overflow :: "CompactionOptions \<Rightarrow> CompactionFile list \<Rightarrow> bool" where
  "no_overflow opts files \<longleftrightarrow> list_all (\<lambda>f. cf_Size f \<ge> 0) files \<and> co_SmallFileBytes opts \<le> co_TargetFileBytes opts \<and> co_TargetFileBytes opts < 2 ^ 62"

definition group_ok :: "(string \<rightharpoonup> string) \<Rightarrow> CompactionOptions \<Rightarrow> bool \<Rightarrow> CompactionGroup \<Rightarrow> bool" where
  "group_ok fps opts exact g \<longleftrightarrow> list_all (belongs fps opts (cg_Partition g, cg_Fingerprint g)) (cg_Inputs g)
     \<and> (exact \<longrightarrow> cg_Bytes g = sum_list (map cf_Size (cg_Inputs g)) \<and> 0 \<le> cg_Bytes g \<and> (cg_Inputs g \<noteq> [] \<longrightarrow> cg_Bytes g \<le> co_TargetFileBytes opts))"

definition all_inputs :: "CompactionGroup list \<Rightarrow> CompactionFile list" where
  "all_inputs groups = concat (map cg_Inputs groups)"

definition packed_inv :: "(string \<rightharpoonup> string) \<Rightarrow> CompactionOptions \<Rightarrow> bool \<Rightarrow> CompactionFile multiset \<Rightarrow> CompactionFile list \<Rightarrow> packed \<Rightarrow> bool" where
  "packed_inv fps opts exact M held st = (case st of (groups, skips, tot) \<Rightarrow>
     tot = int (length (all_inputs groups)) \<and> (\<forall>g \<in> set groups. group_ok fps opts exact g \<and> int (length (cg_Inputs g)) \<ge> max (co_MinInputFiles opts) 2)
     \<and> (co_MaxInputFiles opts > 0 \<longrightarrow> tot + int (length held) \<le> co_MaxInputFiles opts)
     \<and> mset (all_inputs groups) + mset (map fst skips) + mset held = M)"

lemma flush_inv:
  assumes "packed_inv fps opts exact M (cg_Inputs cur) st" "group_ok fps opts exact cur"
  shows "packed_inv fps opts exact M [] (flush opts cur st)"
  using assms by (cases st) (auto simp: packed_inv_def flush_def all_inputs_def image_mset.compositionality comp_def ac_simps)

lemma add_input_ok:
  assumes "group_ok fps opts exact cur" "belongs fps opts (cg_Partition cur, cg_Fingerprint cur) f"
    "exact \<Longrightarrow> 0 \<le> cf_Size f \<and> co_SmallFileBytes opts \<le> co_TargetFileBytes opts \<and> co_TargetFileBytes opts < 2 ^ 62"
    "cg_Inputs cur = [] \<or> wrap64 (cg_Bytes cur + cf_Size f) \<le> co_TargetFileBytes opts"
  shows "group_ok fps opts exact (add_input f cur)"
proof -
  have "wrap64 (cg_Bytes cur + cf_Size f) = cg_Bytes cur + cf_Size f" "cg_Bytes cur + cf_Size f \<le> co_TargetFileBytes opts" if exact
  proof -
    have "0 \<le> cg_Bytes cur" "cg_Bytes cur < 2 ^ 62" "0 \<le> cf_Size f" "cf_Size f < 2 ^ 62"
      using assms(1-3) that by (cases "cg_Inputs cur"; auto simp: group_ok_def belongs_def)+
    then show "wrap64 (cg_Bytes cur + cf_Size f) = cg_Bytes cur + cf_Size f" by (intro wrap64_id) auto
    then show "cg_Bytes cur + cf_Size f \<le> co_TargetFileBytes opts" using assms that by (auto simp: group_ok_def belongs_def)
  qed
  then show ?thesis using assms by (auto simp: group_ok_def add_input_def)
qed

lemma pack_file_inv:
  assumes "packed_inv fps opts exact M (cg_Inputs cur) st" "group_ok fps opts exact cur" "(cg_Partition cur, cg_Fingerprint cur) = k"
    "belongs fps opts k f" "exact \<Longrightarrow> 0 \<le> cf_Size f \<and> co_SmallFileBytes opts \<le> co_TargetFileBytes opts \<and> co_TargetFileBytes opts < 2 ^ 62"
    "pack_file opts k f (cur, st) = (cur', st')"
  shows "packed_inv fps opts exact (add_mset f M) (cg_Inputs cur') st' \<and> group_ok fps opts exact cur' \<and> (cg_Partition cur', cg_Fingerprint cur') = k"
proof -
  obtain groups skips tot where st: "st = (groups, skips, tot)" by (cases st)
  have op: "group_ok fps opts exact (open_group k)" "(cg_Partition (open_group k), cg_Fingerprint (open_group k)) = k"
    by (auto simp: group_ok_def open_group_def)
  consider (full) "co_MaxInputFiles opts > 0 \<and> tot + int (length (cg_Inputs cur)) \<ge> co_MaxInputFiles opts"
    | (fresh) "\<not> (co_MaxInputFiles opts > 0 \<and> tot + int (length (cg_Inputs cur)) \<ge> co_MaxInputFiles opts)"
        "cg_Inputs cur \<noteq> []" "wrap64 (cg_Bytes cur + cf_Size f) > co_TargetFileBytes opts"
    | (same) "\<not> (co_MaxInputFiles opts > 0 \<and> tot + int (length (cg_Inputs cur)) \<ge> co_MaxInputFiles opts)"
        "cg_Inputs cur = [] \<or> wrap64 (cg_Bytes cur + cf_Size f) \<le> co_TargetFileBytes opts" by fastforce
  then show ?thesis
  proof cases
    case full
    then show ?thesis using assms by (auto simp: pack_file_def st packed_inv_def)
  next
    case fresh
    then have "cur' = add_input f (open_group k)" "st' = flush opts cur st" using assms(6) by (auto simp: pack_file_def st)
    moreover have "group_ok fps opts exact (add_input f (open_group k))"
      by (rule add_input_ok) (use op assms(4,5) in \<open>auto simp: open_group_def\<close>)
    moreover note flush_inv [OF assms(1,2)]
    ultimately show ?thesis using fresh(1) assms(1) by (cases "flush opts cur st") (auto simp: packed_inv_def st flush_def add_input_def open_group_def split: if_splits)
  next
    case same
    then have "cur' = add_input f cur" "st' = st" using assms(6) by (auto simp: pack_file_def st)
    moreover have "group_ok fps opts exact (add_input f cur)" by (rule add_input_ok) (use assms same(2) in auto)
    ultimately show ?thesis using same(1) assms(1,3) by (auto simp: packed_inv_def st add_input_def)
  qed
qed

lemma pack_files_inv:
  assumes "packed_inv fps opts exact M (cg_Inputs cur) st" "group_ok fps opts exact cur" "(cg_Partition cur, cg_Fingerprint cur) = k"
    "list_all (belongs fps opts k) fs" "exact \<Longrightarrow> no_overflow opts fs" "fold (pack_file opts k) fs (cur, st) = (cur', st')"
  shows "packed_inv fps opts exact (M + mset fs) (cg_Inputs cur') st' \<and> group_ok fps opts exact cur'"
  using assms
proof (induction fs arbitrary: M cur st)
  case (Cons f fs)
  obtain cur1 st1 where s: "pack_file opts k f (cur, st) = (cur1, st1)" by (cases "pack_file opts k f (cur, st)")
  have "packed_inv fps opts exact (add_mset f M) (cg_Inputs cur1) st1 \<and> group_ok fps opts exact cur1 \<and> (cg_Partition cur1, cg_Fingerprint cur1) = k"
    by (rule pack_file_inv [OF Cons.prems(1-3) _ _ s]) (use Cons.prems(4,5) in \<open>auto simp: no_overflow_def\<close>)
  with Cons.IH [of "add_mset f M" cur1 st1] Cons.prems(4-6) s show ?case by (auto simp: no_overflow_def)
qed simp

lemma pack_group_inv:
  assumes "packed_inv fps opts exact M [] st" "list_all (belongs fps opts k) (coalesce (byKey k) [])" "exact \<Longrightarrow> no_overflow opts (coalesce (byKey k) [])"
  shows "packed_inv fps opts exact (M + mset (coalesce (byKey k) [])) [] (pack_group opts byKey k st)"
proof -
  obtain cur st' where s: "fold (pack_file opts k) (coalesce (byKey k) []) (open_group k, st) = (cur, st')" by (meson surj_pair)
  have "packed_inv fps opts exact (M + mset (coalesce (byKey k) [])) (cg_Inputs cur) st' \<and> group_ok fps opts exact cur"
    by (rule pack_files_inv [OF _ _ _ assms(2,3) s]) (use assms(1) in \<open>auto simp: open_group_def group_ok_def\<close>)
  then show ?thesis using flush_inv s by (simp add: pack_group_def)
qed

lemma pack_groups_inv:
  assumes "packed_inv fps opts exact M [] st" "\<And>k. k \<in> set order \<Longrightarrow> list_all (belongs fps opts k) (coalesce (byKey k) [])"
    "exact \<Longrightarrow> no_overflow opts (files_of byKey order)"
  shows "packed_inv fps opts exact (M + mset (files_of byKey order)) [] (fold (pack_group opts byKey) order st)"
  using assms
proof (induction order arbitrary: M st)
  case (Cons k order)
  have "packed_inv fps opts exact (M + mset (coalesce (byKey k) [])) [] (pack_group opts byKey k st)"
    by (rule pack_group_inv [OF Cons.prems(1)]) (use Cons.prems(2,3) in \<open>auto simp: no_overflow_def files_of_def\<close>)
  from Cons.IH [OF this] Cons.prems(2,3) show ?case by (auto simp: no_overflow_def files_of_def ac_simps)
qed (simp add: files_of_def)

lemma compaction_plan_inv:
  assumes "PlanCompaction files fps opts = (groups, skips)" "exact \<Longrightarrow> no_overflow opts files"
  shows "\<exists>tot. packed_inv fps opts exact (mset files) [] (groups, skips, tot)"
proof -
  obtain sk order byKey where s: "fold (sort_file fps opts) files ([], [], Map.empty) = (sk, order, byKey)" by (metis surj_pair)
  have "sorted_inv fps opts {#} ([], [], Map.empty)" by (simp add: sorted_inv_def files_of_def)
  from sort_files_inv [OF this, of files] have inv: "sorted_inv fps opts (mset files) (sk, order, byKey)" by (simp add: s)
  have "mset (map fst sk) + mset (files_of byKey order) = mset files" using inv by (simp add: sorted_inv_def)
  then have "set (files_of byKey order) \<subseteq> set files" by (metis Un_upper2 set_mset_mset set_mset_union)
  then have "no_overflow opts (files_of byKey order)" if exact using assms(2) that by (auto simp: no_overflow_def list_all_iff)
  moreover have "packed_inv fps opts exact (mset (map fst sk)) [] ([], sk, 0)" by (simp add: packed_inv_def all_inputs_def)
  moreover have "list_all (belongs fps opts k) (coalesce (byKey k) [])" if "k \<in> set order" for k
    using inv that by (cases k) (auto simp: sorted_inv_def)
  ultimately have "packed_inv fps opts exact (mset (map fst sk) + mset (files_of byKey order)) [] (fold (pack_group opts byKey) order ([], sk, 0))"
    by (intro pack_groups_inv) auto
  then show ?thesis using assms(1) inv s by (auto simp: PlanCompaction_def sorted_inv_def split: prod.splits)
qed

text \<open>
  C25. The plan of a compaction accounts for every file of the table exactly once: it is the input of one group or skipped with a reason. Every group has
  at least the minimal number of files, two at least, all of one partition and written by O_Rabbit with one schema, each below the size of a small file;
  the groups together take at most the configured number of files. Where the options and the sizes exclude an overflow, the size of a group is the sum
  of its files and at most the target size.
\<close>

theorem compaction_plan_accounts_for_every_file:
  assumes plan: "PlanCompaction files fps opts = (groups, skips)"
  shows "mset (all_inputs groups) + mset (map fst skips) = mset files
    \<and> (\<forall>g \<in> set groups. int (length (cg_Inputs g)) \<ge> max (co_MinInputFiles opts) 2 \<and> (\<forall>f \<in> set (cg_Inputs g). cf_Partition f = cg_Partition g
        \<and> fps (cf_Key f) = Some (cg_Fingerprint g) \<and> cf_Size f < co_SmallFileBytes opts))
    \<and> (co_MaxInputFiles opts > 0 \<longrightarrow> int (length (all_inputs groups)) \<le> co_MaxInputFiles opts)
    \<and> (no_overflow opts files \<longrightarrow> (\<forall>g \<in> set groups. cg_Bytes g = sum_list (map cf_Size (cg_Inputs g)) \<and> cg_Bytes g \<le> co_TargetFileBytes opts))"
proof -
  obtain tot where inv: "packed_inv fps opts (no_overflow opts files) (mset files) [] (groups, skips, tot)" using compaction_plan_inv [OF plan] by blast
  then have "int (length (cg_Inputs g)) \<ge> max (co_MinInputFiles opts) 2" "group_ok fps opts (no_overflow opts files) g" if "g \<in> set groups" for g
    using that by (auto simp: packed_inv_def)
  moreover from this have "cg_Inputs g \<noteq> []" if "g \<in> set groups" for g using that by fastforce
  ultimately show ?thesis using inv by (auto simp: packed_inv_def group_ok_def belongs_def list_all_iff)
qed

definition sample_file :: "string \<Rightarrow> int \<Rightarrow> CompactionFile" where
  "sample_file key n = \<lparr>cf_Path = ''s3://b/'' @ key, cf_Key = key, cf_Size = n, cf_Records = 1, cf_Partition = ''p''\<rparr>"

theorem compaction_plan_witness:
  "\<exists>groups skips. PlanCompaction [sample_file ''a'' 40, sample_file ''b'' 50, sample_file ''c'' 90, sample_file ''d'' 60] (\<lambda>_. Some ''fp'')
      \<lparr>co_TargetFileBytes = 100, co_SmallFileBytes = 75, co_MinInputFiles = 1, co_MaxInputFiles = 10\<rparr> = (groups, skips)
    \<and> map (map cf_Key \<circ> cg_Inputs) groups = [[''a'', ''b'']] \<and> map snd skips = [''NOT_SMALL'', ''TOO_FEW_FILES_IN_PARTITION'']
    \<and> (\<forall>g \<in> set groups. cg_Bytes g \<le> 100)"
proof -
  let ?files = "[sample_file ''a'' 40, sample_file ''b'' 50, sample_file ''c'' 90, sample_file ''d'' 60]"
  let ?opts = "\<lparr>co_TargetFileBytes = 100, co_SmallFileBytes = 75, co_MinInputFiles = 1, co_MaxInputFiles = 10\<rparr>"
  obtain groups skips where p: "PlanCompaction ?files (\<lambda>_. Some ''fp'') ?opts = (groups, skips)" by fastforce
  have "map (map cf_Key \<circ> cg_Inputs) groups = [[''a'', ''b'']] \<and> map snd skips = [''NOT_SMALL'', ''TOO_FEW_FILES_IN_PARTITION'']"
    using p by (auto simp: PlanCompaction_def sort_file_def pack_group_def pack_file_def flush_def add_input_def open_group_def sample_file_def wrap64_def Let_def)
  moreover have "\<forall>g \<in> set groups. cg_Bytes g \<le> 100"
    using compaction_plan_accounts_for_every_file [OF p] by (auto simp: no_overflow_def sample_file_def)
  ultimately show ?thesis using p by (intro exI [of _ groups] exI [of _ skips]) simp
qed

section \<open>The commit\<close>


















end
