(* ===== verification/OrphanCleanup.thy ===== *)
theory OrphanCleanup
  imports Orphans Compaction
begin

text \<open>
  The orphan cleanup of a master (\<open>runOrphanCleanup\<close> of \<open>internal/grpc/maintenance.go\<close>) as a program over the maintenance tables, with every other
  actor in between: before each step the rest of the system may change the tables, the clock and the answers of the catalog and the object store
  are those of the step, and every error ends the program with the state it left.
\<close>

section \<open>Programs of a master\<close>













section \<open>The cleanup\<close>

























section \<open>What a program logs\<close>



































end
