(* ===== verification/ApiAccess.thy ===== *)
theory ApiAccess
  imports Prelude
begin

text \<open>
  Who may do what over HTTP (\<open>internal/auth\<close>, \<open>internal/http/authn.go\<close>, \<open>authz.go\<close>, \<open>routes.go\<close>, \<open>credentials_api.go\<close>, \<open>internal/db/api_credentials.go\<close>): scoped
  credentials stored as hashes, legacy shared tokens, anonymous access to a deployment without credentials, and the scope each route needs. The hash
  of a token is a parameter; instants are numbers, so that an expiry cannot be unreadable.
\<close>

section \<open>Scopes and tokens\<close>

abbreviation ScopeRead :: string where "ScopeRead \<equiv> ''read''"
abbreviation ScopeJobsWrite :: string where "ScopeJobsWrite \<equiv> ''jobs:write''"
abbreviation ScopeSecretsAdmin :: string where "ScopeSecretsAdmin \<equiv> ''secrets:admin''"
abbreviation ScopeWorkersAdmin :: string where "ScopeWorkersAdmin \<equiv> ''workers:admin''"
abbreviation ScopeRemoteOps :: string where "ScopeRemoteOps \<equiv> ''remote_ops''"
abbreviation ScopeCredentialsAdmin :: string where "ScopeCredentialsAdmin \<equiv> ''credentials:admin''"

definition AllScopes :: "string list" where
  "AllScopes = [ScopeRead, ScopeJobsWrite, ScopeSecretsAdmin, ScopeWorkersAdmin, ScopeRemoteOps, ScopeCredentialsAdmin]"

definition DataAPIScopes :: "string list" where
  "DataAPIScopes = [ScopeRead, ScopeJobsWrite, ScopeSecretsAdmin, ScopeWorkersAdmin, ScopeCredentialsAdmin]"

record Principal =
  pr_Name :: string
  pr_Kind :: string
  pr_CredentialID :: string
  pr_Scopes :: "string list"

definition Has :: "Principal \<Rightarrow> string \<Rightarrow> bool" where
  "Has p scope \<longleftrightarrow> list_ex (\<lambda>s. s = scope) (pr_Scopes p)"

definition ParseKind :: "string \<Rightarrow> string res" where
  "ParseKind raw = (let k = trim_space raw in if k = ''human'' \<or> k = ''automation'' then Inr k else Inl (ErrMsg ''kind must be human or automation''))"

definition validScope :: "string \<Rightarrow> bool" where
  "validScope s \<longleftrightarrow> list_ex (\<lambda>known. s = known) AllScopes"

definition ParseScopes :: "string list \<Rightarrow> string list res" where
  "ParseScopes raw = (if raw = [] then Inl (ErrMsg ''at least one scope is required'')
     else let names = map trim_space raw in if list_all validScope names then Inr (sort (remdups names)) else Inl (ErrMsg ''unknown scope''))"

definition TokenPrefix :: string where "TokenPrefix = ''orb_''"

record Token =
  tk_Value :: string
  tk_CredentialID :: string
  tk_Hash :: string

text \<open>\<open>cid\<close> and \<open>secret\<close> are the random hexadecimal texts.\<close>

definition GenerateToken :: "(string \<Rightarrow> string) \<Rightarrow> string \<Rightarrow> string \<Rightarrow> Token" where
  "GenerateToken HashToken cid secret = (let v = TokenPrefix @ cid @ ''_'' @ secret in \<lparr>tk_Value = v, tk_CredentialID = cid, tk_Hash = HashToken v\<rparr>)"

definition ParseToken :: "string \<Rightarrow> (string \<times> string) option" where
  "ParseToken raw = (if \<not> has_prefix raw TokenPrefix then None
     else case split_on CHR ''_'' raw of [_, cid, secret] \<Rightarrow> if cid = '''' \<or> secret = '''' then None else Some (cid, secret) | _ \<Rightarrow> None)"

section \<open>Stored credentials\<close>

record APICredential =
  ca_ID :: string
  ca_Principal :: string
  ca_Kind :: string
  ca_Scopes :: "string list"
  ca_Hash :: string
  ca_Created :: time
  ca_CreatedBy :: string
  ca_Expires :: "time option"
  ca_Revoked :: "time option"
  ca_Description :: string

definition Active :: "APICredential \<Rightarrow> time \<Rightarrow> bool" where
  "Active c now = (if ca_Revoked c \<noteq> None then False else case ca_Expires c of None \<Rightarrow> True | Some t \<Rightarrow> now < t)"

definition credential_conflict :: "APICredential \<Rightarrow> APICredential \<Rightarrow> bool" where
  "credential_conflict a b \<longleftrightarrow> ca_ID a = ca_ID b \<or> ca_Hash a = ca_Hash b"

definition CreateAPICredential :: "APICredential \<Rightarrow> time \<Rightarrow> APICredential list \<Rightarrow> APICredential list res" where
  "CreateAPICredential c now creds = insert_row credential_conflict (c\<lparr>ca_Created := now, ca_Revoked := None\<rparr>) creds"

definition ErrCredentialNotFound :: err where
  "ErrCredentialNotFound = ErrMsg ''api credential not found''"

definition GetAPICredential :: "string \<Rightarrow> APICredential list \<Rightarrow> APICredential res" where
  "GetAPICredential i creds = of_row ErrCredentialNotFound (select_one (\<lambda>c. ca_ID c = i) creds)"

definition RevokeAPICredential :: "string \<Rightarrow> time \<Rightarrow> APICredential list \<Rightarrow> APICredential list res" where
  "RevokeAPICredential i now creds = (let p = (\<lambda>c. ca_ID c = i \<and> ca_Revoked c = None) in
     if rows_affected p creds > 0 then Inr (update_where p (\<lambda>c. c\<lparr>ca_Revoked := Some now\<rparr>) creds)
     else if list_ex (\<lambda>c. ca_ID c = i) creds then Inr creds else Inl ErrCredentialNotFound)"

definition CountActiveAPICredentials :: "time \<Rightarrow> APICredential list \<Rightarrow> nat" where
  "CountActiveAPICredentials now creds = rows_affected (\<lambda>c. ca_Revoked c = None \<and> (case ca_Expires c of None \<Rightarrow> True | Some t \<Rightarrow> t > now)) creds"

definition HasAPICredentials :: "APICredential list \<Rightarrow> bool" where
  "HasAPICredentials creds \<longleftrightarrow> creds \<noteq> []"

section \<open>Issuing\<close>

record IssueRequest =
  ir_Principal :: string
  ir_Kind :: string
  ir_Scopes :: "string list"
  ir_TTL :: duration
  ir_Description :: string

abbreviation alphanumeric :: "char \<Rightarrow> bool" where
  "alphanumeric c \<equiv> is_digit c \<or> (CHR ''a'' \<le> c \<and> c \<le> CHR ''z'') \<or> (CHR ''A'' \<le> c \<and> c \<le> CHR ''Z'')"

definition principalNamePattern :: "string \<Rightarrow> bool" where
  "principalNamePattern s = (case s of [] \<Rightarrow> False | c # cs \<Rightarrow> alphanumeric c \<and> list_all (\<lambda>x. alphanumeric x \<or> x \<in> set ''._@:-'') cs)"

definition MinTTL :: duration where "MinTTL = 60 * second"

definition MaxTTL :: duration where "MaxTTL = 365 * 24 * 3600 * second"

definition Issue :: "(string \<Rightarrow> string) \<Rightarrow> IssueRequest \<Rightarrow> string \<Rightarrow> time \<Rightarrow> string \<Rightarrow> string \<Rightarrow> (APICredential \<times> Token) res" where
  "Issue HashToken req createdBy now cid secret =
    (let principal = trim_space (ir_Principal req); description = trim_space (ir_Description req) in
     if principal = '''' \<or> length principal > 128 \<or> \<not> principalNamePattern principal then Inl (ErrMsg ''invalid principal'')
     else rbind (ParseKind (ir_Kind req)) (\<lambda>kind. rbind (ParseScopes (ir_Scopes req)) (\<lambda>scopes.
       if length description > 256 then Inl (ErrMsg ''description must be at most 256 characters'')
       else if ir_TTL req \<noteq> 0 \<and> (ir_TTL req < MinTTL \<or> ir_TTL req > MaxTTL) then Inl (ErrMsg ''ttl out of range'')
       else let tok = GenerateToken HashToken cid secret in
         Inr (\<lparr>ca_ID = tk_CredentialID tok, ca_Principal = principal, ca_Kind = kind, ca_Scopes = scopes, ca_Hash = tk_Hash tok, ca_Created = 0, ca_CreatedBy = createdBy,
           ca_Expires = (if ir_TTL req \<noteq> 0 then Some (now + ir_TTL req) else None), ca_Revoked = None, ca_Description = description\<rparr>, tok))))"

section \<open>Authentication\<close>

record server_config =
  sc_authToken :: string
  sc_remoteOpsToken :: string
  sc_remoteOpsOptIn :: bool
  sc_store :: bool

record request =
  rq_Method :: string
  rq_Path :: string
  rq_Authorization :: string

definition remoteOpsEnabled :: "server_config \<Rightarrow> bool" where
  "remoteOpsEnabled s \<longleftrightarrow> sc_remoteOpsOptIn s \<or> sc_remoteOpsToken s \<noteq> ''''"

definition apiV1Prefix :: string where "apiV1Prefix = ''/api/v1''"

definition unversionedPath :: "string \<Rightarrow> string" where
  "unversionedPath path = (if path = apiV1Prefix then ''/''
     else if has_prefix path (apiV1Prefix @ ''/'') then drop (length apiV1Prefix) path else path)"

definition isRemoteOpsPath :: "string \<Rightarrow> bool" where
  "isRemoteOpsPath path = list_ex (\<lambda>prefix. unversionedPath path = prefix \<or> has_prefix (unversionedPath path) (prefix @ ''/'')) [''/servers'', ''/deployments'', ''/executions'']"

definition bearerToken :: "string \<Rightarrow> string option" where
  "bearerToken header = (let h = trim_space header in if has_prefix h ''Bearer '' then Some (drop 7 h) else None)"

text \<open>The comparison of digests, \<open>digest\<close> a parameter.\<close>

definition constantTimeBearerMatch :: "(string \<Rightarrow> string) \<Rightarrow> string \<Rightarrow> string \<Rightarrow> bool" where
  "constantTimeBearerMatch digest header expected = (case bearerToken header of None \<Rightarrow> False | Some t \<Rightarrow> digest t = digest expected)"

definition legacyPrincipal :: "(string \<Rightarrow> string) \<Rightarrow> string \<Rightarrow> string \<Rightarrow> string list \<Rightarrow> Principal" where
  "legacyPrincipal Fingerprint name token scopes = \<lparr>pr_Name = name, pr_Kind = ''legacy'', pr_CredentialID = Fingerprint token, pr_Scopes = scopes\<rparr>"

record auth_functions =
  af_HashToken :: "string \<Rightarrow> string"
  af_Fingerprint :: "string \<Rightarrow> string"
  af_digest :: "string \<Rightarrow> string"

definition principalFromCredential :: "auth_functions \<Rightarrow> server_config \<Rightarrow> string \<Rightarrow> time \<Rightarrow> APICredential list \<Rightarrow> Principal option" where
  "principalFromCredential A s token now creds = (case ParseToken token of
      None \<Rightarrow> None
    | Some (i, _) \<Rightarrow> if \<not> sc_store s then None else (case GetAPICredential i creds of
        Inl _ \<Rightarrow> None
      | Inr c \<Rightarrow> if af_HashToken A token \<noteq> ca_Hash c \<or> \<not> Active c now then None
          else Some \<lparr>pr_Name = ca_Principal c, pr_Kind = ca_Kind c, pr_CredentialID = ca_ID c, pr_Scopes = ca_Scopes c\<rparr>))"

definition anonymousPrincipal :: "server_config \<Rightarrow> APICredential list \<Rightarrow> Principal option" where
  "anonymousPrincipal s creds = (if sc_store s \<and> HasAPICredentials creds then None
     else Some \<lparr>pr_Name = ''anonymous'', pr_Kind = ''anonymous'', pr_CredentialID = '''', pr_Scopes = DataAPIScopes\<rparr>)"

definition resolvePrincipal :: "auth_functions \<Rightarrow> server_config \<Rightarrow> request \<Rightarrow> bool \<Rightarrow> time \<Rightarrow> APICredential list \<Rightarrow> Principal option" where
  "resolvePrincipal A s r remote now creds = (let header = rq_Authorization r in
     case (case bearerToken header of None \<Rightarrow> None | Some t \<Rightarrow> if has_prefix t TokenPrefix then Some t else None) of
       Some token \<Rightarrow> principalFromCredential A s token now creds
     | None \<Rightarrow>
         if remote then
           (if sc_remoteOpsToken s \<noteq> '''' \<and> constantTimeBearerMatch (af_digest A) header (sc_remoteOpsToken s)
            then Some (legacyPrincipal (af_Fingerprint A) ''legacy-remote-ops-token'' (sc_remoteOpsToken s) [ScopeRemoteOps]) else None)
         else if sc_authToken s \<noteq> '''' then
           (if constantTimeBearerMatch (af_digest A) header (sc_authToken s)
            then Some (legacyPrincipal (af_Fingerprint A) ''legacy-http-token'' (sc_authToken s) DataAPIScopes) else None)
         else anonymousPrincipal s creds)"

section \<open>Authorization\<close>

type_synonym scopePolicy = "string \<Rightarrow> string \<Rightarrow> string"

definition isReadMethod :: "string \<Rightarrow> bool" where
  "isReadMethod m \<longleftrightarrow> m = ''GET'' \<or> m = ''HEAD''"

definition readWrite :: "string \<Rightarrow> scopePolicy" where
  "readWrite write m path = (if isReadMethod m then ScopeRead else write)"

definition always :: "string \<Rightarrow> scopePolicy" where
  "always scope m path = scope"

definition validatePolicy :: scopePolicy where
  "validatePolicy m path = ScopeRead"

definition policyPath :: "string \<Rightarrow> string" where
  "policyPath path = (let u = unversionedPath path in if has_prefix u ''/api/'' then drop 4 u else u)"

record apiRoute =
  rt_v1 :: string
  rt_legacy :: "string list"
  rt_target :: string
  rt_policy :: scopePolicy

definition plain_route :: "string \<Rightarrow> scopePolicy \<Rightarrow> apiRoute" where
  "plain_route path policy = \<lparr>rt_v1 = path, rt_legacy = [path], rt_target = path, rt_policy = policy\<rparr>"

definition new_route :: "string \<Rightarrow> scopePolicy \<Rightarrow> apiRoute" where
  "new_route path policy = \<lparr>rt_v1 = path, rt_legacy = [], rt_target = path, rt_policy = policy\<rparr>"

definition api_route :: "string \<Rightarrow> scopePolicy \<Rightarrow> apiRoute" where
  "api_route path policy = \<lparr>rt_v1 = path, rt_legacy = [''/api'' @ path], rt_target = ''/api'' @ path, rt_policy = policy\<rparr>"

definition apiRoutes :: "apiRoute list" where
  "apiRoutes =
    [\<lparr>rt_v1 = ''/workers'', rt_legacy = [''/workers'', ''/api/workers''], rt_target = ''/workers'', rt_policy = readWrite ScopeWorkersAdmin\<rparr>,
     plain_route ''/workers/'' (always ScopeWorkersAdmin),
     plain_route ''/servers'' (always ScopeRemoteOps),
     plain_route ''/servers/'' (always ScopeRemoteOps),
     plain_route ''/deployments'' (always ScopeRemoteOps),
     plain_route ''/deployments/'' (always ScopeRemoteOps),
     plain_route ''/executions/'' (always ScopeRemoteOps),
     plain_route ''/connections'' (readWrite ScopeSecretsAdmin),
     plain_route ''/connections/'' (readWrite ScopeSecretsAdmin),
     plain_route ''/jobs'' (readWrite ScopeJobsWrite),
     plain_route ''/jobs/'' (readWrite ScopeJobsWrite),
     plain_route ''/runs'' (readWrite ScopeJobsWrite),
     plain_route ''/runs/'' (readWrite ScopeJobsWrite),
     api_route ''/runs/submit'' (readWrite ScopeJobsWrite),
     api_route ''/runs/validate'' validatePolicy,
     api_route ''/source-engines'' (readWrite ScopeJobsWrite),
     api_route ''/maintenance/submit'' (readWrite ScopeJobsWrite),
     new_route ''/maintenance'' (readWrite ScopeJobsWrite),
     new_route ''/maintenance/'' (readWrite ScopeJobsWrite),
     new_route ''/credentials'' (always ScopeCredentialsAdmin),
     new_route ''/credentials/'' (always ScopeCredentialsAdmin),
     plain_route ''/sse'' (readWrite ScopeJobsWrite),
     new_route ''/events'' (readWrite ScopeJobsWrite),
     new_route ''/events/stream'' (readWrite ScopeJobsWrite),
     new_route ''/logs/master'' (readWrite ScopeJobsWrite),
     new_route ''/logs/master/stream'' (readWrite ScopeJobsWrite)]"

text \<open>The patterns with the handler and the policy behind each; the operational endpoints are not versioned.\<close>

type_synonym handler = "string \<times> scopePolicy"

definition registerAPIRoutes :: "(string \<times> handler) list" where
  "registerAPIRoutes = concat (map (\<lambda>r. map (\<lambda>p. (p, rt_target r, rt_policy r)) ((apiV1Prefix @ rt_v1 r) # rt_legacy r)) apiRoutes)
     @ [(''/api/runs'', ''/api/runs'', readWrite ScopeJobsWrite), (''/api/runs/'', ''/api/runs/'', readWrite ScopeJobsWrite), (''/api/jobs/'', ''/api/jobs/'', readWrite ScopeJobsWrite)]"

definition server_patterns :: "(string \<times> handler) list" where
  "server_patterns = [(''/metrics'', ''/metrics'', readWrite ScopeJobsWrite), (''/status'', ''/status'', readWrite ScopeJobsWrite)] @ registerAPIRoutes"

text \<open>
  \<open>http.ServeMux\<close>: a pattern that ends in a slash matches the paths under it, and the longest match wins. A path that the multiplexer only
  redirects (not clean, or without the final slash of its pattern) reaches no handler and is \<open>NotFound\<close> here. The middleware for rate limits,
  leadership and body sizes, which can only reject a request, is left out.
\<close>

definition pattern_matches :: "string \<Rightarrow> string \<Rightarrow> bool" where
  "pattern_matches p path = (if p \<noteq> '''' \<and> last p = CHR ''/'' then has_prefix path p else path = p)"

definition mux_match :: "(string \<times> 'h) list \<Rightarrow> string \<Rightarrow> (string \<times> 'h) option" where
  "mux_match ps path = fold (\<lambda>x best. if pattern_matches (fst x) path \<and> (case best of None \<Rightarrow> True | Some b \<Rightarrow> length (fst b) < length (fst x)) then Some x else best) ps None"

datatype answer = Public | NotFound | Unauthorized | Forbidden string | Handled string Principal

definition authorized :: "handler \<Rightarrow> request \<Rightarrow> Principal \<Rightarrow> answer" where
  "authorized h r p = (let required = snd h (rq_Method r) (policyPath (rq_Path r)) in
     if required = '''' \<or> \<not> Has p required then Forbidden required else Handled (fst h) p)"

definition withAuthentication :: "auth_functions \<Rightarrow> server_config \<Rightarrow> request \<Rightarrow> time \<Rightarrow> APICredential list \<Rightarrow> answer" where
  "withAuthentication A s r now creds =
    (if rq_Path r = ''/healthz'' \<or> rq_Path r = ''/ready'' then Public
     else let remote = isRemoteOpsPath (rq_Path r) in
       if remote \<and> \<not> remoteOpsEnabled s then NotFound
       else case resolvePrincipal A s r remote now creds of
           None \<Rightarrow> Unauthorized
         | Some p \<Rightarrow> (case mux_match server_patterns (rq_Path r) of None \<Rightarrow> NotFound | Some (_, h) \<Rightarrow> authorized h r p))"

section \<open>Administration of credentials over HTTP\<close>

record createCredentialRequest =
  cr_Principal :: string
  cr_Kind :: string
  cr_Scopes :: "string list"
  cr_TTLSeconds :: int
  cr_Description :: string

definition handleCreateCredential :: "auth_functions \<Rightarrow> Principal \<Rightarrow> createCredentialRequest \<Rightarrow> time \<Rightarrow> string \<Rightarrow> string \<Rightarrow> APICredential list
    \<Rightarrow> (string \<times> APICredential list) res" where
  "handleCreateCredential A caller req now cid secret creds =
    rbind (Issue (af_HashToken A) \<lparr>ir_Principal = cr_Principal req, ir_Kind = cr_Kind req, ir_Scopes = cr_Scopes req, ir_TTL = wrap64 (cr_TTLSeconds req * second),
        ir_Description = cr_Description req\<rparr> (pr_Name caller) now cid secret) (\<lambda>(cred, tok).
      if \<not> list_all (Has caller) (ca_Scopes cred) then Inl (ErrMsg ''forbidden'')
      else rbind (CreateAPICredential cred now creds) (\<lambda>creds'. Inr (tk_Value tok, creds')))"

definition trim_slashes :: "string \<Rightarrow> string" where
  "trim_slashes s = rev (dropWhile (\<lambda>c. c = CHR ''/'') (rev (dropWhile (\<lambda>c. c = CHR ''/'') s)))"

text \<open>\<open>path\<close> is the path under \<open>/credentials/\<close>, which \<open>withPathPrefix\<close> has rewritten from the versioned one.\<close>

definition handleCredentialByID :: "string \<Rightarrow> string \<Rightarrow> time \<Rightarrow> APICredential list \<Rightarrow> APICredential list res" where
  "handleCredentialByID m path now creds = (case split_on CHR ''/'' (trim_slashes path) of
      [i, action] \<Rightarrow> if i = '''' \<or> action \<noteq> ''revoke'' then Inl (ErrMsg ''unknown route'')
        else if m \<noteq> ''POST'' then Inl (ErrMsg ''method not allowed'') else RevokeAPICredential i now creds
    | _ \<Rightarrow> Inl (ErrMsg ''unknown route''))"

text \<open>What requests over HTTP do to the stored credentials.\<close>

inductive api_step :: "auth_functions \<Rightarrow> server_config \<Rightarrow> APICredential list \<Rightarrow> APICredential list \<Rightarrow> bool" for A s where
  create: "withAuthentication A s r now creds = Handled ''/credentials'' p \<Longrightarrow> rq_Method r = ''POST''
    \<Longrightarrow> handleCreateCredential A p body t cid secret creds = Inr (token, creds') \<Longrightarrow> api_step A s creds creds'"
| revoke: "withAuthentication A s r now creds = Handled ''/credentials/'' p
    \<Longrightarrow> handleCredentialByID (rq_Method r) (drop (length ''/api/v1/credentials/'') (rq_Path r)) t creds = Inr creds' \<Longrightarrow> api_step A s creds creds'"

section \<open>Who is behind a request that is served\<close>

lemma mux_match_Some:
  assumes "mux_match ps path = Some x"
  shows "x \<in> set ps \<and> pattern_matches (fst x) path"
proof -
  have "fold (\<lambda>x best. if pattern_matches (fst x) path \<and> (case best of None \<Rightarrow> True | Some b \<Rightarrow> length (fst b) < length (fst x)) then Some x else best) ps b = Some x
      \<Longrightarrow> b = Some x \<or> (x \<in> set ps \<and> pattern_matches (fst x) path)" for b
    by (induction ps arbitrary: b) (auto split: if_splits)
  from this [of None] assms show ?thesis by (simp add: mux_match_def)
qed

lemma handled_cases:
  assumes "withAuthentication A s r now creds = Handled target p"
  obtains pattern policy where "resolvePrincipal A s r (isRemoteOpsPath (rq_Path r)) now creds = Some p" "isRemoteOpsPath (rq_Path r) \<longrightarrow> remoteOpsEnabled s"
    "(pattern, target, policy) \<in> set server_patterns" "pattern_matches pattern (rq_Path r)" "Has p (policy (rq_Method r) (policyPath (rq_Path r)))"
  using assms by (fastforce simp: withAuthentication_def authorized_def Let_def dest!: mux_match_Some split: if_splits option.splits prod.splits)

text \<open>The credential a request presents, as it is stored.\<close>

definition presents :: "auth_functions \<Rightarrow> request \<Rightarrow> time \<Rightarrow> APICredential \<Rightarrow> bool" where
  "presents A r now c \<longleftrightarrow> (\<exists>token secret. bearerToken (rq_Authorization r) = Some token \<and> ParseToken token = Some (ca_ID c, secret)
     \<and> af_HashToken A token = ca_Hash c \<and> Active c now)"

definition presents_token :: "auth_functions \<Rightarrow> request \<Rightarrow> string \<Rightarrow> bool" where
  "presents_token A r shared \<longleftrightarrow> shared \<noteq> '''' \<and> (\<exists>token. bearerToken (rq_Authorization r) = Some token \<and> af_digest A token = af_digest A shared)"

definition presents_issued :: "request \<Rightarrow> bool" where
  "presents_issued r \<longleftrightarrow> (\<exists>token. bearerToken (rq_Authorization r) = Some token \<and> has_prefix token TokenPrefix)"

lemma resolve_cases:
  assumes "resolvePrincipal A s r remote now creds = Some p"
  obtains (credential) c where "c \<in> set creds" "presents A r now c" "pr_Scopes p = ca_Scopes c" "pr_CredentialID p = ca_ID c"
  | (remote_token) "remote" "presents_token A r (sc_remoteOpsToken s)" "pr_Scopes p = [ScopeRemoteOps]" "\<not> presents_issued r"
  | (http_token) "\<not> remote" "presents_token A r (sc_authToken s)" "pr_Scopes p = DataAPIScopes" "\<not> presents_issued r"
  | (anonymous) "\<not> remote" "sc_authToken s = ''''" "\<not> (sc_store s \<and> creds \<noteq> [])" "pr_Scopes p = DataAPIScopes"
proof (cases "case bearerToken (rq_Authorization r) of None \<Rightarrow> None | Some t \<Rightarrow> if has_prefix t TokenPrefix then Some t else None")
  case None
  then show thesis using assms that(2-4)
    by (auto simp: resolvePrincipal_def presents_token_def presents_issued_def constantTimeBearerMatch_def legacyPrincipal_def anonymousPrincipal_def HasAPICredentials_def Let_def
        split: if_splits option.splits)
next
  case (Some token)
  then have t: "bearerToken (rq_Authorization r) = Some token" by (auto split: option.splits if_splits)
  have f: "principalFromCredential A s token now creds = Some p" using assms Some by (simp add: resolvePrincipal_def)
  then obtain i sec c where c: "ParseToken token = Some (i, sec)" "GetAPICredential i creds = Inr c" "af_HashToken A token = ca_Hash c" "Active c now"
    "pr_Scopes p = ca_Scopes c" "pr_CredentialID p = ca_ID c"
    by (auto simp: principalFromCredential_def split: option.splits if_splits sum.splits)
  from c(2) have "c \<in> set creds" "ca_ID c = i" by (auto simp: GetAPICredential_def)
  then show thesis using that(1) c t by (auto simp: presents_def)
qed

text \<open>The routes that need the remote scope are exactly behind the guard of remote operations.\<close>

lemmas route_simps = server_patterns_def registerAPIRoutes_def apiRoutes_def plain_route_def new_route_def api_route_def apiV1Prefix_def

definition remote_paths :: "string list" where
  "remote_paths = [''/servers'', ''/servers/'', ''/deployments'', ''/deployments/'', ''/executions/'']"

lemma readWrite_not_remote [simp]: "w \<noteq> ScopeRemoteOps \<Longrightarrow> readWrite w m q \<noteq> ScopeRemoteOps" "validatePolicy m q \<noteq> ScopeRemoteOps"
  by (simp_all add: readWrite_def validatePolicy_def)

lemma remote_patterns:
  assumes "(pattern, target, policy) \<in> set server_patterns" "policy m q = ScopeRemoteOps \<or> target \<in> set remote_paths"
  shows "policy = always ScopeRemoteOps \<and> target \<in> set remote_paths \<and> pattern \<in> set (remote_paths @ map (\<lambda>p. ''/api/v1'' @ p) remote_paths)"
proof -
  have "list_all (\<lambda>(pattern, target, policy). policy m q = ScopeRemoteOps \<or> target \<in> set remote_paths \<longrightarrow> policy = always ScopeRemoteOps \<and> target \<in> set remote_paths
      \<and> pattern \<in> set (remote_paths @ map (\<lambda>p. ''/api/v1'' @ p) remote_paths)) server_patterns"
    by (simp add: route_simps remote_paths_def) (simp add: always_def)
  then show ?thesis using assms by (auto simp: list_all_iff)
qed

lemma has_prefix_append: "has_prefix a b \<Longrightarrow> has_prefix (a @ c) b"
  by (auto simp: has_prefix_def) (metis append_take_drop_id length_take linorder_not_le min.absorb2 min.cobounded1 nat_le_linear take_all)

lemma unversioned_append:
  assumes "length p \<ge> 8"
  shows "unversionedPath (p @ rest) = unversionedPath p @ rest"
proof -
  have "p @ rest \<noteq> apiV1Prefix" using assms by (auto simp: apiV1Prefix_def dest: arg_cong [where f = length])
  then show ?thesis using assms by (auto simp: unversionedPath_def apiV1Prefix_def has_prefix_def)
qed

definition below_remote :: "string \<Rightarrow> bool" where
  "below_remote p \<longleftrightarrow> list_ex (\<lambda>prefix. has_prefix (unversionedPath p) (prefix @ ''/'')) [''/servers'', ''/deployments'', ''/executions'']"

lemma below_remote_append: "length p \<ge> 8 \<Longrightarrow> below_remote p \<Longrightarrow> isRemoteOpsPath (p @ rest)"
  by (auto simp: below_remote_def isRemoteOpsPath_def unversioned_append intro: has_prefix_append)

lemma remote_pattern_guarded:
  assumes "pattern \<in> set (remote_paths @ map (\<lambda>p. ''/api/v1'' @ p) remote_paths)" "pattern_matches pattern path"
  shows "isRemoteOpsPath path"
proof -
  have "list_all (\<lambda>p. isRemoteOpsPath p \<and> length p \<ge> 8 \<and> (last p = CHR ''/'' \<longrightarrow> below_remote p)) (remote_paths @ map (\<lambda>p. ''/api/v1'' @ p) remote_paths)"
    by code_simp
  from this [unfolded list_all_iff] assms(1)
  have p: "isRemoteOpsPath pattern \<and> length pattern \<ge> 8 \<and> (last pattern = CHR ''/'' \<longrightarrow> below_remote pattern)" by blast
  show ?thesis
  proof (cases "path = pattern")
    case False
    then have "last pattern = CHR ''/''" "take (length pattern) path = pattern" using assms(2) by (auto simp: pattern_matches_def has_prefix_def split: if_splits)
    then show ?thesis using below_remote_append [of pattern "drop (length pattern) path"] p by (metis append_take_drop_id)
  qed (use p in simp)
qed

lemma credential_patterns:
  assumes "(pattern, target, policy) \<in> set server_patterns" "target = ''/credentials'' \<or> target = ''/credentials/''"
  shows "policy = always ScopeCredentialsAdmin \<and> pattern = ''/api/v1'' @ target"
  using assms by (auto simp: route_simps)

lemma credential_pattern_local:
  assumes "pattern_matches (''/api/v1'' @ target) path" "target = ''/credentials'' \<or> target = ''/credentials/''"
  shows "\<not> isRemoteOpsPath path"
proof -
  obtain rest where "path = ''/api/v1/credentials'' @ rest" using assms by (auto simp: pattern_matches_def has_prefix_def) (metis append_Cons append_Nil append_take_drop_id)
  then show ?thesis by (auto simp: isRemoteOpsPath_def unversionedPath_def apiV1Prefix_def has_prefix_def)
qed

lemma data_scopes [simp]: "ScopeRemoteOps \<notin> set DataAPIScopes" "Has p scope \<longleftrightarrow> scope \<in> set (pr_Scopes p)"
  by (auto simp: DataAPIScopes_def Has_def list_ex_iff)

section \<open>Credentials over time\<close>

lemma create_cases:
  assumes "handleCreateCredential A p body t cid secret creds = Inr (token, creds')"
  obtains c where "creds' = creds @ [c]" "set (ca_Scopes c) \<subseteq> set (pr_Scopes p)" "ca_ID c = cid" "\<forall>x \<in> set creds. ca_ID x \<noteq> cid"
proof -
  obtain cred tok where i: "Issue (af_HashToken A) \<lparr>ir_Principal = cr_Principal body, ir_Kind = cr_Kind body, ir_Scopes = cr_Scopes body, ir_TTL = wrap64 (cr_TTLSeconds body * second),
      ir_Description = cr_Description body\<rparr> (pr_Name p) t cid secret = Inr (cred, tok)" "list_all (Has p) (ca_Scopes cred)" "CreateAPICredential cred t creds = Inr creds'"
    using assms by (auto simp: handleCreateCredential_def split: if_splits prod.splits)
  then have "ca_ID cred = cid" by (auto simp: Issue_def GenerateToken_def Let_def split: if_splits)
  moreover have "creds' = creds @ [cred\<lparr>ca_Created := t, ca_Revoked := None\<rparr>]" "\<forall>x \<in> set creds. ca_ID x \<noteq> ca_ID cred"
    using i(3) by (auto simp: CreateAPICredential_def insert_row_def list_ex_iff credential_conflict_def split: if_splits)
  ultimately show thesis using i(2) by (intro that [of "cred\<lparr>ca_Created := t, ca_Revoked := None\<rparr>"]) (auto simp: list_all_iff)
qed

lemma revoke_cases:
  assumes "RevokeAPICredential i t creds = Inr creds'"
  shows "creds' = update_where (\<lambda>c. ca_ID c = i \<and> ca_Revoked c = None) (\<lambda>c. c\<lparr>ca_Revoked := Some t\<rparr>) creds \<and> (\<exists>c \<in> set creds. ca_ID c = i)"
  using assms by (auto simp: RevokeAPICredential_def Let_def list_ex_iff sql_simps update_where_none split: if_splits)

lemma credential_by_id_cases: "handleCredentialByID m path t creds = Inr creds' \<Longrightarrow> \<exists>i. RevokeAPICredential i t creds = Inr creds'"
  by (auto simp: handleCredentialByID_def split: list.splits if_splits)

text \<open>Requests only add credentials with new ids and revoke others; nothing else of a credential changes.\<close>

definition succeeds :: "APICredential list \<Rightarrow> APICredential list \<Rightarrow> bool" where
  "succeeds creds creds' \<longleftrightarrow> (\<forall>c \<in> set creds. \<exists>c' \<in> set creds'. ca_ID c' = ca_ID c \<and> (ca_Revoked c \<noteq> None \<longrightarrow> ca_Revoked c' \<noteq> None))"

lemma api_step_keeps:
  assumes "api_step A s creds creds'" "keyed ca_ID creds"
  shows "keyed ca_ID creds' \<and> succeeds creds creds'"
  using assms(1)
proof cases
  case (create r now p body t cid secret token)
  from create_cases [OF create(3)] obtain c where c: "creds' = creds @ [c]" "ca_ID c = cid" "\<forall>x \<in> set creds. ca_ID x \<noteq> cid" by metis
  have "keyed ca_ID creds'" unfolding c(1) by (rule keyed_append [OF assms(2)]) (use c in metis)
  then show ?thesis using c(1) by (auto simp: succeeds_def)
next
  case (revoke r now p t)
  then obtain i where i: "RevokeAPICredential i t creds = Inr creds'" by (blast dest: credential_by_id_cases)
  let ?p = "\<lambda>c. ca_ID c = i \<and> ca_Revoked c = None" and ?f = "\<lambda>c. c\<lparr>ca_Revoked := Some t\<rparr>"
  have e: "creds' = update_where ?p ?f creds" using revoke_cases [OF i] by blast
  have "\<exists>c' \<in> set creds'. ca_ID c' = ca_ID c \<and> (ca_Revoked c \<noteq> None \<longrightarrow> ca_Revoked c' \<noteq> None)" if "c \<in> set creds" for c
    unfolding e by (rule bexI [OF _ in_update_whereI [OF that]]) auto
  then show ?thesis using keyed_update_where [OF assms(2), of ?f ?p] by (simp add: e succeeds_def)
qed

lemma api_steps_keep: "(api_step A s)\<^sup>*\<^sup>* creds creds' \<Longrightarrow> keyed ca_ID creds \<Longrightarrow> keyed ca_ID creds' \<and> succeeds creds creds'"
proof (induction rule: rtranclp_induct)
  case base
  then show ?case by (auto simp: succeeds_def)
next
  case (step y z)
  then have y: "keyed ca_ID y \<and> succeeds creds y" "keyed ca_ID z \<and> succeeds y z" using api_step_keeps [of A s y z] by auto
  have "succeeds creds z" unfolding succeeds_def
  proof
    fix c assume "c \<in> set creds"
    then obtain c1 where "c1 \<in> set y" "ca_ID c1 = ca_ID c" "ca_Revoked c \<noteq> None \<longrightarrow> ca_Revoked c1 \<noteq> None" using y(1) by (auto simp: succeeds_def)
    then show "\<exists>c' \<in> set z. ca_ID c' = ca_ID c \<and> (ca_Revoked c \<noteq> None \<longrightarrow> ca_Revoked c' \<noteq> None)" using y(2) unfolding succeeds_def by metis
  qed
  then show ?case using y(2) by simp
qed

section \<open>Issued tokens\<close>

lemma find_appended: "\<forall>x \<in> set xs. \<not> p x \<Longrightarrow> p y \<Longrightarrow> find p (xs @ [y]) = Some y"
  by (induction xs) auto

lemma trim_space_framed: "\<not> is_space x \<Longrightarrow> \<not> is_space y \<Longrightarrow> trim_space (x # s @ [y]) = x # s @ [y]"
  by (simp add: trim_space_def)

definition hex_text :: "string \<Rightarrow> bool" where
  "hex_text s \<longleftrightarrow> s \<noteq> '''' \<and> set s \<subseteq> set ''0123456789abcdef''"

lemma hex_texts:
  assumes "hex_text s"
  shows "CHR ''_'' \<notin> set s" "s \<noteq> ''''" "\<not> is_space (last s)"
proof -
  have "last s \<in> set ''0123456789abcdef''" using assms last_in_set [of s] unfolding hex_text_def by blast
  then show "\<not> is_space (last s)" by (auto simp: is_space_def)
qed (use assms in \<open>auto simp: hex_text_def\<close>)

lemma parse_issued:
  assumes "hex_text cid" "hex_text secret"
  shows "ParseToken (TokenPrefix @ cid @ ''_'' @ secret) = Some (cid, secret)"
proof -
  have "split_on CHR ''_'' (''orb'' @ CHR ''_'' # cid @ CHR ''_'' # secret) = [''orb'', cid, secret]"
    using split_on_prefix [of "CHR ''_''" "''orb''" "cid @ CHR ''_'' # secret"] split_on_prefix [OF hex_texts(1) [OF assms(1)]]
      split_on_plain [OF hex_texts(1) [OF assms(2)]] by simp
  then show ?thesis using hex_texts(2) assms by (simp add: ParseToken_def TokenPrefix_def has_prefix_def)
qed

lemma bearer_issued:
  assumes "hex_text secret"
  shows "bearerToken (''Bearer '' @ TokenPrefix @ cid @ ''_'' @ secret) = Some (TokenPrefix @ cid @ ''_'' @ secret)"
proof -
  obtain u x where s: "secret = u @ [x]" using hex_texts(2) [OF assms] by (metis rev_exhaust)
  have "\<not> is_space x" using hex_texts(3) [OF assms] s by simp
  then show ?thesis using trim_space_framed [of "CHR ''B''" x "''earer '' @ TokenPrefix @ cid @ ''_'' @ u"]
    by (simp add: s bearerToken_def has_prefix_def is_space_def)
qed

lemma issue_cases:
  assumes "Issue H req by t cid secret = Inr (cred, tok)"
  shows "ca_ID cred = cid \<and> ca_Hash cred = H (tk_Value tok) \<and> tk_Value tok = TokenPrefix @ cid @ ''_'' @ secret \<and> set (ca_Scopes cred) = set (map trim_space (ir_Scopes req))
    \<and> set (ca_Scopes cred) \<subseteq> set AllScopes \<and> distinct (ca_Scopes cred) \<and> ca_Expires cred = (if ir_TTL req \<noteq> 0 then Some (t + ir_TTL req) else None)
    \<and> (ir_TTL req = 0 \<or> (MinTTL \<le> ir_TTL req \<and> ir_TTL req \<le> MaxTTL))"
  using assms by (auto simp: Issue_def GenerateToken_def ParseScopes_def validScope_def list_ex_iff list_all_iff Let_def split: if_splits)

section \<open>Properties\<close>

text \<open>
  C27. Every request that reaches a handler is made by a principal with the scope that the policy of the route names for it. Remote operations (servers,
  deployments, executions) are reached only while they are enabled, and only with the shared token of remote operations or with an unrevoked, unexpired
  stored credential that carries their scope: neither the shared token of the data API nor an anonymous caller reaches them on any path.
\<close>

theorem remote_operations_need_their_scope:
  assumes h: "withAuthentication A s r now creds = Handled target p"
  shows "(\<exists>pattern policy. (pattern, target, policy) \<in> set server_patterns \<and> Has p (policy (rq_Method r) (policyPath (rq_Path r))))
    \<and> (target \<in> set remote_paths \<longrightarrow> remoteOpsEnabled s
        \<and> (presents_token A r (sc_remoteOpsToken s) \<or> (\<exists>c \<in> set creds. presents A r now c \<and> ScopeRemoteOps \<in> set (ca_Scopes c))))"
proof -
  from handled_cases [OF h] obtain pattern policy where r: "resolvePrincipal A s r (isRemoteOpsPath (rq_Path r)) now creds = Some p"
    "isRemoteOpsPath (rq_Path r) \<longrightarrow> remoteOpsEnabled s" "(pattern, target, policy) \<in> set server_patterns" "pattern_matches pattern (rq_Path r)"
    "Has p (policy (rq_Method r) (policyPath (rq_Path r)))" by blast
  have "remoteOpsEnabled s \<and> (presents_token A r (sc_remoteOpsToken s) \<or> (\<exists>c \<in> set creds. presents A r now c \<and> ScopeRemoteOps \<in> set (ca_Scopes c)))"
    if "target \<in> set remote_paths"
  proof -
    note t = remote_patterns [OF r(3) disjI2 [OF that]]
    have "isRemoteOpsPath (rq_Path r)" using remote_pattern_guarded [OF _ r(4)] t by blast
    moreover have "ScopeRemoteOps \<in> set (pr_Scopes p)" using r(5) t by (simp add: always_def)
    ultimately show ?thesis using r(1,2) by (cases rule: resolve_cases [OF r(1)]) auto
  qed
  then show ?thesis using r by blast
qed

text \<open>
  C28. No request escalates privileges: if no stored credential carries the scope of remote operations, then none ever does through the API, whoever
  calls it; and in a deployment that has credentials and no shared token, the same holds of every scope.
\<close>

theorem credentials_never_gain_a_scope:
  assumes steps: "(api_step A s)\<^sup>*\<^sup>* creds creds'" and none: "\<forall>c \<in> set creds. scope \<notin> set (ca_Scopes c)"
    and "scope = ScopeRemoteOps \<or> (sc_authToken s = '''' \<and> sc_store s \<and> creds \<noteq> [])"
  shows "\<forall>c \<in> set creds'. scope \<notin> set (ca_Scopes c)"
proof -
  let ?I = "\<lambda>x. (\<forall>c \<in> set x. scope \<notin> set (ca_Scopes c)) \<and> (scope = ScopeRemoteOps \<or> (sc_authToken s = '''' \<and> sc_store s \<and> x \<noteq> []))"
  have "?I creds'" using steps
  proof (induction rule: rtranclp_induct)
    case base
    then show ?case using assms(2,3) by simp
  next
    case (step x y)
    from step(2) show ?case
    proof cases
      case (create r now p body t cid secret token)
      from create_cases [OF create(3)] obtain c where c: "y = x @ [c]" "set (ca_Scopes c) \<subseteq> set (pr_Scopes p)" by metis
      from handled_cases [OF create(1)] obtain pattern policy where r: "resolvePrincipal A s r (isRemoteOpsPath (rq_Path r)) now x = Some p"
        "(pattern, ''/credentials'', policy) \<in> set server_patterns" "pattern_matches pattern (rq_Path r)" by blast
      have "\<not> isRemoteOpsPath (rq_Path r)" using credential_patterns [OF r(2)] credential_pattern_local [of "''/credentials''"] r(3) by simp
      then have "scope \<notin> set (pr_Scopes p)" using step(3) by (cases rule: resolve_cases [OF r(1)]) (auto simp: presents_token_def)
      then show ?thesis using c step(3) by auto
    next
      case (revoke r now p t)
      then obtain i where "RevokeAPICredential i t x = Inr y" by (blast dest: credential_by_id_cases)
      then show ?thesis using revoke_cases [of i t x y] step(3) by (auto simp: update_where_def)
    qed
  qed
  then show ?thesis by blast
qed

text \<open>
  C29. A revocation is final: whatever requests follow it, and at whatever instant, a request that presents a token of the revoked credential reaches no
  handler, and a deployment without a shared token does not fall back to anonymous access, not even when its last credential was revoked.
\<close>

theorem revocation_is_final:
  assumes k: "keyed ca_ID creds" and rev: "RevokeAPICredential i t creds = Inr creds1" and steps: "(api_step A s)\<^sup>*\<^sup>* creds1 creds2" and st: "sc_store s"
    and r: "(\<exists>token secret. bearerToken (rq_Authorization r) = Some token \<and> has_prefix token TokenPrefix \<and> ParseToken token = Some (i, secret))
      \<or> (bearerToken (rq_Authorization r) = None \<and> sc_authToken s = '''')"
  shows "withAuthentication A s r now creds2 \<noteq> Handled target p"
proof
  assume h: "withAuthentication A s r now creds2 = Handled target p"
  let ?p = "\<lambda>c. ca_ID c = i \<and> ca_Revoked c = None" and ?f = "\<lambda>c. c\<lparr>ca_Revoked := Some t\<rparr>"
  from revoke_cases [OF rev] obtain c where c: "creds1 = update_where ?p ?f creds" "c \<in> set creds" "ca_ID c = i" by blast
  have "\<exists>c1 \<in> set creds1. ca_ID c1 = i \<and> ca_Revoked c1 \<noteq> None" unfolding c(1) by (rule bexI [OF _ in_update_whereI [OF c(2)]]) (use c(3) in auto)
  moreover have "keyed ca_ID creds1" unfolding c(1) by (rule keyed_update_where [OF k]) simp
  ultimately obtain c2 where c2: "keyed ca_ID creds2" "c2 \<in> set creds2" "ca_ID c2 = i" "ca_Revoked c2 \<noteq> None" using api_steps_keep [OF steps] unfolding succeeds_def by metis
  from handled_cases [OF h] have "resolvePrincipal A s r (isRemoteOpsPath (rq_Path r)) now creds2 = Some p" by blast
  then show False
  proof (cases rule: resolve_cases)
    case (credential d)
    then have "ca_ID d = i" using r by (auto simp: presents_def)
    then have "d = c2" using keyed_unique [OF c2(1) credential(1) c2(2)] c2(3) by simp
    then show False using credential(2) c2(4) by (auto simp: presents_def Active_def)
  next
    case remote_token
    then show False using r by (auto simp: presents_token_def presents_issued_def)
  next
    case http_token
    then show False using r by (auto simp: presents_token_def presents_issued_def)
  next
    case anonymous
    then show False using st c2(2) by auto
  qed
qed

text \<open>
  C30. The token that the API returns for a new credential is accepted by the server, on the data API and on remote operations, as exactly that
  credential with exactly the requested scopes, all of which the caller held, until its expiry and not at or after it; the expiry is between a minute
  and 365 days after the request, or absent.
\<close>

theorem issued_token_authenticates:
  assumes "handleCreateCredential A caller body t cid secret creds = Inr (token, creds')" "hex_text cid" "hex_text secret" "sc_store s"
    and "rq_Authorization r = ''Bearer '' @ token"
  shows "\<exists>c. creds' = creds @ [c] \<and> set (ca_Scopes c) = set (map trim_space (cr_Scopes body)) \<and> set (ca_Scopes c) \<subseteq> set (pr_Scopes caller) \<inter> set AllScopes
    \<and> (\<forall>e. ca_Expires c = Some e \<longrightarrow> t + MinTTL \<le> e \<and> e \<le> t + MaxTTL)
    \<and> resolvePrincipal A s r remote now creds' = (if ca_Expires c = None \<or> now < the (ca_Expires c)
        then Some \<lparr>pr_Name = ca_Principal c, pr_Kind = ca_Kind c, pr_CredentialID = cid, pr_Scopes = ca_Scopes c\<rparr> else None)"
proof -
  let ?req = "\<lparr>ir_Principal = cr_Principal body, ir_Kind = cr_Kind body, ir_Scopes = cr_Scopes body, ir_TTL = wrap64 (cr_TTLSeconds body * second),
      ir_Description = cr_Description body\<rparr>"
  obtain cred tok where i: "Issue (af_HashToken A) ?req (pr_Name caller) t cid secret = Inr (cred, tok)" "list_all (Has caller) (ca_Scopes cred)"
    "CreateAPICredential cred t creds = Inr creds'" "token = tk_Value tok"
    using assms(1) by (auto simp: handleCreateCredential_def split: if_splits prod.splits)
  let ?c = "cred\<lparr>ca_Created := t, ca_Revoked := None\<rparr>"
  note c = issue_cases [OF i(1)]
  have e: "creds' = creds @ [?c]" "\<forall>x \<in> set creds. ca_ID x \<noteq> cid" using i(3) c by (auto simp: CreateAPICredential_def credential_conflict_def)
  have "select_one (\<lambda>x. ca_ID x = cid) creds' = Some ?c" using e c find_appended [of creds "\<lambda>x. ca_ID x = cid" ?c] by (simp add: select_one_def)
  then have g: "GetAPICredential cid creds' = Inr ?c" by (simp add: GetAPICredential_def)
  have tk: "token = TokenPrefix @ cid @ ''_'' @ secret" "af_HashToken A token = ca_Hash cred" using i(4) c by simp_all
  have "resolvePrincipal A s r remote now creds' = principalFromCredential A s token now creds'"
    using bearer_issued [OF assms(3), of cid] by (simp add: resolvePrincipal_def assms(5) tk(1) has_prefix_def)
  also have "\<dots> = (if ca_Expires cred = None \<or> now < the (ca_Expires cred)
      then Some \<lparr>pr_Name = ca_Principal cred, pr_Kind = ca_Kind cred, pr_CredentialID = cid, pr_Scopes = ca_Scopes cred\<rparr> else None)"
    using parse_issued [OF assms(2,3)] g tk c assms(4) by (auto simp: principalFromCredential_def Active_def split: option.splits)
  finally show ?thesis using e(1) i(2) c by (intro exI [of _ ?c]) (auto simp: list_all_iff split: if_splits)
qed

section \<open>Witnesses\<close>

text \<open>A deployment with an administrator's credential; digests are the texts themselves.\<close>

definition plain_auth :: auth_functions where
  "plain_auth = \<lparr>af_HashToken = (\<lambda>s. s), af_Fingerprint = (\<lambda>s. s), af_digest = (\<lambda>s. s)\<rparr>"

definition demo_server :: server_config where
  "demo_server = \<lparr>sc_authToken = '''', sc_remoteOpsToken = '''', sc_remoteOpsOptIn = True, sc_store = True\<rparr>"

definition admin_credential :: APICredential where
  "admin_credential = \<lparr>ca_ID = ''a1'', ca_Principal = ''admin'', ca_Kind = ''human'', ca_Scopes = [ScopeRead, ScopeCredentialsAdmin], ca_Hash = ''orb_a1_0f'', ca_Created = 0,
     ca_CreatedBy = ''cli'', ca_Expires = None, ca_Revoked = None, ca_Description = ''''\<rparr>"

definition operator_credential :: APICredential where
  "operator_credential = admin_credential\<lparr>ca_ID := ''b2'', ca_Scopes := [ScopeRemoteOps], ca_Hash := ''orb_b2_0f''\<rparr>"

definition demo_request :: "string \<Rightarrow> string \<Rightarrow> string \<Rightarrow> request" where
  "demo_request m path token = \<lparr>rq_Method = m, rq_Path = path, rq_Authorization = ''Bearer '' @ token\<rparr>"

definition principal_of :: "APICredential \<Rightarrow> Principal" where
  "principal_of c = \<lparr>pr_Name = ca_Principal c, pr_Kind = ca_Kind c, pr_CredentialID = ca_ID c, pr_Scopes = ca_Scopes c\<rparr>"

definition demo_body :: createCredentialRequest where
  "demo_body = \<lparr>cr_Principal = ''ci'', cr_Kind = ''automation'', cr_Scopes = [''read''], cr_TTLSeconds = 3600, cr_Description = ''''\<rparr>"

lemma demo_operator: "withAuthentication plain_auth demo_server (demo_request ''POST'' ''/api/v1/servers/7'' ''orb_b2_0f'') 5 [operator_credential]
    = Handled ''/servers/'' (principal_of operator_credential)"
  by code_simp

lemma demo_admin: "withAuthentication plain_auth demo_server (demo_request ''POST'' ''/api/v1/credentials'' ''orb_a1_0f'') 5 [admin_credential]
    = Handled ''/credentials'' (principal_of admin_credential)"
  by code_simp

definition demo_issued :: APICredential where
  "demo_issued = \<lparr>ca_ID = ''c3'', ca_Principal = ''ci'', ca_Kind = ''automation'', ca_Scopes = [''read''], ca_Hash = ''orb_c3_0f'', ca_Created = 9, ca_CreatedBy = ''admin'',
     ca_Expires = Some (9 + 3600 * second), ca_Revoked = None, ca_Description = ''''\<rparr>"

lemma demo_create: "handleCreateCredential plain_auth (principal_of admin_credential) demo_body 9 ''c3'' ''0f'' [admin_credential]
    = Inr (''orb_c3_0f'', [admin_credential, demo_issued])"
  by code_simp

lemma demo_step: "(api_step plain_auth demo_server)\<^sup>*\<^sup>* [admin_credential] [admin_credential, demo_issued]"
proof -
  have "rq_Method (demo_request ''POST'' ''/api/v1/credentials'' ''orb_a1_0f'') = ''POST''" by (simp add: demo_request_def)
  from api_step.create [OF demo_admin this demo_create] show ?thesis by blast
qed

theorem remote_operations_need_their_scope_witness:
  "remoteOpsEnabled demo_server \<and> (\<exists>c \<in> set [operator_credential]. ScopeRemoteOps \<in> set (ca_Scopes c)
     \<and> presents plain_auth (demo_request ''POST'' ''/api/v1/servers/7'' ''orb_b2_0f'') 5 c)"
proof -
  have "''/servers/'' \<in> set remote_paths" by (simp add: remote_paths_def)
  with remote_operations_need_their_scope [OF demo_operator] show ?thesis by (auto simp: presents_token_def demo_server_def)
qed

theorem credentials_never_gain_a_scope_witness:
  "ScopeJobsWrite \<notin> set (ca_Scopes admin_credential) \<and> ScopeJobsWrite \<notin> set (ca_Scopes demo_issued)"
proof -
  have "\<forall>c \<in> set [admin_credential, demo_issued]. ScopeJobsWrite \<notin> set (ca_Scopes c)"
    by (rule credentials_never_gain_a_scope [OF demo_step]) (simp_all add: admin_credential_def demo_server_def)
  then show ?thesis by simp
qed

theorem revocation_is_final_witness:
  "\<nexists>target p. withAuthentication plain_auth demo_server (demo_request ''GET'' ''/runs'' ''orb_a1_0f'') 20 [admin_credential\<lparr>ca_Revoked := Some 7\<rparr>] = Handled target p"
proof -
  have k: "keyed ca_ID [admin_credential]" "sc_store demo_server" by (simp_all add: keyed_def demo_server_def)
  have rev: "RevokeAPICredential ''a1'' 7 [admin_credential] = Inr [admin_credential\<lparr>ca_Revoked := Some 7\<rparr>]" by code_simp
  have "bearerToken (rq_Authorization (demo_request ''GET'' ''/runs'' ''orb_a1_0f'')) = Some ''orb_a1_0f'' \<and> has_prefix ''orb_a1_0f'' TokenPrefix
      \<and> ParseToken ''orb_a1_0f'' = Some (''a1'', ''0f'')" by code_simp
  then have r: "\<exists>token secret. bearerToken (rq_Authorization (demo_request ''GET'' ''/runs'' ''orb_a1_0f'')) = Some token \<and> has_prefix token TokenPrefix
      \<and> ParseToken token = Some (''a1'', secret)" by blast
  show ?thesis using revocation_is_final [OF k(1) rev rtranclp.rtrancl_refl k(2) disjI1 [OF r]] by blast
qed

theorem issued_token_authenticates_witness:
  "resolvePrincipal plain_auth demo_server (demo_request ''GET'' ''/runs'' ''orb_c3_0f'') False 10 [admin_credential, demo_issued] = Some (principal_of demo_issued)"
proof -
  have h: "hex_text ''c3''" "hex_text ''0f''" "sc_store demo_server" by (auto simp: hex_text_def demo_server_def)
  have r: "rq_Authorization (demo_request ''GET'' ''/runs'' ''orb_c3_0f'') = ''Bearer '' @ ''orb_c3_0f''" by (simp add: demo_request_def)
  show ?thesis using issued_token_authenticates [OF demo_create h r, of False 10] by (auto simp: demo_issued_def principal_of_def)
qed

text \<open>The lifetime is multiplied in 64 bits: \<open>2^55\<close> seconds wrap to none at all, and the credential never expires.\<close>

lemma lifetime_wraps_to_none:
  "map_sum id (map ca_Expires \<circ> snd) (handleCreateCredential plain_auth (principal_of admin_credential) (demo_body\<lparr>cr_TTLSeconds := 2 ^ 55\<rparr>) 9 ''c3'' ''0f'' [])
    = Inr [None]"
  by code_simp

end
