(* ===== verification/Spec2Isabelle.thy ===== *)
theory Spec2Isabelle
  imports ControlPlane RegistrationSafety UploadCapacity Redaction HwmExport TypeRoundTrip Decimals EngineSafety OrphanCleanup ApiAccess
begin

text \<open>
  \<^bold>\<open>The control plane of O_Rabbit\<close>, a service that extracts tables and queries from databases into Parquet files on
  object storage and registers them in a catalog.

  \<^bold>\<open>The program and its parts.\<close> A master keeps all of its state in one SQLite database (\<open>internal/db\<close>). The planner
  (\<open>internal/planner\<close>) turns a job into a run with tasks; the admission loop lets queued runs start under a global cap;
  workers (\<open>cmd/worker\<close>) ask for tasks over gRPC (\<open>internal/grpc\<close>), hold each under a lease, upload objects under
  a global number of upload slots and report results; sweepers expire leases; when all tasks of a run succeeded a
  committer publishes the run under its own claim; the registration of the published data in an external catalog is a
  second, retried state machine with a reconciliation of ambiguous commits; objects of failed and cancelled runs are
  cleaned up under deletion leases; published tables are maintained (orphaned files deleted, small files compacted) by leased
  operations; several masters may run, and only the holder of the leadership lease may write. Operators and automation call an HTTP API
  (\<open>internal/http\<close>) under scoped credentials (\<open>internal/auth\<close>).
  Besides the store, the service decides what a run reads: cursor values and their ranges, the high-water mark with
  the rows already exported at it, the target types of columns, exact decimals, the checks on user SQL, and the
  statements that read and count a range.

  \<^bold>\<open>The model.\<close> Every table is a list of records in row order (\<open>Schema\<close>), the database is the record \<open>db\<close>, and an operation
  of the store is a function from its arguments, the clock readings and random identifiers it draws, and a \<open>db\<close>, to an error or
  a result and the new \<open>db\<close>: one transaction. SQL statements are \<open>select_one\<close>, \<open>select_first_by\<close>,
  \<open>update_where\<close>, \<open>rows_affected\<close>, \<open>insert_row\<close> and \<open>insert_or_ignore\<close> with the unique indexes of
  \<open>internal/db/migrate.go\<close> as conflict predicates (\<open>Prelude\<close>, \<open>Schema\<close>). Instants and durations are
  integers (nanoseconds). What the code relies on and does not implement (SHA-256, JSON and base64 codecs, authenticated encryption,
  the parser of rationals) is a field of the record \<open>env\<close> or an argument; no law of it is assumed unless a theorem names it.

  \<^bold>\<open>Theories.\<close>
  \<^item> \<open>Prelude\<close>: errors, tables, text functions of Go, and the locale \<open>transition_system\<close> (an invariant of the initial
    states and steps holds of every reachable state), which every reachability result below interprets.
  \<^item> \<open>Schema\<close>, \<open>Samples\<close>: the tables, and a small concrete database for witnesses.
  \<^item> \<open>Attempts\<close> (\<open>internal/db/attempts.go\<close>, \<open>internal/artifact\<close>): assignment, renewal, progress, results with and
    without artifacts, abandonment, expiry. The lease invariant \<open>lease_inv\<close> and that every operation keeps it.
    \<open>TaskLeases\<close>: what an accepted result proves, replay, exact expiry, fencing, fairness, caps, work conservation.
  \<^item> \<open>Objects\<close>, \<open>ObjectSafety\<close> (\<open>multipart.go\<close>, \<open>canceled_objects.go\<close>): uploads, deletion candidates and
    cleanup attempts; when a deletion is authorized; one live cleanup per object, through the locale of \<open>Bindings\<close>.
  \<^item> \<open>Runs\<close>, \<open>RunLife\<close>, \<open>Redaction\<close> (\<open>store_runs.go\<close>, \<open>run_admission.go\<close>, \<open>run_failure.go\<close>, \<open>store_tasks.go\<close>): creation,
    admission, cancellation, finalization, failure summaries without credentials.
  \<^item> \<open>Commit\<close> (\<open>store_runs.go\<close>, \<open>commit_reconciliation.go\<close>): intent, phase, completion, failures with backoff, and
    the committer's claim, an interpretation of the locale \<open>exclusive_lease\<close> of \<open>Leases\<close>.
  \<^item> \<open>Registrations\<close>, \<open>RegistrationOrder\<close>, \<open>RegistrationSafety\<close> (\<open>registrations.go\<close>, \<open>reconciliation.go\<close>): the queue per dataset and
    target, its order, one live attempt, ambiguous commits and how they are resolved.
  \<^item> \<open>Leadership\<close> (\<open>leadership.go\<close>): the lease between masters, epochs, the fence on the tables, the
    controller; a second interpretation of \<open>exclusive_lease\<close>. \<open>UploadCapacity\<close> (\<open>upload_capacity.go\<close>): upload slots refine a counting
    semaphore with deadlines.
  \<^item> \<open>Maintenance\<close> (\<open>maintenance.go\<close>): the operations that maintain published tables and their candidates; one active operation per job,
    and the lease of an operation, a third interpretation of \<open>exclusive_lease\<close>. \<open>IcebergTable\<close>, \<open>Compaction\<close>, \<open>Orphans\<close>, \<open>OrphanCleanup\<close>
    (\<open>internal/icebergreg/maintenance.go\<close>, \<open>internal/grpc/maintenance.go\<close>): the files a table references, the plan and the commit of a compaction, the verdict on
    an object, and the orphan cleanup as a program that other actors interrupt at every step. A table is what the catalog library
    answers about it, and the object store is what it answers at each step.
  \<^item> \<open>ApiAccess\<close> (\<open>internal/auth\<close>, \<open>internal/http/authn.go\<close>, \<open>authz.go\<close>, \<open>routes.go\<close>, \<open>credentials_api.go\<close>, \<open>api_credentials.go\<close>): credentials and their tokens,
    the resolution of a caller, the scope of every route and the administration of credentials; what it takes to reach a handler, that no
    request gains a scope, that revocation is final, and that an issued token is accepted as what it was issued for.
  \<^item> \<open>ControlPlane\<close> and this theory: the operations of the scheduler, the runs and the committers as one step relation.
  \<^item> \<open>Timestamps\<close>, \<open>Cursors\<close>, \<open>CursorTexts\<close>, \<open>RangeTasks\<close> (\<open>internal/db/store.go\<close>, \<open>internal/connectors/source.go\<close>,
    \<open>internal/planner/autotune.go\<close>): texts of instants, cursor domains, comparison, successors, the split of a window and that
    the range tasks partition it.
  \<^item> \<open>HwmBoundary\<close>, \<open>HwmExport\<close> (\<open>internal/hwmboundary\<close>, \<open>internal/planner/hwm_boundary.go\<close>, \<open>internal/grpc/hwm_boundary.go\<close>): the tracker of rows at
    the high-water mark, its report and its use by the next run; the locale \<open>cursor_order\<close> states what a
    domain's comparison must give and is interpreted for discrete, decimal and textual domains.
  \<^item> \<open>LogicalTypes\<close>, \<open>TypeParser\<close>, \<open>TypeRoundTrip\<close>, \<open>Decimals\<close> (\<open>internal/typesystem\<close>): types, their rendering, the parser of
    target types with its round trip, exact decimals and their conversion.
  \<^item> \<open>SqlLexer\<close>, \<open>SqlGuard\<close>, \<open>SqlSafety\<close>, \<open>FilterSafety\<close> (\<open>internal/connectors/sql_lexer.go\<close>, \<open>query_mode.go\<close>): the lexer of nine dialects, the
    checks on queries and row filters; the cached bracket search equals the plain one; an accepted filter is simulated inside
    any text and cannot leave its parentheses; an accepted query is one statement.
  \<^item> \<open>RangeSql\<close>, \<open>QueryMode\<close>, \<open>StatementSafety\<close>, \<open>EngineSafety\<close> (\<open>range_predicate.go\<close>, \<open>range_dialects.go\<close>, \<open>range_count.go\<close>, \<open>query_mode.go\<close>,
    \<open>snapshot.go\<close> and the files of the engines): quoting of names, predicate and parameters, and the count and row statements of
    seven engines for tables and user queries. The locale \<open>sql_engine\<close> states what an engine's quoting, placeholders and dialect must give and is
    interpreted for each: its statements are one read-only \<open>SELECT\<close>, and the count selects what is read.

  \<^bold>\<open>Bounds and fuel.\<close> \<open>lex_loop\<close> takes the length of the text as fuel, which is enough because every step reads a character
  (\<open>step_reads\<close>, \<open>loop_ends\<close>). The type parser takes one more than the length; \<open>parser_never_runs_out_of_fuel\<close>
  shows that the fuel error is never its answer. \<open>doubling\<close>, the backoff, recurses on the attempt number. Integers that the code
  keeps in 64 or 32 bits and that can reach the limit (cursors, sizes of splits, precisions) have their bounds or
  wrap-around written out; counters of rows and attempts are unbounded. Strings are lists of bytes; texts of the type parser and
  the case folding of the SQL checks are modelled for ASCII.

  \<^bold>\<open>Not modelled.\<close> The drivers of the sources and the conversion of their values to Arrow (\<open>internal/connectors\<close> beyond the parts
  above, \<open>internal/arrowio\<close>), Parquet and object storage (\<open>internal/parquetio\<close>, \<open>internal/s3io\<close>), the catalog clients
  (\<open>internal/icebergreg\<close> beyond maintenance), the transport layers (\<open>internal/grpc\<close>, \<open>internal/http\<close>) beyond the decisions named above, the worker
  process, the command line, deployment and telemetry: mostly calls of third-party libraries and input and output. Listings
  and projections that only read the store are left out. A transaction is atomic; the retry of a busy transaction
  (\<open>withBusyRetry\<close>) is not modelled.
\<close>

section \<open>The control plane as one system\<close>

text \<open>
  One step is one transaction: of the planner, the admission loop, the scheduler, a worker, the sweeper, an operator or
  a committer, with any arguments and clock readings, or a transaction of another component, which touches neither
  tasks nor attempts and starts no run.
\<close>

inductive control_step :: "db \<Rightarrow> db \<Rightarrow> bool" where
  create: "CreateRun enc r d = Inr ((), d') \<Longrightarrow> control_step d d'"
| start: "StartRunWithTasks cap snap rid ts d = Inr (b, d') \<Longrightarrow> list_all (\<lambda>t. ti_status t = PENDING) ts \<Longrightarrow> control_step d d'"
| admit: "AdmitPendingRuns cap now d = Inr (n, d') \<Longrightarrow> control_step d d'"
| abandoned: "FailAbandonedPlanningRuns now d = Inr (ids, d') \<Longrightarrow> control_step d d'"
| status: "UpdateRunStatus rid st fin err now d = Inr ((), d') \<Longrightarrow> control_step d d'"
| assign: "AssignNextPendingTaskInPool E boot worker pool now pol idFn tokenFn d = Inr (asg, d') \<Longrightarrow> control_step d d'"
| renew: "RenewTaskLease boot tid aid token worker now dur d = Inr (dl, d') \<Longrightarrow> control_step d d'"
| progress: "UpdateTaskProgressFencedAt boot tid aid token worker rws br bw now d = Inr (u, d') \<Longrightarrow> control_step d d'"
| result: "CompleteTaskAttemptWithFailureClassAt E boot tid aid token worker res fc now mnow d = Inr (out, d') \<Longrightarrow> control_step d d'"
| artifacts: "CompleteTaskAttemptWithArtifactsAndFailureClassAt E boot tid aid token worker res fc recs now mnow d = Inr (out, d') \<Longrightarrow> control_step d d'"
| abandon: "AbandonTaskAttemptWithPolicy E tid aid worker reason now pol d = Inr (u, d') \<Longrightarrow> control_step d d'"
| expire: "ExpireTaskAttempts E now pol d = Inr (n, d') \<Longrightarrow> control_step d d'"
| cancel: "CancelRun E ret rid reason now d = Inr (outcome, d') \<Longrightarrow> control_step d d'"
| finalize: "TryFinalizeRun rid now d = Inr (decided, d') \<Longrightarrow> control_step d d'"
| failure_class: "RecordRunFailure rid cls phase d = Inr ((), d') \<Longrightarrow> control_step d d'"
| intent: "SaveCommitIntent rid cid intent d = Inr ((), d') \<Longrightarrow> control_step d d'"
| phase: "SetCommitPhase rid ph d = Inr ((), d') \<Longrightarrow> control_step d d'"
| commit: "CompleteRunCommit E rid now d = Inr ((), d') \<Longrightarrow> control_step d d'"
| commit_failure: "RecordCommitReconciliationFailure rid cls msg retryable operator now cpol d = Inr ((), d') \<Longrightarrow> control_step d d'"
| claim: "ClaimCommittingRun rid token now lease d = Inr (got, d') \<Longrightarrow> control_step d d'"
| claim_renewal: "RenewCommitClaim rid token now lease d = Inr ((), d') \<Longrightarrow> control_step d d'"
| claim_release: "ReleaseCommitClaim rid token d = Inr ((), d') \<Longrightarrow> control_step d d'"
| elsewhere: "quiet d d' \<Longrightarrow> control_step d d'"

inductive_cases control_stepE: "control_step d d'"

definition empty_store :: "db \<Rightarrow> bool" where
  "empty_store d \<longleftrightarrow> runs d = [] \<and> tasks d = [] \<and> attempts d = []"

lemma control_step_inv:
  assumes inv: "plane_inv d" and st: "control_step d d'"
  shows "plane_inv d'"
proof -
  have l: "lease_inv d" using inv by (simp add: plane_inv_def)
  note q = quiet_inv [OF inv] and c = calmer_inv [OF inv]
  from st show ?thesis
  proof cases
    case (create enc r)
    then show ?thesis by (rule create_run_inv [OF inv])
  next
    case (start cap snap rid ts b)
    then show ?thesis using start_run_inv [OF inv start(1)] by (simp add: list_all_iff)
  next
    case (status rid st fin err now)
    then show ?thesis by (rule status_inv [OF inv])
  next
    case (result E boot tid aid token worker res fc now mnow out)
    note r = result [unfolded CompleteTaskAttemptWithFailureClassAt_def]
    show ?thesis by (rule c [OF complete_preserves [OF l r]]) (simp add: complete_frame(1) [OF r])
  next
    case (artifacts E boot tid aid token worker res fc recs now mnow out)
    obtain res' rs where r: "completeTaskAttemptAt E boot tid aid token worker res' now mnow rs True fc d = Inr (out, d')"
      using artifacts by (auto simp: CompleteTaskAttemptWithArtifactsAndFailureClassAt_def Let_def)
    show ?thesis by (rule c [OF complete_preserves [OF l r]]) (simp add: complete_frame(1) [OF r])
  qed (blast intro: q c l admit_quiet abandoned_quiet commit_ops_quiet complete_commit_quiet commit_failure_quiet assign_preserves assign_calmer
      renew_preserves progress_preserves lease_ops_calmer abandon_preserves abandon_calmer expire_preserves expire_calmer
      cancel_lease_inv cancel_calmer finalize_lease_inv finalize_calmer)+
qed

interpretation plane: transition_system empty_store control_step plane_inv
proof
  show "plane_inv d" if "empty_store d" for d
    using that by (simp add: empty_store_def plane_inv_def lease_inv_def keyed_def runs_unique_def)
qed (rule control_step_inv)

text \<open>
  C2. Whatever the planner, the admission loop, the scheduler, the workers, the sweepers, the operators and the committers
  do, in any order and on any clocks: in every state the store can reach, a task is RUNNING exactly when one
  attempt on it is live, no task has two live attempts, and no dataset has two active runs.
\<close>

theorem one_worker_per_task_one_run_per_dataset:
  assumes "empty_store d0" "control_step\<^sup>*\<^sup>* d0 d"
  shows "(\<forall>t \<in> set (tasks d). task_status t = RUNNING \<longleftrightarrow> (\<exists>a \<in> set (attempts d). att_task a = task_id t \<and> att_status a = ACTIVE))
    \<and> (\<forall>a \<in> set (attempts d). \<forall>b \<in> set (attempts d). att_task a = att_task b \<and> att_status a = ACTIVE \<and> att_status b = ACTIVE \<longrightarrow> a = b)
    \<and> (\<forall>r \<in> set (runs d). \<forall>s \<in> set (runs d). run_active r \<and> run_active s \<and> run_dataset r = run_dataset s \<longrightarrow> r = s)"
proof -
  have inv: "plane_inv d" by (rule plane.inv_reachable [OF assms])
  then have l: "lease_inv d" and u: "runs_unique (runs d)" by (simp_all add: plane_inv_def)
  have "task_status t = RUNNING \<longleftrightarrow> (\<exists>a \<in> set (attempts d). att_task a = task_id t \<and> att_status a = ACTIVE)" if t: "t \<in> set (tasks d)" for t
  proof
    assume "task_status t = RUNNING"
    then show "\<exists>a \<in> set (attempts d). att_task a = task_id t \<and> att_status a = ACTIVE"
      using lease_invD(7) [OF l t] by (auto simp: task_ok_def)
  next
    assume "\<exists>a \<in> set (attempts d). att_task a = task_id t \<and> att_status a = ACTIVE"
    then show "task_status t = RUNNING" using active_attempt_task(1) [OF l _ _ t] by metis
  qed
  then show ?thesis using active_unique [OF l] runs_unique_dataset [OF u] by blast
qed

definition empty_sample :: db where
  "empty_sample = sample_db\<lparr>runs := [], tasks := []\<rparr>"

definition planned_sample :: db where
  "planned_sample = state_after (CreateRun (Inr '''') (sample_run\<lparr>run_status := PLANNING\<rparr>) empty_sample) empty_sample"

definition started_sample :: db where
  "started_sample = state_after (StartRunWithTasks 1 (Inr ()) ''r1'' [\<lparr>ti_id = ''t1'', ti_run = ''r1'', ti_index = 0, ti_spec = '''', ti_objects = '''', ti_status = PENDING\<rparr>] planned_sample) planned_sample"

definition assigned_sample :: db where
  "assigned_sample = state_after (AssignNextPendingTaskInPool sample_env ''boot'' ''w1'' ''default'' 5 sample_policy (Inr ''a1'') (Inr ''tok'') started_sample) started_sample"

lemma operation_step: "\<not> isl m \<Longrightarrow> \<exists>x. m = Inr (x, state_after m d)"
  by (cases m) (auto simp: state_after_def)

lemma assigned_reachable: "control_step\<^sup>*\<^sup>* empty_sample assigned_sample"
proof -
  have "\<not> isl (CreateRun (Inr '''') (sample_run\<lparr>run_status := PLANNING\<rparr>) empty_sample)" by code_simp
  then have 1: "control_step empty_sample planned_sample"
    unfolding planned_sample_def using operation_step control_step.create by (metis unit.exhaust)
  let ?s = "StartRunWithTasks 1 (Inr ()) ''r1'' [\<lparr>ti_id = ''t1'', ti_run = ''r1'', ti_index = 0, ti_spec = '''', ti_objects = '''', ti_status = PENDING\<rparr>] planned_sample"
  have "\<not> isl ?s" by code_simp
  then obtain b where "?s = Inr (b, started_sample)" unfolding started_sample_def using operation_step by blast
  then have 2: "control_step planned_sample started_sample" by (rule control_step.start) simp
  let ?a = "AssignNextPendingTaskInPool sample_env ''boot'' ''w1'' ''default'' 5 sample_policy (Inr ''a1'') (Inr ''tok'') started_sample"
  have "\<not> isl ?a" by code_simp
  then obtain r where "?a = Inr (r, assigned_sample)" unfolding assigned_sample_def using operation_step by blast
  then have "control_step started_sample assigned_sample" by (rule control_step.assign)
  with 1 2 show ?thesis by (meson rtranclp.rtrancl_into_rtrancl rtranclp.rtrancl_refl)
qed

theorem one_worker_per_task_one_run_per_dataset_witness:
  "map task_status (tasks assigned_sample) = [RUNNING] \<and> (\<exists>a \<in> set (attempts assigned_sample). att_task a = ''t1'' \<and> att_status a = ACTIVE)"
proof -
  have t: "map task_status (tasks assigned_sample) = [RUNNING]" "map task_id (tasks assigned_sample) = [''t1'']" by code_simp+
  then obtain u where u: "u \<in> set (tasks assigned_sample)" "task_status u = RUNNING" "task_id u = ''t1''" by auto
  have e: "empty_store empty_sample" by code_simp
  have "\<forall>t \<in> set (tasks assigned_sample). task_status t = RUNNING \<longleftrightarrow> (\<exists>a \<in> set (attempts assigned_sample). att_task a = task_id t \<and> att_status a = ACTIVE)"
    using one_worker_per_task_one_run_per_dataset [OF e assigned_reachable] by (rule conjunct1)
  then show ?thesis using u t(1) by metis
qed

end
